(* ===== verification/Csms_Prelude.thy ===== *)
theory Csms_Prelude
  imports Complex_Main "HOL-Library.Word"
begin

text \<open>
  Shared vocabulary of the development: the exceptions the Python code raises, the types that
  stand for its identifiers, instants and amounts, the string functions of the standard library
  that the code relies on (\<open>str\<close> of an integer and of a UUID, \<open>strip\<close>), rounding, and the
  generic lemmas on result values and on tables (lists of rows) used by every component.

  Conventions.  A UUID is a 128-bit word.  An aware \<open>datetime\<close> is the integer number of
  microseconds since the Unix epoch (UTC); a calendar date is the integer number of days since
  the same epoch.  A finite \<open>Decimal\<close> is a rational number.  A function that may raise
  returns \<open>exn + 'a\<close>; a service that changes the database returns \<open>exn + 'a \<times> db\<close>,
  and raising discards its changes, as the caller's transaction does.
\<close>

section \<open>Collections of rules\<close>

named_theorems res_simps \<open>unfolding of sequenced results\<close>
named_theorems table_simps \<open>look-up and update of table rows\<close>

section \<open>Types\<close>

type_synonym uuid = "128 word"
type_synonym instant = int
type_synonym day = int
type_synonym vnd = int
type_synonym decimal = rat

abbreviation MINUTE_US :: int where "MINUTE_US \<equiv> 60000000"
abbreviation DAY_US :: int where "DAY_US \<equiv> 86400000000"

text \<open>One finding of a daily-band validator: \<open>BandIssue\<close> and \<open>PowerBandIssue\<close>.\<close>

record band_issue =
  issue_code :: string
  input_indices :: "nat list"
  issue_start_min :: "int option"
  issue_end_min :: "int option"

text \<open>JSON values: audit data, event details and the details of HTTP errors.\<close>

datatype json =
    JNull
  | JBool bool
  | JInt int
  | JFloat "rat option"
  | JStr string
  | JList "json list"
  | JObj "(string \<times> json) list"

text \<open>Every exception class that a modelled function raises.\<close>

datatype exn =
    TypeError
  | ValueError
  | LookupError
  | KeyError
  | IndexError
  | AssertionError
  | IntegrityError
  | DatabaseError
  | DecimalOverflow
  | RuntimeError
  | WalletNotFoundError
  | WalletLockedError
  | WalletOwnershipError
  | WalletLedgerConflictError
  | WalletAmountError
  | WalletAdjustmentAuditError
  | WalletAdminRequiredError
  | WalletReconciliationError "string list"
  | WalletDriverRequiredError
  | ManualTopupRequestConflictError
  | ManualTopupReasonError
  | TariffNotFoundError
  | TariffEffectiveDateError
  | TariffDuplicateDateError
  | TariffImmutableError
  | TariffBandsError "band_issue list"
  | StationOwnershipDeniedError
  | InvoiceSessionNotFoundError
  | InvalidInvoice string
  | PowerBandsError "band_issue list"
  | HTTPException int json
  | InvalidWebhookSignature
  | InvalidWebhookPayload
  | Diverges

text \<open>
  \<open>Diverges\<close> is not an exception: it is the value of a loop that the code would not leave.
\<close>

text \<open>Values whose dynamic type the code inspects, and datetimes with or without a zone.\<close>

datatype pynum =
    PyInt int
  | PyDecimal decimal
  | PyDecimalSpecial
  | PyBool bool
  | PyFloat
  | PyOther

datatype datetime = Aware instant | Naive int

section \<open>Results\<close>

definition res_bind :: "'e + 'a \<Rightarrow> ('a \<Rightarrow> 'e + 'b) \<Rightarrow> 'e + 'b" where
  "res_bind m f = (case m of Inl e \<Rightarrow> Inl e | Inr x \<Rightarrow> f x)"

declare res_bind_def [code_unfold]

lemma res_bind_Inl [simp, res_simps]: "res_bind (Inl e) f = Inl e"
  by (simp add: res_bind_def)

lemma res_bind_Inr [simp, res_simps]: "res_bind (Inr x) f = f x"
  by (simp add: res_bind_def)

lemma res_bind_eq_Inr [simp]:
  "res_bind m f = Inr y \<longleftrightarrow> (\<exists>x. m = Inr x \<and> f x = Inr y)"
  by (cases m) auto

lemma res_bind_eq_Inl:
  "res_bind m f = Inl e \<longleftrightarrow> m = Inl e \<or> (\<exists>x. m = Inr x \<and> f x = Inl e)"
  by (cases m) auto

definition guard :: "bool \<Rightarrow> 'e \<Rightarrow> 'e + unit" where
  "guard b e = (if b then Inr () else Inl e)"

lemma guard_eq_Inr [simp]: "guard b e = Inr u \<longleftrightarrow> b"
  by (simp add: guard_def)

lemma guard_True [simp, res_simps]: "guard True e = Inr ()"
  by (simp add: guard_def)

lemma guard_False [simp, res_simps]: "guard False e = Inl e"
  by (simp add: guard_def)

text \<open>A comprehension or loop whose body may raise: the first exception wins.\<close>

fun res_map :: "('a \<Rightarrow> 'e + 'b) \<Rightarrow> 'a list \<Rightarrow> 'e + 'b list" where
  "res_map f [] = Inr []"
| "res_map f (x # xs) = res_bind (f x) (\<lambda>y. res_bind (res_map f xs) (\<lambda>ys. Inr (y # ys)))"

lemma res_map_Inr: "(\<And>x. x \<in> set xs \<Longrightarrow> f x = Inr (g x)) \<Longrightarrow> res_map f xs = Inr (map g xs)"
  by (induction xs) auto

lemma res_map_InrD:
  "res_map f xs = Inr ys \<Longrightarrow> list_all2 (\<lambda>x y. f x = Inr y) xs ys"
  by (induction xs arbitrary: ys) auto

lemma res_map_member:
  "res_map f xs = Inr ys \<Longrightarrow> y \<in> set ys \<Longrightarrow> \<exists>x\<in>set xs. f x = Inr y"
  by (induction xs arbitrary: ys) auto

fun res_fold :: "('a \<Rightarrow> 's \<Rightarrow> 'e + 's) \<Rightarrow> 'a list \<Rightarrow> 's \<Rightarrow> 'e + 's" where
  "res_fold f [] s = Inr s"
| "res_fold f (x # xs) s = res_bind (f x s) (res_fold f xs)"

text \<open>A computation that leaves all its loops, whatever it returns or raises.\<close>

definition ends :: "exn + 'a \<Rightarrow> bool" where
  "ends r \<longleftrightarrow> r \<noteq> Inl Diverges"

named_theorems ends_intros \<open>computations that leave their loops\<close>

lemma ends_simps [simp]: "ends (Inr x)" "ends (Inl e) \<longleftrightarrow> e \<noteq> Diverges"
  by (simp_all add: ends_def)

lemma ends_bind [ends_intros]:
  "ends m \<Longrightarrow> (\<And>x. m = Inr x \<Longrightarrow> ends (f x)) \<Longrightarrow> ends (res_bind m f)"
  by (cases m) (auto simp: ends_def)

lemma ends_fold [ends_intros]: "(\<And>x s. x \<in> set xs \<Longrightarrow> ends (f x s)) \<Longrightarrow> ends (res_fold f xs s)"
  by (induction xs arbitrary: s) (auto intro!: ends_bind)

lemma ends_map [ends_intros]: "(\<And>x. x \<in> set xs \<Longrightarrow> ends (f x)) \<Longrightarrow> ends (res_map f xs)"
  by (induction xs) (auto intro!: ends_bind)

lemma ends_guard [ends_intros]: "e \<noteq> Diverges \<Longrightarrow> ends (guard b e)"
  by (simp add: guard_def)

section \<open>Tables\<close>

text \<open>
  A table is a list of rows in insertion order; \<open>row_of\<close> is a select by key,
  \<open>update_row\<close> an update of the rows with that key.
\<close>

definition row_of :: "('r \<Rightarrow> 'k) \<Rightarrow> 'k \<Rightarrow> 'r list \<Rightarrow> 'r option" where
  "row_of key k rows = find (\<lambda>r. key r = k) rows"

definition update_row :: "('r \<Rightarrow> 'k) \<Rightarrow> 'k \<Rightarrow> ('r \<Rightarrow> 'r) \<Rightarrow> 'r list \<Rightarrow> 'r list" where
  "update_row key k f rows = map (\<lambda>r. if key r = k then f r else r) rows"

lemma row_of_Nil [simp]: "row_of key k [] = None"
  by (simp add: row_of_def)

lemma row_of_Cons [simp]:
  "row_of key k (r # rows) = (if key r = k then Some r else row_of key k rows)"
  by (simp add: row_of_def)

lemma row_of_SomeD: "row_of key k rows = Some r \<Longrightarrow> r \<in> set rows \<and> key r = k"
  by (induction rows) (auto split: if_splits)

lemma row_of_None_iff: "row_of key k rows = None \<longleftrightarrow> k \<notin> key ` set rows"
  by (induction rows) (auto split: if_splits)

lemma row_of_append: "row_of key k (xs @ ys) =
    (case row_of key k xs of None \<Rightarrow> row_of key k ys | Some r \<Rightarrow> Some r)"
  by (induction xs) auto

lemma row_of_update_row:
  assumes "\<And>r. key (f r) = key r"
  shows "row_of key k' (update_row key k f rows) =
    (if k' = k then map_option f (row_of key k rows) else row_of key k' rows)"
  using assms by (induction rows) (auto simp: update_row_def)

lemma row_of_unique:
  "distinct (map key rows) \<Longrightarrow> r \<in> set rows \<Longrightarrow> row_of key (key r) rows = Some r"
  by (induction rows) (auto simp: rev_image_eqI)

lemma map_key_update_row [table_simps]:
  assumes "\<And>r. key (f r) = key r"
  shows "map key (update_row key k f rows) = map key rows"
  using assms by (induction rows) (auto simp: update_row_def)

lemma set_update_row:
  "r \<in> set (update_row key k f rows) \<longleftrightarrow>
    (r \<in> set rows \<and> key r \<noteq> k) \<or> (\<exists>r'\<in>set rows. key r' = k \<and> r = f r')"
  by (auto simp: update_row_def)

lemma update_row_key:
  assumes "r \<in> set (update_row key k f rows)" and "\<And>x. key (f x) = key x"
  shows "if key r = k then \<exists>x\<in>set rows. key x = k \<and> r = f x else r \<in> set rows"
  using assms by (auto simp: update_row_def split: if_splits)

lemma find_Some_iff_set:
  "find P xs = Some x \<Longrightarrow> x \<in> set xs \<and> P x"
  by (induction xs) (auto split: if_splits)

lemma find_append:
  "find P (xs @ ys) = (case find P xs of None \<Rightarrow> find P ys | Some x \<Rightarrow> Some x)"
  by (induction xs) auto

section \<open>Strings of the standard library\<close>

text \<open>\<open>str.isspace\<close> on the Latin-1 characters, and \<open>str.strip\<close>.\<close>

definition py_isspace :: "char \<Rightarrow> bool" where
  "py_isspace c = (let n = of_char c :: nat in
     n \<in> {9, 10, 11, 12, 13, 28, 29, 30, 31, 32, 133, 160})"

definition strip :: "string \<Rightarrow> string" where
  "strip s = rev (dropWhile py_isspace (rev (dropWhile py_isspace s)))"

definition btrim :: "string \<Rightarrow> string" where
  "btrim s = rev (dropWhile (\<lambda>c. c = CHR '' '') (rev (dropWhile (\<lambda>c. c = CHR '' '') s)))"

definition digit_char :: "nat \<Rightarrow> char" where
  "digit_char n = (if n < 10 then char_of (48 + n) else char_of (87 + n))"

definition char_digit :: "char \<Rightarrow> nat" where
  "char_digit c = (let n = of_char c in if n < 58 then n - 48 else n - 87)"

fun str_nat :: "nat \<Rightarrow> string" where
  "str_nat n = (if n < 10 then [digit_char n] else str_nat (n div 10) @ [digit_char (n mod 10)])"

declare str_nat.simps [simp del]

definition str_int :: "int \<Rightarrow> string" where
  "str_int n = (if n < 0 then CHR ''-'' # str_nat (nat (- n)) else str_nat (nat n))"

definition nat_of_digits :: "nat \<Rightarrow> string \<Rightarrow> nat" where
  "nat_of_digits b s = foldl (\<lambda>acc c. acc * b + char_digit c) 0 s"

primrec fixed_digits :: "nat \<Rightarrow> nat \<Rightarrow> nat \<Rightarrow> string" where
  "fixed_digits b 0 n = []"
| "fixed_digits b (Suc k) n = fixed_digits b k (n div b) @ [digit_char (n mod b)]"

text \<open>\<open>str(uuid)\<close>: 32 lower-case hexadecimal digits grouped 8-4-4-4-12.\<close>

definition str_uuid :: "uuid \<Rightarrow> string" where
  "str_uuid u = (let h = fixed_digits 16 32 (unat u) in
     take 8 h @ ''-'' @ take 4 (drop 8 h) @ ''-'' @ take 4 (drop 12 h) @ ''-''
       @ take 4 (drop 16 h) @ ''-'' @ drop 20 h)"

lemma char_digit_digit_char: "n < 16 \<Longrightarrow> char_digit (digit_char n) = n"
  by (auto simp: char_digit_def digit_char_def Let_def of_char_of)

lemma digit_char_not_minus: "n < 16 \<Longrightarrow> digit_char n \<noteq> CHR ''-''"
proof
  assume n: "n < 16" and "digit_char n = CHR ''-''"
  then have "of_char (digit_char n) = (of_char (CHR ''-'') :: nat)" by simp
  with n show False by (auto simp: digit_char_def of_char_of split: if_splits)
qed

lemma nat_of_digits_append:
  "nat_of_digits b (s @ [c]) = nat_of_digits b s * b + char_digit c"
  by (simp add: nat_of_digits_def)

lemma nat_of_digits_str_nat: "nat_of_digits 10 (str_nat n) = n"
proof (induction n rule: str_nat.induct)
  case (1 n)
  show ?case
  proof (cases "n < 10")
    case True
    then show ?thesis
      by (simp add: str_nat.simps [of n] nat_of_digits_def char_digit_digit_char)
  next
    case False
    with "1.IH" show ?thesis
      by (simp add: str_nat.simps [of n] nat_of_digits_append char_digit_digit_char)
  qed
qed

lemma str_nat_inject: "str_nat m = str_nat n \<longleftrightarrow> m = n"
  by (metis nat_of_digits_str_nat)

lemma str_nat_digits: "c \<in> set (str_nat n) \<Longrightarrow> \<exists>k<10. c = digit_char k"
proof (induction n rule: str_nat.induct)
  case (1 n)
  then show ?case
    by (cases "n < 10") (auto simp: str_nat.simps [of n] intro: exI [of _ "n mod 10"])
qed

lemma str_nat_no_minus: "CHR ''-'' \<notin> set (str_nat n)"
proof
  assume "CHR ''-'' \<in> set (str_nat n)"
  then obtain k where "k < 10" and "CHR ''-'' = digit_char k"
    using str_nat_digits by blast
  then show False using digit_char_not_minus [of k] by simp
qed

lemma str_nat_nonempty: "str_nat n \<noteq> []"
  by (simp add: str_nat.simps [of n])

lemma str_int_inject: "str_int m = str_int n \<longleftrightarrow> m = n"
proof
  assume eq: "str_int m = str_int n"
  have minus: "CHR ''-'' # s \<noteq> str_nat k" for s k
    using str_nat_no_minus [of k] by (metis list.set_intros(1))
  show "m = n"
    using eq minus minus [symmetric]
    by (auto simp: str_int_def str_nat_inject split: if_splits)
qed simp

lemma length_fixed_digits [simp]: "length (fixed_digits b k n) = k"
  by (induction k arbitrary: n) auto

lemma nat_of_fixed_digits:
  "1 < b \<Longrightarrow> b \<le> 16 \<Longrightarrow> nat_of_digits b (fixed_digits b k n) = n mod b ^ k"
proof (induction k arbitrary: n)
  case 0
  then show ?case by (simp add: nat_of_digits_def)
next
  case (Suc k)
  have "n mod b < 16"
    using Suc.prems by (meson le_trans less_le_trans mod_less_divisor not_less0 not_le less_trans zero_less_one)
  then have "nat_of_digits b (fixed_digits b (Suc k) n) = n div b mod b ^ k * b + n mod b"
    using Suc by (simp add: nat_of_digits_append char_digit_digit_char)
  then show ?case
    by (simp add: mod_mult2_eq mult.commute)
qed

lemma str_uuid_inject: "str_uuid u = str_uuid v \<longleftrightarrow> u = v"
proof
  define h where "h w = fixed_digits 16 32 (unat w)" for w :: uuid
  assume "str_uuid u = str_uuid v"
  then have parts: "take 8 (h u) = take 8 (h v)" "take 4 (drop 8 (h u)) = take 4 (drop 8 (h v))"
      "take 4 (drop 12 (h u)) = take 4 (drop 12 (h v))"
      "take 4 (drop 16 (h u)) = take 4 (drop 16 (h v))" "drop 20 (h u) = drop 20 (h v)"
    by (simp_all add: str_uuid_def h_def Let_def)
  have split: "h w = take 8 (h w) @ take 4 (drop 8 (h w)) @ take 4 (drop 12 (h w))
      @ take 4 (drop 16 (h w)) @ drop 20 (h w)" for w
    using append_take_drop_id [of 8 "h w"] append_take_drop_id [of 4 "drop 8 (h w)"]
      append_take_drop_id [of 4 "drop 12 (h w)"] append_take_drop_id [of 4 "drop 16 (h w)"]
    by simp
  have "h u = h v"
    using split [of u] split [of v] parts by metis
  moreover have "nat_of_digits 16 (h w) = unat w" for w
  proof -
    have "unat w < 16 ^ 32" using unsigned_less [of w] by simp
    then show ?thesis by (simp add: h_def nat_of_fixed_digits del: power_numeral)
  qed
  ultimately show "u = v" by (metis word_unat_eq_iff)
qed simp

section \<open>Sums\<close>

lemma sum_list_update_row:
  fixes g :: "'r \<Rightarrow> int"
  assumes "distinct (map key rows)" and "row_of key k rows = Some r"
  shows "sum_list (map g (update_row key k f rows)) = sum_list (map g rows) - g r + g (f r)"
  using assms
proof (induction rows)
  case (Cons x xs)
  show ?case
  proof (cases "key x = k")
    case True
    with Cons.prems have "k \<notin> key ` set xs" and [simp]: "r = x" by auto
    then have "update_row key k f xs = xs"
      by (auto simp: update_row_def intro!: map_idI)
    with True show ?thesis by (simp add: update_row_def)
  next
    case False
    with Cons show ?thesis by (simp add: update_row_def)
  qed
qed simp

end
