(* ===== verification/Money.thy ===== *)
theory Money
  imports Csms_Prelude
begin

text \<open>
  Money arithmetic of the billing module: \<open>tien_dong\<close> (src/src/modules/billing/money.py), the
  price of an amount of energy in whole dong, and \<open>tinh_phi_chiem_tru\<close>
  (src/src/modules/billing/idle_fee.py), the billable idle minutes and their fee.  Both are
  integer algorithms; the lemmas relate them to rounding on the rationals and to the least
  number of whole minutes that covers the interval.
\<close>

section \<open>Price of energy\<close>

text \<open>\<open>Decimal.as_integer_ratio\<close> is the normalised fraction; an \<open>int\<close> is \<open>(n, 1)\<close>.\<close>

fun integer_ratio :: "pynum \<Rightarrow> exn + int \<times> int" where
  "integer_ratio (PyInt n) = Inr (n, 1)"
| "integer_ratio (PyDecimal d) = Inr (quotient_of d)"
| "integer_ratio PyDecimalSpecial = Inl ValueError"
| "integer_ratio _ = Inl TypeError"

fun is_int_or_decimal :: "pynum \<Rightarrow> bool" where
  "is_int_or_decimal (PyInt _) = True"
| "is_int_or_decimal (PyDecimal _) = True"
| "is_int_or_decimal PyDecimalSpecial = True"
| "is_int_or_decimal _ = False"

definition half_up_ratio :: "int \<Rightarrow> int \<Rightarrow> int" where
  "half_up_ratio numerator denominator =
    (let whole = \<bar>numerator\<bar> div denominator; remainder = \<bar>numerator\<bar> mod denominator;
         amount = whole + (if 2 * remainder \<ge> denominator then 1 else 0)
     in if numerator < 0 then - amount else amount)"

definition tien_dong :: "pynum \<Rightarrow> pynum \<Rightarrow> exn + vnd" where
  "tien_dong energy_wh price_vnd_per_kwh =
    (if \<not> is_int_or_decimal energy_wh then Inl TypeError
     else case price_vnd_per_kwh of
       PyInt price \<Rightarrow>
         res_bind (integer_ratio energy_wh) (\<lambda>(numerator, denominator).
           Inr (half_up_ratio (numerator * price) (denominator * 1000)))
     | _ \<Rightarrow> Inl TypeError)"

text \<open>Reference: nearest integer, halves away from zero.\<close>

definition round_half_up :: "rat \<Rightarrow> int" where
  "round_half_up x = (if x < 0 then - \<lfloor>1 / 2 - x\<rfloor> else \<lfloor>x + 1 / 2\<rfloor>)"

lemma floor_half:
  fixes x :: rat
  assumes "0 \<le> x" and "x < 1"
  shows "\<lfloor>x + 1 / 2\<rfloor> = (if 1 / 2 \<le> x then 1 else 0)"
  using assms by (auto simp: floor_eq_iff)

lemma half_up_nonneg:
  fixes n d :: int
  assumes "0 < d" and "0 \<le> n"
  shows "n div d + (if 2 * (n mod d) \<ge> d then 1 else 0) = \<lfloor>rat_of_int n / rat_of_int d + 1 / 2\<rfloor>"
proof -
  have "rat_of_int n = rat_of_int (n div d) * rat_of_int d + rat_of_int (n mod d)"
    by (metis div_mult_mod_eq of_int_add of_int_mult)
  then have q: "rat_of_int n / rat_of_int d
      = rat_of_int (n div d) + rat_of_int (n mod d) / rat_of_int d"
    using assms(1) by (simp add: add_divide_distrib)
  have r: "0 \<le> n mod d" "n mod d < d"
    using assms by auto
  then have r0: "0 \<le> rat_of_int (n mod d) / rat_of_int d"
    and r1: "rat_of_int (n mod d) / rat_of_int d < 1"
    using assms(1) by (auto simp: divide_less_eq)
  have half: "1 / 2 \<le> rat_of_int (n mod d) / rat_of_int d \<longleftrightarrow> d \<le> 2 * (n mod d)"
  proof -
    have "1 / 2 \<le> rat_of_int (n mod d) / rat_of_int d \<longleftrightarrow>
        rat_of_int d \<le> rat_of_int (2 * (n mod d))"
      using assms(1) by (simp add: field_simps)
    then show ?thesis by (simp only: of_int_le_iff)
  qed
  have "\<lfloor>rat_of_int n / rat_of_int d + 1 / 2\<rfloor>
      = n div d + \<lfloor>rat_of_int (n mod d) / rat_of_int d + 1 / 2\<rfloor>"
    unfolding q add.assoc by (rule int_add_floor [symmetric])
  moreover have "\<lfloor>rat_of_int (n mod d) / rat_of_int d + 1 / 2\<rfloor>
      = (if 2 * (n mod d) \<ge> d then 1 else 0)"
    unfolding half [symmetric] using r0 r1 by (intro floor_half)
  ultimately show ?thesis by simp
qed

lemma half_up_ratio_eq:
  assumes "0 < d"
  shows "half_up_ratio n d = round_half_up (rat_of_int n / rat_of_int d)"
proof (cases "n < 0")
  case True
  then have "rat_of_int n / rat_of_int d < 0"
    using assms by (simp add: divide_neg_pos)
  then show ?thesis
    using True half_up_nonneg [OF assms, of "- n"]
    by (simp add: half_up_ratio_def round_half_up_def Let_def add.commute)
next
  case False
  then have "\<not> rat_of_int n / rat_of_int d < 0"
    using assms by (simp add: not_less)
  then show ?thesis
    using False half_up_nonneg [OF assms, of n]
    by (simp add: half_up_ratio_def round_half_up_def Let_def)
qed

lemma quotient_of_ratio:
  assumes "quotient_of e = (n, d)"
  shows "rat_of_int n / rat_of_int d = e" and "0 < d"
  using quotient_of_div [OF assms] quotient_of_denom_pos [OF assms] by auto

lemma tien_dong_Decimal:
  "tien_dong (PyDecimal e) (PyInt p) = Inr (round_half_up (e * of_int p / 1000))"
proof -
  obtain n d where nd: "quotient_of e = (n, d)" by fastforce
  note e = quotient_of_ratio [OF nd]
  have "tien_dong (PyDecimal e) (PyInt p) = Inr (half_up_ratio (n * p) (d * 1000))"
    by (simp add: tien_dong_def nd)
  also have "half_up_ratio (n * p) (d * 1000)
      = round_half_up (rat_of_int (n * p) / rat_of_int (d * 1000))"
    using e(2) by (intro half_up_ratio_eq) simp
  also have "rat_of_int (n * p) / rat_of_int (d * 1000) = e * of_int p / 1000"
    using e by (simp flip: e(1))
  finally show ?thesis .
qed

lemma tien_dong_Int:
  "tien_dong (PyInt e) (PyInt p) = Inr (round_half_up (of_int (e * p) / 1000))"
  using half_up_ratio_eq [of 1000 "e * p"] by (simp add: tien_dong_def)

lemma round_half_up_nonneg: "0 \<le> x \<Longrightarrow> 0 \<le> round_half_up x"
  by (simp add: round_half_up_def)

lemma round_half_up_mono:
  assumes "x \<le> y"
  shows "round_half_up x \<le> round_half_up y"
proof (cases "x < 0 \<and> 0 \<le> y")
  case True
  then have "round_half_up x = - \<lfloor>1 / 2 - x\<rfloor>" "round_half_up y = \<lfloor>y + 1 / 2\<rfloor>"
    by (simp_all add: round_half_up_def)
  then show ?thesis using True by linarith
next
  case False
  with assms show ?thesis by (auto simp: round_half_up_def intro!: floor_mono)
qed

lemma round_half_up_bounds: "\<bar>rat_of_int (round_half_up x) - x\<bar> \<le> 1 / 2"
proof (cases "x < 0")
  case True
  have "rat_of_int \<lfloor>1 / 2 - x\<rfloor> \<le> 1 / 2 - x" "1 / 2 - x < rat_of_int \<lfloor>1 / 2 - x\<rfloor> + 1"
    by linarith+
  with True show ?thesis
    unfolding round_half_up_def abs_le_iff by (simp, linarith)
next
  case False
  have "rat_of_int \<lfloor>x + 1 / 2\<rfloor> \<le> x + 1 / 2" "x + 1 / 2 < rat_of_int \<lfloor>x + 1 / 2\<rfloor> + 1"
    by linarith+
  with False show ?thesis
    unfolding round_half_up_def abs_le_iff by (simp, linarith)
qed

lemma round_half_up_of_int [simp]: "round_half_up (of_int n) = n"
proof -
  have "\<lfloor>1 / 2 - rat_of_int n\<rfloor> = - n" and "\<lfloor>rat_of_int n + 1 / 2\<rfloor> = n"
    by (simp_all add: floor_eq_iff)
  then show ?thesis by (simp add: round_half_up_def)
qed

lemma round_half_up_tie: "0 \<le> n \<Longrightarrow> round_half_up (of_int n + 1 / 2) = n + 1"
  by (simp add: round_half_up_def floor_eq_iff)

section \<open>Idle fee\<close>

fun nonneg_int :: "pynum \<Rightarrow> exn + int" where
  "nonneg_int (PyInt n) = (if n < 0 then Inl ValueError else Inr n)"
| "nonneg_int _ = Inl TypeError"

fun aware :: "datetime \<Rightarrow> exn + instant" where
  "aware (Aware t) = Inr t"
| "aware (Naive _) = Inl ValueError"

definition billable_minutes :: "int \<Rightarrow> int \<Rightarrow> int" where
  "billable_minutes elapsed grace =
    max 0 ((elapsed - grace * MINUTE_US + MINUTE_US - 1) div MINUTE_US)"

definition tinh_phi_chiem_tru ::
  "datetime option \<Rightarrow> datetime \<Rightarrow> pynum \<Rightarrow> pynum \<Rightarrow> exn + int \<times> vnd" where
  "tinh_phi_chiem_tru idle_since session_end grace_minutes idle_rate =
    res_bind (nonneg_int grace_minutes) (\<lambda>grace.
    res_bind (nonneg_int idle_rate) (\<lambda>rate.
    res_bind (aware session_end) (\<lambda>finish.
      case idle_since of
        None \<Rightarrow> Inr (0, 0)
      | Some idle \<Rightarrow>
          res_bind (aware idle) (\<lambda>start.
            let elapsed = finish - start in
            if elapsed < 0 then Inl ValueError
            else let minutes = billable_minutes elapsed grace
                 in Inr (minutes, minutes * rate)))))"

lemma billable_minutes_nonneg [simp]: "0 \<le> billable_minutes e g"
  by (simp add: billable_minutes_def)

lemma billable_minutes_le_iff:
  assumes "0 \<le> k"
  shows "billable_minutes e g \<le> k \<longleftrightarrow> e \<le> (g + k) * MINUTE_US"
proof -
  have "(e - g * MINUTE_US + MINUTE_US - 1) div MINUTE_US \<le> k \<longleftrightarrow>
      e - g * MINUTE_US + MINUTE_US - 1 < (k + 1) * MINUTE_US"
    by (simp add: div_less_iff_less_mult flip: zless_iff_Suc_zadd less_eq_iff_succ_less)
       linarith
  with assms show ?thesis
    unfolding billable_minutes_def by (simp add: algebra_simps) linarith
qed

lemma billable_minutes_pos_iff: "0 < billable_minutes e g \<longleftrightarrow> g * MINUTE_US < e"
  using billable_minutes_le_iff [of 0 e g] by (simp add: not_le [symmetric])

lemma billable_minutes_exact:
  "0 \<le> k \<Longrightarrow> billable_minutes (k * MINUTE_US) 0 = k"
  using billable_minutes_le_iff [of k "k * MINUTE_US" 0]
    billable_minutes_le_iff [of "k - 1" "k * MINUTE_US" 0]
  by (cases "k = 0") (auto simp: billable_minutes_def)

text \<open>
  Cutting an idle stretch after \<open>k\<close> whole started minutes leaves the remaining minutes
  unchanged: no minute is rounded up twice.
\<close>

lemma billable_minutes_split:
  assumes "0 \<le> k" and "k \<le> billable_minutes e 0"
  shows "billable_minutes (e - k * MINUTE_US) 0 = billable_minutes e 0 - k"
proof -
  have "(e - k * MINUTE_US + MINUTE_US - 1) div MINUTE_US = (e + MINUTE_US - 1) div MINUTE_US - k"
    using div_mult_self1 [of MINUTE_US "e + MINUTE_US - 1" "- k"] by (simp add: algebra_simps)
  with assms show ?thesis by (simp add: billable_minutes_def)
qed

lemma billable_minutes_grace:
  "billable_minutes e g = billable_minutes (e - g * MINUTE_US) 0"
  by (simp add: billable_minutes_def)

lemma tinh_phi_Aware [simp]:
  assumes "0 \<le> g" and "0 \<le> r"
  shows "tinh_phi_chiem_tru (Some (Aware s)) (Aware t) (PyInt g) (PyInt r) =
    (if t < s then Inl ValueError
     else Inr (billable_minutes (t - s) g, billable_minutes (t - s) g * r))"
  using assms by (simp add: tinh_phi_chiem_tru_def Let_def)

section \<open>Properties\<close>

lemma round_half_up_tie_neg: "n \<le> 0 \<Longrightarrow> round_half_up (of_int n - 1 / 2) = n - 1"
proof -
  assume "n \<le> 0"
  then have "rat_of_int n - 1 / 2 < 0"
    by (metis diff_less_0_iff_less half_gt_zero_iff le_less_trans of_int_0_le_iff of_int_le_0_iff zero_less_one)
  moreover have "\<lfloor>1 / 2 - (rat_of_int n - 1 / 2)\<rfloor> = 1 - n" by (simp add: floor_eq_iff)
  ultimately show ?thesis by (simp add: round_half_up_def)
qed

text \<open>
  C36: the price of an amount of energy is the nearest whole number of dong to
  \<open>energy_wh * price / 1000\<close>, and exact ties are rounded away from zero.
\<close>

theorem tien_dong_nearest:
  "\<exists>a. tien_dong (PyDecimal e) (PyInt p) = Inr a
    \<and> \<bar>of_int a - e * of_int p / 1000\<bar> \<le> 1 / 2
    \<and> (\<forall>n. 0 \<le> n \<longrightarrow> e * of_int p / 1000 = of_int n + 1 / 2 \<longrightarrow> a = n + 1)
    \<and> (\<forall>n. n \<le> 0 \<longrightarrow> e * of_int p / 1000 = of_int n - 1 / 2 \<longrightarrow> a = n - 1)"
proof (intro exI conjI allI impI)
  show "tien_dong (PyDecimal e) (PyInt p) = Inr (round_half_up (e * of_int p / 1000))"
    by (rule tien_dong_Decimal)
  show "\<bar>of_int (round_half_up (e * of_int p / 1000)) - e * of_int p / 1000\<bar> \<le> 1 / 2"
    by (rule round_half_up_bounds)
qed (simp_all only: round_half_up_tie round_half_up_tie_neg)

theorem tien_dong_nearest_witness:
  "tien_dong (PyDecimal 1) (PyInt 2500) = Inr 3"
proof -
  obtain a where "tien_dong (PyDecimal 1) (PyInt 2500) = Inr a"
    and "\<forall>n. 0 \<le> n \<longrightarrow> (1 :: rat) * of_int 2500 / 1000 = of_int n + 1 / 2 \<longrightarrow> a = n + 1"
    using tien_dong_nearest [of 1 2500] by blast
  then show ?thesis by (auto dest: spec [of _ 2])
qed

text \<open>
  C37: the idle fee.  For a stretch from \<open>s\<close> to \<open>t\<close> the number of billed minutes is the
  least number of whole minutes that, with the grace minutes, covers the stretch, and the fee is
  that number times the rate.
\<close>

theorem idle_minutes_least:
  assumes "0 \<le> g" and "0 \<le> r" and "s \<le> t"
  shows "\<exists>m. tinh_phi_chiem_tru (Some (Aware s)) (Aware t) (PyInt g) (PyInt r) = Inr (m, m * r)
    \<and> 0 \<le> m \<and> t - s \<le> (g + m) * MINUTE_US
    \<and> (\<forall>k. 0 \<le> k \<longrightarrow> t - s \<le> (g + k) * MINUTE_US \<longrightarrow> m \<le> k)"
proof -
  let ?m = "billable_minutes (t - s) g"
  have "t - s \<le> (g + ?m) * MINUTE_US"
    using billable_minutes_le_iff [of ?m "t - s" g] by simp
  moreover have "\<forall>k. 0 \<le> k \<longrightarrow> t - s \<le> (g + k) * MINUTE_US \<longrightarrow> ?m \<le> k"
    using billable_minutes_le_iff by blast
  ultimately show ?thesis using assms by (intro exI [of _ ?m]) simp
qed

theorem idle_minutes_least_witness:
  "\<exists>m. tinh_phi_chiem_tru (Some (Aware 0)) (Aware 930000000) (PyInt 10) (PyInt 500)
      = Inr (m, m * 500) \<and> m = 6"
proof -
  obtain m where m: "tinh_phi_chiem_tru (Some (Aware 0)) (Aware 930000000) (PyInt 10) (PyInt 500)
      = Inr (m, m * 500)" "930000000 - 0 \<le> (10 + m) * MINUTE_US"
      "\<forall>k. 0 \<le> k \<longrightarrow> 930000000 - 0 \<le> (10 + k) * MINUTE_US \<longrightarrow> m \<le> k"
    using idle_minutes_least [of 10 500 0 930000000] by auto
  then have "m \<le> 6" by simp
  with m show ?thesis by auto
qed

end
