(* ===== verification/Day_Bands.thy ===== *)
theory Day_Bands
  imports Csms_Prelude
begin

text \<open>
  The part that the two daily-band validators share: \<open>kiem_khung_gio\<close> of
  src/src/modules/pricing/bands.py and \<open>kiem_khung_gio_cong_suat\<close> of
  src/src/modules/stations/power_bands.py split overnight bands at midnight, cut the day at
  every band boundary and require exactly one owner on every piece.  The pieces are triples
  (start minute, end minute, index of the input row).  The locale \<open>day_validator\<close> is the
  contract both validators meet; what clients need of a validated list of bands is proved once
  inside it.
\<close>

section \<open>The shared algorithm\<close>

type_synonym piece = "int \<times> int \<times> nat"

definition time_ok :: "int \<Rightarrow> int \<Rightarrow> bool" where
  "time_ok s e \<longleftrightarrow> 0 \<le> s \<and> s < 1440 \<and> 0 \<le> e \<and> e \<le> 1440 \<and> s \<noteq> e"

definition split_overnight :: "int \<Rightarrow> int \<Rightarrow> (int \<times> int) list" where
  "split_overnight s e =
    (if s < e then [(s, e)] else (s, 1440) # (if e > 0 then [(0, e)] else []))"

text \<open>\<open>_clock\<close>: the hour and minute fields of a minute of the day.\<close>

definition clock_hm :: "int \<Rightarrow> int list" where
  "clock_hm minute = [minute div 60, minute mod 60]"

definition boundaries :: "piece list \<Rightarrow> int list" where
  "boundaries normalized =
    sort (remdups ([0, 1440] @ concat (map (\<lambda>(s, e, _). [s, e]) normalized)))"

fun piece_index :: "piece \<Rightarrow> nat" where
  "piece_index (_, _, i) = i"

fun owned_at :: "int \<Rightarrow> piece \<Rightarrow> bool" where
  "owned_at t (s, e, _) \<longleftrightarrow> s \<le> t \<and> t < e"

definition owners :: "piece list \<Rightarrow> int \<Rightarrow> nat list" where
  "owners normalized t = sort (map piece_index (filter (owned_at t) normalized))"

definition cover_step :: "piece list \<Rightarrow> band_issue list \<Rightarrow> int \<times> int \<Rightarrow> band_issue list" where
  "cover_step normalized issues = (\<lambda>(start, finish).
    let own = owners normalized start in
    if length own = 1 then issues
    else
      let code = (if own = [] then ''gap'' else ''overlap'');
          merge = (issues \<noteq> [] \<and> issue_code (last issues) = code
                   \<and> input_indices (last issues) = own
                   \<and> issue_end_min (last issues) = Some start);
          kept = (if merge then butlast issues else issues);
          from = (if merge then case issue_start_min (last issues) of None \<Rightarrow> 0 | Some s \<Rightarrow> s
                  else start)
      in kept @ [\<lparr>issue_code = code, input_indices = own,
                  issue_start_min = Some from, issue_end_min = Some finish\<rparr>])"

definition pairs :: "'a list \<Rightarrow> ('a \<times> 'a) list" where
  "pairs xs = zip xs (tl xs)"

definition cover_issues :: "piece list \<Rightarrow> band_issue list" where
  "cover_issues normalized = foldl (cover_step normalized) [] (pairs (boundaries normalized))"

section \<open>What a band covers\<close>

definition covers :: "int \<Rightarrow> int \<Rightarrow> int \<Rightarrow> bool" where
  "covers s e m \<longleftrightarrow> (if s < e then s \<le> m \<and> m < e else s \<le> m \<or> m < e)"

lemma split_overnight_covers:
  assumes "time_ok s e" and "0 \<le> m" and "m < 1440"
  shows "length (filter (\<lambda>(a, b). a \<le> m \<and> m < b) (split_overnight s e)) =
    (if covers s e m then 1 else 0)"
  using assms by (auto simp: split_overnight_def covers_def time_ok_def)

lemma split_overnight_range:
  assumes "time_ok s e" and "(a, b) \<in> set (split_overnight s e)"
  shows "0 \<le> a \<and> a < b \<and> b \<le> 1440"
  using assms by (auto simp: split_overnight_def time_ok_def split: if_splits)

definition indexed_pieces :: "(int \<times> int) list \<Rightarrow> piece list" where
  "indexed_pieces rows = concat (map (\<lambda>(i, s, e). map (\<lambda>(a, b). (a, b, i)) (split_overnight s e))
     (zip [0..<length rows] rows))"

lemma indexed_pieces_snoc:
  "indexed_pieces (rows @ [(s, e)]) =
    indexed_pieces rows @ map (\<lambda>(a, b). (a, b, length rows)) (split_overnight s e)"
  by (simp add: indexed_pieces_def)

lemma covering_indices:
  assumes "\<forall>(s, e)\<in>set rows. time_ok s e" and "0 \<le> m" and "m < 1440"
  shows "map piece_index (filter (owned_at m) (indexed_pieces rows)) =
    filter (\<lambda>i. covers (fst (rows ! i)) (snd (rows ! i)) m) [0..<length rows]"
  using assms(1)
proof (induction rows rule: rev_induct)
  case Nil
  then show ?case by (simp add: indexed_pieces_def)
next
  case (snoc r rows)
  obtain s e where r: "r = (s, e)" by fastforce
  have new: "map piece_index (filter (owned_at m)
      (map (\<lambda>(a, b). (a, b, k)) (split_overnight s e))) = (if covers s e m then [k] else [])"
    for k :: nat
    using snoc.prems assms(2,3) r
    by (auto simp: split_overnight_def covers_def time_ok_def)
  have "filter (\<lambda>i. covers (fst ((rows @ [r]) ! i)) (snd ((rows @ [r]) ! i)) m) [0..<length rows]
      = filter (\<lambda>i. covers (fst (rows ! i)) (snd (rows ! i)) m) [0..<length rows]"
    by (intro filter_cong) (auto simp: nth_append)
  with snoc new [of "length rows"] show ?case
    by (simp add: r indexed_pieces_snoc)
qed

lemma owners_indexed:
  assumes "\<forall>(s, e)\<in>set rows. time_ok s e" and "0 \<le> m" and "m < 1440"
  shows "owners (indexed_pieces rows) m =
    filter (\<lambda>i. covers (fst (rows ! i)) (snd (rows ! i)) m) [0..<length rows]"
  unfolding owners_def covering_indices [OF assms]
  by (intro sort_key_id_if_sorted [where f = "\<lambda>x. x", simplified] sorted_wrt_filter) simp

fun piece_ok :: "piece \<Rightarrow> bool" where
  "piece_ok (a, b, _) \<longleftrightarrow> 0 \<le> a \<and> a < b \<and> b \<le> 1440"

lemma indexed_pieces_ok:
  assumes "\<forall>(s, e)\<in>set rows. time_ok s e"
  shows "\<forall>p\<in>set (indexed_pieces rows). piece_ok p"
  using assms
proof (induction rows rule: rev_induct)
  case Nil
  then show ?case by (simp add: indexed_pieces_def)
next
  case (snoc r rows)
  obtain s e where r: "r = (s, e)" by fastforce
  with snoc.prems have "time_ok s e" by simp
  then have "\<forall>p\<in>set (map (\<lambda>(a, b). (a, b, length rows)) (split_overnight s e)). piece_ok p"
    using split_overnight_range by auto
  with snoc show ?case by (simp add: r indexed_pieces_snoc ball_Un)
qed

section \<open>The sweep over the boundaries\<close>

lemma foldl_cover_Nil:
  "foldl (cover_step nz) iss ps = [] \<longleftrightarrow>
    iss = [] \<and> (\<forall>(a, b)\<in>set ps. length (owners nz a) = 1)"
proof (induction ps arbitrary: iss)
  case (Cons p ps)
  obtain a b where "p = (a, b)" by fastforce
  then show ?case
    unfolding foldl_Cons Cons.IH by (auto simp: cover_step_def Let_def)
qed simp

lemma pairs_Cons2: "pairs (x # y # zs) = (x, y) # pairs (y # zs)"
  by (simp add: pairs_def)

lemma pairs_single [simp]: "pairs [x] = []" "pairs [] = []"
  by (simp_all add: pairs_def)

lemma pairs_locate:
  assumes "sorted xs" and "xs \<noteq> []" and "hd xs \<le> m" and "m < last xs"
  shows "\<exists>(a, b)\<in>set (pairs xs). a \<le> m \<and> m < b"
  using assms
proof (induction xs rule: induct_list012)
  case (3 x y zs)
  show ?case
  proof (cases "m < y")
    case True
    with 3 show ?thesis by (auto simp: pairs_Cons2)
  next
    case False
    with 3 have "\<exists>(a, b)\<in>set (pairs (y # zs)). a \<le> m \<and> m < b" by auto
    then show ?thesis by (auto simp: pairs_Cons2)
  qed
qed auto

lemma pairs_gap:
  fixes xs :: "'a::linorder list"
  assumes "sorted xs" and "(a, b) \<in> set (pairs xs)" and "c \<in> set xs"
  shows "c \<le> a \<or> b \<le> c"
  using assms
proof (induction xs rule: induct_list012)
  case (3 x y zs)
  show ?case
  proof (cases "(a, b) = (x, y)")
    case True
    with 3 show ?thesis by auto
  next
    case False
    with "3.prems"(2) have mem: "(a, b) \<in> set (pairs (y # zs))" by (auto simp: pairs_Cons2)
    then have "a \<in> set (y # zs)" by (auto simp: pairs_def dest: set_zip_leftD)
    with 3 mem show ?thesis by auto
  qed
qed auto

lemma pairs_less:
  fixes xs :: "'a::linorder list"
  assumes "sorted xs" and "distinct xs" and "(a, b) \<in> set (pairs xs)"
  shows "a < b \<and> a \<in> set xs \<and> b \<in> set xs"
  using assms
proof (induction xs rule: induct_list012)
  case (3 x y zs)
  then show ?case by (auto simp: pairs_Cons2)
qed auto

lemma set_boundaries:
  "set (boundaries nz) = set ([0, 1440] @ concat (map (\<lambda>(s, e, _). [s, e]) nz))"
  by (simp only: boundaries_def set_sort set_remdups)

lemma boundariesE:
  assumes "x \<in> set (boundaries nz)"
  obtains "x = 0" | "x = 1440" | s e i where "(s, e, i) \<in> set nz" "x = s \<or> x = e"
  using assms unfolding set_boundaries by auto

lemma boundariesI:
  "0 \<in> set (boundaries nz)" "1440 \<in> set (boundaries nz)"
  "(s, e, i) \<in> set nz \<Longrightarrow> s \<in> set (boundaries nz)"
  "(s, e, i) \<in> set nz \<Longrightarrow> e \<in> set (boundaries nz)"
  unfolding set_boundaries by force+

lemma boundaries_range:
  assumes "\<forall>p\<in>set nz. piece_ok p" and "x \<in> set (boundaries nz)"
  shows "0 \<le> x \<and> x \<le> 1440"
  using assms(2) by (rule boundariesE) (use assms(1) in fastforce)+

lemma boundaries_sorted: "sorted (boundaries nz)" "distinct (boundaries nz)"
  by (simp_all add: boundaries_def)

lemma boundaries_ends:
  assumes "\<forall>p\<in>set nz. piece_ok p"
  shows "hd (boundaries nz) = 0" and "last (boundaries nz) = 1440" and "boundaries nz \<noteq> []"
proof -
  note range = boundaries_range [OF assms] and mem = boundariesI(1,2) [of nz]
  from mem show ne: "boundaries nz \<noteq> []" by auto
  have "hd (boundaries nz) \<le> 0"
    using mem(1) boundaries_sorted(1) [of nz] by (cases "boundaries nz") auto
  moreover have "1440 \<le> last (boundaries nz)"
    using mem(2) boundaries_sorted(1) [of nz]
    by (cases "boundaries nz" rule: rev_cases) (auto simp: sorted_append)
  ultimately show "hd (boundaries nz) = 0" and "last (boundaries nz) = 1440"
    using range [of "hd (boundaries nz)"] range [of "last (boundaries nz)"] ne by auto
qed

text \<open>No band begins or ends strictly inside a piece, so its owners are constant there.\<close>

lemma owners_const:
  assumes "(a, b) \<in> set (pairs (boundaries nz))" and "a \<le> m" and "m < b"
  shows "owners nz m = owners nz a"
proof -
  have "(s \<le> m \<and> m < e) \<longleftrightarrow> (s \<le> a \<and> a < e)" if "(s, e, i) \<in> set nz" for s e i
  proof -
    have "s \<in> set (boundaries nz)" "e \<in> set (boundaries nz)"
      using that by (auto intro: boundariesI)
    then have "s \<le> a \<or> b \<le> s" "e \<le> a \<or> b \<le> e"
      using pairs_gap [OF boundaries_sorted(1) assms(1)] by blast+
    with assms(2,3) show ?thesis by auto
  qed
  then have "filter (owned_at m) nz = filter (owned_at a) nz"
    by (intro filter_cong) auto
  then show ?thesis by (simp add: owners_def)
qed

lemma cover_issues_Nil_iff:
  assumes "\<forall>p\<in>set nz. piece_ok p"
  shows "cover_issues nz = [] \<longleftrightarrow> (\<forall>m. 0 \<le> m \<longrightarrow> m < 1440 \<longrightarrow> length (owners nz m) = 1)"
proof -
  note ends = boundaries_ends [OF assms]
  have "cover_issues nz = [] \<longleftrightarrow>
      (\<forall>(a, b)\<in>set (pairs (boundaries nz)). length (owners nz a) = 1)"
    by (simp add: cover_issues_def foldl_cover_Nil)
  also have "\<dots> \<longleftrightarrow> (\<forall>m. 0 \<le> m \<longrightarrow> m < 1440 \<longrightarrow> length (owners nz m) = 1)" (is "?L \<longleftrightarrow> ?R")
  proof
    assume L: ?L
    show ?R
    proof (intro allI impI)
      fix m :: int assume "0 \<le> m" "m < 1440"
      with pairs_locate [OF boundaries_sorted(1) ends(3), of m] ends obtain a b
        where "(a, b) \<in> set (pairs (boundaries nz))" "a \<le> m" "m < b" by auto
      with L owners_const [of a b nz m] show "length (owners nz m) = 1" by auto
    qed
  next
    assume R: ?R
    have "length (owners nz a) = 1" if "(a, b) \<in> set (pairs (boundaries nz))" for a b
    proof -
      have "a < b" "a \<in> set (boundaries nz)" "b \<in> set (boundaries nz)"
        using pairs_less [OF boundaries_sorted that] by auto
      with boundaries_range [OF assms] have "0 \<le> a" "a < 1440" by force+
      with R show ?thesis by simp
    qed
    then show ?L by blast
  qed
  finally show ?thesis .
qed

section \<open>Contiguous bands\<close>

fun contiguous :: "('b \<Rightarrow> int) \<Rightarrow> ('b \<Rightarrow> int) \<Rightarrow> int \<Rightarrow> 'b list \<Rightarrow> bool" where
  "contiguous st en a [] \<longleftrightarrow> a = 1440"
| "contiguous st en a (b # bs) \<longleftrightarrow> st b = a \<and> st b < en b \<and> contiguous st en (en b) bs"

lemma contiguousI:
  assumes "sorted (map st out)"
    and "\<forall>b\<in>set out. a \<le> st b \<and> st b < en b \<and> en b \<le> 1440"
    and "\<And>m. a \<le> m \<Longrightarrow> m < 1440 \<Longrightarrow> length (filter (\<lambda>b. st b \<le> m \<and> m < en b) out) = 1"
    and "a \<le> 1440"
  shows "contiguous st en a out"
  using assms
proof (induction out arbitrary: a)
  case Nil
  show ?case
  proof (rule ccontr)
    assume "\<not> contiguous st en a []"
    with Nil.prems(4) have "a < 1440" by simp
    with Nil.prems(3) [of a] show False by simp
  qed
next
  case (Cons b bs)
  let ?at = "\<lambda>m c. st c \<le> m \<and> m < en c"
  from Cons.prems(2) have b: "a \<le> st b" "st b < en b" "en b \<le> 1440" by auto
  then have "a < 1440" by simp
  with Cons.prems(3) [of a] have "filter (?at a) (b # bs) \<noteq> []" by force
  then obtain c where "c \<in> set (b # bs)" "st c \<le> a"
    unfolding filter_empty_conv by auto
  with Cons.prems(1) b have st: "st b = a" by fastforce
  have later: "en b \<le> st c" if "c \<in> set bs" for c
  proof (rule ccontr)
    assume "\<not> en b \<le> st c"
    with that Cons.prems(2) have c: "a \<le> st c" "st c < 1440" "?at (st c) b" "?at (st c) c"
      using st by auto
    with that have "c \<in> set (filter (?at (st c)) bs)" by simp
    with c have "2 \<le> length (filter (?at (st c)) (b # bs))"
      by (cases "filter (?at (st c)) bs") auto
    with Cons.prems(3) [of "st c"] c show False by simp
  qed
  have "contiguous st en (en b) bs"
  proof (rule Cons.IH)
    show "length (filter (?at m) bs) = 1" if "en b \<le> m" "m < 1440" for m
      using Cons.prems(3) [of m] that b st by simp
  qed (use Cons.prems b later in auto)
  with st b show ?case by simp
qed

lemma contiguous_total:
  "contiguous st en a out \<Longrightarrow> (\<Sum>b\<leftarrow>out. en b - st b) = 1440 - a"
  by (induction out arbitrary: a) fastforce+

lemma length_filter_nth:
  "length (filter (\<lambda>i. P (xs ! i)) [0..<length xs]) = length (filter P xs)"
proof -
  have "filter P (map ((!) xs) [0..<length xs])
      = map ((!) xs) (filter (\<lambda>i. P (xs ! i)) [0..<length xs])"
    by (simp add: filter_map comp_def)
  then show ?thesis by (metis length_map map_nth)
qed

section \<open>The contract of a validator\<close>

text \<open>
  \<open>check\<close> validates a list of daily bands, \<open>st\<close> and \<open>en\<close> are the minute bounds,
  \<open>same\<close> says that two bands carry the same payload (rate and label, or power limit) and
  \<open>valid\<close> is the per-row check.
\<close>

locale day_validator =
  fixes check :: "'b list \<Rightarrow> band_issue list + 'b list"
    and st :: "'b \<Rightarrow> int"
    and en :: "'b \<Rightarrow> int"
    and same :: "'b \<Rightarrow> 'b \<Rightarrow> bool"
    and valid :: "'b \<Rightarrow> bool"
  assumes accepts_iff: "(\<exists>out. check bs = Inr out) \<longleftrightarrow>
      (\<forall>b\<in>set bs. valid b) \<and>
      (\<forall>m. 0 \<le> m \<longrightarrow> m < 1440 \<longrightarrow> length (filter (\<lambda>b. covers (st b) (en b) m) bs) = 1)"
    and output_sorted: "check bs = Inr out \<Longrightarrow> sorted (map st out)"
    and output_range: "check bs = Inr out \<Longrightarrow> c \<in> set out \<Longrightarrow>
      0 \<le> st c \<and> st c < en c \<and> en c \<le> 1440"
    and output_count: "check bs = Inr out \<Longrightarrow> 0 \<le> m \<Longrightarrow> m < 1440 \<Longrightarrow>
      length (filter (\<lambda>c. st c \<le> m \<and> m < en c) out)
      = length (filter (\<lambda>b. covers (st b) (en b) m) bs)"
    and output_source: "check bs = Inr out \<Longrightarrow> c \<in> set out \<Longrightarrow> st c \<le> m \<Longrightarrow> m < en c \<Longrightarrow>
      \<exists>b\<in>set bs. covers (st b) (en b) m \<and> same b c"
begin

lemma one_owner:
  assumes "check bs = Inr out" and "0 \<le> m" and "m < 1440"
  shows "length (filter (\<lambda>c. st c \<le> m \<and> m < en c) out) = 1"
  using assms accepts_iff [of bs] output_count [OF assms] by auto

lemma output_contiguous:
  assumes "check bs = Inr out"
  shows "contiguous st en 0 out"
  using assms output_sorted output_range one_owner by (intro contiguousI) auto

lemma output_total:
  assumes "check bs = Inr out"
  shows "(\<Sum>b\<leftarrow>out. en b - st b) = 1440"
  using contiguous_total [OF output_contiguous [OF assms]] by simp

text \<open>Looking a minute up finds a band, and it carries the payload of the input row.\<close>

lemma lookup_total:
  assumes "check bs = Inr out" and "0 \<le> m" and "m < 1440"
  shows "\<exists>c. find (\<lambda>c. st c \<le> m \<and> m < en c) out = Some c \<and>
    (\<exists>b\<in>set bs. covers (st b) (en b) m \<and> same b c)"
proof -
  have "filter (\<lambda>c. st c \<le> m \<and> m < en c) out \<noteq> []"
    using one_owner [OF assms] by force
  then obtain c where c: "find (\<lambda>c. st c \<le> m \<and> m < en c) out = Some c"
    by (cases "find (\<lambda>c. st c \<le> m \<and> m < en c) out")
      (auto simp: find_None_iff filter_empty_conv)
  moreover from find_Some_iff_set [OF c]
  have "c \<in> set out" "st c \<le> m" "m < en c" by auto
  ultimately show ?thesis using output_source [OF assms(1)] by blast
qed

end

section \<open>Validators that split overnight bands and sweep the boundaries\<close>

definition enumerate_rows :: "'a list \<Rightarrow> (nat \<times> 'a) list" where
  "enumerate_rows xs = zip [0..<length xs] xs"

lemma enumerate_rows_Nil [simp]: "enumerate_rows [] = []"
  by (simp add: enumerate_rows_def)

lemma enumerate_rows_snoc: "enumerate_rows (xs @ [x]) = enumerate_rows xs @ [(length xs, x)]"
  by (simp add: enumerate_rows_def)

text \<open>
  \<open>norm\<close> splits one row, \<open>normalized\<close> is the list of all split rows, and \<open>check\<close>
  accepts exactly when every row is valid and the sweep reports nothing.
\<close>

locale overnight_validator =
  fixes check :: "'b list \<Rightarrow> band_issue list + 'b list"
    and st :: "'b \<Rightarrow> int"
    and en :: "'b \<Rightarrow> int"
    and same :: "'b \<Rightarrow> 'b \<Rightarrow> bool"
    and valid :: "'b \<Rightarrow> bool"
    and norm :: "nat \<Rightarrow> 'b \<Rightarrow> ('b \<times> nat) list"
    and normalized :: "'b list \<Rightarrow> ('b \<times> nat) list"
  assumes valid_time: "valid b \<Longrightarrow> time_ok (st b) (en b)"
    and norm_pieces: "map (\<lambda>(c, k). (st c, en c, k)) (norm i b)
      = map (\<lambda>(s, e). (s, e, i)) (split_overnight (st b) (en b))"
    and norm_same: "(c, k) \<in> set (norm i b) \<Longrightarrow> same b c"
    and normalized_Nil: "normalized [] = []"
    and normalized_snoc: "normalized (bs @ [b]) =
      normalized bs @ (if valid b then norm (length bs) b else [])"
    and check_eq: "check bs = Inr out \<longleftrightarrow> (\<forall>b\<in>set bs. valid b)
      \<and> cover_issues (map (\<lambda>(c, k). (st c, en c, k)) (normalized bs)) = []
      \<and> out = map fst (sort_key (\<lambda>(c, k). st c) (normalized bs))"
begin

lemma pieces_normalized:
  "\<forall>b\<in>set bs. valid b \<Longrightarrow> map (\<lambda>(c, k). (st c, en c, k)) (normalized bs)
    = indexed_pieces (map (\<lambda>b. (st b, en b)) bs)"
proof (induction bs rule: rev_induct)
  case Nil
  then show ?case by (simp add: normalized_Nil indexed_pieces_def)
next
  case (snoc b bs)
  then show ?case by (simp add: normalized_snoc indexed_pieces_snoc norm_pieces)
qed

lemma owners_length:
  assumes "\<forall>b\<in>set bs. valid b" and "0 \<le> m" and "m < 1440"
  shows "length (owners (map (\<lambda>(c, k). (st c, en c, k)) (normalized bs)) m) =
    length (filter (\<lambda>b. covers (st b) (en b) m) bs)"
proof -
  let ?rows = "map (\<lambda>b. (st b, en b)) bs"
  have ok: "\<forall>(s, e)\<in>set ?rows. time_ok s e"
    using assms(1) valid_time by auto
  have "length (owners (map (\<lambda>(c, k). (st c, en c, k)) (normalized bs)) m) =
      length (filter (\<lambda>r. covers (fst r) (snd r) m) ?rows)"
    unfolding pieces_normalized [OF assms(1)] owners_indexed [OF ok assms(2,3)]
    by (rule length_filter_nth)
  then show ?thesis by (simp add: filter_map comp_def)
qed

lemma owners_count:
  "length (owners (map (\<lambda>(c, k). (st c, en c, k)) nz) m)
    = length (filter (\<lambda>(c, _). st c \<le> m \<and> m < en c) nz)"
  by (induction nz) (auto simp: owners_def)

lemma normalized_member:
  "(c, i) \<in> set (normalized bs) \<Longrightarrow> \<exists>b\<in>set bs. valid b \<and> (\<exists>k. (c, i) \<in> set (norm k b))"
proof (induction bs rule: rev_induct)
  case Nil
  then show ?case by (simp add: normalized_Nil)
next
  case (snoc b bs)
  then show ?case by (auto simp: normalized_snoc split: if_splits)
qed

lemma norm_piece:
  assumes "valid b" and "(c, k) \<in> set (norm i b)"
  shows "(st c, en c) \<in> set (split_overnight (st b) (en b))"
proof -
  have "(st c, en c, k) \<in> set (map (\<lambda>(c, k). (st c, en c, k)) (norm i b))"
    using assms(2) by force
  then show ?thesis unfolding norm_pieces by auto
qed

lemma check_accepts: "(\<exists>out. check bs = Inr out) \<longleftrightarrow> (\<forall>b\<in>set bs. valid b) \<and>
  (\<forall>m. 0 \<le> m \<longrightarrow> m < 1440 \<longrightarrow> length (filter (\<lambda>b. covers (st b) (en b) m) bs) = 1)"
proof (cases "\<forall>b\<in>set bs. valid b")
  case True
  have "\<forall>(s, e)\<in>set (map (\<lambda>b. (st b, en b)) bs). time_ok s e"
    using True valid_time by auto
  then have "\<forall>p\<in>set (map (\<lambda>(c, k). (st c, en c, k)) (normalized bs)). piece_ok p"
    unfolding pieces_normalized [OF True] by (rule indexed_pieces_ok)
  from cover_issues_Nil_iff [OF this] True owners_length [OF True] show ?thesis
    by (auto simp: check_eq)
next
  case False
  then show ?thesis by (auto simp: check_eq)
qed

end

sublocale overnight_validator \<subseteq> day_validator check st en same valid
proof unfold_locales
  fix bs :: "'b list" and out c m
  show "(\<exists>out. check bs = Inr out) \<longleftrightarrow> (\<forall>b\<in>set bs. valid b) \<and>
      (\<forall>m. 0 \<le> m \<longrightarrow> m < 1440 \<longrightarrow> length (filter (\<lambda>b. covers (st b) (en b) m) bs) = 1)"
    by (rule check_accepts)
  assume "check bs = Inr out"
  then have valid: "\<forall>b\<in>set bs. valid b"
    and out: "out = map fst (sort_key (\<lambda>(c, k). st c) (normalized bs))"
    by (simp_all add: check_eq)
  have key: "st \<circ> fst = (\<lambda>(c, k::nat). st c)" by (simp add: fun_eq_iff)
  show "sorted (map st out)"
    unfolding out map_map key by (rule sorted_sort_key)
  show "length (filter (\<lambda>c. st c \<le> m \<and> m < en c) out)
      = length (filter (\<lambda>b. covers (st b) (en b) m) bs)" if "0 \<le> m" "m < 1440"
  proof -
    have "length (filter (\<lambda>c. st c \<le> m \<and> m < en c) out)
        = length (owners (map (\<lambda>(c, k). (st c, en c, k)) (normalized bs)) m)"
      unfolding out owners_count by (simp add: filter_map filter_sort comp_def case_prod_unfold)
    then show ?thesis using owners_length [OF valid that] by simp
  qed
  assume "c \<in> set out"
  then obtain i where "(c, i) \<in> set (normalized bs)" unfolding out by auto
  then obtain b k where b: "b \<in> set bs" "valid b" "(c, i) \<in> set (norm k b)"
    using normalized_member by blast
  note piece = norm_piece [OF b(2,3)]
  show "0 \<le> st c \<and> st c < en c \<and> en c \<le> 1440"
    using split_overnight_range [OF valid_time [OF b(2)] piece] by simp
  show "\<exists>b\<in>set bs. covers (st b) (en b) m \<and> same b c" if "st c \<le> m" "m < en c"
    using b norm_same [OF b(3)] piece that valid_time [OF b(2)]
    by (auto simp: split_overnight_def covers_def time_ok_def split: if_splits
        intro!: bexI [of _ b])
qed

end
