(* ===== verification/Tariff_Bands.thy ===== *)
theory Tariff_Bands
  imports Day_Bands
begin

text \<open>
  \<open>kiem_khung_gio\<close> of src/src/modules/pricing/bands.py: validation and normalisation of the
  daily price bands of a tariff.  The fields are typed, so the \<open>type(...) is not int\<close> tests of
  the source hold by construction; the Vietnamese message of an issue is determined by its code
  and bounds and is left out.
\<close>

record band_input =
  start_min :: int
  end_min :: int
  energy_rate_vnd_per_kwh :: vnd
  label :: string

abbreviation MAX_BIGINT :: int where "MAX_BIGINT \<equiv> 2 ^ 63 - 1"

definition band_checks :: "nat \<Rightarrow> band_input \<Rightarrow> band_issue list" where
  "band_checks index band =
    (if \<not> time_ok (start_min band) (end_min band)
     then [\<lparr>issue_code = ''invalid_time'', input_indices = [index],
            issue_start_min = None, issue_end_min = None\<rparr>] else [])
    @ (if \<not> (0 \<le> energy_rate_vnd_per_kwh band \<and> energy_rate_vnd_per_kwh band \<le> MAX_BIGINT)
       then [\<lparr>issue_code = ''invalid_rate'', input_indices = [index],
              issue_start_min = None, issue_end_min = None\<rparr>] else [])
    @ (if length (label band) > 100
       then [\<lparr>issue_code = ''invalid_label'', input_indices = [index],
              issue_start_min = None, issue_end_min = None\<rparr>] else [])"

definition normalize_band :: "nat \<Rightarrow> band_input \<Rightarrow> (band_input \<times> nat) list" where
  "normalize_band index band =
    (if start_min band < end_min band then [(band, index)]
     else (band\<lparr>end_min := 1440\<rparr>, index) #
          (if end_min band > 0 then [(band\<lparr>start_min := 0\<rparr>, index)] else []))"

definition normalize_bands :: "band_input list \<Rightarrow> (band_input \<times> nat) list" where
  "normalize_bands bands = concat (map (\<lambda>(i, b).
     if band_checks i b = [] then normalize_band i b else []) (enumerate_rows bands))"

definition band_pieces :: "(band_input \<times> nat) list \<Rightarrow> piece list" where
  "band_pieces normalized = map (\<lambda>(b, i). (start_min b, end_min b, i)) normalized"

definition row_issues :: "band_input list \<Rightarrow> band_issue list" where
  "row_issues bands = concat (map (\<lambda>(i, b). band_checks i b) (enumerate_rows bands))"

definition kiem_khung_gio :: "band_input list \<Rightarrow> band_issue list + band_input list" where
  "kiem_khung_gio bands =
    (let issues = row_issues bands;
         normalized = normalize_bands bands
     in if issues \<noteq> [] then Inl issues
        else
          let issues = cover_issues (band_pieces normalized)
          in if issues \<noteq> [] then Inl issues
             else Inr (map fst (sort_key (\<lambda>(b, _). start_min b) normalized)))"

definition band_valid :: "band_input \<Rightarrow> bool" where
  "band_valid b \<longleftrightarrow> time_ok (start_min b) (end_min b)
    \<and> 0 \<le> energy_rate_vnd_per_kwh b \<and> energy_rate_vnd_per_kwh b \<le> MAX_BIGINT
    \<and> length (label b) \<le> 100"

definition same_price :: "band_input \<Rightarrow> band_input \<Rightarrow> bool" where
  "same_price b c \<longleftrightarrow> energy_rate_vnd_per_kwh b = energy_rate_vnd_per_kwh c \<and> label b = label c"

lemma band_checks_Nil [simp]: "band_checks i b = [] \<longleftrightarrow> band_valid b"
  by (auto simp: band_checks_def band_valid_def)

lemma row_issues_Nil:
  "row_issues bands = [] \<longleftrightarrow> (\<forall>b\<in>set bands. band_valid b)"
  unfolding row_issues_def
  by (induction bands rule: rev_induct) (auto simp: enumerate_rows_snoc)

interpretation tariff_bands: overnight_validator kiem_khung_gio start_min end_min same_price
    band_valid normalize_band normalize_bands
proof unfold_locales
  fix bs :: "band_input list" and out :: "band_input list"
  show "kiem_khung_gio bs = Inr out \<longleftrightarrow> (\<forall>b\<in>set bs. band_valid b)
      \<and> cover_issues (map (\<lambda>(c, k). (start_min c, end_min c, k)) (normalize_bands bs)) = []
      \<and> out = map fst (sort_key (\<lambda>(c, k). start_min c) (normalize_bands bs))"
    unfolding kiem_khung_gio_def band_pieces_def Let_def row_issues_Nil [symmetric] by auto
qed (auto simp: band_valid_def normalize_band_def split_overnight_def same_price_def
      normalize_bands_def enumerate_rows_snoc split: if_splits)

section \<open>Properties\<close>

text \<open>
  C31: a list of price bands is accepted exactly when every row is well formed and every minute
  of the day belongs to exactly one row, overnight rows included.
\<close>

theorem kiem_khung_gio_exact_cover:
  "(\<exists>out. kiem_khung_gio bands = Inr out) \<longleftrightarrow> (\<forall>b\<in>set bands. band_valid b)
    \<and> (\<forall>m. 0 \<le> m \<longrightarrow> m < 1440 \<longrightarrow>
         length (filter (\<lambda>b. covers (start_min b) (end_min b) m) bands) = 1)"
  by (rule tariff_bands.accepts_iff)

definition night_bands :: "band_input list" where
  "night_bands = [\<lparr>start_min = 1320, end_min = 360, energy_rate_vnd_per_kwh = 2000, label = ''night''\<rparr>,
     \<lparr>start_min = 360, end_min = 1320, energy_rate_vnd_per_kwh = 3500, label = ''day''\<rparr>]"

theorem kiem_khung_gio_exact_cover_witness: "\<exists>out. kiem_khung_gio night_bands = Inr out"
  unfolding kiem_khung_gio_exact_cover
  by (auto simp: night_bands_def band_valid_def time_ok_def covers_def)

text \<open>
  An accepted list is returned as bands that follow one another from minute 0 to minute
  1440; looking up any minute of the day finds one band, and it carries the rate and label of an
  input row that covers that minute.
\<close>

theorem kiem_khung_gio_lookup:
  assumes "kiem_khung_gio bands = Inr out" and "0 \<le> m" and "m < 1440"
  shows "contiguous start_min end_min 0 out
    \<and> (\<exists>c. find (\<lambda>c. start_min c \<le> m \<and> m < end_min c) out = Some c
         \<and> (\<exists>b\<in>set bands. covers (start_min b) (end_min b) m \<and> same_price b c))"
  using tariff_bands.output_contiguous [OF assms(1)] tariff_bands.lookup_total [OF assms] by blast

lemma night_bands_check:
  "kiem_khung_gio night_bands = Inr
    [\<lparr>start_min = 0, end_min = 360, energy_rate_vnd_per_kwh = 2000, label = ''night''\<rparr>,
     \<lparr>start_min = 360, end_min = 1320, energy_rate_vnd_per_kwh = 3500, label = ''day''\<rparr>,
     \<lparr>start_min = 1320, end_min = 1440, energy_rate_vnd_per_kwh = 2000, label = ''night''\<rparr>]"
  by code_simp

theorem kiem_khung_gio_lookup_witness:
  "contiguous start_min end_min 0
    [\<lparr>start_min = 0, end_min = 360, energy_rate_vnd_per_kwh = 2000, label = ''night''\<rparr>,
     \<lparr>start_min = 360, end_min = 1320, energy_rate_vnd_per_kwh = 3500, label = ''day''\<rparr>,
     \<lparr>start_min = 1320, end_min = 1440, energy_rate_vnd_per_kwh = 2000, label = ''night''\<rparr>]"
  using kiem_khung_gio_lookup [OF night_bands_check, of 60] by simp

end
