(* ===== verification/Power_Bands.thy ===== *)
theory Power_Bands
  imports Day_Bands
begin

text \<open>
  \<open>kiem_khung_gio_cong_suat\<close> of src/src/modules/stations/power_bands.py: validation and
  normalisation of the daily power-limit bands of a station.  As for the tariff bands, the
  fields are typed and the messages of the issues are left out.
\<close>

record power_band =
  pb_start_min :: int
  pb_end_min :: int
  pb_power_limit_w :: int

definition power_band_checks :: "nat \<Rightarrow> power_band \<Rightarrow> band_issue list" where
  "power_band_checks index band =
    (if \<not> time_ok (pb_start_min band) (pb_end_min band)
     then [\<lparr>issue_code = ''invalid_time'', input_indices = [index],
            issue_start_min = None, issue_end_min = None\<rparr>] else [])
    @ (if \<not> (0 < pb_power_limit_w band \<and> pb_power_limit_w band \<le> 2 ^ 63 - 1)
       then [\<lparr>issue_code = ''invalid_power_limit'', input_indices = [index],
              issue_start_min = None, issue_end_min = None\<rparr>] else [])"

definition normalize_power_band :: "nat \<Rightarrow> power_band \<Rightarrow> (power_band \<times> nat) list" where
  "normalize_power_band index band =
    (if pb_start_min band < pb_end_min band then [(band, index)]
     else (band\<lparr>pb_end_min := 1440\<rparr>, index) #
          (if pb_end_min band > 0 then [(band\<lparr>pb_start_min := 0\<rparr>, index)] else []))"

definition normalize_power_bands :: "power_band list \<Rightarrow> (power_band \<times> nat) list" where
  "normalize_power_bands bands = concat (map (\<lambda>(i, b).
     if power_band_checks i b = [] then normalize_power_band i b else []) (enumerate_rows bands))"

definition power_row_issues :: "power_band list \<Rightarrow> band_issue list" where
  "power_row_issues bands =
    concat (map (\<lambda>(i, b). power_band_checks i b) (enumerate_rows bands))"

definition kiem_khung_gio_cong_suat :: "power_band list \<Rightarrow> band_issue list + power_band list" where
  "kiem_khung_gio_cong_suat bands =
    (let issues = power_row_issues bands;
         normalized = normalize_power_bands bands
     in if issues \<noteq> [] then Inl issues
        else
          let issues = cover_issues
                (map (\<lambda>(b, i). (pb_start_min b, pb_end_min b, i)) normalized)
          in if issues \<noteq> [] then Inl issues
             else Inr (map fst (sort_key (\<lambda>(b, _). pb_start_min b) normalized)))"

definition power_band_valid :: "power_band \<Rightarrow> bool" where
  "power_band_valid b \<longleftrightarrow> time_ok (pb_start_min b) (pb_end_min b)
    \<and> 0 < pb_power_limit_w b \<and> pb_power_limit_w b \<le> 2 ^ 63 - 1"

definition same_limit :: "power_band \<Rightarrow> power_band \<Rightarrow> bool" where
  "same_limit b c \<longleftrightarrow> pb_power_limit_w b = pb_power_limit_w c"

lemma power_band_checks_Nil [simp]: "power_band_checks i b = [] \<longleftrightarrow> power_band_valid b"
  by (auto simp: power_band_checks_def power_band_valid_def)

lemma power_row_issues_Nil:
  "power_row_issues bands = [] \<longleftrightarrow> (\<forall>b\<in>set bands. power_band_valid b)"
  unfolding power_row_issues_def
  by (induction bands rule: rev_induct) (auto simp: enumerate_rows_snoc)

interpretation power_bands: overnight_validator kiem_khung_gio_cong_suat pb_start_min pb_end_min
    same_limit power_band_valid normalize_power_band normalize_power_bands
proof unfold_locales
  fix bs :: "power_band list" and out :: "power_band list"
  show "kiem_khung_gio_cong_suat bs = Inr out \<longleftrightarrow> (\<forall>b\<in>set bs. power_band_valid b)
      \<and> cover_issues (map (\<lambda>(c, k). (pb_start_min c, pb_end_min c, k))
            (normalize_power_bands bs)) = []
      \<and> out = map fst (sort_key (\<lambda>(c, k). pb_start_min c) (normalize_power_bands bs))"
    unfolding kiem_khung_gio_cong_suat_def Let_def power_row_issues_Nil [symmetric] by auto
qed (auto simp: power_band_valid_def normalize_power_band_def split_overnight_def same_limit_def
      normalize_power_bands_def enumerate_rows_snoc split: if_splits)

section \<open>Properties\<close>

text \<open>
  A power schedule is accepted exactly when every row is well formed and every minute of the
  day has exactly one limit; the accepted schedule is contiguous over the day and gives every
  minute the limit of the row that covers it.
\<close>

theorem power_schedule_total:
  "(\<exists>out. kiem_khung_gio_cong_suat bands = Inr out
      \<and> contiguous pb_start_min pb_end_min 0 out
      \<and> (\<forall>m. 0 \<le> m \<longrightarrow> m < 1440 \<longrightarrow> (\<exists>c. find (\<lambda>c. pb_start_min c \<le> m \<and> m < pb_end_min c) out = Some c
           \<and> (\<exists>b\<in>set bands. covers (pb_start_min b) (pb_end_min b) m \<and> same_limit b c))))
    \<longleftrightarrow> (\<forall>b\<in>set bands. power_band_valid b)
      \<and> (\<forall>m. 0 \<le> m \<longrightarrow> m < 1440 \<longrightarrow>
           length (filter (\<lambda>b. covers (pb_start_min b) (pb_end_min b) m) bands) = 1)"
  unfolding power_bands.accepts_iff [symmetric]
  using power_bands.output_contiguous power_bands.lookup_total by blast

theorem power_schedule_total_witness:
  "\<exists>out. kiem_khung_gio_cong_suat
      [\<lparr>pb_start_min = 1080, pb_end_min = 360, pb_power_limit_w = 80000\<rparr>,
       \<lparr>pb_start_min = 360, pb_end_min = 1080, pb_power_limit_w = 50000\<rparr>] = Inr out"
  using power_schedule_total [of "[\<lparr>pb_start_min = 1080, pb_end_min = 360, pb_power_limit_w = 80000\<rparr>,
       \<lparr>pb_start_min = 360, pb_end_min = 1080, pb_power_limit_w = 50000\<rparr>]"]
  by (auto simp: power_band_valid_def time_ok_def covers_def)

end
