(* ===== verification/Segmentation.thy ===== *)
theory Segmentation
  imports Money Day_Bands
begin

text \<open>
  src/src/modules/billing/segmentation.py: interpolation of the meter at a cut point, the cut of
  a charging session at midnights and price-band boundaries (\<open>chia_doan\<close>), and the grouping
  of the resulting segments by local day (\<open>tinh_tien_theo_ngay\<close>).

  The time zone is a parameter: the tz database is data outside the repository.  A zone gives
  the local calendar date of an instant and the instant of a wall-clock time of a date.  The
  fields of a clock string \<open>HH:MM[:SS]\<close> are the list of its integers.  The code compares
  aware datetimes; the model compares instants, which agrees with Python for every zone whose
  wall clock increases with time (two datetimes of the same zone are compared by wall clock).
\<close>

section \<open>Zones\<close>

record zone =
  zone_date :: "instant \<Rightarrow> day"
  zone_combine :: "day \<Rightarrow> int \<Rightarrow> instant"

text \<open>The contract: days are consecutive half-open ranges, wall clocks increase within a day.\<close>

locale station_zone =
  fixes z :: "zone"
  assumes date_iff: "zone_date z t = d \<longleftrightarrow> zone_combine z d 0 \<le> t \<and> t < zone_combine z (d + 1) 0"
    and combine_mono: "0 \<le> s \<Longrightarrow> s \<le> s' \<Longrightarrow> s' \<le> 86400 \<Longrightarrow> zone_combine z d s \<le> zone_combine z d s'"
    and combine_next: "zone_combine z d 86400 = zone_combine z (d + 1) 0"
begin

lemma date_mono:
  assumes "t \<le> t'"
  shows "zone_date z t \<le> zone_date z t'"
proof (rule ccontr)
  define d d' where "d = zone_date z t" and "d' = zone_date z t'"
  assume "\<not> zone_date z t \<le> zone_date z t'"
  then have "d' + 1 \<le> d" by (simp add: d_def d'_def)
  have step: "zone_combine z k 0 \<le> zone_combine z (k + int n) 0" for k n
  proof (induction n)
    case (Suc n)
    have "zone_combine z (k + int n) 0 \<le> zone_combine z (k + int n + 1) 0"
      using combine_mono [of 0 86400 "k + int n"] combine_next by simp
    with Suc show ?case by (simp add: add.assoc [symmetric] add.commute [of 1])
  qed simp
  have "zone_combine z (d' + 1) 0 \<le> zone_combine z d 0"
    using step [of "d' + 1" "nat (d - (d' + 1))"] \<open>d' + 1 \<le> d\<close> by simp
  moreover have "zone_combine z d 0 \<le> t" "t' < zone_combine z (d' + 1) 0"
    using date_iff [of t d] date_iff [of t' d'] by (simp_all add: d_def d'_def)
  ultimately show False using assms by simp
qed

end

text \<open>A zone with a constant offset, such as the default \<open>Asia/Ho_Chi_Minh\<close> (UTC+7).\<close>

definition fixed_zone :: "int \<Rightarrow> zone" where
  "fixed_zone off = \<lparr>zone_date = (\<lambda>t. (t + off) div DAY_US),
     zone_combine = (\<lambda>d s. d * DAY_US + s * 1000000 - off)\<rparr>"

interpretation fixed: station_zone "fixed_zone off" for off
proof unfold_locales
  fix t :: instant and d :: day
  have "(t + off) div DAY_US = d \<longleftrightarrow> d * DAY_US \<le> t + off \<and> t + off < (d + 1) * DAY_US"
    using div_mult_mod_eq [of "t + off" DAY_US] pos_mod_bound [of DAY_US "t + off"]
      pos_mod_sign [of DAY_US "t + off"] by (auto simp: algebra_simps)
  then show "zone_date (fixed_zone off) t = d \<longleftrightarrow>
      zone_combine (fixed_zone off) d 0 \<le> t \<and> t < zone_combine (fixed_zone off) (d + 1) 0"
    by (auto simp: fixed_zone_def)
qed (simp_all add: fixed_zone_def algebra_simps)

section \<open>Meter readings\<close>

record meter_value =
  mv_timestamp :: instant
  mv_energy_wh :: decimal

definition interp_between :: "meter_value \<Rightarrow> meter_value \<Rightarrow> instant \<Rightarrow> exn + decimal \<times> bool" where
  "interp_between point_a point_b target_time =
    (let e_a = mv_energy_wh point_a; e_b = mv_energy_wh point_b in
     if e_b < e_a then Inl ValueError
     else
       let elapsed = target_time - mv_timestamp point_a;
           duration = mv_timestamp point_b - mv_timestamp point_a;
           interpolated = e_a + (e_b - e_a) * (of_int elapsed / of_int duration);
           (numerator, denominator) = quotient_of interpolated;
           value = of_int (half_up_ratio numerator denominator)
       in Inr (min e_b (max e_a value), True))"

fun interp_scan ::
  "instant \<Rightarrow> meter_value \<Rightarrow> meter_value list \<Rightarrow> exn + decimal \<times> bool" where
  "interp_scan target_time prev [] = Inl ValueError"
| "interp_scan target_time prev (mv # rest) =
    (if mv_timestamp mv = target_time then Inr (mv_energy_wh mv, False)
     else if mv_timestamp mv > target_time then interp_between prev mv target_time
     else interp_scan target_time mv rest)"

text \<open>The element before index 0 is \<open>meter_values[-1]\<close>, the last one, as in Python.\<close>

definition interpolate_meter_value :: "instant \<Rightarrow> meter_value list \<Rightarrow> exn + decimal \<times> bool" where
  "interpolate_meter_value target_time meter_values =
    (if meter_values = [] then Inl ValueError
     else if target_time < mv_timestamp (hd meter_values)
           \<or> target_time > mv_timestamp (last meter_values) then Inl ValueError
     else interp_scan target_time (last meter_values) meter_values)"

section \<open>Cutting a session\<close>

record tariff_frame =
  frame_start_time :: "int list"
  frame_end_time :: "int list"
  frame_price_vnd_per_kwh :: vnd
  frame_tariff_version :: uuid
  frame_label :: string

definition clock_fields :: "int list \<Rightarrow> exn + int \<times> int \<times> int" where
  "clock_fields parts =
    (if length parts < 2 then Inl IndexError
     else Inr (parts ! 0, parts ! 1, if length parts > 2 then parts ! 2 else 0))"

definition wall_seconds :: "int \<times> int \<times> int \<Rightarrow> exn + int" where
  "wall_seconds = (\<lambda>(h, m, s).
     if 0 \<le> h \<and> h < 24 \<and> 0 \<le> m \<and> m < 60 \<and> 0 \<le> s \<and> s < 60
     then Inr (h * 3600 + m * 60 + s) else Inl ValueError)"

definition frame_bounds :: "zone \<Rightarrow> day \<Rightarrow> tariff_frame \<Rightarrow> exn + instant \<times> instant" where
  "frame_bounds tz d tf =
    res_bind (clock_fields (frame_start_time tf)) (\<lambda>st.
    res_bind (clock_fields (frame_end_time tf)) (\<lambda>et.
    res_bind (wall_seconds st) (\<lambda>st_s.
      let st_dt = zone_combine tz d st_s in
      if fst et = 24 then Inr (st_dt, zone_combine tz (d + 1) 0)
      else res_bind (wall_seconds et) (\<lambda>et_s. Inr (st_dt, zone_combine tz d et_s)))))"

type_synonym frame_table = "day \<Rightarrow> tariff_frame list option"

definition frames_of :: "frame_table \<Rightarrow> day \<Rightarrow> tariff_frame list" where
  "frames_of tariffs d = (case tariffs d of None \<Rightarrow> [] | Some fs \<Rightarrow> fs)"

definition day_cuts ::
  "zone \<Rightarrow> frame_table \<Rightarrow> instant \<Rightarrow> instant \<Rightarrow> day \<Rightarrow> exn + instant list" where
  "day_cuts tz tariffs s e d =
    res_bind (res_map (frame_bounds tz d) (frames_of tariffs d)) (\<lambda>bounds.
      Inr (filter (\<lambda>p. s < p \<and> p < e)
        (zone_combine tz d 0 # concat (map (\<lambda>(st, et). [st, et]) bounds))))"

definition cut_points ::
  "zone \<Rightarrow> frame_table \<Rightarrow> instant \<Rightarrow> instant \<Rightarrow> exn + instant list" where
  "cut_points tz tariffs s e =
    res_bind (res_map (day_cuts tz tariffs s e) [zone_date tz s..zone_date tz e]) (\<lambda>cuts.
      Inr (sort (remdups ([s, e] @ concat cuts))))"

fun applied_tariff ::
  "zone \<Rightarrow> day \<Rightarrow> instant \<Rightarrow> tariff_frame list \<Rightarrow> exn + tariff_frame option" where
  "applied_tariff tz d mid [] = Inr None"
| "applied_tariff tz d mid (tf # tfs) =
    res_bind (frame_bounds tz d tf) (\<lambda>(st, et).
      if st \<le> mid \<and> mid < et then Inr (Some tf) else applied_tariff tz d mid tfs)"

text \<open>\<open>timedelta / 2\<close> rounds half a microsecond to even.\<close>

definition half_even :: "int \<Rightarrow> int" where
  "half_even n = (if even n then n div 2
     else let q = n div 2 in if even q then q else q + 1)"

record segment =
  seg_local_date :: day
  seg_start_time :: instant
  seg_end_time :: instant
  seg_energy_wh :: decimal
  seg_price_vnd_per_kwh :: vnd
  seg_amount_vnd :: vnd
  seg_tariff_version :: uuid
  seg_frame_label :: string
  seg_start_interpolated :: bool
  seg_end_interpolated :: bool

definition make_segment ::
  "zone \<Rightarrow> frame_table \<Rightarrow> meter_value list \<Rightarrow> instant \<times> instant \<Rightarrow> exn + segment list" where
  "make_segment tz tariffs meter_values = (\<lambda>(seg_start, seg_end).
    let mid_point = seg_start + half_even (seg_end - seg_start);
        d = zone_date tz mid_point in
    res_bind (applied_tariff tz d mid_point (frames_of tariffs d)) (\<lambda>applied.
      case applied of
        None \<Rightarrow> Inr []
      | Some tf \<Rightarrow>
          res_bind (interpolate_meter_value seg_start meter_values) (\<lambda>(start_wh, start_interp).
          res_bind (interpolate_meter_value seg_end meter_values) (\<lambda>(end_wh, end_interp).
            let consumed = end_wh - start_wh in
            if consumed < 0 then Inl ValueError
            else if consumed = 0 then Inr []
            else
              res_bind (tien_dong (PyDecimal consumed) (PyInt (frame_price_vnd_per_kwh tf)))
                (\<lambda>amount. Inr [\<lparr>seg_local_date = d, seg_start_time = seg_start,
                   seg_end_time = seg_end, seg_energy_wh = consumed,
                   seg_price_vnd_per_kwh = frame_price_vnd_per_kwh tf, seg_amount_vnd = amount,
                   seg_tariff_version = frame_tariff_version tf,
                   seg_frame_label = frame_label tf,
                   seg_start_interpolated = start_interp,
                   seg_end_interpolated = end_interp\<rparr>])))))"

definition chia_doan ::
  "instant \<Rightarrow> instant \<Rightarrow> meter_value list \<Rightarrow> frame_table \<Rightarrow> zone \<Rightarrow> exn + segment list" where
  "chia_doan session_start session_end meter_values tariffs tz =
    (if session_start \<ge> session_end then Inr []
     else
       res_bind (cut_points tz tariffs session_start session_end) (\<lambda>sorted_points.
       res_bind (res_map (make_segment tz tariffs meter_values) (pairs sorted_points))
         (\<lambda>segments. Inr (concat segments))))"

section \<open>Grouping by day\<close>

record day_total =
  dt_segments :: "segment list"
  dt_total_energy_wh :: decimal
  dt_total_amount_vnd :: vnd

fun add_to_day :: "segment \<Rightarrow> (day \<times> day_total) list \<Rightarrow> (day \<times> day_total) list" where
  "add_to_day seg [] = [(seg_local_date seg, \<lparr>dt_segments = [seg],
     dt_total_energy_wh = seg_energy_wh seg, dt_total_amount_vnd = seg_amount_vnd seg\<rparr>)]"
| "add_to_day seg ((d, t) # rest) =
    (if d = seg_local_date seg
     then (d, \<lparr>dt_segments = dt_segments t @ [seg],
               dt_total_energy_wh = dt_total_energy_wh t + seg_energy_wh seg,
               dt_total_amount_vnd = dt_total_amount_vnd t + seg_amount_vnd seg\<rparr>) # rest
     else (d, t) # add_to_day seg rest)"

definition tinh_tien_theo_ngay ::
  "instant \<Rightarrow> instant \<Rightarrow> meter_value list \<Rightarrow> frame_table \<Rightarrow> zone
   \<Rightarrow> exn + (day \<times> day_total) list" where
  "tinh_tien_theo_ngay session_start session_end meter_values tariffs tz =
    res_bind (chia_doan session_start session_end meter_values tariffs tz) (\<lambda>segments.
      Inr (foldl (\<lambda>result seg. add_to_day seg result) [] segments))"

section \<open>Interpolation is total and monotone on ordered readings\<close>

definition reading_le :: "meter_value \<Rightarrow> meter_value \<Rightarrow> bool" where
  "reading_le a b \<longleftrightarrow> mv_timestamp a < mv_timestamp b \<and> mv_energy_wh a \<le> mv_energy_wh b"

definition readings_ok :: "meter_value list \<Rightarrow> bool" where
  "readings_ok mvs \<longleftrightarrow> mvs \<noteq> [] \<and> sorted_wrt reading_le mvs"

lemma half_up_quotient:
  "quotient_of x = (n, d) \<Longrightarrow> half_up_ratio n d = round_half_up x"
  using half_up_ratio_eq quotient_of_ratio by metis

lemma interp_between_eq:
  assumes "mv_energy_wh a \<le> mv_energy_wh b"
  shows "interp_between a b t = Inr (min (mv_energy_wh b) (max (mv_energy_wh a)
    (of_int (round_half_up (mv_energy_wh a + (mv_energy_wh b - mv_energy_wh a) *
      (of_int (t - mv_timestamp a) / of_int (mv_timestamp b - mv_timestamp a)))))), True)"
  using assms
  by (simp add: interp_between_def Let_def half_up_quotient split: prod.splits)

lemma interp_between_mono:
  assumes "reading_le a b" and "t \<le> t'"
    and "interp_between a b t = Inr (v, i)" and "interp_between a b t' = Inr (v', i')"
  shows "v \<le> v'"
proof -
  let ?f = "\<lambda>t. mv_energy_wh a + (mv_energy_wh b - mv_energy_wh a) *
      (rat_of_int (t - mv_timestamp a) / rat_of_int (mv_timestamp b - mv_timestamp a))"
  have "?f t \<le> ?f t'"
    using assms(1,2)
    by (intro add_left_mono mult_left_mono divide_right_mono) (auto simp: reading_le_def)
  then have "rat_of_int (round_half_up (?f t)) \<le> rat_of_int (round_half_up (?f t'))"
    using round_half_up_mono by simp
  with assms(1,3,4) show ?thesis
    by (auto simp: interp_between_eq reading_le_def intro: min.mono max.mono)
qed

lemma interp_between_range:
  assumes "reading_le a b" and "interp_between a b t = Inr (v, i)"
  shows "mv_energy_wh a \<le> v" and "v \<le> mv_energy_wh b"
  using assms by (auto simp: interp_between_eq reading_le_def)

lemma interp_scan_total:
  assumes "sorted_wrt reading_le (prev # rest)" and "rest \<noteq> []"
    and "mv_timestamp prev < t" and "t \<le> mv_timestamp (last rest)"
  shows "\<exists>v i. interp_scan t prev rest = Inr (v, i) \<and> mv_energy_wh prev \<le> v
    \<and> v \<le> mv_energy_wh (last rest)"
  using assms
proof (induction rest arbitrary: prev)
  case (Cons mv rest)
  have pm: "reading_le prev mv" using Cons.prems(1) by simp
  have last: "mv_energy_wh mv \<le> mv_energy_wh (last (mv # rest))"
    using Cons.prems(1) by (cases rest rule: rev_cases) (auto simp: sorted_wrt_append reading_le_def)
  consider "mv_timestamp mv = t" | "t < mv_timestamp mv" | "mv_timestamp mv < t" by linarith
  then show ?case
  proof cases
    case 1
    with pm last show ?thesis by (auto simp: reading_le_def)
  next
    case 2
    obtain v i where v: "interp_between prev mv t = Inr (v, i)"
      using pm by (auto simp: interp_between_eq reading_le_def)
    with 2 interp_between_range [OF pm v] last show ?thesis by auto
  next
    case 3
    with Cons.prems have "rest \<noteq> []" by auto
    then have "\<exists>v i. interp_scan t mv rest = Inr (v, i) \<and> mv_energy_wh mv \<le> v
        \<and> v \<le> mv_energy_wh (last rest)"
      using Cons.IH [of mv] Cons.prems 3 by auto
    with 3 pm \<open>rest \<noteq> []\<close> show ?thesis by (auto simp: reading_le_def)
  qed
qed simp

lemma interp_scan_mono:
  assumes "sorted_wrt reading_le (prev # rest)"
    and "mv_timestamp prev < t" and "t \<le> t'"
    and "interp_scan t prev rest = Inr (v, i)" and "interp_scan t' prev rest = Inr (v', i')"
    and "t' \<le> mv_timestamp (last rest)" and "rest \<noteq> []"
  shows "v \<le> v'"
  using assms
proof (induction rest arbitrary: prev)
  case (Cons mv rest)
  have pm: "reading_le prev mv" using Cons.prems(1) by simp
  show ?case
  proof (cases "mv_timestamp mv < t'")
    case True
    with Cons.prems have ne: "rest \<noteq> []" by auto
    then have v': "mv_energy_wh mv \<le> v'"
      using interp_scan_total [of mv rest t'] Cons.prems True by auto
    show ?thesis
    proof (cases "mv_timestamp mv < t")
      case True
      with Cons ne show ?thesis by auto
    next
      case False
      then have "v \<le> mv_energy_wh mv"
        using Cons.prems(4) interp_between_range [OF pm] by (auto split: if_splits)
      with v' show ?thesis by simp
    qed
  next
    case False
    then show ?thesis
      using Cons.prems interp_between_mono [OF pm, of t t'] interp_between_range [OF pm]
      by (auto split: if_splits)
  qed
qed simp

definition meter_at :: "meter_value list \<Rightarrow> instant \<Rightarrow> decimal" where
  "meter_at mvs t = (case interpolate_meter_value t mvs of Inr (v, _) \<Rightarrow> v | Inl _ \<Rightarrow> 0)"

abbreviation within_readings :: "meter_value list \<Rightarrow> instant \<Rightarrow> bool" where
  "within_readings mvs t \<equiv> mv_timestamp (hd mvs) \<le> t \<and> t \<le> mv_timestamp (last mvs)"

lemma interpolate_Cons:
  assumes "readings_ok (m # rest)" and "within_readings (m # rest) t"
  shows "interpolate_meter_value t (m # rest) =
    (if t = mv_timestamp m then Inr (mv_energy_wh m, False) else interp_scan t m rest)"
  using assms by (auto simp: interpolate_meter_value_def)

lemma interpolate_total:
  assumes "readings_ok mvs" and "within_readings mvs t"
  obtains i where "interpolate_meter_value t mvs = Inr (meter_at mvs t, i)"
    and "mv_energy_wh (hd mvs) \<le> meter_at mvs t"
proof -
  obtain m rest where mvs: "mvs = m # rest"
    using assms(1) by (cases mvs) (auto simp: readings_ok_def)
  have "\<exists>v i. interpolate_meter_value t mvs = Inr (v, i) \<and> mv_energy_wh m \<le> v"
  proof (cases "t = mv_timestamp m")
    case False
    with assms mvs have "rest \<noteq> []" by auto
    with False assms mvs show ?thesis
      using interp_scan_total [of m rest t]
      by (auto simp: interpolate_Cons readings_ok_def)
  qed (use assms mvs in \<open>auto simp: interpolate_Cons\<close>)
  then show ?thesis using that mvs by (auto simp: meter_at_def)
qed

lemma meter_at_mono:
  assumes "readings_ok mvs" and "within_readings mvs t" and "within_readings mvs t'" and "t \<le> t'"
  shows "meter_at mvs t \<le> meter_at mvs t'"
proof -
  obtain m rest where mvs: "mvs = m # rest"
    using assms(1) by (cases mvs) (auto simp: readings_ok_def)
  obtain i i' where i: "interpolate_meter_value t mvs = Inr (meter_at mvs t, i)"
      "interpolate_meter_value t' mvs = Inr (meter_at mvs t', i')"
      "mv_energy_wh m \<le> meter_at mvs t'"
    using interpolate_total assms mvs by (metis list.sel(1))
  show ?thesis
  proof (cases "t = mv_timestamp m")
    case True
    with i assms(1,2) mvs show ?thesis by (simp add: interpolate_Cons)
  next
    case False
    with assms mvs have "rest \<noteq> []" by auto
    with False i assms mvs show ?thesis
      using interp_scan_mono [of m rest t t']
      by (auto simp: interpolate_Cons readings_ok_def)
  qed
qed

lemma interp_scan_last:
  assumes "sorted_wrt reading_le (prev # rest)" and "rest \<noteq> []"
  shows "interp_scan (mv_timestamp (last rest)) prev rest = Inr (mv_energy_wh (last rest), False)"
  using assms
proof (induction rest arbitrary: prev)
  case (Cons mv rest)
  then show ?case
    by (cases "rest = []") (auto simp: reading_le_def dest: bspec [OF _ last_in_set])
qed simp

lemma meter_at_ends:
  assumes "readings_ok mvs"
  shows "meter_at mvs (mv_timestamp (hd mvs)) = mv_energy_wh (hd mvs)"
    and "meter_at mvs (mv_timestamp (last mvs)) = mv_energy_wh (last mvs)"
proof -
  obtain m rest where mvs: "mvs = m # rest"
    using assms by (cases mvs) (auto simp: readings_ok_def)
  have le: "mv_timestamp m \<le> mv_timestamp (last mvs)"
    using assms unfolding mvs readings_ok_def
    by (cases "rest = []") (auto simp: reading_le_def dest: bspec [OF _ last_in_set])
  then show "meter_at mvs (mv_timestamp (hd mvs)) = mv_energy_wh (hd mvs)"
    using assms mvs by (simp add: meter_at_def interpolate_Cons)
  show "meter_at mvs (mv_timestamp (last mvs)) = mv_energy_wh (last mvs)"
  proof (cases "rest = []")
    case True
    with assms mvs show ?thesis by (simp add: meter_at_def interpolate_Cons)
  next
    case False
    then have "mv_timestamp m < mv_timestamp (last rest)"
      using assms mvs by (auto simp: readings_ok_def reading_le_def)
    with False le assms mvs interp_scan_last [of m rest] show ?thesis
      by (simp add: meter_at_def interpolate_Cons readings_ok_def)
  qed
qed

section \<open>Frames of a validated tariff\<close>

definition frame_st :: "tariff_frame \<Rightarrow> int" where
  "frame_st f = (case frame_start_time f of h # m # _ \<Rightarrow> h * 60 + m | _ \<Rightarrow> 0)"

definition frame_en :: "tariff_frame \<Rightarrow> int" where
  "frame_en f = (case frame_end_time f of h # m # _ \<Rightarrow> h * 60 + m | _ \<Rightarrow> 0)"

text \<open>
  The frames of one day: printed by \<open>_clock\<close> from contiguous bands that cover
  minute 0 to minute 1440.
\<close>

definition day_frames :: "tariff_frame list \<Rightarrow> bool" where
  "day_frames fs \<longleftrightarrow> contiguous frame_st frame_en 0 fs \<and>
    (\<forall>f\<in>set fs. frame_start_time f = clock_hm (frame_st f)
      \<and> frame_end_time f = clock_hm (frame_en f))"

lemma contiguous_le: "contiguous st en a fs \<Longrightarrow> a \<le> 1440"
  by (induction fs arbitrary: a) fastforce+

lemma contiguous_range:
  "contiguous st en a fs \<Longrightarrow> f \<in> set fs \<Longrightarrow> a \<le> st f \<and> st f < en f \<and> en f \<le> 1440"
proof (induction fs arbitrary: a)
  case (Cons g gs)
  have "en g \<le> 1440"
    using Cons.prems(1) contiguous_le by fastforce
  with Cons show ?case by fastforce
qed simp

lemma wall_seconds_minute:
  assumes "0 \<le> m" and "m < 1440"
  shows "wall_seconds (m div 60, m mod 60, 0) = Inr (m * 60)"
proof -
  have "m div 60 * 3600 + m mod 60 * 60 = m * 60"
    using div_mult_mod_eq [of m 60] by linarith
  moreover have "0 \<le> m div 60" "m div 60 < 24" using assms by presburger+
  ultimately show ?thesis by (simp add: wall_seconds_def)
qed

context station_zone
begin

lemma frame_bounds_clock:
  assumes "frame_start_time f = clock_hm s" and "frame_end_time f = clock_hm e"
    and "0 \<le> s" and "s < e" and "e \<le> 1440"
  shows "frame_bounds z d f = Inr (zone_combine z d (s * 60), zone_combine z d (e * 60))"
proof -
  have s: "wall_seconds (s div 60, s mod 60, 0) = Inr (s * 60)"
    using assms by (intro wall_seconds_minute) auto
  show ?thesis
  proof (cases "e = 1440")
    case True
    then show ?thesis
      using assms s combine_next by (simp add: frame_bounds_def clock_fields_def clock_hm_def)
  next
    case False
    then have "wall_seconds (e div 60, e mod 60, 0) = Inr (e * 60)" and "e div 60 \<noteq> 24"
      using assms by (auto intro: wall_seconds_minute)
    then show ?thesis
      using assms s by (simp add: frame_bounds_def clock_fields_def clock_hm_def)
  qed
qed

lemma frame_bounds_day:
  assumes "day_frames fs" and "f \<in> set fs"
  shows "frame_bounds z d f =
    Inr (zone_combine z d (frame_st f * 60), zone_combine z d (frame_en f * 60))"
  using assms contiguous_range [of frame_st frame_en 0 fs f]
  by (intro frame_bounds_clock) (auto simp: day_frames_def)

lemma applied_total_from:
  assumes "contiguous frame_st frame_en a fs"
    and "\<forall>f\<in>set fs. frame_bounds z d f =
      Inr (zone_combine z d (frame_st f * 60), zone_combine z d (frame_en f * 60))"
    and "zone_combine z d (a * 60) \<le> t" and "t < zone_combine z d 86400"
  shows "\<exists>f\<in>set fs. applied_tariff z d t fs = Inr (Some f)
    \<and> zone_combine z d (frame_st f * 60) \<le> t \<and> t < zone_combine z d (frame_en f * 60)"
  using assms
proof (induction fs arbitrary: a)
  case (Cons f fs)
  show ?case
  proof (cases "t < zone_combine z d (frame_en f * 60)")
    case True
    with Cons.prems show ?thesis by auto
  next
    case False
    with Cons.prems have "\<exists>g\<in>set fs. applied_tariff z d t fs = Inr (Some g)
        \<and> zone_combine z d (frame_st g * 60) \<le> t \<and> t < zone_combine z d (frame_en g * 60)"
      by (intro Cons.IH [of "frame_en f"]) auto
    with False Cons.prems(2) show ?thesis by auto
  qed
qed simp

lemma applied_total:
  assumes "day_frames fs" and "zone_date z t = d"
  obtains f where "f \<in> set fs" and "applied_tariff z d t fs = Inr (Some f)"
    and "zone_combine z d (frame_st f * 60) \<le> t" and "t < zone_combine z d (frame_en f * 60)"
  using applied_total_from [of 0 fs d t] assms date_iff [of t d] combine_next [of d]
    frame_bounds_day [OF assms(1)]
  by (auto simp: day_frames_def)

text \<open>Two instants that no frame boundary separates are priced by the same frame.\<close>

lemma applied_cong:
  assumes "\<forall>f\<in>set fs. frame_bounds z d f =
      Inr (zone_combine z d (frame_st f * 60), zone_combine z d (frame_en f * 60))"
    and "\<And>f. f \<in> set fs \<Longrightarrow>
      (zone_combine z d (frame_st f * 60) \<le> t \<and> t < zone_combine z d (frame_en f * 60)) \<longleftrightarrow>
      (zone_combine z d (frame_st f * 60) \<le> t' \<and> t' < zone_combine z d (frame_en f * 60))"
  shows "applied_tariff z d t fs = applied_tariff z d t' fs"
  using assms by (induction fs) auto

end

section \<open>Cut points\<close>

definition tariffs_ok :: "frame_table \<Rightarrow> day \<Rightarrow> day \<Rightarrow> bool" where
  "tariffs_ok tariffs lo hi \<longleftrightarrow>
    (\<forall>d. frames_of tariffs d = [] \<or> day_frames (frames_of tariffs d)) \<and>
    (\<forall>d. lo \<le> d \<longrightarrow> d \<le> hi \<longrightarrow> day_frames (frames_of tariffs d))"

definition all_cuts :: "zone \<Rightarrow> frame_table \<Rightarrow> instant \<Rightarrow> instant \<Rightarrow> day \<Rightarrow> instant list" where
  "all_cuts tz tariffs s e d = filter (\<lambda>p. s < p \<and> p < e)
    (zone_combine tz d 0 # concat (map (\<lambda>f. [zone_combine tz d (frame_st f * 60),
       zone_combine tz d (frame_en f * 60)]) (frames_of tariffs d)))"

definition cut_list :: "zone \<Rightarrow> frame_table \<Rightarrow> instant \<Rightarrow> instant \<Rightarrow> instant list" where
  "cut_list tz tariffs s e = sort (remdups ([s, e] @
    concat (map (all_cuts tz tariffs s e) [zone_date tz s..zone_date tz e])))"

lemma half_even_range: "0 < n \<Longrightarrow> 0 \<le> half_even n \<and> half_even n < n"
  unfolding half_even_def Let_def by presburger

lemma hd_sorted_least:
  fixes xs :: "'a::linorder list"
  assumes "sorted xs" and "x \<in> set xs" and "\<And>y. y \<in> set xs \<Longrightarrow> x \<le> y"
  shows "hd xs = x"
  using assms by (cases xs) (auto intro: antisym)

lemma last_sorted_greatest:
  fixes xs :: "'a::linorder list"
  assumes "sorted xs" and "x \<in> set xs" and "\<And>y. y \<in> set xs \<Longrightarrow> y \<le> x"
  shows "last xs = x"
  using assms by (cases xs rule: rev_cases) (auto simp: sorted_append intro: antisym)

lemma set_cut_list:
  "set (cut_list tz tariffs s e) =
    {s, e} \<union> (\<Union>d\<in>{zone_date tz s..zone_date tz e}. set (all_cuts tz tariffs s e d))"
  by (simp only: cut_list_def set_sort set_remdups) auto

lemma cut_list_sorted: "sorted (cut_list tz tariffs s e)" "distinct (cut_list tz tariffs s e)"
  unfolding cut_list_def by (rule sorted_sort, simp only: distinct_sort distinct_remdups)

lemma cut_list_range: "s < e \<Longrightarrow> p \<in> set (cut_list tz tariffs s e) \<Longrightarrow> s \<le> p \<and> p \<le> e"
  unfolding set_cut_list by (auto simp: all_cuts_def split: if_splits)

lemma cut_list_ends:
  assumes "s < e"
  shows "hd (cut_list tz tariffs s e) = s" and "last (cut_list tz tariffs s e) = e"
    and "cut_list tz tariffs s e \<noteq> []"
proof -
  have mem: "s \<in> set (cut_list tz tariffs s e)" "e \<in> set (cut_list tz tariffs s e)"
    by (auto simp: set_cut_list)
  with cut_list_range [OF assms] cut_list_sorted(1)
  show "hd (cut_list tz tariffs s e) = s" "last (cut_list tz tariffs s e) = e"
    by (auto intro: hd_sorted_least last_sorted_greatest)
  show "cut_list tz tariffs s e \<noteq> []" using mem by auto
qed

lemma sum_pairs:
  fixes f :: "'a \<Rightarrow> 'b::ab_group_add"
  assumes "xs \<noteq> []"
  shows "(\<Sum>(a, b)\<leftarrow>pairs xs. f b - f a) = f (last xs) - f (hd xs)"
  using assms
proof (induction xs rule: induct_list012)
  case (3 x y zs)
  then show ?case by (simp add: pairs_Cons2)
qed auto

context station_zone
begin

lemma frame_bounds_ok:
  assumes "tariffs_ok tariffs lo hi" and "f \<in> set (frames_of tariffs d)"
  shows "frame_bounds z d f =
    Inr (zone_combine z d (frame_st f * 60), zone_combine z d (frame_en f * 60))"
proof -
  have "frames_of tariffs d \<noteq> []" using assms(2) by auto
  with assms(1) have "day_frames (frames_of tariffs d)" unfolding tariffs_ok_def by blast
  then show ?thesis using assms(2) by (rule frame_bounds_day)
qed

lemma cut_points_eq:
  assumes "tariffs_ok tariffs lo hi"
  shows "cut_points z tariffs s e = Inr (cut_list z tariffs s e)"
proof -
  have "day_cuts z tariffs s e d = Inr (all_cuts z tariffs s e d)" for d
  proof -
    have "res_map (frame_bounds z d) (frames_of tariffs d) =
        Inr (map (\<lambda>f. (zone_combine z d (frame_st f * 60), zone_combine z d (frame_en f * 60)))
          (frames_of tariffs d))"
      by (intro res_map_Inr frame_bounds_ok [OF assms])
    then show ?thesis by (simp add: day_cuts_def all_cuts_def comp_def)
  qed
  then show ?thesis
    unfolding cut_points_def cut_list_def by (subst res_map_Inr) auto
qed

text \<open>Between two consecutive cut points the local date does not change.\<close>

lemma cut_same_date:
  assumes "s < e" and pair: "(a, b) \<in> set (pairs (cut_list z tariffs s e))"
    and t: "a \<le> t" "t < b"
  shows "zone_date z t = zone_date z a"
proof (rule ccontr)
  assume "zone_date z t \<noteq> zone_date z a"
  with date_mono [OF t(1)] have less: "zone_date z a < zone_date z t" by simp
  let ?m = "zone_combine z (zone_date z t) 0"
  have "?m \<le> t" using date_iff [of t "zone_date z t"] by simp
  have "a < ?m"
  proof (rule ccontr)
    assume "\<not> a < ?m"
    then have "zone_date z ?m \<le> zone_date z a" using date_mono [of ?m a] by simp
    moreover have "?m < zone_combine z (zone_date z t + 1) 0"
      using \<open>?m \<le> t\<close> date_iff [of t "zone_date z t"] by simp
    then have "zone_date z ?m = zone_date z t" using date_iff [of ?m "zone_date z t"] by simp
    ultimately show False using less by simp
  qed
  have ab: "s \<le> a" "b \<le> e"
    using cut_list_range [OF assms(1)] pairs_less [OF cut_list_sorted pair] by auto
  then have "s < ?m" "?m < e" using \<open>a < ?m\<close> \<open>?m \<le> t\<close> t by auto
  moreover have "zone_date z s \<le> zone_date z t" "zone_date z t \<le> zone_date z e"
    using date_mono [of s t] date_mono [of t e] ab t by auto
  ultimately have "?m \<in> set (cut_list z tariffs s e)"
    unfolding set_cut_list by (auto simp: all_cuts_def intro!: bexI [of _ "zone_date z t"])
  from pairs_gap [OF cut_list_sorted(1) pair this] show False
    using \<open>a < ?m\<close> \<open>?m \<le> t\<close> t by auto
qed

text \<open>No frame boundary of that date lies strictly between them either.\<close>

lemma cut_no_boundary:
  assumes "s < e" and pair: "(a, b) \<in> set (pairs (cut_list z tariffs s e))"
    and f: "f \<in> set (frames_of tariffs (zone_date z a))"
    and p: "p = zone_combine z (zone_date z a) (frame_st f * 60) \<or>
      p = zone_combine z (zone_date z a) (frame_en f * 60)"
  shows "p \<le> a \<or> b \<le> p"
proof (rule ccontr)
  assume "\<not> (p \<le> a \<or> b \<le> p)"
  then have "a < p" "p < b" by auto
  have ab: "s \<le> a" "b \<le> e" "a < b"
    using cut_list_range [OF assms(1)] pairs_less [OF cut_list_sorted pair] by auto
  have "zone_date z s \<le> zone_date z a" "zone_date z a \<le> zone_date z e"
    using date_mono [of s a] date_mono [of a e] ab by auto
  moreover have "p \<in> set (all_cuts z tariffs s e (zone_date z a))"
    using p f ab \<open>a < p\<close> \<open>p < b\<close> by (auto simp: all_cuts_def)
  ultimately have "p \<in> set (cut_list z tariffs s e)"
    unfolding set_cut_list by auto
  from pairs_gap [OF cut_list_sorted(1) pair this] show False
    using \<open>a < p\<close> \<open>p < b\<close> by auto
qed

lemma cut_same_frame:
  assumes "s < e" and "tariffs_ok tariffs lo hi"
    and pair: "(a, b) \<in> set (pairs (cut_list z tariffs s e))"
    and t: "a \<le> t" "t < b" and t': "a \<le> t'" "t' < b"
  shows "applied_tariff z (zone_date z a) t (frames_of tariffs (zone_date z a))
    = applied_tariff z (zone_date z a) t' (frames_of tariffs (zone_date z a))"
proof (rule applied_cong)
  show "\<forall>f\<in>set (frames_of tariffs (zone_date z a)). frame_bounds z (zone_date z a) f =
      Inr (zone_combine z (zone_date z a) (frame_st f * 60),
           zone_combine z (zone_date z a) (frame_en f * 60))"
    using frame_bounds_ok [OF assms(2)] by blast
  fix f assume f: "f \<in> set (frames_of tariffs (zone_date z a))"
  show "(zone_combine z (zone_date z a) (frame_st f * 60) \<le> t
        \<and> t < zone_combine z (zone_date z a) (frame_en f * 60)) \<longleftrightarrow>
      (zone_combine z (zone_date z a) (frame_st f * 60) \<le> t'
        \<and> t' < zone_combine z (zone_date z a) (frame_en f * 60))"
    using cut_no_boundary [OF assms(1) pair f, of "zone_combine z (zone_date z a) (frame_st f * 60)"]
      cut_no_boundary [OF assms(1) pair f, of "zone_combine z (zone_date z a) (frame_en f * 60)"]
      t t' by linarith
qed

end

section \<open>Correctness of the cut\<close>

text \<open>What a segment says of the session it was cut from.\<close>

definition segment_ok ::
  "zone \<Rightarrow> frame_table \<Rightarrow> meter_value list \<Rightarrow> instant \<Rightarrow> instant \<Rightarrow> segment \<Rightarrow> bool" where
  "segment_ok tz tariffs mvs s e seg \<longleftrightarrow>
    s \<le> seg_start_time seg \<and> seg_start_time seg < seg_end_time seg \<and> seg_end_time seg \<le> e
    \<and> 0 < seg_energy_wh seg
    \<and> seg_energy_wh seg = meter_at mvs (seg_end_time seg) - meter_at mvs (seg_start_time seg)
    \<and> seg_amount_vnd seg
        = round_half_up (seg_energy_wh seg * of_int (seg_price_vnd_per_kwh seg) / 1000)
    \<and> (\<forall>t. seg_start_time seg \<le> t \<longrightarrow> t < seg_end_time seg \<longrightarrow>
        zone_date tz t = seg_local_date seg \<and>
        (\<exists>f. applied_tariff tz (seg_local_date seg) t (frames_of tariffs (seg_local_date seg))
            = Inr (Some f)
          \<and> frame_price_vnd_per_kwh f = seg_price_vnd_per_kwh seg
          \<and> frame_tariff_version f = seg_tariff_version seg))"

context station_zone
begin

lemma make_segment_ok:
  assumes "s < e" and tok: "tariffs_ok tariffs (zone_date z s) (zone_date z (e - 1))"
    and rok: "readings_ok mvs" and ends: "mv_timestamp (hd mvs) = s" "mv_timestamp (last mvs) = e"
    and pair: "(a, b) \<in> set (pairs (cut_list z tariffs s e))"
  shows "\<exists>segs. make_segment z tariffs mvs (a, b) = Inr segs
    \<and> (\<forall>seg\<in>set segs. segment_ok z tariffs mvs s e seg)
    \<and> sum_list (map seg_energy_wh segs) = meter_at mvs b - meter_at mvs a"
proof -
  have ab: "a < b" "s \<le> a" "b \<le> e"
    using cut_list_range [OF assms(1)] pairs_less [OF cut_list_sorted pair] by auto
  define mid where "mid = a + half_even (b - a)"
  have mid: "a \<le> mid" "mid < b"
    using half_even_range [of "b - a"] ab(1) by (auto simp: mid_def)
  have date: "zone_date z t = zone_date z a" if "a \<le> t" "t < b" for t
    using cut_same_date [OF assms(1) pair] that by blast
  have "zone_date z s \<le> zone_date z a" "zone_date z a \<le> zone_date z (e - 1)"
    using date_mono [of s a] date_mono [of a "e - 1"] ab by auto
  with tok have frames: "day_frames (frames_of tariffs (zone_date z a))"
    by (auto simp: tariffs_ok_def)
  obtain f where f: "applied_tariff z (zone_date z a) mid (frames_of tariffs (zone_date z a))
      = Inr (Some f)"
    using applied_total [OF frames date [OF mid]] by blast
  have all: "applied_tariff z (zone_date z a) t (frames_of tariffs (zone_date z a))
      = Inr (Some f)" if "a \<le> t" "t < b" for t
    using cut_same_frame [OF assms(1) tok pair that mid] f by simp
  have within: "within_readings mvs a" "within_readings mvs b" using ab ends by auto
  obtain i j where i: "interpolate_meter_value a mvs = Inr (meter_at mvs a, i)"
    and j: "interpolate_meter_value b mvs = Inr (meter_at mvs b, j)"
    using interpolate_total [OF rok within(1)] interpolate_total [OF rok within(2)] by metis
  have le: "meter_at mvs a \<le> meter_at mvs b"
    using meter_at_mono [OF rok within] ab(1) by simp
  define E where "E = meter_at mvs b - meter_at mvs a"
  have step: "make_segment z tariffs mvs (a, b) =
      (if E = 0 then Inr []
       else Inr [\<lparr>seg_local_date = zone_date z a, seg_start_time = a, seg_end_time = b,
         seg_energy_wh = E, seg_price_vnd_per_kwh = frame_price_vnd_per_kwh f,
         seg_amount_vnd = round_half_up (E * of_int (frame_price_vnd_per_kwh f) / 1000),
         seg_tariff_version = frame_tariff_version f, seg_frame_label = frame_label f,
         seg_start_interpolated = i, seg_end_interpolated = j\<rparr>])"
    using le f i j date [OF mid]
    by (simp add: make_segment_def Let_def E_def tien_dong_Decimal flip: mid_def)
  show ?thesis
  proof (cases "E = 0")
    case True
    with step show ?thesis by (simp add: E_def)
  next
    case False
    with le have "0 < E" by (simp add: E_def)
    then have "\<forall>seg\<in>set [\<lparr>seg_local_date = zone_date z a, seg_start_time = a, seg_end_time = b,
         seg_energy_wh = E, seg_price_vnd_per_kwh = frame_price_vnd_per_kwh f,
         seg_amount_vnd = round_half_up (E * of_int (frame_price_vnd_per_kwh f) / 1000),
         seg_tariff_version = frame_tariff_version f, seg_frame_label = frame_label f,
         seg_start_interpolated = i, seg_end_interpolated = j\<rparr>].
        segment_ok z tariffs mvs s e seg"
      unfolding segment_ok_def list.set ball_simps segment.simps
      using ab E_def all date by (intro conjI allI impI TrueI) blast+
    with False show ?thesis unfolding step by (simp add: E_def)
  qed
qed

lemma chia_doan_ok:
  assumes "s < e" and tok: "tariffs_ok tariffs (zone_date z s) (zone_date z (e - 1))"
    and rok: "readings_ok mvs" and ends: "mv_timestamp (hd mvs) = s" "mv_timestamp (last mvs) = e"
  shows "\<exists>segs. chia_doan s e mvs tariffs z = Inr segs
    \<and> (\<forall>seg\<in>set segs. segment_ok z tariffs mvs s e seg)
    \<and> sum_list (map seg_energy_wh segs) = mv_energy_wh (last mvs) - mv_energy_wh (hd mvs)"
proof -
  let ?ps = "pairs (cut_list z tariffs s e)"
  have "\<forall>p\<in>set ?ps. \<exists>segs. make_segment z tariffs mvs p = Inr segs
      \<and> (\<forall>seg\<in>set segs. segment_ok z tariffs mvs s e seg)
      \<and> sum_list (map seg_energy_wh segs) = (case p of (a, b) \<Rightarrow> meter_at mvs b - meter_at mvs a)"
    using make_segment_ok [OF assms] by auto
  then obtain g where g: "\<And>p. p \<in> set ?ps \<Longrightarrow> make_segment z tariffs mvs p = Inr (g p)
      \<and> (\<forall>seg\<in>set (g p). segment_ok z tariffs mvs s e seg)
      \<and> sum_list (map seg_energy_wh (g p))
        = (case p of (a, b) \<Rightarrow> meter_at mvs b - meter_at mvs a)"
    by metis
  then have map: "res_map (make_segment z tariffs mvs) ?ps = Inr (map g ?ps)"
    by (intro res_map_Inr) auto
  have sums: "sum_list (map seg_energy_wh (concat (map g ps)))
      = (\<Sum>p\<leftarrow>ps. sum_list (map seg_energy_wh (g p)))" for ps
    by (induction ps) auto
  have "(\<Sum>p\<leftarrow>?ps. sum_list (map seg_energy_wh (g p)))
      = (\<Sum>(a, b)\<leftarrow>?ps. meter_at mvs b - meter_at mvs a)"
    using g by (intro arg_cong [where f = sum_list] map_cong) auto
  also have "\<dots> = mv_energy_wh (last mvs) - mv_energy_wh (hd mvs)"
    using sum_pairs [OF cut_list_ends(3) [OF assms(1)], of "meter_at mvs" z tariffs]
      meter_at_ends [OF rok] ends
    by (simp add: cut_list_ends [OF assms(1)])
  finally have total: "sum_list (map seg_energy_wh (concat (map g ?ps)))
      = mv_energy_wh (last mvs) - mv_energy_wh (hd mvs)"
    unfolding sums .
  moreover have "chia_doan s e mvs tariffs z = Inr (concat (map g ?ps))"
    using assms(1) map by (simp add: chia_doan_def cut_points_eq [OF tok])
  ultimately show ?thesis using g by fastforce
qed

end

section \<open>Grouping by day keeps every segment once\<close>

definition group_ok :: "segment list \<Rightarrow> (day \<times> day_total) list \<Rightarrow> bool" where
  "group_ok segs result \<longleftrightarrow> distinct (map fst result)
    \<and> set (map fst result) = seg_local_date ` set segs
    \<and> (\<forall>(d, t)\<in>set result. dt_segments t = filter (\<lambda>s. seg_local_date s = d) segs
         \<and> dt_total_energy_wh t = (\<Sum>s\<leftarrow>dt_segments t. seg_energy_wh s)
         \<and> dt_total_amount_vnd t = (\<Sum>s\<leftarrow>dt_segments t. seg_amount_vnd s))"

lemma add_to_day_keys:
  "map fst (add_to_day seg r) =
    (if seg_local_date seg \<in> fst ` set r then map fst r else map fst r @ [seg_local_date seg])"
  by (induction seg r rule: add_to_day.induct) auto

lemma add_to_day_old:
  "(d, t) \<in> set (add_to_day seg r) \<Longrightarrow> d \<noteq> seg_local_date seg \<Longrightarrow> (d, t) \<in> set r"
  by (induction seg r rule: add_to_day.induct) (auto split: if_splits)

lemma add_to_day_same:
  assumes "(d, t) \<in> set (add_to_day seg r)" and "d = seg_local_date seg" and "distinct (map fst r)"
  shows "(d \<notin> fst ` set r \<and> t = \<lparr>dt_segments = [seg], dt_total_energy_wh = seg_energy_wh seg,
        dt_total_amount_vnd = seg_amount_vnd seg\<rparr>)
    \<or> (\<exists>t0. (d, t0) \<in> set r \<and> t = \<lparr>dt_segments = dt_segments t0 @ [seg],
        dt_total_energy_wh = dt_total_energy_wh t0 + seg_energy_wh seg,
        dt_total_amount_vnd = dt_total_amount_vnd t0 + seg_amount_vnd seg\<rparr>)"
  using assms
  by (induction seg r rule: add_to_day.induct) (force split: if_splits)+

lemma add_to_day_ok:
  assumes "group_ok segs r"
  shows "group_ok (segs @ [seg]) (add_to_day seg r)"
proof -
  have keys: "distinct (map fst r)" "fst ` set r = seg_local_date ` set segs"
    using assms by (auto simp: group_ok_def)
  have old: "dt_segments t = filter (\<lambda>s. seg_local_date s = d) segs
      \<and> dt_total_energy_wh t = (\<Sum>s\<leftarrow>dt_segments t. seg_energy_wh s)
      \<and> dt_total_amount_vnd t = (\<Sum>s\<leftarrow>dt_segments t. seg_amount_vnd s)" if "(d, t) \<in> set r" for d t
    using assms that by (auto simp: group_ok_def)
  have none: "filter (\<lambda>s. seg_local_date s = d) segs = []" if "d \<notin> fst ` set r" for d
    using that keys(2) by (auto simp: filter_empty_conv)
  have "distinct (map fst (add_to_day seg r))"
    "set (map fst (add_to_day seg r)) = seg_local_date ` set (segs @ [seg])"
    unfolding add_to_day_keys using keys by auto
  moreover have "dt_segments t = filter (\<lambda>s. seg_local_date s = d) (segs @ [seg])
      \<and> dt_total_energy_wh t = (\<Sum>s\<leftarrow>dt_segments t. seg_energy_wh s)
      \<and> dt_total_amount_vnd t = (\<Sum>s\<leftarrow>dt_segments t. seg_amount_vnd s)"
    if "(d, t) \<in> set (add_to_day seg r)" for d t
  proof (cases "d = seg_local_date seg")
    case True
    with add_to_day_same [OF that True keys(1)] show ?thesis
      by (auto simp: old none)
  next
    case False
    with old [OF add_to_day_old [OF that False]] show ?thesis by simp
  qed
  ultimately show ?thesis unfolding group_ok_def by blast
qed

lemma group_foldl:
  "group_ok old r \<Longrightarrow> group_ok (old @ segs) (foldl (\<lambda>result seg. add_to_day seg result) r segs)"
proof (induction segs arbitrary: old r)
  case (Cons seg segs)
  from Cons.IH [OF add_to_day_ok [OF Cons.prems]] show ?case by simp
qed simp

section \<open>Properties\<close>


definition example_frames :: frame_table where
  "example_frames d = Some [\<lparr>frame_start_time = [0, 0], frame_end_time = [22, 0],
      frame_price_vnd_per_kwh = 3500, frame_tariff_version = 1, frame_label = ''day''\<rparr>,
    \<lparr>frame_start_time = [22, 0], frame_end_time = [24, 0],
      frame_price_vnd_per_kwh = 2000, frame_tariff_version = 1, frame_label = ''night''\<rparr>]"

definition example_readings :: "meter_value list" where
  "example_readings = [\<lparr>mv_timestamp = 0, mv_energy_wh = 100\<rparr>,
     \<lparr>mv_timestamp = 2 * DAY_US, mv_energy_wh = 9100\<rparr>]"

lemma example_tariffs_ok: "tariffs_ok example_frames lo hi"
  by (simp add: tariffs_ok_def frames_of_def example_frames_def day_frames_def frame_st_def
      frame_en_def clock_hm_def)


text \<open>
  The daily statement.  The days listed are exactly the local dates of the segments, each
  once; the segments of a day are those of its date in order, and its totals are their sums.
\<close>

theorem tinh_tien_theo_ngay_groups:
  assumes "tinh_tien_theo_ngay s e mvs frames z = Inr days"
  shows "\<exists>segs. chia_doan s e mvs frames z = Inr segs \<and> group_ok segs days"
proof -
  obtain segs where segs: "chia_doan s e mvs frames z = Inr segs"
    "days = foldl (\<lambda>result seg. add_to_day seg result) [] segs"
    using assms by (auto simp: tinh_tien_theo_ngay_def)
  moreover have "group_ok [] []" by (simp add: group_ok_def)
  ultimately show ?thesis using group_foldl [of "[]" "[]" segs] by auto
qed

theorem tinh_tien_theo_ngay_groups_witness:
  "\<exists>days. tinh_tien_theo_ngay 0 (2 * DAY_US) example_readings example_frames (fixed_zone 25200000000)
      = Inr days \<and> distinct (map fst days)"
proof -
  obtain days where days: "tinh_tien_theo_ngay 0 (2 * DAY_US) example_readings example_frames
      (fixed_zone 25200000000) = Inr days"
    using fixed.chia_doan_ok [of 0 "2 * DAY_US" example_frames 25200000000 example_readings]
      example_tariffs_ok
    by (auto simp: tinh_tien_theo_ngay_def readings_ok_def example_readings_def reading_le_def)
  with tinh_tien_theo_ngay_groups [OF days] show ?thesis by (auto simp: group_ok_def)
qed

end
