(* ===== verification/Csms_Models.thy ===== *)
theory Csms_Models
  imports Csms_Prelude
begin

text \<open>
  The rows of the database tables that the modelled services read and write (the \<open>models.py\<close>
  files of the modules), and the database itself: one list of rows per table, in insertion
  order, and the counters behind the identity columns.  Columns that no modelled function reads
  (creation times of ledger rows, for instance) are left out.  Columns with a closed set of
  values are datatypes; numeric columns hold finite values.
\<close>

section \<open>Identity and stations\<close>

record user =
  u_id :: uuid
  u_status :: string

record station =
  st_id :: uuid
  st_owner_id :: uuid
  st_name :: string
  st_timezone :: string
  st_status :: string
  st_archived_at :: "instant option"

record charge_point =
  cp_id :: uuid
  cp_station_id :: uuid
  cp_code :: string
  cp_status :: string
  cp_last_seen_at :: "instant option"
  cp_heartbeat_interval_seconds :: int
  cp_raw_ocpp_status :: "string option"
  cp_error_code :: "string option"
  cp_vendor_error_code :: "string option"
  cp_error_at :: "instant option"
  cp_status_updated_at :: instant
  cp_last_boot_at :: "instant option"
  cp_code_locked_at :: "instant option"
  cp_archived_at :: "instant option"

record connector =
  cn_id :: uuid
  cn_charge_point_id :: uuid
  cn_connector_number :: int
  cn_status :: string
  cn_raw_ocpp_status :: "string option"
  cn_last_status_notification_at :: "instant option"
  cn_status_updated_at :: instant
  cn_max_power_kw :: "decimal option"
  cn_voltage :: "decimal option"
  cn_amperage :: "decimal option"
  cn_archived_at :: "instant option"

record power_schedule =
  ps_id :: uuid
  ps_station_id :: uuid
  ps_effective_from :: day
  ps_updated_at :: instant

record power_schedule_band =
  psb_schedule_id :: uuid
  psb_start_min :: int
  psb_end_min :: int
  psb_power_limit_w :: int

section \<open>Power control\<close>

datatype power_state = PDisabled | PBootstrap | PReady | PApplying | PDegraded | PDisablePending

record station_power =
  sp_station_id :: uuid
  sp_limit_w :: int
  sp_applied_limit_w :: int
  sp_version :: int
  sp_generation :: int
  sp_enabled :: bool
  sp_target_enabled :: bool
  sp_state :: power_state
  sp_zero_limit_verified :: bool
  sp_offline_retention_verified :: bool
  sp_verification_note :: string
  sp_issue :: "string option"
  sp_dirty_at :: "instant option"
  sp_last_plan_at :: "instant option"

record connector_power =
  cw_connector_id :: uuid
  cw_station_id :: uuid
  cw_rated_w :: int
  cw_profile_id :: int
  cw_confirmed_w :: int
  cw_reserved_w :: int
  cw_desired_w :: int
  cw_baseline_boot_at :: "instant option"
  cw_pending_command_id :: "uuid option"

record power_command =
  pc_id :: uuid
  pc_station_id :: uuid
  pc_connector_id :: uuid
  pc_generation :: int
  pc_action :: string
  pc_payload :: json
  pc_status :: string
  pc_completed_at :: "instant option"

section \<open>Wallets\<close>

datatype wallet_status = WActive | WLocked

datatype entry_type =
    GatewayTopup | ManualTopup | ChargingDebit | ReservationFee | Adjustment
  | UnknownEntry string

record wallet =
  w_id :: uuid
  w_driver_id :: uuid
  w_balance_vnd :: vnd
  w_status :: wallet_status

record wallet_ledger =
  wl_id :: int
  wl_wallet_id :: uuid
  wl_entry_type :: entry_type
  wl_amount_vnd :: vnd
  wl_balance_after_vnd :: vnd
  wl_reference_type :: string
  wl_reference_id :: string
  wl_actor_id :: "uuid option"

record wallet_audit =
  wa_id :: uuid
  wa_wallet_id :: uuid
  wa_actor_id :: uuid
  wa_action :: string
  wa_before_balance_vnd :: vnd
  wa_after_balance_vnd :: vnd
  wa_amount_vnd :: "vnd option"
  wa_reason :: string

record audit_log =
  al_actor_id :: "uuid option"
  al_action :: string
  al_object_type :: string
  al_object_id :: string
  al_data :: "(string \<times> json) list"
  al_permission :: "string option"
  al_actor_roles :: "string list option"

section \<open>Tariffs\<close>

record tariff =
  t_id :: uuid
  t_station_id :: uuid
  t_effective_from :: day
  t_used_at :: "instant option"
  t_idle_rate_vnd_per_minute :: vnd
  t_grace_minutes :: int

record tariff_band =
  tb_tariff_id :: uuid
  tb_start_min :: int
  tb_end_min :: int
  tb_energy_rate_vnd_per_kwh :: vnd
  tb_label :: string

section \<open>Charging sessions and invoices\<close>

record charging_session =
  cs_id :: int
  cs_charge_point_id :: uuid
  cs_connector_id :: uuid
  cs_driver_id :: "uuid option"
  cs_tag_tail :: string
  cs_authorization_status :: string
  cs_started_at :: instant
  cs_ended_at :: "instant option"
  cs_idle_since :: "instant option"
  cs_billing_lifecycle_version :: int
  cs_release_detection :: string
  cs_connector_released_at :: "instant option"
  cs_settlement_completed_at :: "instant option"
  cs_settlement_reason :: "string option"
  cs_meter_start_wh :: decimal
  cs_meter_stop_wh :: "decimal option"
  cs_energy_kwh :: "decimal option"
  cs_stop_reason :: "string option"
  cs_recovery_at :: "instant option"
  cs_abnormal_since :: "instant option"
  cs_manual_closed_at :: "instant option"
  cs_manual_close_reason :: "string option"
  cs_closed_by :: "uuid option"
  cs_review_reasons :: "string list"
  cs_received_at :: instant

record occupation_interval =
  oi_id :: int
  oi_session_id :: int
  oi_started_at :: instant
  oi_ended_at :: "instant option"
  oi_confirmed :: bool
  oi_end_reason :: "string option"

record meter_sample =
  ms_id :: int
  ms_session_id :: int
  ms_timestamp :: instant
  ms_measurand :: string
  ms_phase :: string
  ms_location :: string
  ms_value :: decimal
  ms_unit :: string

record connector_error =
  ke_connector_id :: uuid
  ke_error_code :: string
  ke_vendor_error_code :: "string option"
  ke_occurred_at :: instant
  ke_details :: "string option"

record authorization_attempt =
  aa_charge_point_id :: uuid
  aa_tag_tail :: string
  aa_result :: string

record pending_message =
  pm_charge_point_id :: uuid
  pm_action :: string
  pm_message_id :: string
  pm_reason :: string
  pm_payload :: "(string \<times> json) list"

record configuration_intent =
  ci_charge_point_id :: uuid
  ci_reset_id :: "uuid option"
  ci_state :: string

record session_event =
  se_session_id :: int
  se_action :: string
  se_actor_id :: "uuid option"
  se_details :: "(string \<times> json) list"

datatype rounding_rule = LEGACY_ROUNDING_RULE | ROUNDING_RULE

datatype line_type = EnergyLine | IdleLine

record invoice =
  inv_id :: uuid
  inv_session_id :: int
  inv_driver_id :: uuid
  inv_station_id :: uuid
  inv_total_vnd :: vnd
  inv_rounding_rule :: rounding_rule
  inv_created_at :: instant

record invoice_line =
  il_invoice_id :: uuid
  il_line_type :: line_type
  il_local_date :: day
  il_started_at :: instant
  il_ended_at :: instant
  il_energy_wh :: decimal
  il_rate_vnd :: vnd
  il_band_label :: string
  il_interpolated :: bool
  il_tariff_id :: uuid
  il_amount_vnd :: vnd

text \<open>
  A driver notification.  The Vietnamese title and message are texts made of the event type and
  the last five fields (station, energy, amount, and whether the amount is final).
\<close>

record driver_notification =
  dn_driver_id :: uuid
  dn_session_id :: int
  dn_event_type :: string
  dn_event_id :: string
  dn_occurred_at :: instant
  dn_station_name :: string
  dn_energy_kwh :: "decimal option"
  dn_amount_vnd :: "vnd option"
  dn_final :: bool

section \<open>Cards, top-ups and reservations\<close>

record charging_card =
  cc_id :: uuid
  cc_tag_hash :: string
  cc_tag_tail :: string
  cc_driver_id :: uuid
  cc_issuer_id :: uuid
  cc_status :: string
  cc_expires_at :: "instant option"

record driver_virtual_tag =
  vt_driver_id :: uuid
  vt_card_id :: uuid
  vt_id_tag :: string

record driver_start_request =
  dsr_id :: uuid
  dsr_driver_id :: uuid
  dsr_connector_id :: uuid
  dsr_charge_point_id :: uuid
  dsr_created_at :: instant
  dsr_status :: string
  dsr_reply_status :: string
  dsr_rejection_reason :: "string option"
  dsr_balance_vnd :: "vnd option"
  dsr_minimum_balance_vnd :: "vnd option"
  dsr_reply_at :: "instant option"
  dsr_lease_until :: instant
  dsr_session_id :: "int option"

datatype topup_status = TPending | TSucceeded | TFailed | TCancelled | TNeedsReview

record wallet_topup =
  wt_id :: uuid
  wt_driver_id :: uuid
  wt_amount_vnd :: vnd
  wt_status :: topup_status
  wt_order_id :: string
  wt_gateway_transaction_id :: "string option"
  wt_reason :: "string option"

datatype reservation_status =
    RPending | RUncertain | RActive | RCancelPending | RExpiryReleasePending
  | RConsumed | RCancelled | RRejected | RExpired

datatype fee_decision = FPending | FLegacyExempt | FWaived | FCharged | FReview

record reservation_capability =
  rc_charge_point_id :: uuid
  rc_boot_at :: "instant option"
  rc_supported :: bool
  rc_checked_at :: "instant option"
  rc_next_attempt_at :: instant
  rc_lease_token :: "uuid option"
  rc_locked_until :: "instant option"
  rc_outcome :: string

record reservation_policy =
  rp_station_id :: uuid
  rp_fee_vnd :: vnd
  rp_version :: int

record reservation =
  r_id :: uuid
  r_ocpp_id :: int
  r_driver_id :: uuid
  r_station_id :: uuid
  r_charge_point_id :: uuid
  r_connector_id :: uuid
  r_card_id :: uuid
  r_request_hash :: string
  r_status :: reservation_status
  r_created_at :: instant
  r_arrival_at :: instant
  r_expires_at :: instant
  r_updated_at :: instant
  r_outcome :: "string option"
  r_cancel_request_id :: "uuid option"
  r_cancel_requested_at :: "instant option"
  r_cancel_reason :: "string option"
  r_no_show_exempt :: bool
  r_session_id :: "int option"
  r_fee_vnd :: vnd
  r_fee_policy_version :: int
  r_fee_decision :: fee_decision
  r_fee_reason :: "string option"
  r_fee_decided_at :: "instant option"
  r_fee_ledger_id :: "int option"
  r_activated_at :: "instant option"
  r_expiry_fee_eligible :: "bool option"

datatype command_action = ReserveNow | CancelReservation

datatype command_status = CQueued | CSending | CDone | CUncertain | CSuppressed

record reservation_command =
  rk_id :: uuid
  rk_reservation_id :: uuid
  rk_action :: command_action
  rk_status :: command_status
  rk_attempts :: nat
  rk_created_at :: instant
  rk_next_attempt_at :: instant
  rk_locked_until :: "instant option"
  rk_lease_token :: "uuid option"
  rk_outcome :: "string option"

record reservation_event =
  rv_reservation_id :: uuid
  rv_action :: string
  rv_occurred_at :: instant
  rv_details :: "(string \<times> json) list"

section \<open>The database\<close>

record db =
  users :: "user list"
  user_roles :: "(uuid \<times> string) list"
  stations :: "station list"
  charge_points :: "charge_point list"
  connectors :: "connector list"
  wallets :: "wallet list"
  ledger :: "wallet_ledger list"
  ledger_seq :: int
  wallet_audits :: "wallet_audit list"
  audit_logs :: "audit_log list"
  tariffs :: "tariff list"
  tariff_bands :: "tariff_band list"
  sessions :: "charging_session list"
  session_seq :: int
  occupation_intervals :: "occupation_interval list"
  interval_seq :: int
  meter_samples :: "meter_sample list"
  sample_seq :: int
  authorization_attempts :: "authorization_attempt list"
  connector_errors :: "connector_error list"
  pending_messages :: "pending_message list"
  configuration_intents :: "configuration_intent list"
  session_events :: "session_event list"
  invoices :: "invoice list"
  invoice_lines :: "invoice_line list"
  notifications :: "driver_notification list"
  power_schedules :: "power_schedule list"
  power_schedule_bands :: "power_schedule_band list"
  station_powers :: "station_power list"
  connector_powers :: "connector_power list"
  profile_seq :: int
  power_commands :: "power_command list"
  charging_cards :: "charging_card list"
  virtual_tags :: "driver_virtual_tag list"
  start_requests :: "driver_start_request list"
  topups :: "wallet_topup list"
  capabilities :: "reservation_capability list"
  policies :: "reservation_policy list"
  reservations :: "reservation list"
  ocpp_seq :: int
  reservation_commands :: "reservation_command list"
  reservation_events :: "reservation_event list"

definition empty_db :: db where
  "empty_db = \<lparr>users = [], user_roles = [], stations = [], charge_points = [], connectors = [],
     wallets = [], ledger = [], ledger_seq = 1, wallet_audits = [], audit_logs = [],
     tariffs = [], tariff_bands = [], sessions = [], session_seq = 1,
     occupation_intervals = [], interval_seq = 1, meter_samples = [], sample_seq = 1,
     authorization_attempts = [], connector_errors = [], pending_messages = [], configuration_intents = [], session_events = [], invoices = [],
     invoice_lines = [], notifications = [], power_schedules = [], power_schedule_bands = [],
     station_powers = [], connector_powers = [], profile_seq = 1, power_commands = [],
     charging_cards = [], virtual_tags = [], start_requests = [], topups = [], capabilities = [],
     policies = [], reservations = [], ocpp_seq = 1, reservation_commands = [],
     reservation_events = []\<rparr>"

text \<open>A charge point and its connector, used by the examples.\<close>

definition example_point :: charge_point where
  "example_point = \<lparr>cp_id = 11, cp_station_id = 3, cp_code = ''CP11'', cp_status = ''online'',
     cp_last_seen_at = Some 0, cp_heartbeat_interval_seconds = 60, cp_raw_ocpp_status = None,
     cp_error_code = None, cp_vendor_error_code = None, cp_error_at = None, cp_status_updated_at = 0, cp_last_boot_at = Some 0, cp_code_locked_at = None,
     cp_archived_at = None\<rparr>"

definition example_connector :: connector where
  "example_connector = \<lparr>cn_id = 12, cn_charge_point_id = 11, cn_connector_number = 1,
     cn_status = ''Available'', cn_raw_ocpp_status = Some ''Available'',
     cn_last_status_notification_at = None, cn_status_updated_at = 0, cn_max_power_kw = None,
     cn_voltage = None, cn_amperage = None, cn_archived_at = None\<rparr>"

text \<open>\<open>HTTPException\<close> with a text; Vietnamese messages are replaced by short codes.\<close>

definition http :: "int \<Rightarrow> string \<Rightarrow> exn" where
  "http code detail = HTTPException code (JStr detail)"

definition has_role :: "db \<Rightarrow> uuid \<Rightarrow> string \<Rightarrow> bool" where
  "has_role d user_id role \<longleftrightarrow> (user_id, role) \<in> set (user_roles d)"

definition is_active_admin :: "db \<Rightarrow> uuid option \<Rightarrow> bool" where
  "is_active_admin d actor \<longleftrightarrow>
    (case actor of None \<Rightarrow> False
     | Some a \<Rightarrow> has_role d a ''admin'' \<and> (\<exists>u\<in>set (users d). u_id u = a \<and> u_status u = ''active''))"

end
