(* ===== verification/Pricing.thy ===== *)
theory Pricing
  imports Csms_Models Tariff_Bands Segmentation
begin

text \<open>
  src/src/modules/pricing: the effective tariff of a day, the guards on effective dates and on
  edits (service.py), the creation of a version (creation.py) and its edit (router.py).  The
  clock and the identifier that \<open>uuid4\<close> draws are parameters; \<open>zones\<close> maps the name of a time
  zone to its data.  The HTTP layer only renames the exceptions and is left out.
\<close>

section \<open>Definitions\<close>

type_synonym zones = "string \<Rightarrow> zone"

datatype ngay = LocalDate day | At instant

record actor_scope =
  as_actor_id :: uuid
  as_owner_id :: "uuid option"

definition get_station_by_id :: "uuid \<Rightarrow> actor_scope \<Rightarrow> db \<Rightarrow> exn + station option" where
  "get_station_by_id station_id scope d =
    (case find (\<lambda>s. st_id s = station_id
        \<and> (case as_owner_id scope of None \<Rightarrow> True | Some owner \<Rightarrow> st_owner_id s = owner))
        (stations d) of
       Some s \<Rightarrow> Inr (Some s)
     | None \<Rightarrow>
         if as_owner_id scope = None then Inr None
         else if row_of st_id station_id (stations d) = None then Inr None
         else Inl StationOwnershipDeniedError)"

definition pricing_station :: "uuid \<Rightarrow> db \<Rightarrow> exn + station" where
  "pricing_station station_id d =
    (case row_of st_id station_id (stations d) of
       None \<Rightarrow> Inl TariffNotFoundError | Some s \<Rightarrow> Inr s)"

definition ngay_dia_phuong :: "zones \<Rightarrow> string \<Rightarrow> instant \<Rightarrow> day" where
  "ngay_dia_phuong zones timezone moment = zone_date (zones timezone) moment"

text \<open>\<open>ORDER BY effective_from DESC LIMIT 1\<close>.\<close>

fun pick_latest :: "tariff option \<Rightarrow> tariff list \<Rightarrow> tariff option" where
  "pick_latest best [] = best"
| "pick_latest best (t # ts) =
    (case best of
       None \<Rightarrow> pick_latest (Some t) ts
     | Some b \<Rightarrow> if t_effective_from t > t_effective_from b then pick_latest (Some t) ts
                 else pick_latest best ts)"

definition latest_tariff :: "uuid \<Rightarrow> day \<Rightarrow> tariff list \<Rightarrow> tariff option" where
  "latest_tariff station_id local_date rows = pick_latest None
     (filter (\<lambda>t. t_station_id t = station_id \<and> t_effective_from t \<le> local_date) rows)"

definition lay_bieu_gia_hieu_luc :: "zones \<Rightarrow> uuid \<Rightarrow> ngay \<Rightarrow> db \<Rightarrow> exn + tariff option" where
  "lay_bieu_gia_hieu_luc zones station_id ngay d =
    res_bind (pricing_station station_id d) (\<lambda>station.
      let local_date = (case ngay of LocalDate x \<Rightarrow> x
            | At t \<Rightarrow> ngay_dia_phuong zones (st_timezone station) t)
      in Inr (latest_tariff station_id local_date (tariffs d)))"

definition bands_of :: "uuid \<Rightarrow> tariff_band list \<Rightarrow> tariff_band list" where
  "bands_of tariff_id rows = sort_key tb_start_min (filter (\<lambda>b. tb_tariff_id b = tariff_id) rows)"

definition station_tariff :: "uuid \<Rightarrow> uuid \<Rightarrow> db \<Rightarrow> exn + tariff" where
  "station_tariff station_id tariff_id d =
    (case find (\<lambda>t. t_id t = tariff_id \<and> t_station_id t = station_id) (tariffs d) of
       None \<Rightarrow> Inl TariffNotFoundError | Some t \<Rightarrow> Inr t)"

definition kiem_bieu_gia_co_the_sua ::
  "zones \<Rightarrow> uuid \<Rightarrow> uuid \<Rightarrow> instant \<Rightarrow> db \<Rightarrow> exn + tariff" where
  "kiem_bieu_gia_co_the_sua zones station_id tariff_id now d =
    res_bind (pricing_station station_id d) (\<lambda>station.
    res_bind (station_tariff station_id tariff_id d) (\<lambda>tariff.
      let today = ngay_dia_phuong zones (st_timezone station) now in
      if t_effective_from tariff \<le> today \<or> t_used_at tariff \<noteq> None
      then Inl TariffImmutableError else Inr tariff))"

definition kiem_ngay_hieu_luc ::
  "zones \<Rightarrow> uuid \<Rightarrow> day \<Rightarrow> instant \<Rightarrow> uuid option \<Rightarrow> db \<Rightarrow> exn + station" where
  "kiem_ngay_hieu_luc zones station_id effective_from now exclude_tariff_id d =
    res_bind (pricing_station station_id d) (\<lambda>station.
    let today = ngay_dia_phuong zones (st_timezone station) now;
        versions = filter (\<lambda>t. t_station_id t = station_id) (tariffs d) in
    res_bind (case exclude_tariff_id of
                None \<Rightarrow> Inr versions
              | Some tid \<Rightarrow>
                  res_bind (kiem_bieu_gia_co_the_sua zones station_id tid now d)
                    (\<lambda>_. Inr (filter (\<lambda>t. t_id t \<noteq> tid) versions))) (\<lambda>versions.
    if versions = [] \<and> effective_from \<noteq> today then Inl TariffEffectiveDateError
    else if versions \<noteq> [] \<and> effective_from < today + 1 then Inl TariffEffectiveDateError
    else if (\<exists>t\<in>set versions. t_effective_from t = effective_from)
    then Inl TariffDuplicateDateError
    else Inr station))"

definition danh_dau_bieu_gia_da_dung ::
  "uuid \<Rightarrow> uuid \<Rightarrow> instant \<Rightarrow> db \<Rightarrow> exn + tariff \<times> db" where
  "danh_dau_bieu_gia_da_dung station_id tariff_id now d =
    res_bind (pricing_station station_id d) (\<lambda>_.
    res_bind (station_tariff station_id tariff_id d) (\<lambda>tariff.
      if t_used_at tariff = None
      then Inr (tariff\<lparr>t_used_at := Some now\<rparr>,
             d\<lparr>tariffs := update_row t_id tariff_id (\<lambda>t. t\<lparr>t_used_at := Some now\<rparr>) (tariffs d)\<rparr>)
      else Inr (tariff, d)))"

definition band_rows :: "uuid \<Rightarrow> band_input list \<Rightarrow> tariff_band list" where
  "band_rows tariff_id bands = map (\<lambda>b. \<lparr>tb_tariff_id = tariff_id, tb_start_min = start_min b,
     tb_end_min = end_min b, tb_energy_rate_vnd_per_kwh = energy_rate_vnd_per_kwh b,
     tb_label = label b\<rparr>) bands"

text \<open>The CHECK constraints of the table \<open>tariffs\<close>.\<close>

definition tariff_row_ok :: "vnd \<Rightarrow> int \<Rightarrow> bool" where
  "tariff_row_ok idle_rate grace \<longleftrightarrow> 0 \<le> idle_rate \<and> 0 \<le> grace"

definition tao_bieu_gia ::
  "zones \<Rightarrow> uuid \<Rightarrow> instant \<Rightarrow> actor_scope \<Rightarrow> uuid \<Rightarrow> day \<Rightarrow> vnd \<Rightarrow> int \<Rightarrow> band_input list \<Rightarrow> db
   \<Rightarrow> exn + (tariff \<times> tariff_band list) \<times> db" where
  "tao_bieu_gia zones new_id now scope station_id effective_from idle_rate grace bands d =
    res_bind (get_station_by_id station_id scope d) (\<lambda>station.
    if station = None then Inl TariffNotFoundError
    else case kiem_khung_gio bands of
      Inl issues \<Rightarrow> Inl (TariffBandsError issues)
    | Inr normalized \<Rightarrow>
        res_bind (kiem_ngay_hieu_luc zones station_id effective_from now None d) (\<lambda>_.
        if new_id \<in> t_id ` set (tariffs d) \<or> \<not> tariff_row_ok idle_rate grace
        then Inl IntegrityError
        else
          let tariff = \<lparr>t_id = new_id, t_station_id = station_id,
                t_effective_from = effective_from, t_used_at = None,
                t_idle_rate_vnd_per_minute = idle_rate, t_grace_minutes = grace\<rparr>;
              rows = band_rows new_id normalized
          in Inr ((tariff, rows), d\<lparr>tariffs := tariffs d @ [tariff],
                                    tariff_bands := tariff_bands d @ rows\<rparr>)))"

definition edit_tariff ::
  "zones \<Rightarrow> instant \<Rightarrow> actor_scope \<Rightarrow> uuid \<Rightarrow> uuid \<Rightarrow> day \<Rightarrow> vnd \<Rightarrow> int \<Rightarrow> band_input list \<Rightarrow> db
   \<Rightarrow> exn + tariff \<times> db" where
  "edit_tariff zones now scope station_id tariff_id effective_from idle_rate grace bands d =
    res_bind (get_station_by_id station_id scope d) (\<lambda>station.
    if station = None then Inl TariffNotFoundError
    else
      res_bind (kiem_bieu_gia_co_the_sua zones station_id tariff_id now d) (\<lambda>tariff.
      case kiem_khung_gio bands of
        Inl issues \<Rightarrow> Inl (TariffBandsError issues)
      | Inr normalized \<Rightarrow>
          res_bind (kiem_ngay_hieu_luc zones station_id effective_from now (Some tariff_id) d)
            (\<lambda>_.
          if \<not> tariff_row_ok idle_rate grace then Inl IntegrityError
          else
            let change = (\<lambda>t. t\<lparr>t_effective_from := effective_from,
                  t_idle_rate_vnd_per_minute := idle_rate, t_grace_minutes := grace\<rparr>)
            in Inr (change tariff,
                 d\<lparr>tariffs := update_row t_id tariff_id change (tariffs d),
                   tariff_bands := filter (\<lambda>b. tb_tariff_id b \<noteq> tariff_id) (tariff_bands d)
                     @ band_rows tariff_id normalized\<rparr>))))"

section \<open>The effective tariff\<close>

lemma pick_latest_member:
  "pick_latest best ts = Some t \<Longrightarrow> t \<in> set ts \<or> best = Some t"
  by (induction best ts rule: pick_latest.induct) (auto split: option.splits if_splits)

lemma pick_latest_max:
  "pick_latest best ts = Some t \<Longrightarrow>
    (\<forall>x\<in>set ts. t_effective_from x \<le> t_effective_from t)
    \<and> (\<forall>b. best = Some b \<longrightarrow> t_effective_from b \<le> t_effective_from t)"
  by (induction best ts rule: pick_latest.induct) (fastforce split: option.splits if_splits)+

lemma pick_latest_None: "pick_latest best ts = None \<longleftrightarrow> best = None \<and> ts = []"
  by (induction best ts rule: pick_latest.induct) (auto split: option.splits)

lemma latest_tariff_spec:
  assumes "latest_tariff sid day rows = Some t"
  shows "t \<in> set rows" "t_station_id t = sid" "t_effective_from t \<le> day"
    "\<And>x. x \<in> set rows \<Longrightarrow> t_station_id x = sid \<Longrightarrow> t_effective_from x \<le> day \<Longrightarrow>
      t_effective_from x \<le> t_effective_from t"
  using pick_latest_member [OF assms [unfolded latest_tariff_def]]
    pick_latest_max [OF assms [unfolded latest_tariff_def]]
  by auto

lemma latest_tariff_None:
  "latest_tariff sid day rows = None \<longleftrightarrow>
    (\<forall>t\<in>set rows. t_station_id t = sid \<longrightarrow> day < t_effective_from t)"
  by (auto simp: latest_tariff_def pick_latest_None filter_empty_conv not_le)

lemma pick_latest_map:
  assumes "\<And>t. t_effective_from (g t) = t_effective_from t"
  shows "pick_latest (map_option g best) (map g ts) = map_option g (pick_latest best ts)"
  using assms
  by (induction best ts rule: pick_latest.induct) (auto split: option.splits)

text \<open>What a session on a given local date pays: version, idle terms and bands.\<close>

definition price_of :: "uuid \<Rightarrow> day \<Rightarrow> db \<Rightarrow> (uuid \<times> vnd \<times> int \<times> tariff_band list) option" where
  "price_of station_id local_date d =
    map_option (\<lambda>t. (t_id t, t_idle_rate_vnd_per_minute t, t_grace_minutes t,
      bands_of (t_id t) (tariff_bands d))) (latest_tariff station_id local_date (tariffs d))"

section \<open>Prices are never changed retroactively\<close>

definition pricing_inv :: "db \<Rightarrow> bool" where
  "pricing_inv d \<longleftrightarrow> distinct (map t_id (tariffs d))
    \<and> (\<forall>x\<in>set (tariffs d). \<forall>y\<in>set (tariffs d).
         t_station_id x = t_station_id y \<longrightarrow> t_effective_from x = t_effective_from y \<longrightarrow> x = y)
    \<and> (\<forall>b\<in>set (tariff_bands d). tb_tariff_id b \<in> t_id ` set (tariffs d))
    \<and> (\<forall>t\<in>set (tariffs d). 0 \<le> t_idle_rate_vnd_per_minute t \<and> 0 \<le> t_grace_minutes t
         \<and> contiguous tb_start_min tb_end_min 0 (bands_of (t_id t) (tariff_bands d))
         \<and> (\<forall>b\<in>set (bands_of (t_id t) (tariff_bands d)).
              0 \<le> tb_energy_rate_vnd_per_kwh b))"

definition station_today :: "zones \<Rightarrow> uuid \<Rightarrow> instant \<Rightarrow> db \<Rightarrow> day option" where
  "station_today zones station_id now d = map_option
     (\<lambda>s. ngay_dia_phuong zones (st_timezone s) now) (row_of st_id station_id (stations d))"

text \<open>One transaction of the pricing module at time \<open>now\<close>.\<close>

inductive pricing_step :: "zones \<Rightarrow> instant \<Rightarrow> db \<Rightarrow> db \<Rightarrow> bool" for zones where
  create: "tao_bieu_gia zones new_id now scope sid eff idle grace bands d = Inr (r, d')
    \<Longrightarrow> pricing_step zones now d d'"
| edit: "edit_tariff zones now scope sid tid eff idle grace bands d = Inr (t, d')
    \<Longrightarrow> pricing_step zones now d d'"
| mark: "danh_dau_bieu_gia_da_dung sid tid now d = Inr (t, d')
    \<Longrightarrow> pricing_step zones now d d'"

lemma get_station_Some:
  "get_station_by_id sid scope d = Inr (Some s) \<Longrightarrow> s \<in> set (stations d) \<and> st_id s = sid"
  by (auto simp: get_station_by_id_def dest!: find_Some_iff_set split: option.splits if_splits)

lemma kiem_ngay_hieu_luc_Inr:
  assumes "kiem_ngay_hieu_luc zones sid eff now excl d = Inr s"
  shows "\<exists>today. station_today zones sid now d = Some today \<and> today \<le> eff"
    and "\<And>t. t \<in> set (tariffs d) \<Longrightarrow> t_station_id t = sid \<Longrightarrow> excl \<noteq> Some (t_id t) \<Longrightarrow>
      t_effective_from t \<noteq> eff"
  using assms
  by (auto simp: kiem_ngay_hieu_luc_def Let_def station_today_def pricing_station_def
      split: option.splits if_splits)

lemma kiem_sua_Inr:
  assumes "kiem_bieu_gia_co_the_sua zones sid tid now d = Inr t"
  shows "t \<in> set (tariffs d)" "t_id t = tid" "t_station_id t = sid" "t_used_at t = None"
    and "\<exists>today. station_today zones sid now d = Some today \<and> today < t_effective_from t"
  using assms
  by (auto simp: kiem_bieu_gia_co_the_sua_def Let_def station_today_def pricing_station_def
      station_tariff_def dest!: find_Some_iff_set split: option.splits if_splits)

lemma tao_bieu_gia_Inr:
  assumes "tao_bieu_gia zones new_id now scope sid eff idle grace bands d = Inr ((t, rows), d')"
  obtains normalized where "kiem_khung_gio bands = Inr normalized"
    "new_id \<notin> t_id ` set (tariffs d)" "0 \<le> idle" "0 \<le> grace"
    "t = \<lparr>t_id = new_id, t_station_id = sid, t_effective_from = eff, t_used_at = None,
          t_idle_rate_vnd_per_minute = idle, t_grace_minutes = grace\<rparr>"
    "rows = band_rows new_id normalized"
    "d' = d\<lparr>tariffs := tariffs d @ [t], tariff_bands := tariff_bands d @ rows\<rparr>"
    "\<exists>s. kiem_ngay_hieu_luc zones sid eff now None d = Inr s"
  using assms
  by (auto simp: tao_bieu_gia_def Let_def tariff_row_ok_def split: if_splits sum.splits)

lemma edit_tariff_Inr:
  assumes "edit_tariff zones now scope sid tid eff idle grace bands d = Inr (t', d')"
  obtains normalized t where "kiem_khung_gio bands = Inr normalized" "0 \<le> idle" "0 \<le> grace"
    "kiem_bieu_gia_co_the_sua zones sid tid now d = Inr t"
    "d' = d\<lparr>tariffs := update_row t_id tid (\<lambda>t. t\<lparr>t_effective_from := eff,
              t_idle_rate_vnd_per_minute := idle, t_grace_minutes := grace\<rparr>) (tariffs d),
            tariff_bands := filter (\<lambda>b. tb_tariff_id b \<noteq> tid) (tariff_bands d)
              @ band_rows tid normalized\<rparr>"
    "\<exists>s. kiem_ngay_hieu_luc zones sid eff now (Some tid) d = Inr s"
proof (cases "kiem_khung_gio bands")
  case (Inl issues)
  with assms show ?thesis by (auto simp: edit_tariff_def split: if_splits)
next
  case (Inr normalized)
  with assms show ?thesis
    by (auto simp: edit_tariff_def Let_def tariff_row_ok_def split: if_splits intro: that)
qed

lemma filter_update_row_other:
  assumes "\<And>r. r \<in> set rows \<Longrightarrow> key r = k \<Longrightarrow> \<not> P r \<and> \<not> P (f r)"
  shows "filter P (update_row key k f rows) = filter P rows"
  using assms by (induction rows) (auto simp: update_row_def)

lemma filter_update_row_map:
  assumes "\<And>r. P (f r) = P r"
  shows "filter P (update_row key k f rows)
    = map (\<lambda>r. if key r = k then f r else r) (filter P rows)"
  using assms by (induction rows) (auto simp: update_row_def)

lemma bands_of_append_other:
  "\<forall>b\<in>set rows. tb_tariff_id b \<noteq> tid \<Longrightarrow> bands_of tid (xs @ rows) = bands_of tid xs"
  by (auto simp: bands_of_def filter_empty_conv)

lemma unique_row:
  "distinct (map key rows) \<Longrightarrow> x \<in> set rows \<Longrightarrow> y \<in> set rows \<Longrightarrow> key x = key y \<Longrightarrow> x = y"
  by (auto simp: distinct_map inj_on_def)

lemma mark_price_of:
  assumes "danh_dau_bieu_gia_da_dung sid tid now d = Inr (t, d')"
  shows "price_of s local_date d' = price_of s local_date d"
proof -
  let ?g = "\<lambda>t. if t_id t = tid then t\<lparr>t_used_at := Some now\<rparr> else t"
  have "d' = d \<or> d' = d\<lparr>tariffs := update_row t_id tid (\<lambda>t. t\<lparr>t_used_at := Some now\<rparr>) (tariffs d)\<rparr>"
    using assms by (auto simp: danh_dau_bieu_gia_da_dung_def split: if_splits)
  moreover have "latest_tariff s local_date
      (update_row t_id tid (\<lambda>t. t\<lparr>t_used_at := Some now\<rparr>) (tariffs d))
      = map_option ?g (latest_tariff s local_date (tariffs d))"
    unfolding latest_tariff_def
    by (subst filter_update_row_map) (auto simp: pick_latest_map [of ?g None, simplified])
  ultimately show ?thesis
    by (cases "latest_tariff s local_date (tariffs d)") (auto simp: price_of_def)
qed

lemma create_price_of:
  assumes inv: "pricing_inv d"
    and run: "tao_bieu_gia zones new_id now scope sid eff idle grace bands d = Inr (r, d')"
    and past: "\<And>today. station_today zones s now d = Some today \<Longrightarrow> local_date < today"
  shows "price_of s local_date d' = price_of s local_date d"
proof -
  obtain t rows where "r = (t, rows)" by fastforce
  with run obtain normalized where d': "d' = d\<lparr>tariffs := tariffs d @ [t],
      tariff_bands := tariff_bands d @ rows\<rparr>"
    and t: "t_id t = new_id" "t_station_id t = sid" "t_effective_from t = eff"
    and new: "new_id \<notin> t_id ` set (tariffs d)" and rows: "rows = band_rows new_id normalized"
    and today: "\<exists>today. station_today zones sid now d = Some today \<and> today \<le> eff"
    by (auto elim!: tao_bieu_gia_Inr dest!: kiem_ngay_hieu_luc_Inr(1))
  have "\<not> (t_station_id t = s \<and> t_effective_from t \<le> local_date)"
    using t today past by fastforce
  then have same: "latest_tariff s local_date (tariffs d') = latest_tariff s local_date (tariffs d)"
    by (auto simp: d' latest_tariff_def)
  have "bands_of (t_id x) (tariff_bands d') = bands_of (t_id x) (tariff_bands d)"
    if "latest_tariff s local_date (tariffs d) = Some x" for x
    using latest_tariff_spec(1) [OF that] new
    by (auto simp: d' rows band_rows_def intro!: bands_of_append_other)
  with same show ?thesis by (auto simp: price_of_def intro!: option.map_cong)
qed

lemma edit_price_of:
  assumes inv: "pricing_inv d"
    and run: "edit_tariff zones now scope sid tid eff idle grace bands d = Inr (r, d')"
    and past: "\<And>today. station_today zones s now d = Some today \<Longrightarrow> local_date < today"
  shows "price_of s local_date d' = price_of s local_date d"
proof -
  let ?f = "\<lambda>t. t\<lparr>t_effective_from := eff, t_idle_rate_vnd_per_minute := idle,
    t_grace_minutes := grace\<rparr>"
  from run obtain normalized t where
      d': "d' = d\<lparr>tariffs := update_row t_id tid ?f (tariffs d),
        tariff_bands := filter (\<lambda>b. tb_tariff_id b \<noteq> tid) (tariff_bands d)
          @ band_rows tid normalized\<rparr>"
    and edit: "kiem_bieu_gia_co_the_sua zones sid tid now d = Inr t"
    and today: "\<exists>today. station_today zones sid now d = Some today \<and> today \<le> eff"
    by (auto elim!: edit_tariff_Inr dest!: kiem_ngay_hieu_luc_Inr(1))
  note t = kiem_sua_Inr [OF edit]
  have only: "x = t" if "x \<in> set (tariffs d)" "t_id x = tid" for x
    using unique_row [of t_id "tariffs d" x t] inv that t by (auto simp: pricing_inv_def)
  have excluded: "\<not> (t_station_id x = s \<and> t_effective_from x \<le> local_date)
      \<and> \<not> (t_station_id (?f x) = s \<and> t_effective_from (?f x) \<le> local_date)"
    if "x \<in> set (tariffs d)" "t_id x = tid" for x
    using only [OF that] t past today by fastforce
  then have same: "latest_tariff s local_date (tariffs d') = latest_tariff s local_date (tariffs d)"
    unfolding latest_tariff_def d' by (simp add: filter_update_row_other)
  have "bands_of (t_id x) (tariff_bands d') = bands_of (t_id x) (tariff_bands d)"
    if "latest_tariff s local_date (tariffs d) = Some x" for x
  proof -
    have "t_id x \<noteq> tid" using latest_tariff_spec [OF that] excluded by blast
    then have "filter (\<lambda>b. tb_tariff_id b = t_id x) (tariff_bands d')
        = filter (\<lambda>b. tb_tariff_id b = t_id x) (tariff_bands d)"
      by (auto simp: d' band_rows_def filter_empty_conv intro!: filter_cong)
    then show ?thesis by (simp add: bands_of_def)
  qed
  with same show ?thesis by (auto simp: price_of_def intro!: option.map_cong)
qed


section \<open>The invariant of the price tables\<close>

definition unique_dates :: "tariff list \<Rightarrow> bool" where
  "unique_dates rows \<longleftrightarrow> (\<forall>x\<in>set rows. \<forall>y\<in>set rows.
     t_station_id x = t_station_id y \<longrightarrow> t_effective_from x = t_effective_from y \<longrightarrow> x = y)"

definition price_table :: "tariff_band list \<Rightarrow> tariff \<Rightarrow> bool" where
  "price_table rows t \<longleftrightarrow> 0 \<le> t_idle_rate_vnd_per_minute t \<and> 0 \<le> t_grace_minutes t
     \<and> contiguous tb_start_min tb_end_min 0 (bands_of (t_id t) rows)
     \<and> (\<forall>b\<in>set (bands_of (t_id t) rows). 0 \<le> tb_energy_rate_vnd_per_kwh b)"

lemma pricing_inv_alt:
  "pricing_inv d \<longleftrightarrow> distinct (map t_id (tariffs d)) \<and> unique_dates (tariffs d)
    \<and> (\<forall>b\<in>set (tariff_bands d). tb_tariff_id b \<in> t_id ` set (tariffs d))
    \<and> (\<forall>t\<in>set (tariffs d). price_table (tariff_bands d) t)"
  by (auto simp: pricing_inv_def unique_dates_def price_table_def)

lemma contiguous_map:
  "contiguous st en a (map g xs) \<longleftrightarrow> contiguous (st \<circ> g) (en \<circ> g) a xs"
  by (induction xs arbitrary: a) auto

lemma bands_of_append_new:
  assumes "kiem_khung_gio bands = Inr normalized" and "\<forall>b\<in>set rows. tb_tariff_id b \<noteq> tid"
  shows "bands_of tid (rows @ band_rows tid normalized) = band_rows tid normalized"
proof -
  have "filter (\<lambda>b. tb_tariff_id b = tid) (rows @ band_rows tid normalized) = band_rows tid normalized"
    using assms(2) by (auto simp: band_rows_def filter_empty_conv intro!: filter_True)
  moreover have "sorted (map tb_start_min (band_rows tid normalized))"
    using tariff_bands.output_sorted [OF assms(1)] by (simp add: band_rows_def comp_def)
  ultimately show ?thesis by (simp add: bands_of_def sort_key_id_if_sorted)
qed

lemma price_table_new:
  assumes "kiem_khung_gio bands = Inr normalized" and "\<forall>b\<in>set rows. tb_tariff_id b \<noteq> t_id t"
    and "0 \<le> t_idle_rate_vnd_per_minute t" "0 \<le> t_grace_minutes t"
  shows "price_table (rows @ band_rows (t_id t) normalized) t"
proof -
  have "0 \<le> energy_rate_vnd_per_kwh b" if b: "b \<in> set normalized" for b
  proof -
    obtain c where "c \<in> set bands" "same_price c b"
      using tariff_bands.output_source [OF assms(1) b order.refl]
        tariff_bands.output_range [OF assms(1)] b by blast
    moreover have "band_valid c"
      using tariff_bands.accepts_iff assms(1) \<open>c \<in> set bands\<close> by blast
    ultimately show ?thesis by (simp add: band_valid_def same_price_def)
  qed
  then show ?thesis
    unfolding price_table_def bands_of_append_new [OF assms(1, 2)]
    using tariff_bands.output_contiguous [OF assms(1)] assms(3, 4)
    by (auto simp: band_rows_def contiguous_map comp_def)
qed

lemma price_table_append_other:
  "\<forall>b\<in>set rows. tb_tariff_id b \<noteq> t_id t \<Longrightarrow> price_table (xs @ rows) t = price_table xs t"
  by (simp add: price_table_def bands_of_append_other)

lemma price_table_filter_other:
  "t_id t \<noteq> tid \<Longrightarrow> price_table (filter (\<lambda>b. tb_tariff_id b \<noteq> tid) xs) t = price_table xs t"
proof -
  assume "t_id t \<noteq> tid"
  then have "bands_of (t_id t) (filter (\<lambda>b. tb_tariff_id b \<noteq> tid) xs) = bands_of (t_id t) xs"
    unfolding bands_of_def filter_filter by (metis (mono_tags, lifting) filter_cong)
  then show ?thesis by (simp add: price_table_def)
qed

lemma create_inv:
  assumes inv: "pricing_inv d"
    and run: "tao_bieu_gia zones new_id now scope sid eff idle grace bands d = Inr (r, d')"
  shows "pricing_inv d'"
proof -
  obtain t rows where r: "r = (t, rows)" by fastforce
  obtain normalized where ok: "kiem_khung_gio bands = Inr normalized"
    and new: "new_id \<notin> t_id ` set (tariffs d)" and rate: "0 \<le> idle" "0 \<le> grace"
    and t: "t = \<lparr>t_id = new_id, t_station_id = sid, t_effective_from = eff, t_used_at = None,
          t_idle_rate_vnd_per_minute = idle, t_grace_minutes = grace\<rparr>"
    and rows: "rows = band_rows new_id normalized"
    and d': "d' = d\<lparr>tariffs := tariffs d @ [t], tariff_bands := tariff_bands d @ rows\<rparr>"
    and date: "\<exists>s. kiem_ngay_hieu_luc zones sid eff now None d = Inr s"
    using tao_bieu_gia_Inr [OF run [unfolded r]] by metis
  have fresh: "t_effective_from x \<noteq> eff" if "x \<in> set (tariffs d)" "t_station_id x = sid" for x
    using date kiem_ngay_hieu_luc_Inr(2) that by blast
  have fk: "\<forall>b\<in>set (tariff_bands d). tb_tariff_id b \<in> t_id ` set (tariffs d)"
    using inv by (simp add: pricing_inv_alt)
  have "price_table (tariff_bands d') x" if x: "x \<in> set (tariffs d')" for x
  proof (cases "x = t")
    case True
    then show ?thesis
      using price_table_new [OF ok, of "tariff_bands d" t] fk new rate by (auto simp: d' rows t)
  next
    case False
    with x have old: "x \<in> set (tariffs d)" by (simp add: d')
    with new have "\<forall>b\<in>set rows. tb_tariff_id b \<noteq> t_id x" by (auto simp: rows band_rows_def)
    with old inv show ?thesis by (simp add: d' pricing_inv_alt price_table_append_other)
  qed
  moreover have "unique_dates (tariffs d')"
    using inv fresh unfolding pricing_inv_alt unique_dates_def d' t by auto
  ultimately show ?thesis
    using inv new unfolding pricing_inv_alt by (auto simp: d' t rows band_rows_def)
qed

lemma edit_inv:
  assumes inv: "pricing_inv d"
    and run: "edit_tariff zones now scope sid tid eff idle grace bands d = Inr (r, d')"
  shows "pricing_inv d'"
proof -
  let ?f = "\<lambda>t. t\<lparr>t_effective_from := eff, t_idle_rate_vnd_per_minute := idle,
    t_grace_minutes := grace\<rparr>"
  obtain normalized t where ok: "kiem_khung_gio bands = Inr normalized"
    and rate: "0 \<le> idle" "0 \<le> grace"
    and edit: "kiem_bieu_gia_co_the_sua zones sid tid now d = Inr t"
    and d': "d' = d\<lparr>tariffs := update_row t_id tid ?f (tariffs d),
        tariff_bands := filter (\<lambda>b. tb_tariff_id b \<noteq> tid) (tariff_bands d)
          @ band_rows tid normalized\<rparr>"
    and date: "\<exists>s. kiem_ngay_hieu_luc zones sid eff now (Some tid) d = Inr s"
    using run by (auto elim!: edit_tariff_Inr)
  note t = kiem_sua_Inr [OF edit]
  have only: "x = t" if "x \<in> set (tariffs d)" "t_id x = tid" for x
    using unique_row [of t_id "tariffs d" x t] inv that t by (auto simp: pricing_inv_def)
  have fresh: "t_effective_from x \<noteq> eff"
    if "x \<in> set (tariffs d)" "t_station_id x = sid" "t_id x \<noteq> tid" for x
    using date kiem_ngay_hieu_luc_Inr(2) that by (metis option.inject)
  have rows: "x \<in> set (tariffs d') \<longleftrightarrow> x = ?f t \<or> (x \<in> set (tariffs d) \<and> t_id x \<noteq> tid)" for x
    unfolding d' by (simp add: set_update_row) (metis only t(1, 2))
  have "price_table (tariff_bands d') x" if x: "x \<in> set (tariffs d')" for x
  proof (cases "t_id x = tid")
    case True
    with x rows have "x = ?f t" by blast
    then show ?thesis
      using price_table_new [OF ok, of "filter (\<lambda>b. tb_tariff_id b \<noteq> tid) (tariff_bands d)" x] rate t
      by (simp add: d')
  next
    case False
    with x rows t have old: "x \<in> set (tariffs d)" by auto
    have "\<forall>b\<in>set (band_rows tid normalized). tb_tariff_id b \<noteq> t_id x"
      using False by (auto simp: band_rows_def)
    with old inv False show ?thesis
      by (simp add: d' pricing_inv_alt price_table_append_other price_table_filter_other)
  qed
  moreover have "unique_dates (tariffs d')"
    using inv fresh unfolding pricing_inv_alt unique_dates_def Ball_def rows
    by (auto simp: t(3))
  moreover have "distinct (map t_id (tariffs d'))"
    using inv by (simp add: d' pricing_inv_alt map_key_update_row)
  moreover have "tb_tariff_id b \<in> t_id ` set (tariffs d')" if "b \<in> set (tariff_bands d')" for b
  proof -
    have "t_id ` set (tariffs d') = t_id ` set (tariffs d)"
      using map_key_update_row [of t_id ?f tid "tariffs d"]
      by (simp add: d' flip: set_map)
    with that inv t show ?thesis by (auto simp: d' pricing_inv_alt band_rows_def)
  qed
  ultimately show ?thesis by (simp add: pricing_inv_alt)
qed

lemma mark_inv:
  assumes inv: "pricing_inv d"
    and run: "danh_dau_bieu_gia_da_dung sid tid now d = Inr (r, d')"
  shows "pricing_inv d'"
proof -
  let ?f = "\<lambda>t. t\<lparr>t_used_at := Some now\<rparr>"
  have "d' = d \<or> d' = d\<lparr>tariffs := update_row t_id tid ?f (tariffs d)\<rparr>"
    using run by (auto simp: danh_dau_bieu_gia_da_dung_def split: if_splits)
  then show ?thesis
  proof
    assume d': "d' = d\<lparr>tariffs := update_row t_id tid ?f (tariffs d)\<rparr>"
    have only: "x = y" if "x \<in> set (tariffs d)" "y \<in> set (tariffs d)" "t_id x = t_id y" for x y
      using unique_row [of t_id "tariffs d" x y] inv that by (auto simp: pricing_inv_def)
    have ids: "t_id ` set (tariffs d') = t_id ` set (tariffs d)"
      using map_key_update_row [of t_id ?f tid "tariffs d"] by (simp add: d' flip: set_map)
    have "unique_dates (tariffs d')"
      using inv only unfolding pricing_inv_alt unique_dates_def d'
      by (auto simp: set_update_row) fastforce+
    moreover have "price_table (tariff_bands d') x" if "x \<in> set (tariffs d')" for x
      using that inv by (auto simp: d' set_update_row pricing_inv_alt price_table_def)
    ultimately show ?thesis
      using inv ids by (simp add: pricing_inv_alt d' map_key_update_row)
  qed (use inv in simp)
qed


inductive_cases pricing_stepE: "pricing_step zones now d d'"

lemma pricing_step_inv: "pricing_step zones now d d' \<Longrightarrow> pricing_inv d \<Longrightarrow> pricing_inv d'"
  by (erule pricing_stepE) (auto intro: create_inv edit_inv mark_inv)

lemma pricing_step_price:
  assumes "pricing_step zones now d d'" and "pricing_inv d"
    and "\<And>today. station_today zones s now d = Some today \<Longrightarrow> local_date < today"
  shows "price_of s local_date d' = price_of s local_date d"
  using assms by (elim pricing_stepE) (simp_all add: create_price_of edit_price_of mark_price_of)

lemma pricing_step_stations: "pricing_step zones now d d' \<Longrightarrow> stations d' = stations d"
  by (erule pricing_stepE)
    (auto elim!: tao_bieu_gia_Inr edit_tariff_Inr simp: danh_dau_bieu_gia_da_dung_def
      split: if_splits)

text \<open>A version that is in force or already used keeps its row and its bands for ever.\<close>

lemma edit_frozen:
  assumes inv: "pricing_inv d"
    and run: "edit_tariff zones now scope sid tid eff idle grace bands d = Inr (r, d')"
    and x: "x \<in> set (tariffs d)" "t_used_at x \<noteq> None"
  shows "x \<in> set (tariffs d') \<and> bands_of (t_id x) (tariff_bands d') = bands_of (t_id x) (tariff_bands d)"
proof -
  from run obtain normalized t where
      d': "d' = d\<lparr>tariffs := update_row t_id tid (\<lambda>t. t\<lparr>t_effective_from := eff,
          t_idle_rate_vnd_per_minute := idle, t_grace_minutes := grace\<rparr>) (tariffs d),
        tariff_bands := filter (\<lambda>b. tb_tariff_id b \<noteq> tid) (tariff_bands d)
          @ band_rows tid normalized\<rparr>"
    and edit: "kiem_bieu_gia_co_the_sua zones sid tid now d = Inr t"
    by (auto elim!: edit_tariff_Inr)
  have "x \<noteq> t" using kiem_sua_Inr(4) [OF edit] x(2) by auto
  then have ne: "t_id x \<noteq> tid"
    using unique_row [of t_id "tariffs d" x t] kiem_sua_Inr(1, 2) [OF edit] inv x(1)
    by (auto simp: pricing_inv_def)
  then have "filter (\<lambda>b. tb_tariff_id b = t_id x) (tariff_bands d')
      = filter (\<lambda>b. tb_tariff_id b = t_id x) (tariff_bands d)"
    by (auto simp: d' band_rows_def filter_empty_conv intro!: filter_cong)
  with ne x(1) show ?thesis by (simp add: d' set_update_row bands_of_def)
qed

lemma mark_frozen:
  assumes inv: "pricing_inv d" and run: "danh_dau_bieu_gia_da_dung sid tid now d = Inr (r, d')"
    and x: "x \<in> set (tariffs d)" "t_used_at x \<noteq> None"
  shows "x \<in> set (tariffs d')"
proof -
  obtain t where t: "find (\<lambda>t. t_id t = tid \<and> t_station_id t = sid) (tariffs d) = Some t"
    using run by (auto simp: danh_dau_bieu_gia_da_dung_def station_tariff_def split: option.splits)
  have "t_id x \<noteq> tid" if "t_used_at t = None"
    using that x unique_row [of t_id "tariffs d" x t] find_Some_iff_set [OF t] inv
    by (auto simp: pricing_inv_def)
  with run t x(1) show ?thesis
    by (auto simp: danh_dau_bieu_gia_da_dung_def station_tariff_def set_update_row split: if_splits)
qed

lemma pricing_step_frozen:
  assumes step: "pricing_step zones now d d'" and inv: "pricing_inv d"
    and x: "x \<in> set (tariffs d)" "t_used_at x \<noteq> None"
  shows "x \<in> set (tariffs d') \<and> bands_of (t_id x) (tariff_bands d') = bands_of (t_id x) (tariff_bands d)"
  using step
proof (rule pricing_stepE)
  fix new_id scope sid eff idle grace bands r
  assume run: "tao_bieu_gia zones new_id now scope sid eff idle grace bands d = Inr (r, d')"
  obtain t rows where r: "r = (t, rows)" by fastforce
  from run [unfolded r] obtain normalized where new: "new_id \<notin> t_id ` set (tariffs d)"
    and d': "d' = d\<lparr>tariffs := tariffs d @ [t],
      tariff_bands := tariff_bands d @ band_rows new_id normalized\<rparr>"
    by (auto elim!: tao_bieu_gia_Inr)
  have "\<forall>b\<in>set (band_rows new_id normalized). tb_tariff_id b \<noteq> t_id x"
    using new x(1) by (auto simp: band_rows_def)
  with x(1) show ?thesis by (simp add: d' bands_of_append_other)
next
  fix sid tid r
  assume run: "danh_dau_bieu_gia_da_dung sid tid now d = Inr (r, d')"
  then have "tariff_bands d' = tariff_bands d"
    by (auto simp: danh_dau_bieu_gia_da_dung_def split: if_splits)
  with mark_frozen [OF inv run x] show ?thesis by simp
qed (rule edit_frozen [OF inv _ x])

text \<open>
  C18: the price of a past day never changes.  Along any sequence of tariff creations, edits and
  markings, each performed at a moment whose local date at the station is later than
  \<open>local_date\<close>, the version, idle terms and bands that price \<open>local_date\<close> stay the same.
\<close>

theorem prices_not_retroactive:
  assumes "pricing_inv d"
    and "(\<lambda>d d'. \<exists>now. pricing_step zones now d d'
          \<and> (\<forall>today. station_today zones s now d = Some today \<longrightarrow> local_date < today))\<^sup>*\<^sup>* d d'"
  shows "pricing_inv d' \<and> price_of s local_date d' = price_of s local_date d"
  using assms(2, 1)
  by (induction rule: rtranclp_induct) (auto intro: pricing_step_inv dest: pricing_step_price)

text \<open>A database with one station, and the default time zone for every zone name.\<close>

definition vn_zones :: zones where
  "vn_zones name = fixed_zone 25200000000"

definition one_station :: db where
  "one_station = empty_db\<lparr>stations := [\<lparr>st_id = 3, st_owner_id = 4, st_name = ''A'',
     st_timezone = ''Asia/Ho_Chi_Minh'', st_status = ''active'', st_archived_at = None\<rparr>]\<rparr>"

definition flat_band :: "band_input list" where
  "flat_band = [\<lparr>start_min = 0, end_min = 1440, energy_rate_vnd_per_kwh = 3500, label = ''flat''\<rparr>]"

definition priced_station :: db where
  "priced_station = one_station\<lparr>
     tariffs := [\<lparr>t_id = 5, t_station_id = 3, t_effective_from = 10, t_used_at = None,
       t_idle_rate_vnd_per_minute = 1000, t_grace_minutes = 15\<rparr>],
     tariff_bands := [\<lparr>tb_tariff_id = 5, tb_start_min = 0, tb_end_min = 1440,
       tb_energy_rate_vnd_per_kwh = 3500, tb_label = ''flat''\<rparr>]\<rparr>"

lemma create_run:
  "tao_bieu_gia vn_zones 5 (10 * DAY_US) \<lparr>as_actor_id = 4, as_owner_id = Some 4\<rparr> 3 10 1000 15
      flat_band one_station
    = Inr ((\<lparr>t_id = 5, t_station_id = 3, t_effective_from = 10, t_used_at = None,
       t_idle_rate_vnd_per_minute = 1000, t_grace_minutes = 15\<rparr>,
       [\<lparr>tb_tariff_id = 5, tb_start_min = 0, tb_end_min = 1440,
         tb_energy_rate_vnd_per_kwh = 3500, tb_label = ''flat''\<rparr>]), priced_station)"
  by code_simp

lemma one_station_inv: "pricing_inv one_station"
  by (simp add: pricing_inv_def one_station_def empty_db_def)

theorem prices_not_retroactive_witness:
  "pricing_inv priced_station \<and> price_of 3 9 priced_station = price_of 3 9 one_station"
proof (rule prices_not_retroactive [OF one_station_inv, where zones = vn_zones])
  have "station_today vn_zones 3 (10 * DAY_US) one_station = Some 10" by code_simp
  then show "(\<lambda>d d'. \<exists>now. pricing_step vn_zones now d d'
      \<and> (\<forall>today. station_today vn_zones 3 now d = Some today \<longrightarrow> 9 < today))\<^sup>*\<^sup>*
      one_station priced_station"
    using pricing_step.create [OF create_run] by (intro r_into_rtranclp) fastforce
qed

text \<open>
  C35: a used version is frozen.  Once a tariff version has been used by an invoice, no creation,
  edit or marking changes its row or its bands.
\<close>

theorem used_tariff_frozen:
  assumes "pricing_inv d" and "(\<lambda>d d'. \<exists>now. pricing_step zones now d d')\<^sup>*\<^sup>* d d'"
    and "t \<in> set (tariffs d)" and "t_used_at t \<noteq> None"
  shows "t \<in> set (tariffs d') \<and> bands_of (t_id t) (tariff_bands d') = bands_of (t_id t) (tariff_bands d)"
proof -
  have "pricing_inv d' \<and> t \<in> set (tariffs d')
      \<and> bands_of (t_id t) (tariff_bands d') = bands_of (t_id t) (tariff_bands d)"
    using assms(2)
  proof (induction rule: rtranclp_induct)
    case (step d1 d2)
    then show ?case using pricing_step_frozen [of zones _ d1 d2 t] pricing_step_inv assms(4) by metis
  qed (use assms in simp)
  then show ?thesis by simp
qed

definition used_station :: db where
  "used_station = priced_station\<lparr>tariffs := [\<lparr>t_id = 5, t_station_id = 3, t_effective_from = 10,
     t_used_at = Some 1000, t_idle_rate_vnd_per_minute = 1000, t_grace_minutes = 15\<rparr>]\<rparr>"

lemma mark_run:
  "danh_dau_bieu_gia_da_dung 3 5 2000 used_station = Inr (\<lparr>t_id = 5, t_station_id = 3,
     t_effective_from = 10, t_used_at = Some 1000, t_idle_rate_vnd_per_minute = 1000,
     t_grace_minutes = 15\<rparr>, used_station)"
  by code_simp

theorem used_tariff_frozen_witness:
  "\<lparr>t_id = 5, t_station_id = 3, t_effective_from = 10, t_used_at = Some 1000,
     t_idle_rate_vnd_per_minute = 1000, t_grace_minutes = 15\<rparr> \<in> set (tariffs used_station)"
proof -
  let ?t = "\<lparr>t_id = 5, t_station_id = 3, t_effective_from = 10, t_used_at = Some 1000,
     t_idle_rate_vnd_per_minute = 1000, t_grace_minutes = 15\<rparr>"
  have "pricing_inv used_station"
    by (simp add: pricing_inv_def used_station_def priced_station_def one_station_def empty_db_def
        bands_of_def)
  moreover have "(\<lambda>d d'. \<exists>now. pricing_step vn_zones now d d')\<^sup>*\<^sup>* used_station used_station"
    using pricing_step.mark [OF mark_run] by (intro r_into_rtranclp) blast
  moreover have "?t \<in> set (tariffs used_station)" "t_used_at ?t \<noteq> None"
    by (simp_all add: used_station_def)
  ultimately show ?thesis using used_tariff_frozen by blast
qed

end
