(* ===== verification/Invoice_Lines.thy ===== *)
theory Invoice_Lines
  imports Pricing "HOL-Library.AList" "HOL-Library.Product_Lexorder"
begin

text \<open>
  src/src/modules/billing/invoicing.py, the parts an invoice is made of: the meter readings of a
  session (\<open>_meter_values\<close>), the tariff version and frames of every local day it touches
  (\<open>_daily_tariffs\<close>), and the idle lines (\<open>_idle_lines\<close>).

  A Python dict whose items are listed is an association list with distinct keys; one that is
  only looked up is a map.  The texts shown to the driver are ASCII here: the dash of a default
  band label and the Vietnamese label of an idle line are transliterated.
\<close>

section \<open>Meter readings\<close>

definition valid_reading :: "decimal option \<Rightarrow> bool" where
  "valid_reading value = (case value of None \<Rightarrow> False | Some v \<Rightarrow> 0 \<le> v)"

definition session_samples :: "charging_session \<Rightarrow> instant \<Rightarrow> db \<Rightarrow> meter_sample list" where
  "session_samples charging finish d = sort_key (\<lambda>m. (ms_timestamp m, ms_id m))
    (filter (\<lambda>m. ms_session_id m = cs_id charging
       \<and> cs_started_at charging \<le> ms_timestamp m \<and> ms_timestamp m \<le> finish
       \<and> ms_measurand m = ''Energy.Active.Import.Register''
       \<and> ms_phase m = [] \<and> ms_location m = ''Outlet'') (meter_samples d))"

definition add_sample ::
  "meter_sample \<Rightarrow> (instant \<times> decimal) list \<Rightarrow> exn + (instant \<times> decimal) list" where
  "add_sample sample readings =
    (if ms_unit sample \<noteq> ''Wh'' \<or> \<not> valid_reading (Some (ms_value sample))
     then Inl (InvalidInvoice ''invoice_invalid_meter'')
     else if (case map_of readings (ms_timestamp sample) of None \<Rightarrow> False
              | Some v \<Rightarrow> v \<noteq> ms_value sample)
     then Inl (InvalidInvoice ''invoice_conflicting_meter'')
     else Inr (AList.update (ms_timestamp sample) (ms_value sample) readings))"

definition meter_values :: "charging_session \<Rightarrow> instant \<Rightarrow> db \<Rightarrow> exn + meter_value list" where
  "meter_values charging finish d =
    (case cs_meter_stop_wh charging of
       None \<Rightarrow> Inl (InvalidInvoice ''invoice_invalid_meter'')
     | Some stop_wh \<Rightarrow>
         if \<not> valid_reading (Some (cs_meter_start_wh charging)) \<or> \<not> valid_reading (Some stop_wh)
         then Inl (InvalidInvoice ''invoice_invalid_meter'')
         else
           res_bind (res_fold add_sample (session_samples charging finish d)
               (AList.update finish stop_wh [(cs_started_at charging, cs_meter_start_wh charging)]))
             (\<lambda>readings.
             let ordered = sort_key fst readings in
             if (\<exists>p\<in>set (pairs ordered). snd (snd p) < snd (fst p))
             then Inl (InvalidInvoice ''invoice_meter_decreased'')
             else Inr (map (\<lambda>(stamp, value).
               \<lparr>mv_timestamp = stamp, mv_energy_wh = value\<rparr>) ordered)))"

section \<open>Daily tariffs\<close>

definition clock_text :: "int \<Rightarrow> string" where
  "clock_text minute = fixed_digits 10 2 (nat (minute div 60)) @ '':''
    @ fixed_digits 10 2 (nat (minute mod 60))"

definition row_band :: "tariff_band \<Rightarrow> band_input" where
  "row_band b = \<lparr>start_min = tb_start_min b, end_min = tb_end_min b,
     energy_rate_vnd_per_kwh = tb_energy_rate_vnd_per_kwh b, label = tb_label b\<rparr>"

definition band_frame :: "uuid \<Rightarrow> band_input \<Rightarrow> tariff_frame" where
  "band_frame tariff_id b =
    \<lparr>frame_start_time = clock_hm (start_min b), frame_end_time = clock_hm (end_min b),
     frame_price_vnd_per_kwh = energy_rate_vnd_per_kwh b, frame_tariff_version = tariff_id,
     frame_label = (if strip (label b) \<noteq> [] then strip (label b)
       else clock_text (start_min b) @ ''-'' @ clock_text (end_min b))\<rparr>"

record day_tables =
  dy_versions :: "day \<Rightarrow> tariff option"
  dy_frames :: "day \<Rightarrow> tariff_frame list option"
  dy_cached :: "uuid \<Rightarrow> tariff_frame list option"

definition tariff_frames :: "uuid \<Rightarrow> db \<Rightarrow> exn + tariff_frame list" where
  "tariff_frames tariff_id d =
    (case kiem_khung_gio (map row_band (bands_of tariff_id (tariff_bands d))) of
       Inl _ \<Rightarrow> Inl (InvalidInvoice ''invoice_invalid_tariff'')
     | Inr normalized \<Rightarrow> Inr (map (band_frame tariff_id) normalized))"

definition daily_tariff ::
  "zones \<Rightarrow> instant \<Rightarrow> bool \<Rightarrow> uuid \<Rightarrow> day \<Rightarrow> day_tables \<times> db \<Rightarrow> exn + day_tables \<times> db" where
  "daily_tariff zones now mark_used station_id day = (\<lambda>(tabs, d).
    res_bind (lay_bieu_gia_hieu_luc zones station_id (LocalDate day) d) (\<lambda>selected.
      case selected of
        None \<Rightarrow> Inl (InvalidInvoice ''invoice_missing_tariff'')
      | Some tariff \<Rightarrow>
          (case dy_cached tabs (t_id tariff) of
             Some frames \<Rightarrow>
               Inr (tabs\<lparr>dy_versions := (dy_versions tabs)(day \<mapsto> tariff),
                         dy_frames := (dy_frames tabs)(day \<mapsto> frames)\<rparr>, d)
           | None \<Rightarrow>
               res_bind (if mark_used
                         then danh_dau_bieu_gia_da_dung station_id (t_id tariff) now d
                         else Inr (tariff, d)) (\<lambda>(tariff, d1).
               res_bind (tariff_frames (t_id tariff) d1) (\<lambda>frames.
                 Inr (\<lparr>dy_versions = (dy_versions tabs)(day \<mapsto> tariff),
                       dy_frames = (dy_frames tabs)(day \<mapsto> frames),
                       dy_cached = (dy_cached tabs)(t_id tariff \<mapsto> frames)\<rparr>, d1))))))"

definition daily_tariffs ::
  "zones \<Rightarrow> instant \<Rightarrow> bool \<Rightarrow> station \<Rightarrow> instant \<Rightarrow> instant \<Rightarrow> db \<Rightarrow> exn + day_tables \<times> db" where
  "daily_tariffs zones now mark_used station start finish d =
    (let tz = zones (st_timezone station) in
     res_fold (daily_tariff zones now mark_used (st_id station))
       [zone_date tz start..zone_date tz (finish - 1)]
       (\<lparr>dy_versions = Map.empty, dy_frames = Map.empty, dy_cached = Map.empty\<rparr>, d))"

section \<open>Idle lines\<close>

definition idle_label :: string where "idle_label = ''Phi chiem tru''"

fun idle_loop ::
  "nat \<Rightarrow> zone \<Rightarrow> (day \<Rightarrow> tariff option) \<Rightarrow> uuid \<Rightarrow> instant \<Rightarrow> instant \<Rightarrow> int
   \<Rightarrow> exn + invoice_line list" where
  "idle_loop fuel tz versions invoice_id finish anchor count =
    (if count = 0 then Inr []
     else case fuel of
       0 \<Rightarrow> Inl Diverges
     | Suc fuel' \<Rightarrow>
         let day = zone_date tz anchor in
         (case versions day of
            None \<Rightarrow> Inl KeyError
          | Some tariff \<Rightarrow>
              let midnight = zone_combine tz (day + 1) 0;
                  until_midnight = midnight - anchor;
                  span = min count ((until_midnight + 59999999) div 60000000);
                  line_end = min finish (anchor + span * MINUTE_US) in
              res_bind (tinh_phi_chiem_tru (Some (Aware anchor)) (Aware line_end) (PyInt 0)
                  (PyInt (t_idle_rate_vnd_per_minute tariff))) (\<lambda>(_, amount).
              res_bind (idle_loop fuel' tz versions invoice_id finish
                  (anchor + span * MINUTE_US) (count - span)) (\<lambda>lines.
                Inr (\<lparr>il_invoice_id = invoice_id, il_line_type = IdleLine, il_local_date = day,
                      il_started_at = anchor, il_ended_at = line_end, il_energy_wh = 0,
                      il_rate_vnd = t_idle_rate_vnd_per_minute tariff,
                      il_band_label = idle_label, il_interpolated = False,
                      il_tariff_id = t_id tariff, il_amount_vnd = amount\<rparr> # lines)))))"

declare idle_loop.simps [simp del]

definition idle_lines ::
  "zones \<Rightarrow> charging_session \<Rightarrow> station \<Rightarrow> instant \<Rightarrow> (day \<Rightarrow> tariff option) \<Rightarrow> uuid
   \<Rightarrow> instant option \<Rightarrow> exn + invoice_line list" where
  "idle_lines zones charging station finish versions invoice_id idle_start =
    (case (if idle_start \<noteq> None then idle_start else cs_idle_since charging) of
       None \<Rightarrow> Inr []
     | Some idle \<Rightarrow>
         if idle < cs_started_at charging \<or> idle > finish
         then Inl (InvalidInvoice ''invoice_invalid_idle_interval'')
         else if idle = finish then Inr []
         else
           let tz = zones (st_timezone station) in
           (case versions (zone_date tz idle) of
              None \<Rightarrow> Inl KeyError
            | Some initial \<Rightarrow>
                res_bind (tinh_phi_chiem_tru (Some (Aware idle)) (Aware finish)
                    (PyInt (t_grace_minutes initial)) (PyInt 1)) (\<lambda>(count, _).
                  if count = 0 then Inr []
                  else idle_loop (nat count) tz versions invoice_id finish
                    (idle + t_grace_minutes initial * MINUTE_US) count)))"

section \<open>Idle lines charge every started minute once, at the rate of its local day\<close>

definition idle_rate_on :: "(day \<Rightarrow> tariff option) \<Rightarrow> day \<Rightarrow> vnd" where
  "idle_rate_on versions day =
    (case versions day of None \<Rightarrow> 0 | Some t \<Rightarrow> t_idle_rate_vnd_per_minute t)"

definition idle_cost :: "zone \<Rightarrow> (day \<Rightarrow> tariff option) \<Rightarrow> instant \<Rightarrow> nat \<Rightarrow> vnd" where
  "idle_cost tz versions anchor n =
    (\<Sum>k\<leftarrow>[0..<n]. idle_rate_on versions (zone_date tz (anchor + int k * MINUTE_US)))"

fun line_chain :: "instant \<Rightarrow> instant \<Rightarrow> invoice_line list \<Rightarrow> bool" where
  "line_chain a b [] \<longleftrightarrow> a = b"
| "line_chain a b (l # ls) \<longleftrightarrow> il_started_at l = a \<and> a < il_ended_at l \<and> line_chain (il_ended_at l) b ls"

definition idle_line_ok :: "zone \<Rightarrow> (day \<Rightarrow> tariff option) \<Rightarrow> invoice_line \<Rightarrow> bool" where
  "idle_line_ok tz versions l \<longleftrightarrow> il_line_type l = IdleLine \<and> il_energy_wh l = 0
    \<and> il_local_date l = zone_date tz (il_started_at l)
    \<and> (\<exists>t. versions (il_local_date l) = Some t \<and> il_tariff_id l = t_id t
         \<and> il_rate_vnd l = t_idle_rate_vnd_per_minute t)
    \<and> il_amount_vnd l = billable_minutes (il_ended_at l - il_started_at l) 0 * il_rate_vnd l"

lemma idle_cost_add:
  "idle_cost tz versions a (m + n) =
    idle_cost tz versions a m + idle_cost tz versions (a + int m * MINUTE_US) n"
proof -
  have "[0..<m + n] = [0..<m] @ map (\<lambda>k. m + k) [0..<n]"
    using upt_add_eq_append [of 0 m n] map_add_upt [of m n] by (simp add: add.commute)
  then show ?thesis by (simp add: idle_cost_def comp_def algebra_simps)
qed

lemma idle_cost_const:
  assumes "\<And>k. k < n \<Longrightarrow> zone_date tz (a + int k * MINUTE_US) = day"
  shows "idle_cost tz versions a n = int n * idle_rate_on versions day"
proof -
  have "idle_cost tz versions a n = (\<Sum>k\<leftarrow>[0..<n]. idle_rate_on versions day)"
    unfolding idle_cost_def using assms by (intro arg_cong [where f = sum_list] map_cong) auto
  then show ?thesis by (simp add: sum_list_triv)
qed

definition priced :: "zone \<Rightarrow> (day \<Rightarrow> tariff option) \<Rightarrow> instant \<Rightarrow> instant \<Rightarrow> bool" where
  "priced tz versions a b \<longleftrightarrow> (\<forall>t. a \<le> t \<longrightarrow> t < b \<longrightarrow>
    (\<exists>v. versions (zone_date tz t) = Some v \<and> 0 \<le> t_idle_rate_vnd_per_minute v
       \<and> 0 \<le> t_grace_minutes v))"

lemma minutes_div: "k < (x + 59999999) div 60000000 \<Longrightarrow> k * 60000000 < x" for k x :: int
  using div_mult_mod_eq [of "x + 59999999" 60000000] pos_mod_sign [of 60000000 "x + 59999999"]
  by linarith

lemma minutes_div_pos: "0 < x \<Longrightarrow> 0 < (x + 59999999) div 60000000" for x :: int
  using div_mult_mod_eq [of "x + 59999999" 60000000] pos_mod_bound [of 60000000 "x + 59999999"]
  by linarith

context station_zone
begin

lemma minutes_before_midnight:
  assumes "0 \<le> k" and "k < (zone_combine z (zone_date z a + 1) 0 - a + 59999999) div 60000000"
  shows "zone_date z (a + k * MINUTE_US) = zone_date z a"
proof -
  have "k * 60000000 < zone_combine z (zone_date z a + 1) 0 - a"
    using assms(2) minutes_div by blast
  then show ?thesis
    using date_iff [of a "zone_date z a"] date_iff [of "a + k * MINUTE_US" "zone_date z a"] assms(1)
    by simp
qed

lemma idle_loop_ok:
  assumes "count = billable_minutes (finish - anchor) 0" and "nat count \<le> fuel"
    and "priced z versions anchor finish"
  shows "\<exists>lines. idle_loop fuel z versions bill_id finish anchor count = Inr lines
    \<and> (\<Sum>l\<leftarrow>lines. il_amount_vnd l) = idle_cost z versions anchor (nat count)
    \<and> (count \<noteq> 0 \<longrightarrow> line_chain anchor finish lines) \<and> (\<forall>l\<in>set lines. idle_line_ok z versions l)"
  using assms
proof (induction fuel arbitrary: anchor count)
  case 0
  then have "count = 0" using billable_minutes_nonneg [of "finish - anchor" 0] by simp
  then show ?case by (simp add: idle_loop.simps idle_cost_def)
next
  case (Suc fuel)
  show ?case
  proof (cases "count = 0")
    case True
    then show ?thesis by (simp add: idle_loop.simps idle_cost_def)
  next
    case False
    then have pos: "0 < count"
      using Suc.prems(1) billable_minutes_nonneg [of "finish - anchor" 0] by linarith
    then have less: "anchor < finish"
      using Suc.prems(1) billable_minutes_pos_iff [of "finish - anchor" 0] by simp
    define day where "day = zone_date z anchor"
    obtain v where v: "versions day = Some v" "0 \<le> t_idle_rate_vnd_per_minute v"
      using Suc.prems(3) less by (auto simp: priced_def day_def)
    define minutes where "minutes = (zone_combine z (day + 1) 0 - anchor + 59999999) div 60000000"
    define span where "span = min count minutes"
    have "0 < minutes"
      unfolding minutes_def using date_iff [of anchor day] by (intro minutes_div_pos) (simp add: day_def)
    with pos have span: "0 < span" "span \<le> count" by (auto simp: span_def)
    let ?next = "anchor + span * MINUTE_US"
    let ?stop = "min finish ?next"
    have rest: "count - span = billable_minutes (finish - ?next) 0"
      using billable_minutes_split [of span "finish - anchor"] Suc.prems(1) span
      by (simp add: algebra_simps)
    have fuel': "nat (count - span) \<le> fuel" using Suc.prems(2) span by (simp add: nat_le_iff)
    obtain lines where lines: "idle_loop fuel z versions bill_id finish ?next (count - span) = Inr lines"
      "(\<Sum>l\<leftarrow>lines. il_amount_vnd l) = idle_cost z versions ?next (nat (count - span))"
      "count - span \<noteq> 0 \<longrightarrow> line_chain ?next finish lines" "\<forall>l\<in>set lines. idle_line_ok z versions l"
      using Suc.IH [OF rest fuel'] Suc.prems(3) span by (auto simp: priced_def)
    have end_minutes: "billable_minutes (?stop - anchor) 0 = span"
    proof (cases "finish \<le> ?next")
      case True
      then have "billable_minutes (finish - anchor) 0 \<le> span"
        using billable_minutes_le_iff [of span "finish - anchor" 0] span by simp
      with True Suc.prems(1) span show ?thesis by simp
    next
      case False
      then show ?thesis using billable_minutes_exact [of span] span by simp
    qed
    let ?line = "\<lparr>il_invoice_id = bill_id, il_line_type = IdleLine, il_local_date = day,
      il_started_at = anchor, il_ended_at = ?stop, il_energy_wh = 0,
      il_rate_vnd = t_idle_rate_vnd_per_minute v, il_band_label = idle_label,
      il_interpolated = False, il_tariff_id = t_id v,
      il_amount_vnd = span * t_idle_rate_vnd_per_minute v\<rparr>"
    have eq: "idle_loop (Suc fuel) z versions bill_id finish anchor count = Inr (?line # lines)"
      using False v lines(1) less span end_minutes
      by (simp add: idle_loop.simps [of "Suc fuel"] Let_def
          flip: day_def minutes_def span_def)
    have "zone_date z (anchor + int k * MINUTE_US) = day" if "k < nat span" for k
      using minutes_before_midnight [of "int k" anchor] that
      by (simp add: span_def minutes_def day_def)
    then have "idle_cost z versions anchor (nat span) = span * t_idle_rate_vnd_per_minute v"
      using idle_cost_const [of "nat span" z anchor day versions] v span
      by (simp add: idle_rate_on_def)
    then have "idle_cost z versions anchor (nat count)
        = span * t_idle_rate_vnd_per_minute v + (\<Sum>l\<leftarrow>lines. il_amount_vnd l)"
      using idle_cost_add [of z versions anchor "nat span" "nat (count - span)"] lines(2) span
      by (simp flip: nat_add_distrib)
    moreover have "line_chain ?stop finish lines"
    proof (cases "count - span = 0")
      case True
      then have "lines = []" "finish \<le> ?next"
        using lines(1) rest billable_minutes_pos_iff [of "finish - ?next" 0]
        by (auto simp: idle_loop.simps)
      then show ?thesis by simp
    next
      case False
      then have "?next < finish"
        using rest span billable_minutes_pos_iff [of "finish - ?next" 0] by simp
      with False lines(3) show ?thesis by simp
    qed
    ultimately show ?thesis
      unfolding eq using lines(4) less span v end_minutes
      by (auto simp: idle_line_ok_def day_def)
  qed
qed

lemma idle_lines_ok:
  assumes "zones (st_timezone station) = z"
    and "idle_start = Some idle \<or> (idle_start = None \<and> cs_idle_since charging = Some idle)"
    and "cs_started_at charging \<le> idle" and "idle < finish"
    and "versions (zone_date z idle) = Some initial" and grace: "0 \<le> t_grace_minutes initial"
    and "priced z versions idle finish"
  shows "\<exists>lines. idle_lines zones charging station finish versions bill_id idle_start = Inr lines
    \<and> (\<Sum>l\<leftarrow>lines. il_amount_vnd l)
       = idle_cost z versions (idle + t_grace_minutes initial * MINUTE_US)
           (nat (billable_minutes (finish - idle) (t_grace_minutes initial)))
    \<and> (lines \<noteq> [] \<longrightarrow> line_chain (idle + t_grace_minutes initial * MINUTE_US) finish lines)
    \<and> (\<forall>l\<in>set lines. idle_line_ok z versions l)"
proof -
  define anchor where "anchor = idle + t_grace_minutes initial * MINUTE_US"
  define count where "count = billable_minutes (finish - idle) (t_grace_minutes initial)"
  have count: "count = billable_minutes (finish - anchor) 0"
    using billable_minutes_grace [of "finish - idle" "t_grace_minutes initial"]
    by (simp add: count_def anchor_def algebra_simps)
  have "priced z versions anchor finish"
    using assms(7) grace by (auto simp: priced_def anchor_def)
  from idle_loop_ok [OF count order.refl this, of bill_id]
  obtain lines where lines: "idle_loop (nat count) z versions bill_id finish anchor count = Inr lines"
    "(\<Sum>l\<leftarrow>lines. il_amount_vnd l) = idle_cost z versions anchor (nat count)"
    "count \<noteq> 0 \<longrightarrow> line_chain anchor finish lines" "\<forall>l\<in>set lines. idle_line_ok z versions l"
    by blast
  have "idle_lines zones charging station finish versions bill_id idle_start
      = (if count = 0 then Inr [] else Inr lines)"
    using assms(1-5) grace lines(1)
    by (auto simp: idle_lines_def Let_def simp flip: anchor_def count_def)
  then show ?thesis
    using lines by (auto simp: idle_cost_def simp flip: anchor_def count_def)
qed

end

section \<open>Readings and frames fit the cut\<close>

text \<open>What the readings collected so far keep true.\<close>

definition readings_inv ::
  "instant \<Rightarrow> instant \<Rightarrow> decimal \<Rightarrow> decimal \<Rightarrow> (instant \<times> decimal) list \<Rightarrow> bool" where
  "readings_inv s e start_wh stop_wh rs \<longleftrightarrow> distinct (map fst rs)
    \<and> (\<forall>t v. map_of rs t = Some v \<longrightarrow> s \<le> t \<and> t \<le> e)
    \<and> map_of rs s = Some start_wh \<and> map_of rs e = Some stop_wh"

lemma add_sample_inv:
  assumes inv: "readings_inv s e start_wh stop_wh rs" and run: "add_sample m rs = Inr rs'"
    and t: "s \<le> ms_timestamp m" "ms_timestamp m \<le> e"
  shows "readings_inv s e start_wh stop_wh rs'"
proof -
  have rs': "rs' = AList.update (ms_timestamp m) (ms_value m) rs"
    and same: "\<And>v. map_of rs (ms_timestamp m) = Some v \<Longrightarrow> v = ms_value m"
    using run by (auto simp: add_sample_def split: if_splits option.splits)
  have m: "map_of rs' = (map_of rs)(ms_timestamp m \<mapsto> ms_value m)"
    by (simp add: rs' update_conv')
  have "distinct (map fst rs')"
    using inv by (simp add: rs' readings_inv_def distinct_update)
  with inv t same show ?thesis
    unfolding readings_inv_def m by (auto simp del: map_of_eq_Some_iff)
qed

lemma res_fold_inv:
  assumes "\<And>x s s'. x \<in> set xs \<Longrightarrow> P s \<Longrightarrow> f x s = Inr s' \<Longrightarrow> P s'"
    and "P s" and "res_fold f xs s = Inr s'"
  shows "P s'"
  using assms
proof (induction xs arbitrary: s)
  case (Cons x xs)
  then obtain t where "f x s = Inr t" "res_fold f xs t = Inr s'" by auto
  with Cons.prems(1, 2) Cons.IH [of t] show ?case by (meson list.set_intros)
qed simp

lemma meter_values_fold:
  assumes "meter_values charging finish d = Inr mvs" and "cs_started_at charging < finish"
  obtains stop_wh readings where "cs_meter_stop_wh charging = Some stop_wh"
    and "readings_inv (cs_started_at charging) finish (cs_meter_start_wh charging) stop_wh readings"
    and "mvs = map (\<lambda>(stamp, value). \<lparr>mv_timestamp = stamp, mv_energy_wh = value\<rparr>)
           (sort_key fst readings)"
    and "\<forall>p\<in>set (pairs (sort_key fst readings)). snd (fst p) \<le> snd (snd p)"
proof -
  obtain stop_wh readings where stop: "cs_meter_stop_wh charging = Some stop_wh"
    and fold: "res_fold add_sample (session_samples charging finish d)
      (AList.update finish stop_wh [(cs_started_at charging, cs_meter_start_wh charging)])
      = Inr readings"
    and mvs: "mvs = map (\<lambda>(stamp, value). \<lparr>mv_timestamp = stamp, mv_energy_wh = value\<rparr>)
           (sort_key fst readings)"
    and mono: "\<forall>p\<in>set (pairs (sort_key fst readings)). snd (fst p) \<le> snd (snd p)"
    using assms(1)
    by (auto simp: meter_values_def Let_def not_less split: option.splits if_splits)
  have "readings_inv (cs_started_at charging) finish (cs_meter_start_wh charging) stop_wh readings"
  proof (rule res_fold_inv [OF _ _ fold])
    show "readings_inv (cs_started_at charging) finish (cs_meter_start_wh charging) stop_wh
        (AList.update finish stop_wh [(cs_started_at charging, cs_meter_start_wh charging)])"
      using assms(2) by (auto simp: readings_inv_def split: if_splits)
  qed (auto simp: session_samples_def intro: add_sample_inv)
  with stop mvs mono that show ?thesis by blast
qed

lemma sorted_readings:
  fixes rs :: "(instant \<times> decimal) list"
  assumes "distinct (map fst rs)"
    and "\<forall>p\<in>set (pairs (sort_key fst rs)). snd (fst p) \<le> snd (snd p)"
  shows "sorted_wrt (\<lambda>a b. fst a < fst b \<and> snd a \<le> snd b) (sort_key fst rs)"
proof -
  have step: "sorted_wrt (\<lambda>a b. fst a < fst b \<and> snd a \<le> snd b) xs"
    if "sorted (map fst xs)" "distinct (map fst xs)" "\<forall>p\<in>set (pairs xs). snd (fst p) \<le> snd (snd p)"
    for xs :: "(instant \<times> decimal) list"
    using that
  proof (induction xs rule: induct_list012)
    case (3 x y zs)
    then have "sorted_wrt (\<lambda>a b. fst a < fst b \<and> snd a \<le> snd b) (y # zs)"
      by (simp add: pairs_Cons2)
    moreover have "fst x < fst y" "snd x \<le> snd y"
      using "3.prems" by (auto simp: pairs_Cons2 order_less_le)
    ultimately show ?case by fastforce
  qed auto
  show ?thesis
    using assms by (intro step) (simp_all add: distinct_map)
qed

lemma meter_values_ok:
  assumes run: "meter_values charging finish d = Inr mvs" and less: "cs_started_at charging < finish"
  shows "readings_ok mvs" and "mv_timestamp (hd mvs) = cs_started_at charging"
    and "mv_timestamp (last mvs) = finish"
    and "mv_energy_wh (hd mvs) = cs_meter_start_wh charging"
    and "Some (mv_energy_wh (last mvs)) = cs_meter_stop_wh charging"
proof -
  obtain stop_wh rs where stop: "cs_meter_stop_wh charging = Some stop_wh"
    and inv: "readings_inv (cs_started_at charging) finish (cs_meter_start_wh charging) stop_wh rs"
    and mvs: "mvs = map (\<lambda>(stamp, value). \<lparr>mv_timestamp = stamp, mv_energy_wh = value\<rparr>)
           (sort_key fst rs)"
    and mono: "\<forall>p\<in>set (pairs (sort_key fst rs)). snd (fst p) \<le> snd (snd p)"
    using meter_values_fold [OF run less] by metis
  let ?xs = "sort_key fst rs"
  have dist: "distinct (map fst rs)" using inv by (simp add: readings_inv_def)
  have mem: "(cs_started_at charging, cs_meter_start_wh charging) \<in> set ?xs" "(finish, stop_wh) \<in> set ?xs"
    using inv by (auto simp: readings_inv_def)
  have range: "cs_started_at charging \<le> fst x \<and> fst x \<le> finish" if "x \<in> set ?xs" for x
    using inv that by (cases x) (auto simp: readings_inv_def)
  have sorted: "sorted_wrt (\<lambda>a b. fst a < fst b \<and> snd a \<le> snd b) ?xs"
    by (rule sorted_readings [OF dist mono])
  have ne: "?xs \<noteq> []" using mem(1) by (metis empty_iff list.set(1))
  from sorted show "readings_ok mvs"
    using ne by (auto simp: readings_ok_def mvs sorted_wrt_map reading_le_def case_prod_beta
        elim!: sorted_wrt_mono_rel [rotated])
  have ends: "hd ?xs = (cs_started_at charging, cs_meter_start_wh charging)"
      "last ?xs = (finish, stop_wh)"
  proof -
    have "fst (hd ?xs) = cs_started_at charging"
      using sorted mem(1) range by (cases ?xs) force+
    moreover have "fst (last ?xs) = finish"
      using sorted mem(2) range by (cases ?xs rule: rev_cases) (force simp: sorted_wrt_append)+
    moreover have "hd ?xs \<in> set rs" "last ?xs \<in> set rs"
      using ne hd_in_set [of ?xs] last_in_set [of ?xs] by force+
    ultimately show "hd ?xs = (cs_started_at charging, cs_meter_start_wh charging)"
      "last ?xs = (finish, stop_wh)"
      using eq_key_imp_eq_value [OF dist] mem by (metis prod.collapse set_sort)+
  qed
  show "mv_timestamp (hd mvs) = cs_started_at charging"
    "mv_timestamp (last mvs) = finish" "mv_energy_wh (hd mvs) = cs_meter_start_wh charging"
    "Some (mv_energy_wh (last mvs)) = cs_meter_stop_wh charging"
    using ends ne by (simp_all add: mvs stop list.map_sel last_map)
qed

lemma frame_st_band_frame [simp]: "frame_st (band_frame tid b) = start_min b"
  and frame_en_band_frame [simp]: "frame_en (band_frame tid b) = end_min b"
  by (simp_all add: frame_st_def frame_en_def band_frame_def clock_hm_def)

lemma tariff_frames_ok:
  assumes "tariff_frames tid d = Inr fs"
  shows "day_frames fs" and "\<forall>f\<in>set fs. frame_tariff_version f = tid"
proof -
  obtain normalized where ok: "kiem_khung_gio (map row_band (bands_of tid (tariff_bands d))) = Inr normalized"
    and fs: "fs = map (band_frame tid) normalized"
    using assms by (auto simp: tariff_frames_def split: sum.splits)
  have "contiguous frame_st frame_en 0 fs"
    using tariff_bands.output_contiguous [OF ok] by (simp add: fs contiguous_map comp_def)
  then show "day_frames fs" by (auto simp: day_frames_def fs) (simp_all add: band_frame_def)
  show "\<forall>f\<in>set fs. frame_tariff_version f = tid" by (auto simp: fs band_frame_def)
qed

text \<open>
  The tables after some days: every day seen has the version in force on it and well-formed
  frames that carry its identifier, no other day has an entry, and the cache is well formed.
\<close>

definition tables_inv :: "uuid \<Rightarrow> day set \<Rightarrow> day_tables \<times> db \<Rightarrow> bool" where
  "tables_inv sid days = (\<lambda>(tabs, d).
    (\<forall>x\<in>days. \<exists>v fs. dy_versions tabs x = Some v \<and> dy_frames tabs x = Some fs \<and> day_frames fs
       \<and> (\<forall>f\<in>set fs. frame_tariff_version f = t_id v)
       \<and> (\<exists>p. price_of sid x d = Some (t_id v, t_idle_rate_vnd_per_minute v, t_grace_minutes v, p)))
    \<and> (\<forall>x. x \<notin> days \<longrightarrow> dy_versions tabs x = None \<and> dy_frames tabs x = None)
    \<and> (\<forall>tid fs. dy_cached tabs tid = Some fs \<longrightarrow> day_frames fs
         \<and> (\<forall>f\<in>set fs. frame_tariff_version f = tid)))"

lemma lay_bieu_gia_Inr:
  "lay_bieu_gia_hieu_luc zones sid (LocalDate x) d = Inr r \<longleftrightarrow>
    row_of st_id sid (stations d) \<noteq> None \<and> r = latest_tariff sid x (tariffs d)"
  by (auto simp: lay_bieu_gia_hieu_luc_def pricing_station_def split: option.splits)

lemma tariffs_self [simp]: "\<exists>ts. (d :: db) = d\<lparr>tariffs := ts\<rparr>"
  by (rule exI [of _ "tariffs d"]) simp

lemma mark_row:
  assumes inv: "pricing_inv d" and v: "v \<in> set (tariffs d)" "t_station_id v = sid"
    and run: "danh_dau_bieu_gia_da_dung sid (t_id v) now d = Inr (v', d')"
  shows "t_id v' = t_id v" "t_idle_rate_vnd_per_minute v' = t_idle_rate_vnd_per_minute v"
    "t_grace_minutes v' = t_grace_minutes v" "\<exists>ts. d' = d\<lparr>tariffs := ts\<rparr>"
proof -
  obtain u where u: "find (\<lambda>t. t_id t = t_id v \<and> t_station_id t = sid) (tariffs d) = Some u"
    and v': "v' = u \<or> v' = u\<lparr>t_used_at := Some now\<rparr>" and d': "\<exists>ts. d' = d\<lparr>tariffs := ts\<rparr>"
    using run by (auto simp: danh_dau_bieu_gia_da_dung_def station_tariff_def
        split: option.splits if_splits)
  have "u = v"
    using unique_row [of t_id "tariffs d" u v] find_Some_iff_set [OF u] inv v(1)
    by (auto simp: pricing_inv_def)
  with v' d' show "t_id v' = t_id v" "t_idle_rate_vnd_per_minute v' = t_idle_rate_vnd_per_minute v"
    "t_grace_minutes v' = t_grace_minutes v" "\<exists>ts. d' = d\<lparr>tariffs := ts\<rparr>" by auto
qed

definition tables_step :: "db \<Rightarrow> db \<Rightarrow> bool" where
  "tables_step d d' \<longleftrightarrow> pricing_inv d' \<and> (\<exists>ts. d' = d\<lparr>tariffs := ts\<rparr>)
    \<and> (\<forall>s x. price_of s x d' = price_of s x d)"

lemma tables_step_refl: "pricing_inv d \<Longrightarrow> tables_step d d"
  by (simp add: tables_step_def)

lemma tables_step_trans: "tables_step d d1 \<Longrightarrow> tables_step d1 d2 \<Longrightarrow> tables_step d d2"
  by (auto simp: tables_step_def)

lemma tables_inv_step:
  "tables_inv sid days (tabs, d) \<Longrightarrow> tables_step d d' \<Longrightarrow> tables_inv sid days (tabs, d')"
  by (simp add: tables_inv_def tables_step_def)

lemma tables_inv_insert:
  assumes "tables_inv sid days (tabs, d)" and "day_frames fs"
    and "\<forall>f\<in>set fs. frame_tariff_version f = t_id v"
    and "price_of sid x d = Some (t_id v, t_idle_rate_vnd_per_minute v, t_grace_minutes v, p)"
    and "cached = dy_cached tabs \<or> cached = (dy_cached tabs)(t_id v \<mapsto> fs)"
  shows "tables_inv sid (insert x days) (\<lparr>dy_versions = (dy_versions tabs)(x \<mapsto> v),
    dy_frames = (dy_frames tabs)(x \<mapsto> fs), dy_cached = cached\<rparr>, d)"
  using assms unfolding tables_inv_def by (auto split: if_splits)

lemma daily_tariff_step:
  assumes pinv: "pricing_inv d" and tinv: "tables_inv sid days (tabs, d)"
    and run: "daily_tariff zones now mark_used sid x (tabs, d) = Inr (tabs', d')"
  shows "tables_step d d' \<and> tables_inv sid (insert x days) (tabs', d') \<and> (\<not> mark_used \<longrightarrow> d' = d)"
proof -
  obtain v where v: "latest_tariff sid x (tariffs d) = Some v"
    using run by (auto simp: daily_tariff_def lay_bieu_gia_Inr split: option.splits)
  note spec = latest_tariff_spec(1, 2) [OF v]
  have price: "\<exists>p. price_of sid x d = Some (t_id v, t_idle_rate_vnd_per_minute v, t_grace_minutes v, p)"
    using v by (simp add: price_of_def)
  show ?thesis
  proof (cases "dy_cached tabs (t_id v)")
    case (Some fs)
    then have fs: "day_frames fs" "\<forall>f\<in>set fs. frame_tariff_version f = t_id v"
      using tinv by (auto simp: tables_inv_def)
    have "d' = d" and tabs': "tabs' = \<lparr>dy_versions = (dy_versions tabs)(x \<mapsto> v),
        dy_frames = (dy_frames tabs)(x \<mapsto> fs), dy_cached = dy_cached tabs\<rparr>"
      using run v Some by (auto simp: daily_tariff_def lay_bieu_gia_Inr)
    with tables_inv_insert [OF tinv fs] price tables_step_refl [OF pinv] show ?thesis by auto
  next
    case None
    then obtain v' fs where mark: "(if mark_used then danh_dau_bieu_gia_da_dung sid (t_id v) now d
        else Inr (v, d)) = Inr (v', d')"
      and fs: "tariff_frames (t_id v') d' = Inr fs"
      and tabs': "tabs' = \<lparr>dy_versions = (dy_versions tabs)(x \<mapsto> v'),
        dy_frames = (dy_frames tabs)(x \<mapsto> fs), dy_cached = (dy_cached tabs)(t_id v' \<mapsto> fs)\<rparr>"
      using run v by (auto simp: daily_tariff_def lay_bieu_gia_Inr)
    have same: "t_id v' = t_id v \<and> t_idle_rate_vnd_per_minute v' = t_idle_rate_vnd_per_minute v
        \<and> t_grace_minutes v' = t_grace_minutes v \<and> tables_step d d'"
      using mark mark_row [OF pinv spec] mark_inv [OF pinv] mark_price_of tables_step_refl [OF pinv]
      by (auto simp: tables_step_def split: if_splits)
    then have "\<exists>p. price_of sid x d' = Some (t_id v', t_idle_rate_vnd_per_minute v', t_grace_minutes v', p)"
      using price by (simp add: tables_step_def)
    then have "tables_inv sid (insert x days) (tabs', d')"
      unfolding tabs' using tables_inv_insert [OF tables_inv_step [OF tinv] tariff_frames_ok [OF fs]]
        same by blast
    moreover have "\<not> mark_used \<longrightarrow> d' = d" using mark by (cases mark_used) simp_all
    ultimately show ?thesis using same by blast
  qed
qed

lemma daily_fold:
  assumes "pricing_inv d" and "tables_inv sid days (tabs, d)"
    and "res_fold (daily_tariff zones now mark_used sid) xs (tabs, d) = Inr (tabs', d')"
  shows "tables_step d d' \<and> tables_inv sid (days \<union> set xs) (tabs', d') \<and> (\<not> mark_used \<longrightarrow> d' = d)"
  using assms
proof (induction xs arbitrary: days tabs d)
  case Nil
  then show ?case by (simp add: tables_step_refl)
next
  case (Cons x xs)
  then obtain tabs1 d1 where step: "daily_tariff zones now mark_used sid x (tabs, d) = Inr (tabs1, d1)"
    and rest: "res_fold (daily_tariff zones now mark_used sid) xs (tabs1, d1) = Inr (tabs', d')"
    by auto
  note one = daily_tariff_step [OF Cons.prems(1, 2) step]
  have "pricing_inv d1" using one by (simp add: tables_step_def)
  note more = Cons.IH [OF this _ rest, of "insert x days"]
  have "days \<union> set (x # xs) = insert x days \<union> set xs" by simp
  with one more show ?case using tables_step_trans [of d d1 d'] by metis
qed

lemma daily_tariffs_ok:
  assumes "pricing_inv d"
    and "daily_tariffs zones now mark_used station s e d = Inr (tabs, d')"
    and "z = zones (st_timezone station)"
  shows "tables_step d d'" "\<not> mark_used \<Longrightarrow> d' = d"
    "tables_inv (st_id station) {zone_date z s..zone_date z (e - 1)} (tabs, d')"
  using daily_fold [OF assms(1) _ assms(2) [unfolded daily_tariffs_def Let_def], of "{}"] assms(3)
  by (auto simp: tables_inv_def)

lemma tables_tariffs_ok:
  assumes "tables_inv sid {lo..hi} (tabs, d)" and "hi' \<le> hi"
  shows "tariffs_ok (dy_frames tabs) lo hi'"
proof -
  have "frames_of (dy_frames tabs) x = []" if "x \<notin> {lo..hi}" for x
    using assms(1) that by (simp add: tables_inv_def frames_of_def)
  moreover have "day_frames (frames_of (dy_frames tabs) x)" if "x \<in> {lo..hi}" for x
    using assms(1) that by (force simp: tables_inv_def frames_of_def)
  ultimately show ?thesis using assms(2) unfolding tariffs_ok_def by auto
qed

lemma price_of_nonneg:
  assumes "pricing_inv d" and "price_of sid x d = Some (tid, rate, grace, p)"
  shows "0 \<le> rate" "0 \<le> grace"
  using assms latest_tariff_spec(1) by (auto simp: price_of_def pricing_inv_def)

lemma applied_tariff_member: "applied_tariff tz x t fs = Inr (Some f) \<Longrightarrow> f \<in> set fs"
  by (induction fs) (auto split: if_splits)

context station_zone
begin

lemma tables_priced:
  assumes "pricing_inv d" and "tables_inv sid {zone_date z s..zone_date z (e - 1)} (tabs, d)"
  shows "priced z (dy_versions tabs) s e"
proof -
  have "\<exists>v. dy_versions tabs (zone_date z t) = Some v \<and> 0 \<le> t_idle_rate_vnd_per_minute v
      \<and> 0 \<le> t_grace_minutes v" if "s \<le> t" "t < e" for t
  proof -
    have "zone_date z t \<in> {zone_date z s..zone_date z (e - 1)}"
      using date_mono [of s t] date_mono [of t "e - 1"] that by simp
    with assms(2) obtain v p where "dy_versions tabs (zone_date z t) = Some v"
      and "price_of sid (zone_date z t) d
        = Some (t_id v, t_idle_rate_vnd_per_minute v, t_grace_minutes v, p)"
      unfolding tables_inv_def by blast
    with price_of_nonneg [OF assms(1)] show ?thesis by blast
  qed
  then show ?thesis by (simp add: priced_def)
qed

text \<open>An idle stretch inside the priced range is billed or rejected with a reason; nothing else.\<close>

lemma idle_lines_total:
  assumes "zones (st_timezone station) = z" and "priced z versions (cs_started_at charging) b"
    and "finish \<le> b"
  shows "(\<exists>lines. idle_lines zones charging station finish versions bill_id idle_start = Inr lines
      \<and> (\<forall>l\<in>set lines. idle_line_ok z versions l))
    \<or> idle_lines zones charging station finish versions bill_id idle_start
      = Inl (InvalidInvoice ''invoice_invalid_idle_interval'')"
proof (cases "if idle_start \<noteq> None then idle_start else cs_idle_since charging")
  case None
  then show ?thesis by (simp add: idle_lines_def)
next
  case (Some idle)
  show ?thesis
  proof (cases "cs_started_at charging \<le> idle \<and> idle < finish")
    case True
    then have pr: "priced z versions idle finish" using assms(2, 3) by (auto simp: priced_def)
    then obtain v where v: "versions (zone_date z idle) = Some v" "0 \<le> t_grace_minutes v"
      using True by (auto simp: priced_def)
    have "idle_start = Some idle \<or> (idle_start = None \<and> cs_idle_since charging = Some idle)"
      using Some by (auto split: if_splits)
    from idle_lines_ok [where zones = zones and bill_id = bill_id, OF assms(1) this _ _ v pr]
    show ?thesis using True by blast
  next
    case False
    with Some show ?thesis by (auto simp: idle_lines_def)
  qed
qed

end

section \<open>Properties\<close>

text \<open>
  C28: idle lines.  For an idle stretch inside the priced days the lines cost exactly one idle
  rate per started minute after the grace period, each minute at the rate of the local day in
  which it starts; the lines follow one another from the end of the grace period to the end of
  the stretch.
\<close>

theorem idle_lines_cost:
  assumes "station_zone z" and "zones (st_timezone station) = z"
    and "cs_started_at charging \<le> idle" and "idle < finish"
    and "versions (zone_date z idle) = Some initial" and "0 \<le> t_grace_minutes initial"
    and "priced z versions idle finish"
  shows "\<exists>lines. idle_lines zones charging station finish versions bill_id (Some idle) = Inr lines
    \<and> (\<Sum>l\<leftarrow>lines. il_amount_vnd l)
       = idle_cost z versions (idle + t_grace_minutes initial * MINUTE_US)
           (nat (billable_minutes (finish - idle) (t_grace_minutes initial)))
    \<and> (lines \<noteq> [] \<longrightarrow> line_chain (idle + t_grace_minutes initial * MINUTE_US) finish lines)
    \<and> (\<forall>l\<in>set lines. idle_line_ok z versions l)"
  by (rule station_zone.idle_lines_ok [where zones = zones and station = station,
        OF assms(1, 2) _ assms(3-)]) simp

definition flat_versions :: "day \<Rightarrow> tariff option" where
  "flat_versions d = Some \<lparr>t_id = 5, t_station_id = 3, t_effective_from = 10, t_used_at = None,
     t_idle_rate_vnd_per_minute = (if d = 10 then 1000 else 500), t_grace_minutes = 15\<rparr>"

definition example_session :: charging_session where
  "example_session = \<lparr>cs_id = 1, cs_charge_point_id = 11, cs_connector_id = 12, cs_driver_id = Some 1, cs_tag_tail = ''0001'',
     cs_authorization_status = ''Accepted'', cs_started_at = 10 * DAY_US,
     cs_ended_at = Some (10 * DAY_US + 120 * MINUTE_US), cs_idle_since = None,
     cs_billing_lifecycle_version = 0, cs_release_detection = [], cs_connector_released_at = None,
     cs_settlement_completed_at = None, cs_settlement_reason = None, cs_meter_start_wh = 0,
     cs_meter_stop_wh = Some 10000, cs_energy_kwh = None, cs_stop_reason = None,
     cs_recovery_at = None, cs_abnormal_since = None, cs_manual_closed_at = None, cs_manual_close_reason = None, cs_closed_by = None,
     cs_review_reasons = [], cs_received_at = 0\<rparr>"

definition example_station :: station where
  "example_station = \<lparr>st_id = 3, st_owner_id = 4, st_name = ''A'',
     st_timezone = ''Asia/Ho_Chi_Minh'', st_status = ''active'', st_archived_at = None\<rparr>"

theorem idle_lines_cost_witness:
  "\<exists>lines. idle_lines vn_zones example_session example_station (11 * DAY_US) flat_versions 9
      (Some (10 * DAY_US)) = Inr lines
    \<and> (\<Sum>l\<leftarrow>lines. il_amount_vnd l)
      = idle_cost (fixed_zone 25200000000) flat_versions (10 * DAY_US + 15 * MINUTE_US) 1425"
proof -
  let ?z = "fixed_zone 25200000000"
  let ?v = "\<lparr>t_id = 5, t_station_id = 3, t_effective_from = 10, t_used_at = None,
     t_idle_rate_vnd_per_minute = 1000, t_grace_minutes = 15\<rparr> :: tariff"
  have "priced ?z flat_versions (10 * DAY_US) (11 * DAY_US)"
    by (simp add: priced_def flat_versions_def)
  moreover have "flat_versions (zone_date ?z (10 * DAY_US)) = Some ?v"
    by (simp add: flat_versions_def fixed_zone_def)
  moreover have "billable_minutes (11 * DAY_US - 10 * DAY_US) 15 = 1425"
    by (simp add: billable_minutes_def)
  ultimately show ?thesis
    using idle_lines_cost [of ?z vn_zones example_station example_session "10 * DAY_US" "11 * DAY_US"
        flat_versions ?v 9] fixed.station_zone_axioms
    by (auto simp: vn_zones_def example_session_def)
qed

end
