(* ===== verification/Driver_Notifications.thy ===== *)
theory Driver_Notifications
  imports Invoice_Lines
begin

text \<open>
  src/src/modules/driver_notifications/service.py: the estimate shown before an invoice exists
  (\<open>estimated_amount\<close>, which reuses the billing functions without marking tariffs), the event
  row of a driver (\<open>notify_event\<close>, at most one per driver, event type and event id), and the
  scan that announces the start of idle fees (\<open>scan_idle\<close>).  The title and message texts are
  functions of the fields of the row and are not built; sending the e-mail is a worker outside
  this file.
\<close>

section \<open>Estimates\<close>

definition value_error :: "exn \<Rightarrow> bool" where
  "value_error e = (case e of ValueError \<Rightarrow> True | InvalidInvoice _ \<Rightarrow> True
     | TariffBandsError _ \<Rightarrow> True | TariffEffectiveDateError \<Rightarrow> True | _ \<Rightarrow> False)"

definition confirmed_intervals :: "int \<Rightarrow> db \<Rightarrow> occupation_interval list" where
  "confirmed_intervals session_id d =
    filter (\<lambda>i. oi_session_id i = session_id \<and> oi_confirmed i) (occupation_intervals d)"

definition estimate_intervals ::
  "charging_session \<Rightarrow> instant \<Rightarrow> instant \<Rightarrow> db \<Rightarrow> (instant \<times> instant) list" where
  "estimate_intervals charging finish moment d =
    (if cs_billing_lifecycle_version charging = 0
     then (case cs_idle_since charging of None \<Rightarrow> [] | Some i \<Rightarrow> [(i, finish)])
     else map (\<lambda>i. (oi_started_at i, case oi_ended_at i of None \<Rightarrow> moment | Some t \<Rightarrow> t))
       (confirmed_intervals (cs_id charging) d))"

definition estimate_sum ::
  "zones \<Rightarrow> instant \<Rightarrow> charging_session \<Rightarrow> station \<Rightarrow> instant \<Rightarrow> instant \<Rightarrow> db \<Rightarrow> exn + vnd" where
  "estimate_sum zones now charging station finish moment d =
    res_bind (meter_values charging finish d) (\<lambda>readings.
    res_bind (daily_tariffs zones now False station (cs_started_at charging)
        (max finish moment) d) (\<lambda>(tabs, _).
    res_bind (chia_doan (cs_started_at charging) finish readings (dy_frames tabs)
        (zones (st_timezone station))) (\<lambda>segments.
      res_fold (\<lambda>(start, stop) acc.
          if start \<ge> moment then Inr acc
          else res_bind (idle_lines zones charging station (min stop moment)
                 (dy_versions tabs) 0 (Some start))
               (\<lambda>lines. Inr (acc + (\<Sum>l\<leftarrow>lines. il_amount_vnd l))))
        (estimate_intervals charging finish moment d)
        (\<Sum>s\<leftarrow>segments. seg_amount_vnd s))))"

definition estimated_amount ::
  "zones \<Rightarrow> instant \<Rightarrow> charging_session \<Rightarrow> station \<Rightarrow> instant \<Rightarrow> db \<Rightarrow> exn + vnd option" where
  "estimated_amount zones now charging station moment d =
    (case cs_ended_at charging of
       None \<Rightarrow> Inr None
     | Some finish \<Rightarrow>
         if cs_review_reasons charging \<noteq> [] then Inr None
         else if finish \<le> cs_started_at charging then Inr None
         else (case estimate_sum zones now charging station finish moment d of
                 Inl e \<Rightarrow> if value_error e then Inr None else Inl e
               | Inr amount \<Rightarrow> Inr (Some amount)))"

section \<open>Events\<close>

datatype event = StopEvent | IdleEvent | InvoiceEvent

definition event_name :: "event \<Rightarrow> string" where
  "event_name kind = (case kind of StopEvent \<Rightarrow> ''stop'' | IdleEvent \<Rightarrow> ''idle''
     | InvoiceEvent \<Rightarrow> ''invoice'')"

definition charging_station :: "charging_session \<Rightarrow> db \<Rightarrow> station option" where
  "charging_station charging d =
    (case row_of cp_id (cs_charge_point_id charging) (charge_points d) of
       None \<Rightarrow> None
     | Some cp \<Rightarrow> row_of st_id (cp_station_id cp) (stations d))"

definition notified_energy :: "charging_session \<Rightarrow> decimal option" where
  "notified_energy charging =
    (case cs_energy_kwh charging of
       Some e \<Rightarrow> Some e
     | None \<Rightarrow>
         (case cs_meter_stop_wh charging of
            None \<Rightarrow> None
          | Some stop_wh \<Rightarrow>
              if stop_wh \<ge> cs_meter_start_wh charging \<and> cs_meter_start_wh charging \<ge> 0
              then Some ((stop_wh - cs_meter_start_wh charging) / 1000) else None))"

text \<open>\<open>INSERT ... ON CONFLICT DO NOTHING\<close> on the key (driver, event type, event id).\<close>

definition insert_notification :: "driver_notification \<Rightarrow> db \<Rightarrow> db" where
  "insert_notification n d =
    (if (\<exists>x\<in>set (notifications d). dn_driver_id x = dn_driver_id n
         \<and> dn_event_type x = dn_event_type n \<and> dn_event_id x = dn_event_id n)
     then d else d\<lparr>notifications := notifications d @ [n]\<rparr>)"

definition event_time ::
  "event \<Rightarrow> charging_session \<Rightarrow> invoice option \<Rightarrow> instant option \<Rightarrow> exn + instant option" where
  "event_time kind charging bill moment =
    (case kind of
       InvoiceEvent \<Rightarrow> (case bill of None \<Rightarrow> Inl ValueError | Some b \<Rightarrow> Inr (Some (inv_created_at b)))
     | StopEvent \<Rightarrow> Inr (cs_ended_at charging)
     | IdleEvent \<Rightarrow> (case moment of None \<Rightarrow> Inl AssertionError | Some t \<Rightarrow> Inr (Some t)))"

definition save_event ::
  "zones \<Rightarrow> instant \<Rightarrow> charging_session \<Rightarrow> event \<Rightarrow> invoice option \<Rightarrow> string option
   \<Rightarrow> uuid \<Rightarrow> station \<Rightarrow> instant \<Rightarrow> db \<Rightarrow> exn + db" where
  "save_event zones now charging kind bill event_id driver_id station t d =
    res_bind (case bill of
                Some b \<Rightarrow> Inr (Some (inv_total_vnd b))
              | None \<Rightarrow> estimated_amount zones now charging station t d) (\<lambda>amount.
    Inr (insert_notification
      \<lparr>dn_driver_id = driver_id, dn_session_id = cs_id charging,
       dn_event_type = event_name kind,
       dn_event_id = (case event_id of None \<Rightarrow> str_int (cs_id charging)
         | Some e \<Rightarrow> if e = [] then str_int (cs_id charging) else e),
       dn_occurred_at = t, dn_station_name = st_name station,
       dn_energy_kwh = notified_energy charging, dn_amount_vnd = amount,
       dn_final = (bill \<noteq> None)\<rparr> d))"

definition notify_event ::
  "zones \<Rightarrow> int \<Rightarrow> instant \<Rightarrow> charging_session \<Rightarrow> event \<Rightarrow> invoice option \<Rightarrow> instant option
   \<Rightarrow> string option \<Rightarrow> db \<Rightarrow> exn + db" where
  "notify_event zones retention_days now charging kind bill moment event_id d =
    (case cs_driver_id charging of
       None \<Rightarrow> Inr d
     | Some driver_id \<Rightarrow>
         if (case row_of u_id driver_id (users d) of None \<Rightarrow> True
             | Some u \<Rightarrow> u_status u \<noteq> ''active'') then Inr d
         else (case charging_station charging d of
           None \<Rightarrow> Inr d
         | Some station \<Rightarrow>
             res_bind (event_time kind charging bill moment) (\<lambda>when.
               case when of
                 None \<Rightarrow> Inr d
               | Some t \<Rightarrow>
                   if t < now - retention_days * DAY_US then Inr d
                   else save_event zones now charging kind bill event_id driver_id station t d)))"

section \<open>The scan for idle fees\<close>

definition idle_candidates ::
  "int \<Rightarrow> instant \<Rightarrow> int \<Rightarrow> db \<Rightarrow> (charging_session \<times> occupation_interval \<times> station) list" where
  "idle_candidates retention_days now cursor d = take 100 (concat (map (\<lambda>i.
     case row_of cs_id (oi_session_id i) (sessions d) of
       None \<Rightarrow> []
     | Some charging \<Rightarrow>
         (case (charging_station charging d, cs_driver_id charging) of
            (Some station, Some driver_id) \<Rightarrow>
              if (\<exists>u\<in>set (users d). u_id u = driver_id \<and> u_status u = ''active'')
                \<and> oi_confirmed i \<and> oi_started_at i \<ge> now - retention_days * DAY_US
                \<and> oi_end_reason i \<noteq> Some ''resumed''
                \<and> cs_billing_lifecycle_version charging = 1
                \<and> \<not> (\<exists>n\<in>set (notifications d). dn_session_id n = cs_id charging
                      \<and> dn_event_type n = ''idle'' \<and> dn_event_id n = str_int (oi_id i))
              then [(charging, i, station)] else []
          | _ \<Rightarrow> []))
     (sort_key oi_id (filter (\<lambda>i. oi_id i > cursor) (occupation_intervals d)))))"

definition first_idle_charge ::
  "zones \<Rightarrow> instant \<Rightarrow> charging_session \<Rightarrow> occupation_interval \<Rightarrow> station \<Rightarrow> db
   \<Rightarrow> exn + invoice_line option" where
  "first_idle_charge zones now charging interval station d =
    (let finish = min (case oi_ended_at interval of None \<Rightarrow> now | Some t \<Rightarrow> t) now in
     if cs_review_reasons charging \<noteq> [] \<or> finish \<le> oi_started_at interval then Inr None
     else
       case res_bind (daily_tariffs zones now False station (oi_started_at interval) finish d)
           (\<lambda>(tabs, _). idle_lines zones charging station finish (dy_versions tabs) 0
             (Some (oi_started_at interval))) of
         Inl e \<Rightarrow> if value_error e then Inr None else Inl e
       | Inr lines \<Rightarrow> Inr (find (\<lambda>l. il_amount_vnd l > 0) lines))"

definition scan_row ::
  "zones \<Rightarrow> int \<Rightarrow> instant \<Rightarrow> charging_session \<times> occupation_interval \<times> station \<Rightarrow> db \<Rightarrow> exn + db" where
  "scan_row zones retention_days now = (\<lambda>(charging, interval, station) d.
    res_bind (first_idle_charge zones now charging interval station d) (\<lambda>first.
      case first of
        None \<Rightarrow> Inr d
      | Some line \<Rightarrow> notify_event zones retention_days now charging IdleEvent None
          (Some (il_started_at line)) (Some (str_int (oi_id interval))) d))"

text \<open>Each page moves the cursor past the identifiers it saw, so the pages run out.\<close>

fun scan_pages :: "nat \<Rightarrow> zones \<Rightarrow> int \<Rightarrow> instant \<Rightarrow> int \<Rightarrow> db \<Rightarrow> exn + db" where
  "scan_pages 0 zones retention_days now cursor d = Inl Diverges"
| "scan_pages (Suc fuel) zones retention_days now cursor d =
    (let rows = idle_candidates retention_days now cursor d in
     if rows = [] then Inr d
     else res_bind (res_fold (scan_row zones retention_days now) rows d)
       (scan_pages fuel zones retention_days now (oi_id (fst (snd (last rows))))))"

definition scan_idle :: "zones \<Rightarrow> int \<Rightarrow> instant \<Rightarrow> db \<Rightarrow> exn + db" where
  "scan_idle zones retention_days now d =
    scan_pages (Suc (length (occupation_intervals d))) zones retention_days now 0 d"

section \<open>Laws\<close>

lemma insert_notification_frame: "\<exists>ns. insert_notification n d = d\<lparr>notifications := ns\<rparr>"
proof (cases "insert_notification n d = d")
  case True
  then show ?thesis by (intro exI [of _ "notifications d"]) simp
next
  case False
  then show ?thesis
    by (intro exI [of _ "notifications d @ [n]"]) (simp add: insert_notification_def split: if_splits)
qed

lemma notify_event_cases:
  assumes "notify_event zones ret now charging kind bill moment event_id d = Inr d'"
  shows "d' = d \<or> (\<exists>n. d' = insert_notification n d)"
proof (rule disjCI)
  assume other: "\<nexists>n. d' = insert_notification n d"
  have "save_event zones now charging kind bill event_id driver_id station t d \<noteq> Inr d'" for driver_id station t
    using other by (auto simp: save_event_def)
  with assms show "d' = d" by (auto simp: notify_event_def split: option.splits if_splits)
qed

lemma notify_event_frame:
  assumes "notify_event zones ret now charging kind bill moment event_id d = Inr d'"
  shows "\<exists>ns. d' = d\<lparr>notifications := ns\<rparr>"
proof -
  have "\<exists>ns. d = d\<lparr>notifications := ns\<rparr>" by (rule exI [of _ "notifications d"]) simp
  with notify_event_cases [OF assms] insert_notification_frame show ?thesis by blast
qed

lemma notify_invoice_total:
  "\<exists>d'. notify_event zones ret now charging InvoiceEvent (Some bill) moment event_id d = Inr d'"
  by (auto simp: notify_event_def event_time_def save_event_def split: option.splits)

text \<open>At most one row per driver, event type and event id.\<close>

definition notification_key :: "driver_notification \<Rightarrow> uuid \<times> string \<times> string" where
  "notification_key n = (dn_driver_id n, dn_event_type n, dn_event_id n)"

definition notifications_inv :: "db \<Rightarrow> bool" where
  "notifications_inv d \<longleftrightarrow> distinct (map notification_key (notifications d))"

lemma insert_notification_inv: "notifications_inv d \<Longrightarrow> notifications_inv (insert_notification n d)"
  by (auto simp: notifications_inv_def insert_notification_def notification_key_def)

lemma notify_event_inv:
  assumes "notify_event zones ret now charging kind bill moment event_id d = Inr d'"
    and "notifications_inv d"
  shows "notifications_inv d'"
  using notify_event_cases [OF assms(1)] assms(2) insert_notification_inv by blast

lemma scan_row_frame:
  assumes "scan_row zones ret now row d = Inr d'"
  shows "\<exists>ns. d' = d\<lparr>notifications := ns\<rparr>" and "notifications_inv d \<Longrightarrow> notifications_inv d'"
proof -
  obtain charging interval station where row: "row = (charging, interval, station)"
    by (cases row) auto
  have "d' = d \<or> (\<exists>moment event_id. notify_event zones ret now charging IdleEvent None moment event_id d = Inr d')"
    using assms by (auto simp: row scan_row_def split: option.splits)
  moreover have "\<exists>ns. d = d\<lparr>notifications := ns\<rparr>" by (rule exI [of _ "notifications d"]) simp
  ultimately show "\<exists>ns. d' = d\<lparr>notifications := ns\<rparr>" "notifications_inv d \<Longrightarrow> notifications_inv d'"
    using notify_event_frame notify_event_inv by blast+
qed

lemma scan_rows_frame:
  assumes "res_fold (scan_row zones ret now) rows d = Inr d'"
  shows "(\<exists>ns. d' = d\<lparr>notifications := ns\<rparr>) \<and> (notifications_inv d \<longrightarrow> notifications_inv d')"
proof (rule res_fold_inv [OF _ _ assms])
  show "(\<exists>ns. d = d\<lparr>notifications := ns\<rparr>) \<and> (notifications_inv d \<longrightarrow> notifications_inv d)"
    by (intro conjI exI [of _ "notifications d"]) auto
  fix x s s' assume "x \<in> set rows" "scan_row zones ret now x s = Inr s'"
    and s: "(\<exists>ns. s = d\<lparr>notifications := ns\<rparr>) \<and> (notifications_inv d \<longrightarrow> notifications_inv s)"
  then show "(\<exists>ns. s' = d\<lparr>notifications := ns\<rparr>) \<and> (notifications_inv d \<longrightarrow> notifications_inv s')"
    using scan_row_frame [of zones ret now x s s'] by auto
qed

lemma idle_candidates_cursor:
  "(c, i, st) \<in> set (idle_candidates ret now cursor d) \<Longrightarrow> i \<in> set (occupation_intervals d) \<and> cursor < oi_id i"
  by (auto simp: idle_candidates_def dest!: in_set_takeD split: option.splits if_splits)

text \<open>
  The scan ends when the zones are proper: the billing loops end, and one page per interval is
  enough since the cursor only moves forward.
\<close>

lemma tinh_phi_ends: "ends (tinh_phi_chiem_tru idle finish grace rate)"
proof -
  have "ends (nonneg_int x)" for x by (cases x rule: nonneg_int.cases) simp_all
  moreover have "ends (aware t)" for t by (cases t) simp_all
  ultimately show ?thesis
    by (auto simp: tinh_phi_chiem_tru_def Let_def split: option.splits intro!: ends_intros)
qed

context station_zone
begin

lemma idle_loop_ends:
  "0 \<le> count \<Longrightarrow> nat count \<le> fuel \<Longrightarrow> ends (idle_loop fuel z versions bill_id finish anchor count)"
proof (induction fuel arbitrary: anchor count)
  case 0
  then show ?case by (simp add: idle_loop.simps)
next
  case (Suc fuel)
  define span where "span = min count
    ((zone_combine z (zone_date z anchor + 1) 0 - anchor + 59999999) div 60000000)"
  have "0 < zone_combine z (zone_date z anchor + 1) 0 - anchor"
    using date_iff [of anchor "zone_date z anchor"] by simp
  then have span: "0 < span" "span \<le> count" if "count \<noteq> 0"
    using minutes_div_pos that Suc.prems(1) by (auto simp: span_def)
  then have "ends (idle_loop fuel z versions bill_id finish (anchor + span * MINUTE_US) (count - span))"
    if "count \<noteq> 0"
    using that Suc.prems by (intro Suc.IH) (auto simp: nat_le_iff)
  then show ?case
    by (auto simp: idle_loop.simps [of "Suc fuel"] Let_def tinh_phi_ends split: option.splits
        intro!: ends_intros simp flip: span_def)
qed

lemma idle_lines_ends:
  assumes "zones (st_timezone station) = z"
  shows "ends (idle_lines zones charging station finish versions bill_id start)"
proof -
  have count: "0 \<le> fst r" if "tinh_phi_chiem_tru idle t g rate = Inr r" for idle t g rate r
    using that by (auto simp: tinh_phi_chiem_tru_def Let_def split: option.splits if_splits)
  show ?thesis
    unfolding idle_lines_def Let_def assms
    by (auto split: option.splits intro!: ends_intros tinh_phi_ends idle_loop_ends dest: count)
qed

end

lemma meter_values_ends: "ends (meter_values charging finish d)"
  by (auto simp: meter_values_def add_sample_def Let_def split: option.splits intro!: ends_intros)

lemma daily_tariffs_ends: "ends (daily_tariffs zones now mark_used station s e d)"
proof -
  have "ends (daily_tariff zones now mark_used sid x st)" for sid x st
    by (auto simp: daily_tariff_def lay_bieu_gia_hieu_luc_def pricing_station_def
        danh_dau_bieu_gia_da_dung_def station_tariff_def tariff_frames_def Let_def
        split: option.splits sum.splits prod.splits intro!: ends_intros)
  then show ?thesis by (auto simp: daily_tariffs_def Let_def intro!: ends_intros)
qed

lemma frame_bounds_ends: "ends (frame_bounds tz x f)"
  by (auto simp: frame_bounds_def clock_fields_def wall_seconds_def Let_def intro!: ends_intros)

lemma interpolate_ends: "ends (interpolate_meter_value t mvs)"
proof -
  have "ends (interp_scan t prev ms)" for prev ms
    by (induction t prev ms rule: interp_scan.induct)
      (auto simp: interp_between_def Let_def split: prod.splits)
  then show ?thesis by (simp add: interpolate_meter_value_def)
qed

lemma tien_dong_ends: "ends (tien_dong energy rate)"
proof -
  have "ends (integer_ratio x)" for x by (cases x) simp_all
  then show ?thesis by (auto simp: tien_dong_def split: pynum.splits intro!: ends_intros)
qed

lemma chia_doan_ends: "ends (chia_doan s e mvs frames tz)"
proof -
  have "ends (applied_tariff tz x mid fs)" for x mid fs
    by (induction fs) (auto intro!: ends_intros frame_bounds_ends)
  then show ?thesis
    by (auto simp: chia_doan_def cut_points_def day_cuts_def make_segment_def Let_def
        split: option.splits intro!: ends_intros frame_bounds_ends interpolate_ends tien_dong_ends)
qed

text \<open>Every zone of the tz database is proper.\<close>

definition proper_zones :: "zones \<Rightarrow> bool" where
  "proper_zones zones \<longleftrightarrow> (\<forall>name. station_zone (zones name))"

lemma estimate_sum_ends:
  assumes "proper_zones zones"
  shows "ends (estimate_sum zones now charging station finish moment d)"
proof -
  have "ends (idle_lines zones charging station t versions bill_id start)" for t versions bill_id start
    using assms station_zone.idle_lines_ends [of "zones (st_timezone station)"]
    by (auto simp: proper_zones_def)
  then show ?thesis
    by (auto simp: estimate_sum_def split: prod.splits
        intro!: ends_intros meter_values_ends daily_tariffs_ends chia_doan_ends)
qed

lemma notify_event_ends:
  assumes "proper_zones zones"
  shows "ends (notify_event zones ret now charging kind bill moment event_id d)"
proof -
  have est: "ends (estimated_amount zones now charging station t d)" for station t
    using estimate_sum_ends [OF assms, of now charging station _ t d]
    by (auto simp: estimated_amount_def split: option.splits sum.splits) (metis ends_simps(2))
  have "ends (save_event zones now charging kind bill event_id driver_id station t d)"
    for driver_id station t
    by (auto simp: save_event_def split: option.splits intro!: ends_intros est)
  then show ?thesis
    by (auto simp: notify_event_def event_time_def split: option.splits event.splits intro!: ends_intros)
qed

lemma scan_row_ends:
  assumes "proper_zones zones"
  shows "ends (scan_row zones ret now row d)"
proof -
  have lines: "ends (idle_lines zones charging station t versions bill_id start)"
    for charging station t versions bill_id start
    using assms station_zone.idle_lines_ends [of "zones (st_timezone station)"]
    by (auto simp: proper_zones_def)
  have "ends (res_bind (daily_tariffs zones now False station s finish d)
      (\<lambda>(tabs, _). idle_lines zones charging station finish (dy_versions tabs) 0 start))"
    for charging station s finish start
    by (auto split: prod.splits intro!: ends_intros daily_tariffs_ends lines)
  then have "ends (first_idle_charge zones now charging interval station d)" for charging interval station
    by (auto simp: first_idle_charge_def Let_def split: sum.splits) (metis ends_simps(2))
  then show ?thesis
    by (auto simp: scan_row_def split: option.splits prod.splits
        intro!: ends_intros notify_event_ends [OF assms])
qed

lemma scan_pages_ends:
  assumes "proper_zones zones"
    and "length (filter (\<lambda>i. cursor < oi_id i) (occupation_intervals d)) < fuel"
  shows "ends (scan_pages fuel zones ret now cursor d)"
  using assms(2)
proof (induction fuel arbitrary: cursor d)
  case (Suc fuel)
  define rows where "rows = idle_candidates ret now cursor d"
  show ?case
  proof (cases "rows = []")
    case False
    obtain c i st where last: "last rows = (c, i, st)" by (cases "last rows") auto
    then have i: "i \<in> set (occupation_intervals d)" "cursor < oi_id i"
      using idle_candidates_cursor last_in_set [OF False] unfolding rows_def by metis+
    have "ends (scan_pages fuel zones ret now (oi_id i) d1)"
      if "res_fold (scan_row zones ret now) rows d = Inr d1" for d1
    proof (rule Suc.IH)
      let ?more = "\<lambda>c. filter (\<lambda>i. c < oi_id i) (occupation_intervals d)"
      have "?more (oi_id i) = filter (\<lambda>j. oi_id i < oi_id j) (?more cursor)"
        using i(2) by (auto intro: filter_cong)
      then have "length (?more (oi_id i)) < length (?more cursor)"
        using i length_filter_less [of i "?more cursor" "\<lambda>j. oi_id i < oi_id j"] by simp
      then show "length (filter (\<lambda>j. oi_id i < oi_id j) (occupation_intervals d1)) < fuel"
        using Suc.prems scan_rows_frame [OF that] by auto
    qed
    then show ?thesis
      using False last by (auto simp: Let_def scan_row_ends [OF assms(1)] simp flip: rows_def
          intro!: ends_intros)
  qed (simp flip: rows_def)
qed simp

text \<open>
  The scan for idle fees ends.  With proper zones every pass over the occupation intervals
  reaches its end, whatever the tables contain: no interval is visited on two pages.
\<close>

theorem scan_idle_ends:
  assumes "proper_zones zones"
  shows "scan_idle zones ret now d \<noteq> Inl Diverges"
  using scan_pages_ends [OF assms, of 0 d "Suc (length (occupation_intervals d))" ret now]
    length_filter_le [of "\<lambda>i. 0 < oi_id i" "occupation_intervals d"]
  by (simp add: scan_idle_def ends_def less_Suc_eq_le)

theorem scan_idle_ends_witness: "scan_idle vn_zones 30 0 empty_db \<noteq> Inl Diverges"
  by (rule scan_idle_ends) (simp add: proper_zones_def vn_zones_def fixed.station_zone_axioms)

end
