(* ===== verification/Audit_Log.thy ===== *)
theory Audit_Log
  imports Csms_Models
begin

text \<open>
  \<open>ghi_nhat_ky\<close> of src/src/platform/audit/service.py: one audit row per business action, in the
  caller's transaction, with a recursive check that no sensitive key is written.  Keys are
  normalised as the source does on ASCII text (lower case, letters and digits only).
\<close>

definition SENSITIVE_KEYS :: "string list" where
  "SENSITIVE_KEYS = [''idtag'', ''idtoken'', ''cardcode'', ''cardnumber'', ''cardid'',
     ''macard'', ''mathe'', ''email'', ''emailaddress'', ''phone'', ''phonenumber'',
     ''telephone'', ''sodienthoai'', ''token'', ''accesstoken'', ''refreshtoken'',
     ''sessiontoken'', ''authorization'', ''password'', ''passwordhash'', ''secret'',
     ''webhooksecret'', ''cookie'', ''fullname'', ''name'', ''address'', ''identitynumber'',
     ''nationalid'', ''cccd'', ''cmnd'']"

definition casefold_char :: "char \<Rightarrow> char" where
  "casefold_char c = (let n = of_char c :: nat in
     if 65 \<le> n \<and> n \<le> 90 then char_of (n + 32) else c)"

definition isalnum_char :: "char \<Rightarrow> bool" where
  "isalnum_char c = (let n = of_char c :: nat in
     (48 \<le> n \<and> n \<le> 57) \<or> (65 \<le> n \<and> n \<le> 90) \<or> (97 \<le> n \<and> n \<le> 122))"

definition normalized_key :: "string \<Rightarrow> string" where
  "normalized_key key = filter isalnum_char (map casefold_char key)"

fun validate_json :: "json \<Rightarrow> bool" and validate_members :: "(string \<times> json) list \<Rightarrow> bool" where
  "validate_json (JObj members) = validate_members members"
| "validate_json (JList []) = True"
| "validate_json (JList (x # xs)) = (validate_json x \<and> validate_json (JList xs))"
| "validate_json _ = True"
| "validate_members [] = True"
| "validate_members ((key, child) # rest) =
    (normalized_key key \<notin> set SENSITIVE_KEYS \<and> validate_json child \<and> validate_members rest)"

text \<open>\<open>json.dumps(data, allow_nan=False)\<close> refuses NaN and the infinities.\<close>

fun finite_json :: "json \<Rightarrow> bool" and finite_members :: "(string \<times> json) list \<Rightarrow> bool" where
  "finite_json (JObj members) = finite_members members"
| "finite_json (JList []) = True"
| "finite_json (JList (x # xs)) = (finite_json x \<and> finite_json (JList xs))"
| "finite_json (JFloat None) = False"
| "finite_json _ = True"
| "finite_members [] = True"
| "finite_members ((key, child) # rest) = (finite_json child \<and> finite_members rest)"

definition audit_identifier :: "string \<Rightarrow> nat option \<Rightarrow> exn + string" where
  "audit_identifier value maximum =
    (if strip value = [] \<or> (case maximum of None \<Rightarrow> False | Some n \<Rightarrow> length (strip value) > n)
     then Inl ValueError else Inr (strip value))"

fun string_less_eq :: "string \<Rightarrow> string \<Rightarrow> bool" where
  "string_less_eq [] t = True"
| "string_less_eq (a # s) [] = False"
| "string_less_eq (a # s) (b # t) =
    (if (of_char a :: nat) < of_char b then True
     else if (of_char b :: nat) < of_char a then False else string_less_eq s t)"

fun insert_string :: "string \<Rightarrow> string list \<Rightarrow> string list" where
  "insert_string s [] = [s]"
| "insert_string s (t # ts) = (if string_less_eq s t then s # t # ts else t # insert_string s ts)"

definition sorted_strings :: "string list \<Rightarrow> string list" where
  "sorted_strings ss = foldr insert_string (remdups ss) []"

definition ghi_nhat_ky ::
  "uuid option \<Rightarrow> string \<Rightarrow> string \<Rightarrow> string \<Rightarrow> (string \<times> json) list \<Rightarrow> string option
   \<Rightarrow> string list option \<Rightarrow> db \<Rightarrow> exn + db" where
  "ghi_nhat_ky actor_id action object_type object_id data permission actor_roles d =
    (if \<not> validate_members data then Inl ValueError
     else if \<not> finite_members data then Inl ValueError
     else
       res_bind (case actor_roles of None \<Rightarrow> Inr None
                 | Some rs \<Rightarrow> res_bind (res_map (\<lambda>r. audit_identifier r (Some 100)) rs)
                     (\<lambda>rs'. Inr (Some (sorted_strings rs')))) (\<lambda>roles.
       res_bind (audit_identifier action (Some 100)) (\<lambda>action'.
       res_bind (audit_identifier object_type (Some 100)) (\<lambda>object_type'.
       res_bind (audit_identifier object_id None) (\<lambda>object_id'.
       res_bind (case permission of None \<Rightarrow> Inr None
                 | Some p \<Rightarrow> res_bind (audit_identifier p (Some 100)) (\<lambda>p'. Inr (Some p')))
         (\<lambda>permission'.
         Inr (d\<lparr>audit_logs := audit_logs d @ [\<lparr>al_actor_id = actor_id, al_action = action',
                  al_object_type = object_type', al_object_id = object_id', al_data = data,
                  al_permission = permission', al_actor_roles = roles\<rparr>]\<rparr>)))))))"

lemma ghi_nhat_ky_frame:
  assumes "ghi_nhat_ky a ac ot oi data p r d = Inr d'"
  shows "\<exists>row. d' = d\<lparr>audit_logs := audit_logs d @ [row]\<rparr> \<and> al_actor_id row = a
    \<and> al_data row = data"
  using assms by (auto simp: ghi_nhat_ky_def split: if_splits)

lemma ghi_nhat_ky_tables:
  assumes "ghi_nhat_ky a ac ot oi data p r d = Inr d'"
  shows "wallets d' = wallets d" "ledger d' = ledger d" "ledger_seq d' = ledger_seq d"
    "wallet_audits d' = wallet_audits d" "users d' = users d" "user_roles d' = user_roles d"
    "invoices d' = invoices d" "invoice_lines d' = invoice_lines d" "sessions d' = sessions d"
    "tariffs d' = tariffs d" "tariff_bands d' = tariff_bands d" "stations d' = stations d"
    "topups d' = topups d"
  using ghi_nhat_ky_frame [OF assms] by auto

text \<open>No audit row ever carries a sensitive key, at any depth.\<close>

fun json_keys :: "json \<Rightarrow> string list" and member_keys :: "(string \<times> json) list \<Rightarrow> string list" where
  "json_keys (JObj members) = member_keys members"
| "json_keys (JList []) = []"
| "json_keys (JList (x # xs)) = json_keys x @ json_keys (JList xs)"
| "json_keys _ = []"
| "member_keys [] = []"
| "member_keys ((key, child) # rest) = key # json_keys child @ member_keys rest"

lemma validate_json_keys:
  "validate_json j \<Longrightarrow> k \<in> set (json_keys j) \<Longrightarrow> normalized_key k \<notin> set SENSITIVE_KEYS"
  "validate_members ms \<Longrightarrow> k \<in> set (member_keys ms) \<Longrightarrow> normalized_key k \<notin> set SENSITIVE_KEYS"
  by (induction j and ms rule: validate_json_validate_members.induct) auto

definition audit_clean :: "db \<Rightarrow> bool" where
  "audit_clean d \<longleftrightarrow> (\<forall>row\<in>set (audit_logs d). \<forall>k\<in>set (member_keys (al_data row)).
     normalized_key k \<notin> set SENSITIVE_KEYS)"

lemma ghi_nhat_ky_clean:
  assumes "audit_clean d" and "ghi_nhat_ky a ac ot oi data p r d = Inr d'"
  shows "audit_clean d'"
proof -
  obtain row where row: "d' = d\<lparr>audit_logs := audit_logs d @ [row]\<rparr>" "al_data row = data"
    using ghi_nhat_ky_frame [OF assms(2)] by blast
  have "validate_members data"
    using assms(2) by (auto simp: ghi_nhat_ky_def split: if_splits)
  then show ?thesis
    using assms(1) row validate_json_keys(2) by (auto simp: audit_clean_def)
qed

section \<open>Properties\<close>

text \<open>
  C40: the audit log never holds a sensitive key.  Appending a row keeps the log free of keys
  that normalise to a sensitive name, at any depth of the recorded data.
\<close>

theorem audit_never_sensitive:
  assumes "audit_clean d" and "ghi_nhat_ky actor action object_type object_id data permission roles d = Inr d'"
  shows "audit_clean d' \<and> (\<exists>row. d' = d\<lparr>audit_logs := audit_logs d @ [row]\<rparr> \<and> al_data row = data)"
  using ghi_nhat_ky_clean [OF assms] ghi_nhat_ky_frame [OF assms(2)] by blast

lemma audit_run:
  "ghi_nhat_ky None ''wallet.unlocked'' ''wallet'' ''42'' [(''reason'', JStr ''ok'')] None None empty_db
    = Inr (empty_db\<lparr>audit_logs := [\<lparr>al_actor_id = None, al_action = ''wallet.unlocked'',
        al_object_type = ''wallet'', al_object_id = ''42'', al_data = [(''reason'', JStr ''ok'')],
        al_permission = None, al_actor_roles = None\<rparr>]\<rparr>)"
  by code_simp

theorem audit_never_sensitive_witness:
  "audit_clean (empty_db\<lparr>audit_logs := [\<lparr>al_actor_id = None, al_action = ''wallet.unlocked'',
        al_object_type = ''wallet'', al_object_id = ''42'', al_data = [(''reason'', JStr ''ok'')],
        al_permission = None, al_actor_roles = None\<rparr>]\<rparr>)"
  using audit_never_sensitive [OF _ audit_run] by (simp add: audit_clean_def empty_db_def)

end
