(* ===== verification/Wallet.thy ===== *)
theory Wallet
  imports Audit_Log
begin

text \<open>
  src/src/modules/wallet/service.py and provisioning.py: the ledger.  \<open>ghi_so_cai\<close> is the only
  operation that moves money; it appends a ledger row and updates the cached balance together,
  at most once per key (entry type, reference).  The code holds the row lock of the wallet while
  other transactions may commit between its reads and its insert; the parameter \<open>env\<close> of
  \<open>ghi_so_cai\<close> is that interference, applied right before the insert, which then sees a
  possible winner of the same key (\<open>ON CONFLICT DO NOTHING\<close>).  A caller that runs alone passes
  \<open>id\<close>.  Row locks and advisory locks have no other effect on a single transaction.
\<close>

section \<open>Amounts, rows and keys\<close>

definition MIN_VND :: int where "MIN_VND = - (2 ^ 63)"
definition MAX_VND :: int where "MAX_VND = 2 ^ 63 - 1"

definition integer_vnd :: "vnd \<Rightarrow> exn + vnd" where
  "integer_vnd value = (if MIN_VND \<le> value \<and> value \<le> MAX_VND then Inr value
     else Inl WalletAmountError)"

definition lock_wallet :: "uuid \<Rightarrow> db \<Rightarrow> exn + wallet" where
  "lock_wallet wallet_id d =
    (case row_of w_id wallet_id (wallets d) of
       None \<Rightarrow> Inl WalletNotFoundError | Some w \<Rightarrow> Inr w)"

definition require_admin :: "uuid option \<Rightarrow> db \<Rightarrow> exn + unit" where
  "require_admin actor_id d = guard (is_active_admin d actor_id) WalletAdminRequiredError"

definition find_entry :: "entry_type \<Rightarrow> string \<Rightarrow> wallet_ledger list \<Rightarrow> wallet_ledger option" where
  "find_entry entry_type reference_id rows =
    find (\<lambda>r. wl_entry_type r = entry_type \<and> wl_reference_id r = reference_id) rows"

definition matching_entry :: "wallet_ledger \<Rightarrow> uuid \<Rightarrow> vnd \<Rightarrow> exn + wallet_ledger" where
  "matching_entry row wallet_id amount_vnd =
    (if wl_wallet_id row \<noteq> wallet_id \<or> wl_amount_vnd row \<noteq> amount_vnd
     then Inl WalletLedgerConflictError else Inr row)"

text \<open>The CHECK constraints of the table \<open>wallet_ledger\<close>.\<close>

definition ledger_row_ok :: "wallet_ledger \<Rightarrow> bool" where
  "ledger_row_ok r \<longleftrightarrow>
    (case wl_entry_type r of UnknownEntry _ \<Rightarrow> False | _ \<Rightarrow> True)
    \<and> btrim (wl_reference_type r) \<noteq> [] \<and> btrim (wl_reference_id r) \<noteq> []
    \<and> (wl_entry_type r = Adjustment \<longrightarrow>
         wl_actor_id r \<noteq> None \<and> wl_reference_type r = ''audit'')
    \<and> (wl_entry_type r = ReservationFee \<longrightarrow>
         wl_amount_vnd r < 0 \<and> wl_reference_type r = ''reservation'')"

definition sign_mismatch :: "entry_type \<Rightarrow> vnd \<Rightarrow> bool" where
  "sign_mismatch entry_type amount_vnd \<longleftrightarrow> amount_vnd = 0
    \<or> (entry_type \<in> {GatewayTopup, ManualTopup} \<and> amount_vnd < 0)
    \<or> (entry_type \<in> {ChargingDebit, ReservationFee} \<and> amount_vnd > 0)"

text \<open>
  \<open>UUID(reference_id)\<close> followed by the test \<open>str(audit_id) != reference_id\<close>: both failures
  raise the same exception, so only the canonical spelling has to be parsed.
\<close>

definition is_hex :: "char \<Rightarrow> bool" where
  "is_hex c = (let n = of_char c :: nat in (48 \<le> n \<and> n \<le> 57) \<or> (97 \<le> n \<and> n \<le> 102))"

definition parse_uuid :: "string \<Rightarrow> uuid option" where
  "parse_uuid s =
    (let h = filter (\<lambda>c. c \<noteq> CHR ''-'') s in
     if length h = 32 \<and> list_all is_hex h then Some (of_nat (nat_of_digits 16 h)) else None)"

definition adjustment_audit ::
  "uuid \<Rightarrow> vnd \<Rightarrow> string \<Rightarrow> string \<Rightarrow> uuid option \<Rightarrow> db \<Rightarrow> exn + wallet_audit" where
  "adjustment_audit wallet_id amount_vnd reference_type reference_id actor_id d =
    res_bind (require_admin actor_id d) (\<lambda>_.
      case parse_uuid reference_id of
        None \<Rightarrow> Inl WalletAdjustmentAuditError
      | Some audit_id \<Rightarrow>
          if reference_type \<noteq> ''audit'' \<or> str_uuid audit_id \<noteq> reference_id
          then Inl WalletAdjustmentAuditError
          else case row_of wa_id audit_id (wallet_audits d) of
            None \<Rightarrow> Inl WalletAdjustmentAuditError
          | Some audit \<Rightarrow>
              if wa_action audit \<noteq> ''adjustment_authorized''
                \<or> wa_wallet_id audit \<noteq> wallet_id
                \<or> Some (wa_actor_id audit) \<noteq> actor_id
                \<or> wa_amount_vnd audit \<noteq> Some amount_vnd
              then Inl WalletAdjustmentAuditError else Inr audit)"

section \<open>The ledger\<close>

definition known_entry :: "entry_type \<Rightarrow> bool" where
  "known_entry entry_type = (case entry_type of UnknownEntry _ \<Rightarrow> False | _ \<Rightarrow> True)"

definition ghi_so_cai ::
  "(db \<Rightarrow> db) \<Rightarrow> uuid \<Rightarrow> entry_type \<Rightarrow> vnd \<Rightarrow> string \<Rightarrow> string \<Rightarrow> uuid option \<Rightarrow> db
   \<Rightarrow> exn + wallet_ledger \<times> db" where
  "ghi_so_cai env wallet_id entry_type amount_vnd raw_type raw_id actor_id d =
    res_bind (integer_vnd amount_vnd) (\<lambda>_.
    if \<not> known_entry entry_type then Inl ValueError
    else if sign_mismatch entry_type amount_vnd then Inl WalletAmountError
    else
      let reference_type = strip raw_type; reference_id = strip raw_id in
      if reference_type = [] \<or> length reference_type > 50
        \<or> reference_id = [] \<or> length reference_id > 128 then Inl ValueError
      else
        res_bind (lock_wallet wallet_id d) (\<lambda>wallet.
        let existing = find_entry entry_type reference_id (ledger d) in
        res_bind (case existing of None \<Rightarrow> Inr ()
                  | Some row \<Rightarrow> res_bind (matching_entry row wallet_id amount_vnd) (\<lambda>_. Inr ()))
          (\<lambda>_.
        if w_status wallet = WLocked \<and> entry_type \<noteq> Adjustment then Inl WalletLockedError
        else
          res_bind (if entry_type = Adjustment
                    then res_bind (adjustment_audit wallet_id amount_vnd reference_type
                           reference_id actor_id d) (\<lambda>a. Inr (Some a))
                    else Inr None) (\<lambda>audit.
          case existing of
            Some row \<Rightarrow> Inr (row, d)
          | None \<Rightarrow>
              res_bind (integer_vnd (w_balance_vnd wallet + amount_vnd)) (\<lambda>balance_after.
              if (case audit of None \<Rightarrow> False
                  | Some a \<Rightarrow> wa_before_balance_vnd a \<noteq> w_balance_vnd wallet
                      \<or> wa_after_balance_vnd a \<noteq> balance_after)
              then Inl WalletAdjustmentAuditError
              else
                let d1 = env d in
                case find_entry entry_type reference_id (ledger d1) of
                  Some winner \<Rightarrow>
                    res_bind (matching_entry winner wallet_id amount_vnd) (\<lambda>row. Inr (row, d1))
                | None \<Rightarrow>
                    let row = \<lparr>wl_id = ledger_seq d1, wl_wallet_id = wallet_id,
                          wl_entry_type = entry_type, wl_amount_vnd = amount_vnd,
                          wl_balance_after_vnd = balance_after,
                          wl_reference_type = reference_type, wl_reference_id = reference_id,
                          wl_actor_id = actor_id\<rparr>
                    in if \<not> ledger_row_ok row then Inl IntegrityError
                       else Inr (row, d1\<lparr>ledger := ledger d1 @ [row],
                              ledger_seq := ledger_seq d1 + 1,
                              wallets := update_row w_id wallet_id
                                (\<lambda>w. w\<lparr>w_balance_vnd := balance_after\<rparr>) (wallets d1)\<rparr>))))))"

section \<open>Provisioning and debits\<close>

definition ensure_driver_wallet :: "uuid \<Rightarrow> uuid \<Rightarrow> db \<Rightarrow> exn + wallet \<times> db" where
  "ensure_driver_wallet new_id driver_id d =
    (if row_of u_id driver_id (users d) = None \<or> \<not> has_role d driver_id ''driver''
     then Inl WalletDriverRequiredError
     else case row_of w_driver_id driver_id (wallets d) of
       Some wallet \<Rightarrow> Inr (wallet, d)
     | None \<Rightarrow>
         if new_id \<in> w_id ` set (wallets d) then Inl IntegrityError
         else let wallet = \<lparr>w_id = new_id, w_driver_id = driver_id, w_balance_vnd = 0,
                            w_status = WActive\<rparr>
              in Inr (wallet, d\<lparr>wallets := wallets d @ [wallet]\<rparr>))"

definition debit_wallet ::
  "uuid \<Rightarrow> uuid option \<Rightarrow> uuid \<Rightarrow> db \<Rightarrow> exn + uuid \<times> db" where
  "debit_wallet new_id wallet_id driver_id d =
    (case wallet_id of
       None \<Rightarrow>
         (case row_of w_driver_id driver_id (wallets d) of
            Some wallet \<Rightarrow> Inr (w_id wallet, d)
          | None \<Rightarrow> res_bind (ensure_driver_wallet new_id driver_id d)
              (\<lambda>(wallet, d1). Inr (w_id wallet, d1)))
     | Some wid \<Rightarrow>
         res_bind (lock_wallet wid d) (\<lambda>wallet.
           if w_driver_id wallet \<noteq> driver_id then Inl WalletOwnershipError
           else Inr (wid, d)))"

definition tru_vi ::
  "uuid \<Rightarrow> invoice option \<Rightarrow> int option \<Rightarrow> uuid option \<Rightarrow> uuid option \<Rightarrow> db
   \<Rightarrow> exn + wallet_ledger option \<times> db" where
  "tru_vi new_id invoice session_id wallet_id actor_id d =
    res_bind (case invoice of
                Some bill \<Rightarrow> Inr bill
              | None \<Rightarrow>
                  (case session_id of
                     None \<Rightarrow> Inl ValueError
                   | Some sid \<Rightarrow>
                       (case row_of inv_session_id sid (invoices d) of
                          None \<Rightarrow> Inl LookupError | Some bill \<Rightarrow> Inr bill))) (\<lambda>bill.
    if (case session_id of None \<Rightarrow> False | Some sid \<Rightarrow> sid \<noteq> inv_session_id bill)
    then Inl ValueError
    else
      res_bind (integer_vnd (inv_total_vnd bill)) (\<lambda>_.
      if inv_total_vnd bill = 0 then Inr (None, d)
      else if inv_total_vnd bill < 0 then Inl WalletAmountError
      else
        res_bind (debit_wallet new_id wallet_id (inv_driver_id bill) d) (\<lambda>(wid, d1).
        res_bind (ghi_so_cai id wid ChargingDebit (- inv_total_vnd bill) ''charging_session''
            (str_int (inv_session_id bill)) actor_id d1) (\<lambda>(row, d2).
          Inr (Some row, d2)))))"

definition ledger_total :: "uuid \<Rightarrow> wallet_ledger list \<Rightarrow> vnd" where
  "ledger_total wallet_id rows =
    sum_list (map wl_amount_vnd (filter (\<lambda>r. wl_wallet_id r = wallet_id) rows))"

text \<open>The administrative evidence attached to an audit row: permission and roles.\<close>

type_synonym evidence = "string \<times> string list"

definition reason_ok :: "string \<Rightarrow> bool" where
  "reason_ok reason \<longleftrightarrow> strip reason \<noteq> [] \<and> length (strip reason) \<le> 500"

definition phuc_hoi_so_du_cache ::
  "uuid \<Rightarrow> uuid \<Rightarrow> uuid \<Rightarrow> string \<Rightarrow> evidence option \<Rightarrow> db \<Rightarrow> exn + wallet \<times> db" where
  "phuc_hoi_so_du_cache new_id wallet_id actor_id reason authorization d =
    (if \<not> reason_ok reason then Inl ValueError
     else
       res_bind (require_admin (Some actor_id) d) (\<lambda>_.
       res_bind (lock_wallet wallet_id d) (\<lambda>wallet.
       res_bind (integer_vnd (ledger_total wallet_id (ledger d))) (\<lambda>balance.
       if w_balance_vnd wallet = balance then Inr (wallet, d)
       else if new_id \<in> wa_id ` set (wallet_audits d) then Inl IntegrityError
       else
         let audit = \<lparr>wa_id = new_id, wa_wallet_id = wallet_id, wa_actor_id = actor_id,
               wa_action = ''cache_repaired'', wa_before_balance_vnd = w_balance_vnd wallet,
               wa_after_balance_vnd = balance, wa_amount_vnd = None, wa_reason = strip reason\<rparr>;
             d1 = d\<lparr>wallet_audits := wallet_audits d @ [audit],
                    wallets := update_row w_id wallet_id
                      (\<lambda>w. w\<lparr>w_balance_vnd := balance\<rparr>) (wallets d)\<rparr>
         in res_bind (ghi_nhat_ky (Some actor_id) ''wallet.cache_repaired'' ''wallet_audit''
               (str_uuid new_id)
               [(''wallet_id'', JStr (str_uuid wallet_id)),
                (''before_balance_vnd'', JInt (w_balance_vnd wallet)),
                (''after_balance_vnd'', JInt balance),
                (''driver_id'', JStr (str_uuid (w_driver_id wallet))),
                (''reason'', JStr (strip reason)),
                (''audit_version'', JInt 1)]
               (map_option fst authorization) (map_option snd authorization) d1)
             (\<lambda>d2. Inr (wallet\<lparr>w_balance_vnd := balance\<rparr>, d2))))))"

end
