(* ===== verification/Invoicing.thy ===== *)
theory Invoicing
  imports Driver_Notifications Wallet
begin

text \<open>
  src/src/modules/billing/invoicing.py: \<open>_create_invoice\<close> and \<open>lap_hoa_don\<close>.  The savepoint
  of \<open>lap_hoa_don\<close> discards the writes of a rejected invoice and keeps the reason on the
  session; every other exception leaves the function and the caller's transaction rolls back.
  \<open>bill_id\<close> is the identifier that \<open>uuid4\<close> draws, \<open>now\<close> the transaction time.
\<close>

section \<open>Definitions\<close>

datatype invoice_status = Ready | Pending | NeedsReview

record invoice_result =
  ir_status :: invoice_status
  ir_invoice :: "invoice option"
  ir_reason :: "string option"

definition energy_line :: "uuid \<Rightarrow> segment \<Rightarrow> invoice_line" where
  "energy_line bill_id s = \<lparr>il_invoice_id = bill_id, il_line_type = EnergyLine,
     il_local_date = seg_local_date s, il_started_at = seg_start_time s,
     il_ended_at = seg_end_time s, il_energy_wh = seg_energy_wh s,
     il_rate_vnd = seg_price_vnd_per_kwh s, il_band_label = seg_frame_label s,
     il_interpolated = (seg_start_interpolated s \<or> seg_end_interpolated s),
     il_tariff_id = seg_tariff_version s, il_amount_vnd = seg_amount_vnd s\<rparr>"

text \<open>The constraints of the tables \<open>invoices\<close> and \<open>invoice_lines\<close>.\<close>

definition invoice_row_ok :: "invoice \<Rightarrow> db \<Rightarrow> bool" where
  "invoice_row_ok b d \<longleftrightarrow> inv_id b \<notin> inv_id ` set (invoices d)
    \<and> inv_session_id b \<notin> inv_session_id ` set (invoices d) \<and> 0 \<le> inv_total_vnd b"

definition line_row_ok :: "invoice_line \<Rightarrow> bool" where
  "line_row_ok l \<longleftrightarrow> il_started_at l < il_ended_at l
    \<and> 0 \<le> il_energy_wh l \<and> 0 \<le> il_rate_vnd l \<and> 0 \<le> il_amount_vnd l
    \<and> (il_line_type l = IdleLine \<longrightarrow> il_energy_wh l = 0) \<and> btrim (il_band_label l) \<noteq> []"

definition session_station :: "charging_session \<Rightarrow> db \<Rightarrow> exn + uuid" where
  "session_station charging d =
    (case (row_of cp_id (cs_charge_point_id charging) (charge_points d),
           row_of cn_id (cs_connector_id charging) (connectors d)) of
       (Some cp, Some cn) \<Rightarrow>
         if cn_charge_point_id cn \<noteq> cs_charge_point_id charging
         then Inl (InvalidInvoice ''invoice_session_mismatch'')
         else Inr (cp_station_id cp)
     | _ \<Rightarrow> Inl (InvalidInvoice ''invoice_session_mismatch''))"

text \<open>The confirmed occupation to bill: none before lifecycle 1, at most one after.\<close>

definition billed_intervals :: "charging_session \<Rightarrow> db \<Rightarrow> exn + occupation_interval list" where
  "billed_intervals charging d =
    (if cs_billing_lifecycle_version charging \<noteq> 1 then Inr []
     else case cs_connector_released_at charging of
       None \<Rightarrow> Inl AssertionError
     | Some released \<Rightarrow>
         let intervals = sort_key oi_started_at (confirmed_intervals (cs_id charging) d) in
         if length intervals > 1 \<or> (\<exists>i\<in>set intervals.
              oi_ended_at i \<noteq> Some released \<or> oi_end_reason i \<noteq> Some ''released'')
         then Inl (InvalidInvoice ''invoice_invalid_occupation_history'')
         else Inr intervals)"

definition occupation_lines ::
  "zones \<Rightarrow> charging_session \<Rightarrow> station \<Rightarrow> instant \<Rightarrow> (day \<Rightarrow> tariff option) \<Rightarrow> uuid
   \<Rightarrow> occupation_interval list \<Rightarrow> exn + invoice_line list" where
  "occupation_lines zones charging station finish versions bill_id intervals =
    (if cs_billing_lifecycle_version charging = 0
     then idle_lines zones charging station finish versions bill_id None
     else res_bind (res_map (\<lambda>i. case oi_ended_at i of
              None \<Rightarrow> Inl AssertionError
            | Some stop \<Rightarrow> idle_lines zones charging station stop versions bill_id
                (Some (oi_started_at i))) intervals)
          (\<lambda>groups. Inr (concat groups)))"

definition invoice_lines_of ::
  "zones \<Rightarrow> instant \<Rightarrow> uuid \<Rightarrow> charging_session \<Rightarrow> station \<Rightarrow> instant \<Rightarrow> db
   \<Rightarrow> exn + invoice_line list \<times> db" where
  "invoice_lines_of zones now bill_id charging station finish d =
    res_bind (meter_values charging finish d) (\<lambda>readings.
    res_bind (billed_intervals charging d) (\<lambda>intervals.
    let billing_end = (case cs_connector_released_at charging of
          Some released \<Rightarrow> if intervals \<noteq> [] then max finish released else finish
        | None \<Rightarrow> finish) in
    res_bind (daily_tariffs zones now True station (cs_started_at charging) billing_end d)
      (\<lambda>(tabs, d1).
    res_bind (chia_doan (cs_started_at charging) finish readings (dy_frames tabs)
        (zones (st_timezone station))) (\<lambda>segments.
    if (\<Sum>s\<leftarrow>segments. seg_energy_wh s)
        \<noteq> mv_energy_wh (last readings) - mv_energy_wh (hd readings)
    then Inl (InvalidInvoice ''invoice_energy_mismatch'')
    else
      res_bind (occupation_lines zones charging station finish (dy_versions tabs) bill_id intervals)
        (\<lambda>idle. Inr (map (energy_line bill_id) segments @ idle, d1))))))"

definition save_invoice ::
  "instant \<Rightarrow> uuid \<Rightarrow> charging_session \<Rightarrow> uuid \<Rightarrow> uuid \<Rightarrow> invoice_line list \<Rightarrow> db
   \<Rightarrow> exn + invoice \<times> db" where
  "save_invoice now bill_id charging driver_id station_id lines d =
    (let amount = (\<Sum>l\<leftarrow>lines. il_amount_vnd l) in
     if amount > MAX_VND \<or> (\<exists>l\<in>set lines. il_amount_vnd l > MAX_VND)
     then Inl (InvalidInvoice ''invoice_amount_overflow'')
     else
       let bill = \<lparr>inv_id = bill_id, inv_session_id = cs_id charging, inv_driver_id = driver_id,
             inv_station_id = station_id, inv_total_vnd = amount,
             inv_rounding_rule = (if cs_billing_lifecycle_version charging = 1
               then ROUNDING_RULE else LEGACY_ROUNDING_RULE),
             inv_created_at = now\<rparr>
       in if \<not> invoice_row_ok bill d \<or> \<not> list_all line_row_ok lines then Inl IntegrityError
          else Inr (bill, d\<lparr>invoices := invoices d @ [bill],
                            invoice_lines := invoice_lines d @ lines\<rparr>))"

definition create_invoice ::
  "zones \<Rightarrow> instant \<Rightarrow> uuid \<Rightarrow> charging_session \<Rightarrow> instant \<Rightarrow> db \<Rightarrow> exn + invoice \<times> db" where
  "create_invoice zones now bill_id charging finish d =
    res_bind (session_station charging d) (\<lambda>station_id.
    case cs_driver_id charging of
      None \<Rightarrow> Inl (InvalidInvoice ''invoice_missing_driver'')
    | Some driver_id \<Rightarrow>
        if cs_authorization_status charging \<noteq> ''Accepted''
        then Inl (InvalidInvoice ''invoice_unauthorized_session'')
        else (case row_of st_id station_id (stations d) of
          None \<Rightarrow> Inl AssertionError
        | Some station \<Rightarrow>
            if finish \<le> cs_started_at charging
            then Inl (InvalidInvoice ''invoice_invalid_interval'')
            else
              res_bind (invoice_lines_of zones now bill_id charging station finish d)
                (\<lambda>(lines, d1).
              save_invoice now bill_id charging driver_id station_id lines d1)))"

definition add_review_reason :: "int \<Rightarrow> string \<Rightarrow> db \<Rightarrow> db" where
  "add_review_reason session_id reason d = d\<lparr>sessions := update_row cs_id session_id
     (\<lambda>c. c\<lparr>cs_review_reasons := cs_review_reasons c @ [reason]\<rparr>) (sessions d)\<rparr>"

definition needs_review :: "string \<Rightarrow> invoice_result" where
  "needs_review reason = \<lparr>ir_status = NeedsReview, ir_invoice = None, ir_reason = Some reason\<rparr>"

definition pending :: "string \<Rightarrow> invoice_result" where
  "pending reason = \<lparr>ir_status = Pending, ir_invoice = None, ir_reason = Some reason\<rparr>"

definition ready :: "invoice \<Rightarrow> invoice_result" where
  "ready bill = \<lparr>ir_status = Ready, ir_invoice = Some bill, ir_reason = None\<rparr>"

definition lap_hoa_don ::
  "zones \<Rightarrow> int \<Rightarrow> instant \<Rightarrow> uuid \<Rightarrow> int \<Rightarrow> db \<Rightarrow> exn + invoice_result \<times> db" where
  "lap_hoa_don zones retention_days now bill_id session_id d =
    (case row_of cs_id session_id (sessions d) of
       None \<Rightarrow> Inl InvoiceSessionNotFoundError
     | Some charging \<Rightarrow>
         if cs_review_reasons charging \<noteq> []
         then Inr (needs_review ''invoice_session_needs_review'', d)
         else (case cs_ended_at charging of
           None \<Rightarrow> Inr (pending ''invoice_session_in_progress'', d)
         | Some finish \<Rightarrow>
             (case row_of inv_session_id session_id (invoices d) of
                Some existing \<Rightarrow>
                  res_bind (notify_event zones retention_days now charging InvoiceEvent
                      (Some existing) None None d) (\<lambda>d1. Inr (ready existing, d1))
              | None \<Rightarrow>
                  if cs_billing_lifecycle_version charging = 1
                     \<and> cs_connector_released_at charging = None
                  then Inr (pending ''invoice_awaiting_unplug'', d)
                  else (case create_invoice zones now bill_id charging finish d of
                    Inl (InvalidInvoice reason) \<Rightarrow>
                      Inr (needs_review reason, add_review_reason session_id reason d)
                  | Inl e \<Rightarrow> Inl e
                  | Inr (bill, d1) \<Rightarrow>
                      res_bind (notify_event zones retention_days now charging InvoiceEvent
                          (Some bill) None None d1) (\<lambda>d2. Inr (ready bill, d2))))))"

section \<open>What an invoice contains\<close>

text \<open>
  The content of an invoice, relative to the prices of the database: every energy line is
  priced at the version in force on its local date, every idle line charges whole started
  minutes at the idle rate in force on its local date.
\<close>

definition line_priced :: "zone \<Rightarrow> uuid \<Rightarrow> db \<Rightarrow> invoice_line \<Rightarrow> bool" where
  "line_priced tz station_id d l \<longleftrightarrow> il_local_date l = zone_date tz (il_started_at l)
    \<and> (\<exists>rate grace bands. price_of station_id (il_local_date l) d
          = Some (il_tariff_id l, rate, grace, bands)
        \<and> (case il_line_type l of
             EnergyLine \<Rightarrow> il_amount_vnd l
               = round_half_up (il_energy_wh l * of_int (il_rate_vnd l) / 1000)
           | IdleLine \<Rightarrow> il_rate_vnd l = rate \<and> il_energy_wh l = 0
               \<and> il_amount_vnd l = billable_minutes (il_ended_at l - il_started_at l) 0 * rate))"

lemma tables_price:
  assumes "tables_inv sid days (tabs, d)" and "dy_versions tabs x = Some v"
  shows "\<exists>p. price_of sid x d = Some (t_id v, t_idle_rate_vnd_per_minute v, t_grace_minutes v, p)"
proof -
  have "x \<in> days" using assms by (force simp: tables_inv_def)
  with assms show ?thesis by (force simp: tables_inv_def)
qed

lemma tables_frame_price:
  assumes inv: "tables_inv sid days (tabs, d)" and f: "f \<in> set (frames_of (dy_frames tabs) x)"
  shows "\<exists>rate grace p. price_of sid x d = Some (frame_tariff_version f, rate, grace, p)"
proof -
  obtain fs where fs: "dy_frames tabs x = Some fs" "f \<in> set fs"
    using f by (cases "dy_frames tabs x") (auto simp: frames_of_def)
  then have "x \<in> days" using inv by (force simp: tables_inv_def)
  with inv obtain v gs p where "dy_versions tabs x = Some v" "dy_frames tabs x = Some gs"
    and "\<forall>g\<in>set gs. frame_tariff_version g = t_id v"
    and "price_of sid x d = Some (t_id v, t_idle_rate_vnd_per_minute v, t_grace_minutes v, p)"
    unfolding tables_inv_def prod.case by blast
  with fs show ?thesis by auto
qed

lemma energy_line_priced:
  assumes "segment_ok z (dy_frames tabs) mvs s e seg" and "tables_inv sid days (tabs, d)"
  shows "line_priced z sid d (energy_line bill_id seg)"
proof -
  obtain f where "applied_tariff z (seg_local_date seg) (seg_start_time seg)
      (frames_of (dy_frames tabs) (seg_local_date seg)) = Inr (Some f)"
    and "frame_tariff_version f = seg_tariff_version seg"
    and "zone_date z (seg_start_time seg) = seg_local_date seg"
    using assms(1) unfolding segment_ok_def by (metis order.refl)
  with tables_frame_price [OF assms(2) applied_tariff_member] assms(1) show ?thesis
    by (fastforce simp: line_priced_def energy_line_def segment_ok_def)
qed

lemma idle_line_priced:
  assumes "idle_line_ok z (dy_versions tabs) l" and "tables_inv sid days (tabs, d)"
  shows "line_priced z sid d l"
proof -
  obtain v where v: "dy_versions tabs (il_local_date l) = Some v" "il_tariff_id l = t_id v"
      "il_rate_vnd l = t_idle_rate_vnd_per_minute v"
    using assms(1) by (auto simp: idle_line_ok_def)
  with tables_price [OF assms(2) v(1)] assms(1) show ?thesis
    by (auto simp: line_priced_def idle_line_ok_def)
qed

text \<open>The outcomes of a computation that may only reject with a reason.\<close>

definition rejects_or :: "('a \<Rightarrow> bool) \<Rightarrow> exn + 'a \<Rightarrow> bool" where
  "rejects_or P r \<longleftrightarrow> (case r of Inl e \<Rightarrow> (\<exists>reason. e = InvalidInvoice reason
     \<and> reason \<noteq> ''invoice_energy_mismatch'') | Inr x \<Rightarrow> P x)"

lemma rejects_or_simps [simp]:
  "rejects_or P (Inr x) = P x"
  "rejects_or P (Inl (InvalidInvoice reason)) = (reason \<noteq> ''invoice_energy_mismatch'')"
  by (simp_all add: rejects_or_def)

lemma rejects_or_bind:
  assumes "rejects_or P m" and "\<And>x. m = Inr x \<Longrightarrow> P x \<Longrightarrow> rejects_or Q (f x)"
  shows "rejects_or Q (res_bind m f)"
  using assms by (cases m) (auto simp: rejects_or_def)

lemma rejects_or_fold:
  assumes "\<And>x s. x \<in> set xs \<Longrightarrow> P s \<Longrightarrow> rejects_or P (f x s)" and "P s"
  shows "rejects_or P (res_fold f xs s)"
  using assms by (induction xs arbitrary: s) (auto intro!: rejects_or_bind)

lemma rejects_or_map:
  assumes "\<And>x. x \<in> set xs \<Longrightarrow> rejects_or P (f x)"
  shows "rejects_or (\<lambda>ys. \<forall>y\<in>set ys. P y) (res_map f xs)"
  using assms by (induction xs) (auto intro!: rejects_or_bind)

lemma meter_values_rejects: "rejects_or (\<lambda>_. True) (meter_values charging finish d)"
proof -
  have "rejects_or (\<lambda>_. True) (res_fold add_sample xs rs)" for xs rs
    by (rule rejects_or_fold) (auto simp: add_sample_def split: option.splits)
  then show ?thesis
    by (auto simp: meter_values_def Let_def split: option.splits intro!: rejects_or_bind)
qed

lemma tariff_frames_rejects: "rejects_or (\<lambda>_. True) (tariff_frames tid d)"
  by (auto simp: tariff_frames_def split: sum.splits)

lemma daily_tariffs_rejects:
  assumes "row_of st_id (st_id station) (stations d) \<noteq> None"
  shows "rejects_or (\<lambda>(tabs, d'). stations d' = stations d)
    (daily_tariffs zones now mark_used station s e d)"
  unfolding daily_tariffs_def Let_def
proof (rule rejects_or_fold)
  fix x and state :: "day_tables \<times> db"
  assume "case state of (tabs, d') \<Rightarrow> stations d' = stations d"
  then obtain tabs d1 where state: "state = (tabs, d1)" "stations d1 = stations d" by auto
  have mark: "\<exists>v' d2. danh_dau_bieu_gia_da_dung (st_id station) (t_id v) now d1 = Inr (v', d2)
      \<and> stations d2 = stations d" if "latest_tariff (st_id station) x (tariffs d1) = Some v" for v
  proof -
    have "find (\<lambda>t. t_id t = t_id v \<and> t_station_id t = st_id station) (tariffs d1) \<noteq> None"
      using latest_tariff_spec(1, 2) [OF that] by (simp add: find_None_iff) blast
    then obtain u where "station_tariff (st_id station) (t_id v) d1 = Inr u"
      by (auto simp: station_tariff_def)
    moreover obtain st where "pricing_station (st_id station) d1 = Inr st"
      using assms state by (auto simp: pricing_station_def)
    ultimately show ?thesis
      using state by (cases "t_used_at u") (simp_all add: danh_dau_bieu_gia_da_dung_def)
  qed
  have "lay_bieu_gia_hieu_luc zones (st_id station) (LocalDate x) d1
      = Inr (latest_tariff (st_id station) x (tariffs d1))"
    using assms state by (simp add: lay_bieu_gia_Inr)
  then show "rejects_or (\<lambda>(tabs, d'). stations d' = stations d)
      (daily_tariff zones now mark_used (st_id station) x state)"
    using mark state tariff_frames_rejects
    by (auto simp: daily_tariff_def split: option.splits intro!: rejects_or_bind)
qed simp

lemma billed_intervals_ok:
  assumes "billed_intervals charging d = Inr is" and "i \<in> set is"
  shows "\<exists>released. cs_connector_released_at charging = Some released \<and> oi_ended_at i = Some released"
  using assms
  by (auto simp: billed_intervals_def Let_def split: option.splits if_splits)

context station_zone
begin

lemma occupation_lines_rejects:
  assumes "zones (st_timezone station) = z" and "priced z versions (cs_started_at charging) b"
    and "finish \<le> b" and "\<And>i. i \<in> set is \<Longrightarrow> \<exists>stop. oi_ended_at i = Some stop \<and> stop \<le> b"
  shows "rejects_or (\<lambda>lines. \<forall>l\<in>set lines. idle_line_ok z versions l)
    (occupation_lines zones charging station finish versions bill_id is)"
proof -
  have one: "rejects_or (\<lambda>lines. \<forall>l\<in>set lines. idle_line_ok z versions l)
      (idle_lines zones charging station stop versions bill_id start)" if "stop \<le> b" for stop start
    using idle_lines_total [where zones = zones and station = station, OF assms(1, 2) that,
        of bill_id start] by auto
  show ?thesis
  proof (cases "cs_billing_lifecycle_version charging = 0")
    case True
    with one [OF assms(3)] show ?thesis by (simp add: occupation_lines_def)
  next
    case False
    have "rejects_or (\<lambda>groups. \<forall>ls\<in>set groups. \<forall>l\<in>set ls. idle_line_ok z versions l)
        (res_map (\<lambda>i. case oi_ended_at i of None \<Rightarrow> Inl AssertionError
          | Some stop \<Rightarrow> idle_lines zones charging station stop versions bill_id
              (Some (oi_started_at i))) is)"
      using one assms(4) by (intro rejects_or_map) fastforce
    with False show ?thesis
      by (auto simp: occupation_lines_def intro!: rejects_or_bind)
  qed
qed

lemma invoice_lines_of_ok:
  assumes z: "zones (st_timezone station) = z" and pinv: "pricing_inv d"
    and known: "row_of st_id (st_id station) (stations d) = Some station"
    and less: "cs_started_at charging < finish"
    and life: "cs_billing_lifecycle_version charging = 1 \<longrightarrow> cs_connector_released_at charging \<noteq> None"
  shows "rejects_or (\<lambda>(lines, d1). tables_step d d1
      \<and> (\<forall>l\<in>set lines. line_priced z (st_id station) d l)
      \<and> Some ((\<Sum>l\<leftarrow>lines. il_energy_wh l) + cs_meter_start_wh charging) = cs_meter_stop_wh charging)
    (invoice_lines_of zones now bill_id charging station finish d)"
  unfolding invoice_lines_of_def
proof (rule rejects_or_bind [OF meter_values_rejects], rule rejects_or_bind)
  fix readings assume run: "meter_values charging finish d = Inr readings"
  note mv = meter_values_ok [OF run less]
  show "rejects_or (\<lambda>_. True) (billed_intervals charging d)"
    using life by (auto simp: billed_intervals_def Let_def split: option.splits)
  fix "is" assume int: "billed_intervals charging d = Inr is"
  let ?b = "case cs_connector_released_at charging of
      Some released \<Rightarrow> if is \<noteq> [] then max finish released else finish | None \<Rightarrow> finish"
  have b: "finish \<le> ?b" by (simp split: option.splits)
  have stops: "\<exists>stop. oi_ended_at i = Some stop \<and> stop \<le> ?b" if "i \<in> set is" for i
    using billed_intervals_ok [OF int that] that by auto
  let ?E = "\<lambda>lines. Some ((\<Sum>l\<leftarrow>lines. il_energy_wh l) + cs_meter_start_wh charging)
    = cs_meter_stop_wh charging"
  show "rejects_or (\<lambda>(lines, d1). tables_step d d1 \<and> (\<forall>l\<in>set lines. line_priced z (st_id station) d l) \<and> ?E lines)
    (let billing_end = ?b in
     res_bind (daily_tariffs zones now True station (cs_started_at charging) billing_end d)
      (\<lambda>(tabs, d1).
    res_bind (chia_doan (cs_started_at charging) finish readings (dy_frames tabs)
        (zones (st_timezone station))) (\<lambda>segments.
    if (\<Sum>s\<leftarrow>segments. seg_energy_wh s)
        \<noteq> mv_energy_wh (last readings) - mv_energy_wh (hd readings)
    then Inl (InvalidInvoice ''invoice_energy_mismatch'')
    else
      res_bind (occupation_lines zones charging station finish (dy_versions tabs) bill_id is)
        (\<lambda>idle. Inr (map (energy_line bill_id) segments @ idle, d1)))))"
    unfolding Let_def
  proof (rule rejects_or_bind [OF daily_tariffs_rejects])
    show "row_of st_id (st_id station) (stations d) \<noteq> None" using known by simp
    fix r assume "daily_tariffs zones now True station (cs_started_at charging) ?b d = Inr r"
    then obtain tabs d1 where r: "r = (tabs, d1)"
      and day: "daily_tariffs zones now True station (cs_started_at charging) ?b d = Inr (tabs, d1)"
      by (cases r) auto
    note tab = daily_tariffs_ok(1, 3) [OF pinv day z [symmetric]]
    have pinv1: "pricing_inv d1" and price: "\<And>s x. price_of s x d1 = price_of s x d"
      using tab(1) by (auto simp: tables_step_def)
    have "zone_date z (finish - 1) \<le> zone_date z (?b - 1)" using date_mono b by simp
    from chia_doan_ok [OF less tables_tariffs_ok [OF tab(2) this] mv(1-3)]
    obtain segs where segs: "chia_doan (cs_started_at charging) finish readings (dy_frames tabs) z = Inr segs"
      "\<forall>seg\<in>set segs. segment_ok z (dy_frames tabs) readings (cs_started_at charging) finish seg"
      "sum_list (map seg_energy_wh segs) = mv_energy_wh (last readings) - mv_energy_wh (hd readings)"
      by blast
    have lp: "line_priced z (st_id station) d1 l = line_priced z (st_id station) d l" for l
      by (simp add: line_priced_def price)
    have en: "\<forall>l\<in>set (map (energy_line bill_id) segs). line_priced z (st_id station) d l"
      using energy_line_priced [OF _ tab(2)] segs(2) by (auto simp flip: lp)
    have sum: "(\<Sum>l\<leftarrow>map (energy_line bill_id) segs. il_energy_wh l) = sum_list (map seg_energy_wh segs)"
      by (simp add: comp_def energy_line_def)
    have fin: "(\<forall>l\<in>set idle. line_priced z (st_id station) d l)
        \<and> ?E (map (energy_line bill_id) segs @ idle)"
      if "\<forall>l\<in>set idle. idle_line_ok z (dy_versions tabs) l" for idle
    proof -
      have "\<forall>l\<in>set idle. il_energy_wh l = 0" using that by (simp add: idle_line_ok_def)
      then have "(\<Sum>l\<leftarrow>idle. il_energy_wh l) = 0" by (induction idle) simp_all
      with sum segs(3) mv(4, 5) have "?E (map (energy_line bill_id) segs @ idle)" by simp
      moreover have "\<forall>l\<in>set idle. line_priced z (st_id station) d l"
        using that idle_line_priced [OF _ tab(2)] by (auto simp flip: lp)
      ultimately show ?thesis by blast
    qed
    have occ: "rejects_or (\<lambda>lines. \<forall>l\<in>set lines. idle_line_ok z (dy_versions tabs) l)
        (occupation_lines zones charging station finish (dy_versions tabs) bill_id is)"
      by (rule occupation_lines_rejects [where zones = zones and station = station,
            OF z tables_priced [OF pinv1 tab(2)] b stops])
    show "rejects_or (\<lambda>(lines, d1). tables_step d d1 \<and> (\<forall>l\<in>set lines. line_priced z (st_id station) d l) \<and> ?E lines)
      (case r of (tabs, d1) \<Rightarrow>
       res_bind (chia_doan (cs_started_at charging) finish readings (dy_frames tabs)
          (zones (st_timezone station))) (\<lambda>segments.
        if (\<Sum>s\<leftarrow>segments. seg_energy_wh s) \<noteq> mv_energy_wh (last readings) - mv_energy_wh (hd readings)
        then Inl (InvalidInvoice ''invoice_energy_mismatch'')
        else res_bind (occupation_lines zones charging station finish (dy_versions tabs) bill_id is)
          (\<lambda>idle. Inr (map (energy_line bill_id) segments @ idle, d1))))"
      using segs(1, 3) en fin tab(1) by (auto simp: r z intro!: rejects_or_bind [OF occ])
  qed
qed

end

section \<open>Saved invoices\<close>

lemma idle_loop_ids:
  "idle_loop fuel tz versions bill_id finish anchor count = Inr lines \<Longrightarrow>
    \<forall>l\<in>set lines. il_invoice_id l = bill_id"
proof (induction fuel arbitrary: anchor count lines)
  case (Suc fuel)
  then show ?case
    by (auto simp: idle_loop.simps [of "Suc fuel"] Let_def split: if_splits option.splits)
qed (auto simp: idle_loop.simps split: if_splits)

lemma idle_lines_ids:
  "idle_lines zones charging station finish versions bill_id start = Inr lines \<Longrightarrow>
    l \<in> set lines \<Longrightarrow> il_invoice_id l = bill_id"
  by (auto simp: idle_lines_def Let_def split: option.splits if_splits dest: idle_loop_ids)

lemma occupation_lines_ids:
  assumes "occupation_lines zones charging station finish versions bill_id is = Inr lines"
    and "l \<in> set lines"
  shows "il_invoice_id l = bill_id"
proof (cases "cs_billing_lifecycle_version charging = 0")
  case True
  with assms show ?thesis by (auto simp: occupation_lines_def dest: idle_lines_ids)
next
  case False
  with assms obtain groups ls where "ls \<in> set groups" "l \<in> set ls"
    and "res_map (\<lambda>i. case oi_ended_at i of None \<Rightarrow> Inl AssertionError
          | Some stop \<Rightarrow> idle_lines zones charging station stop versions bill_id
              (Some (oi_started_at i))) is = Inr groups"
    by (auto simp: occupation_lines_def)
  from res_map_member [OF this(3, 1)] \<open>l \<in> set ls\<close> show ?thesis
    by (auto split: option.splits dest: idle_lines_ids)
qed

lemma invoice_lines_of_ids:
  assumes "invoice_lines_of zones now bill_id charging station finish d = Inr (lines, d1)"
    and "l \<in> set lines"
  shows "il_invoice_id l = bill_id"
  using assms
  by (auto simp: invoice_lines_of_def Let_def energy_line_def dest: occupation_lines_ids
      split: if_splits option.splits)

definition saved_invoice :: "charging_session \<Rightarrow> invoice \<Rightarrow> zones \<Rightarrow> db \<Rightarrow> db \<Rightarrow> bool" where
  "saved_invoice charging bill zones d d' \<longleftrightarrow> (\<exists>lines station ts.
     d' = d\<lparr>tariffs := ts, invoices := invoices d @ [bill], invoice_lines := invoice_lines d @ lines\<rparr>
     \<and> pricing_inv d' \<and> (\<forall>s x. price_of s x d' = price_of s x d)
     \<and> row_of st_id (inv_station_id bill) (stations d) = Some station
     \<and> inv_session_id bill = cs_id charging \<and> Some (inv_driver_id bill) = cs_driver_id charging
     \<and> inv_id bill \<notin> inv_id ` set (invoices d) \<and> cs_id charging \<notin> inv_session_id ` set (invoices d)
     \<and> 0 \<le> inv_total_vnd bill \<and> inv_total_vnd bill \<le> MAX_VND
     \<and> inv_total_vnd bill = (\<Sum>l\<leftarrow>lines. il_amount_vnd l)
     \<and> Some ((\<Sum>l\<leftarrow>lines. il_energy_wh l) + cs_meter_start_wh charging) = cs_meter_stop_wh charging
     \<and> (\<forall>l\<in>set lines. il_invoice_id l = inv_id bill \<and> line_row_ok l
          \<and> line_priced (zones (st_timezone station)) (inv_station_id bill) d l))"

lemma save_invoice_errors:
  "save_invoice now bill_id charging driver sid lines d = Inl e \<Longrightarrow>
    e = IntegrityError \<or> e = InvalidInvoice ''invoice_amount_overflow''"
  by (auto simp: save_invoice_def Let_def split: if_splits)

lemma saved_invoiceI:
  assumes "row_of st_id sid (stations d) = Some station"
    and lines: "invoice_lines_of zones now bill_id charging station finish d = Inr (lines, d1)"
    and driver: "cs_driver_id charging = Some driver"
    and step: "tables_step d d1"
    and priced: "\<forall>l\<in>set lines. line_priced (zones (st_timezone station)) sid d l"
    and energy: "Some ((\<Sum>l\<leftarrow>lines. il_energy_wh l) + cs_meter_start_wh charging)
      = cs_meter_stop_wh charging"
    and save: "save_invoice now bill_id charging driver sid lines d1 = Inr (bill, d')"
  shows "saved_invoice charging bill zones d d'"
proof -
  obtain ts where ts: "d1 = d\<lparr>tariffs := ts\<rparr>" using step by (auto simp: tables_step_def)
  have bill: "inv_station_id bill = sid" "inv_session_id bill = cs_id charging" "inv_id bill = bill_id"
      "inv_driver_id bill = driver" "inv_total_vnd bill = (\<Sum>l\<leftarrow>lines. il_amount_vnd l)"
      "inv_total_vnd bill \<le> MAX_VND" "invoice_row_ok bill d1" "list_all line_row_ok lines"
    and d': "d' = d1\<lparr>invoices := invoices d1 @ [bill], invoice_lines := invoice_lines d1 @ lines\<rparr>"
    using save by (auto simp: save_invoice_def Let_def split: if_splits)
  have "pricing_inv d'" "\<forall>s x. price_of s x d' = price_of s x d"
    using step by (simp_all add: d' tables_step_def pricing_inv_def price_of_def)
  then show ?thesis
    unfolding saved_invoice_def using assms(1) bill energy driver priced
    by (intro exI [of _ lines] exI [of _ station] exI [of _ ts])
      (auto simp: d' ts invoice_row_ok_def list_all_iff invoice_lines_of_ids [OF lines])
qed

lemma create_invoice_cases:
  assumes zones: "proper_zones zones" and pinv: "pricing_inv d"
    and life: "cs_billing_lifecycle_version charging = 1 \<longrightarrow> cs_connector_released_at charging \<noteq> None"
  shows "case create_invoice zones now bill_id charging finish d of
      Inl e \<Rightarrow> e = AssertionError \<or> e = IntegrityError
        \<or> (\<exists>reason. e = InvalidInvoice reason \<and> reason \<noteq> ''invoice_energy_mismatch'')
    | Inr (bill, d') \<Rightarrow> saved_invoice charging bill zones d d'"
proof -
  consider (no_station) e where "session_station charging d = Inl e"
    | (no_driver) "cs_driver_id charging = None"
    | (ok) sid driver where "session_station charging d = Inr sid" "cs_driver_id charging = Some driver"
    by (cases "session_station charging d"; cases "cs_driver_id charging") auto
  then show ?thesis
  proof cases
    case no_station
    then have "e = InvalidInvoice ''invoice_session_mismatch''"
      by (auto simp: session_station_def split: option.splits if_splits)
    with no_station show ?thesis by (simp add: create_invoice_def)
  next
    case no_driver
    then show ?thesis
      by (cases "session_station charging d")
        (auto simp: create_invoice_def session_station_def split: option.splits if_splits)
  next
    case ok
    show ?thesis
    proof (cases "row_of st_id sid (stations d)")
      case None
      with ok show ?thesis by (simp add: create_invoice_def)
    next
      case (Some station)
      then have sid: "st_id station = sid" by (auto dest: row_of_SomeD)
      have z: "station_zone (zones (st_timezone station))"
        using zones by (simp add: proper_zones_def)
      show ?thesis
      proof (cases "cs_authorization_status charging = ''Accepted'' \<and> cs_started_at charging < finish")
        case True
        then have eq: "create_invoice zones now bill_id charging finish d
            = res_bind (invoice_lines_of zones now bill_id charging station finish d)
                (\<lambda>(lines, d1). save_invoice now bill_id charging driver sid lines d1)"
          using ok Some by (simp add: create_invoice_def)
        have "rejects_or (\<lambda>(lines, d1). tables_step d d1
            \<and> (\<forall>l\<in>set lines. line_priced (zones (st_timezone station)) (st_id station) d l)
            \<and> Some ((\<Sum>l\<leftarrow>lines. il_energy_wh l) + cs_meter_start_wh charging)
                = cs_meter_stop_wh charging)
          (invoice_lines_of zones now bill_id charging station finish d)"
          using True Some sid pinv life by (intro station_zone.invoice_lines_of_ok [OF z]) auto
        then show ?thesis
          unfolding eq using saved_invoiceI [OF Some _ ok(2)] sid
          by (cases "invoice_lines_of zones now bill_id charging station finish d")
            (auto simp: rejects_or_def split: sum.splits dest!: save_invoice_errors)
      next
        case False
        with ok Some show ?thesis by (auto simp: create_invoice_def)
      qed
    qed
  qed
qed

section \<open>The billing invariant\<close>

text \<open>At most one invoice per session, and every total is the sum of its own lines.\<close>

definition lines_of :: "uuid \<Rightarrow> invoice_line list \<Rightarrow> invoice_line list" where
  "lines_of bill_id rows = filter (\<lambda>l. il_invoice_id l = bill_id) rows"

definition billing_inv :: "db \<Rightarrow> bool" where
  "billing_inv d \<longleftrightarrow> distinct (map inv_id (invoices d)) \<and> distinct (map inv_session_id (invoices d))
    \<and> (\<forall>l\<in>set (invoice_lines d). il_invoice_id l \<in> inv_id ` set (invoices d))
    \<and> (\<forall>b\<in>set (invoices d). 0 \<le> inv_total_vnd b \<and> inv_total_vnd b \<le> MAX_VND
         \<and> inv_total_vnd b = (\<Sum>l\<leftarrow>lines_of (inv_id b) (invoice_lines d). il_amount_vnd l))"

lemma saved_invoice_inv:
  assumes "saved_invoice charging bill zones d d'" and "billing_inv d"
  shows "billing_inv d'"
proof -
  obtain lines ts where d': "d' = d\<lparr>tariffs := ts, invoices := invoices d @ [bill],
      invoice_lines := invoice_lines d @ lines\<rparr>"
    and fresh: "inv_id bill \<notin> inv_id ` set (invoices d)"
      "inv_session_id bill \<notin> inv_session_id ` set (invoices d)"
    and amount: "0 \<le> inv_total_vnd bill" "inv_total_vnd bill \<le> MAX_VND"
      "inv_total_vnd bill = (\<Sum>l\<leftarrow>lines. il_amount_vnd l)"
    and ids: "\<forall>l\<in>set lines. il_invoice_id l = inv_id bill"
    using assms(1) unfolding saved_invoice_def by metis
  have "il_invoice_id l \<noteq> inv_id bill" if "l \<in> set (invoice_lines d)" for l
    using assms(2) fresh(1) that unfolding billing_inv_def by metis
  then have "lines_of (inv_id bill) (invoice_lines d @ lines) = lines"
    using ids by (auto simp: lines_of_def filter_empty_conv intro!: filter_True)
  moreover have "lines_of (inv_id b) (invoice_lines d @ lines) = lines_of (inv_id b) (invoice_lines d)"
    if "b \<in> set (invoices d)" for b
    using that fresh(1) ids by (auto simp: lines_of_def filter_empty_conv)
  ultimately show ?thesis
    using assms(2) fresh amount ids by (auto simp: billing_inv_def d')
qed

definition same_billing :: "db \<Rightarrow> db \<Rightarrow> bool" where
  "same_billing d d' \<longleftrightarrow> invoices d' = invoices d \<and> invoice_lines d' = invoice_lines d"

lemma billing_inv_cong: "same_billing d d' \<Longrightarrow> billing_inv d' = billing_inv d"
  by (simp add: billing_inv_def same_billing_def)

lemma notify_same_billing:
  "notify_event zones ret now charging kind bill moment event_id d = Inr d' \<Longrightarrow> same_billing d d'"
  by (auto simp: same_billing_def dest!: notify_event_frame)

text \<open>The outcomes of \<open>lap_hoa_don\<close>: nothing, a reason, the saved invoice again, or a new one.\<close>

lemma lap_hoa_don_cases:
  assumes run: "lap_hoa_don zones ret now bill_id sid d = Inr (r, d')"
    and zones: "proper_zones zones" and pinv: "pricing_inv d"
  obtains (later) "ir_invoice r = None" "ir_status r \<noteq> Ready" "d' = d"
  | (review) reason where "r = needs_review reason" "d' = add_review_reason sid reason d"
      "reason \<noteq> ''invoice_energy_mismatch''" "row_of inv_session_id sid (invoices d) = None"
  | (again) charging bill where "r = ready bill" "row_of inv_session_id sid (invoices d) = Some bill"
      "row_of cs_id sid (sessions d) = Some charging" "cs_review_reasons charging = []"
      "cs_ended_at charging \<noteq> None" "\<exists>ns. d' = d\<lparr>notifications := ns\<rparr>"
  | (new) charging bill d1 where "r = ready bill" "row_of inv_session_id sid (invoices d) = None"
      "row_of cs_id sid (sessions d) = Some charging" "cs_review_reasons charging = []"
      "cs_ended_at charging \<noteq> None"
      "saved_invoice charging bill zones d d1" "\<exists>ns. d' = d1\<lparr>notifications := ns\<rparr>"
proof -
  obtain charging where c: "row_of cs_id sid (sessions d) = Some charging"
    using run by (auto simp: lap_hoa_don_def split: option.splits)
  show ?thesis
  proof (cases "cs_review_reasons charging = [] \<and> cs_ended_at charging \<noteq> None")
    case False
    with run c show ?thesis
      by (auto simp: lap_hoa_don_def needs_review_def pending_def split: if_splits intro: later)
  next
    case True
    then obtain finish where finish: "cs_ended_at charging = Some finish" by auto
    show ?thesis
    proof (cases "row_of inv_session_id sid (invoices d)")
      case (Some bill)
      with run c True finish show ?thesis
        by (auto simp: lap_hoa_don_def intro: again dest: notify_event_frame)
    next
      case None
      show ?thesis
      proof (cases "cs_billing_lifecycle_version charging = 1 \<and> cs_connector_released_at charging = None")
        case plugged: True
        with run c True finish None show ?thesis
          by (auto simp: lap_hoa_don_def pending_def intro: later)
      next
        case closed: False
        note outcome = create_invoice_cases [OF zones pinv, of charging now bill_id finish]
        show ?thesis
        proof (cases "create_invoice zones now bill_id charging finish d")
          case (Inl e)
          with run c True finish None closed outcome show ?thesis
            by (auto simp: lap_hoa_don_def split: exn.splits intro: review)
        next
          case (Inr p)
          obtain bill d1 where p: "p = (bill, d1)" by (cases p) auto
          with Inr run c True finish None closed outcome show ?thesis
            by (auto simp: lap_hoa_don_def intro!: new dest: notify_event_frame)
        qed
      qed
    qed
  qed
qed

end
