(* ===== verification/Wallet_Laws.thy ===== *)
theory Wallet_Laws
  imports Wallet
begin

text \<open>
  The accounting invariant of the ledger and what every posting keeps of it, under interference
  by other transactions; at-most-once posting; replay of a whole sequence of postings, proved
  once in the locale \<open>posting\<close> and interpreted on \<open>ghi_so_cai\<close>.
\<close>

section \<open>The invariant\<close>

fun running_ok :: "(uuid \<Rightarrow> vnd) \<Rightarrow> wallet_ledger list \<Rightarrow> bool" where
  "running_ok acc [] = True"
| "running_ok acc (r # rs) =
    (wl_balance_after_vnd r = acc (wl_wallet_id r) + wl_amount_vnd r
     \<and> running_ok (acc(wl_wallet_id r := wl_balance_after_vnd r)) rs)"

definition entry_key :: "wallet_ledger \<Rightarrow> entry_type \<times> string" where
  "entry_key r = (wl_entry_type r, wl_reference_id r)"

definition wallet_inv :: "db \<Rightarrow> bool" where
  "wallet_inv d \<longleftrightarrow>
    distinct (map w_id (wallets d)) \<and> distinct (map w_driver_id (wallets d))
    \<and> distinct (map entry_key (ledger d))
    \<and> (\<forall>r\<in>set (ledger d). wl_wallet_id r \<in> w_id ` set (wallets d) \<and> wl_amount_vnd r \<noteq> 0
         \<and> wl_id r < ledger_seq d)
    \<and> (\<forall>w\<in>set (wallets d). w_balance_vnd w = ledger_total (w_id w) (ledger d)
         \<and> MIN_VND \<le> w_balance_vnd w \<and> w_balance_vnd w \<le> MAX_VND)
    \<and> running_ok (\<lambda>_. 0) (ledger d)"

lemma ledger_total_append:
  "ledger_total w (rows @ [r]) =
    ledger_total w rows + (if wl_wallet_id r = w then wl_amount_vnd r else 0)"
  by (simp add: ledger_total_def)

lemma ledger_total_Cons:
  "ledger_total w (r # rows) =
    (if wl_wallet_id r = w then wl_amount_vnd r else 0) + ledger_total w rows"
  by (simp add: ledger_total_def)

lemma running_ok_snoc:
  "running_ok acc (rows @ [r]) \<longleftrightarrow> running_ok acc rows
    \<and> wl_balance_after_vnd r = acc (wl_wallet_id r) + ledger_total (wl_wallet_id r) rows
        + wl_amount_vnd r"
  by (induction rows arbitrary: acc) (auto simp: ledger_total_def)

lemma wallet_inv_empty: "wallet_inv empty_db"
  by (simp add: wallet_inv_def empty_db_def)

lemma find_entry_None:
  "find_entry et ri rows = None \<longleftrightarrow> (et, ri) \<notin> entry_key ` set rows"
  by (auto simp: find_entry_def find_None_iff entry_key_def)

lemma find_entry_SomeD:
  "find_entry et ri rows = Some r \<Longrightarrow> r \<in> set rows \<and> entry_key r = (et, ri)"
  using find_Some_iff_set by (fastforce simp: find_entry_def entry_key_def)

lemma find_entry_append:
  "find_entry et ri (xs @ ys) =
    (case find_entry et ri xs of None \<Rightarrow> find_entry et ri ys | Some r \<Rightarrow> Some r)"
  unfolding find_entry_def by (rule find_append)

lemma find_entry_single:
  "find_entry et ri [r] = (if wl_entry_type r = et \<and> wl_reference_id r = ri then Some r else None)"
  by (simp add: find_entry_def)

section \<open>One posting\<close>

definition posted_row ::
  "uuid \<Rightarrow> entry_type \<Rightarrow> vnd \<Rightarrow> string \<Rightarrow> string \<Rightarrow> uuid option \<Rightarrow> vnd \<Rightarrow> db \<Rightarrow> wallet_ledger" where
  "posted_row wid et amt rt ri actor balance d =
    \<lparr>wl_id = ledger_seq d, wl_wallet_id = wid, wl_entry_type = et, wl_amount_vnd = amt,
     wl_balance_after_vnd = balance, wl_reference_type = strip rt, wl_reference_id = strip ri,
     wl_actor_id = actor\<rparr>"

definition posted_db :: "uuid \<Rightarrow> vnd \<Rightarrow> wallet_ledger \<Rightarrow> db \<Rightarrow> db" where
  "posted_db wid balance row d = d\<lparr>ledger := ledger d @ [row], ledger_seq := ledger_seq d + 1,
     wallets := update_row w_id wid (\<lambda>w. w\<lparr>w_balance_vnd := balance\<rparr>) (wallets d)\<rparr>"

lemma matching_entry_Inr [simp]:
  "matching_entry r wid amt = Inr r' \<longleftrightarrow> r' = r \<and> wl_wallet_id r = wid \<and> wl_amount_vnd r = amt"
  by (auto simp: matching_entry_def)

lemma integer_vnd_Inr [simp]:
  "integer_vnd v = Inr v' \<longleftrightarrow> v' = v \<and> MIN_VND \<le> v \<and> v \<le> MAX_VND"
  by (auto simp: integer_vnd_def)

lemma lock_wallet_Inr [simp]:
  "lock_wallet wid d = Inr w \<longleftrightarrow> row_of w_id wid (wallets d) = Some w"
  by (auto simp: lock_wallet_def split: option.splits)

lemma ghi_so_cai_cases:
  assumes "ghi_so_cai env wid et amt rt ri actor d = Inr (row, d')"
  obtains
    (replayed) "find_entry et (strip ri) (ledger d) = Some row" "d' = d"
      "wl_wallet_id row = wid" "wl_amount_vnd row = amt"
  | (lost_race) "find_entry et (strip ri) (ledger d) = None" "d' = env d"
      "find_entry et (strip ri) (ledger (env d)) = Some row"
      "wl_wallet_id row = wid" "wl_amount_vnd row = amt"
  | (posted) w where "row_of w_id wid (wallets d) = Some w"
      "find_entry et (strip ri) (ledger d) = None"
      "find_entry et (strip ri) (ledger (env d)) = None"
      "MIN_VND \<le> w_balance_vnd w + amt" "w_balance_vnd w + amt \<le> MAX_VND"
      "amt \<noteq> 0" "\<not> sign_mismatch et amt" "w_status w = WLocked \<Longrightarrow> et = Adjustment"
      "row = posted_row wid et amt rt ri actor (w_balance_vnd w + amt) (env d)"
      "d' = posted_db wid (w_balance_vnd w + amt) row (env d)"
  using assms
  by (fastforce simp: ghi_so_cai_def Let_def posted_row_def posted_db_def sign_mismatch_def
      split: if_splits option.splits)

text \<open>
  What another transaction may do in between: keep the invariant, and leave the locked wallet
  row alone.
\<close>

definition rely :: "uuid \<Rightarrow> db \<Rightarrow> db \<Rightarrow> bool" where
  "rely wid d d' \<longleftrightarrow> wallet_inv d' \<and> row_of w_id wid (wallets d') = row_of w_id wid (wallets d)"

lemma rely_refl: "wallet_inv d \<Longrightarrow> rely wid d d"
  by (simp add: rely_def)

lemma update_balance_simps [table_simps]:
  "map w_id (update_row w_id wid (w_balance_vnd_update g) ws) = map w_id ws"
  "map w_driver_id (update_row w_id wid (w_balance_vnd_update g) ws) = map w_driver_id ws"
  "w_id ` set (update_row w_id wid (w_balance_vnd_update g) ws) = w_id ` set ws"
proof -
  show ids: "map w_id (update_row w_id wid (w_balance_vnd_update g) ws) = map w_id ws"
    by (rule map_key_update_row) simp
  show "map w_driver_id (update_row w_id wid (w_balance_vnd_update g) ws) = map w_driver_id ws"
    by (simp add: update_row_def)
  show "w_id ` set (update_row w_id wid (w_balance_vnd_update g) ws) = w_id ` set ws"
    using ids by (metis list.set_map)
qed

lemma posted_inv:
  assumes "wallet_inv d" and w: "row_of w_id wid (wallets d) = Some w"
    and new: "find_entry (wl_entry_type row) (wl_reference_id row) (ledger d) = None"
    and row: "wl_wallet_id row = wid" "wl_amount_vnd row = amt" "amt \<noteq> 0"
      "wl_balance_after_vnd row = w_balance_vnd w + amt" "wl_id row = ledger_seq d"
    and range: "MIN_VND \<le> w_balance_vnd w + amt" "w_balance_vnd w + amt \<le> MAX_VND"
  shows "wallet_inv (posted_db wid (w_balance_vnd w + amt) row d)"
proof -
  let ?f = "\<lambda>w'. w'\<lparr>w_balance_vnd := w_balance_vnd w + amt\<rparr>"
  have wmem: "w \<in> set (wallets d)" "w_id w = wid" using row_of_SomeD [OF w] by auto
  have bal: "w_balance_vnd w = ledger_total wid (ledger d)"
    using assms(1) wmem by (auto simp: wallet_inv_def)
  have balances: "w_balance_vnd x = ledger_total (w_id x) (ledger d @ [row])
      \<and> MIN_VND \<le> w_balance_vnd x \<and> w_balance_vnd x \<le> MAX_VND"
    if "x \<in> set (update_row w_id wid ?f (wallets d))" for x
    using that assms(1) row range bal
    by (auto simp: set_update_row ledger_total_append wallet_inv_def)
  have key: "entry_key row \<notin> entry_key ` set (ledger d)"
    using new by (simp add: find_entry_None entry_key_def)
  have rows: "\<forall>r\<in>set (ledger d @ [row]). wl_wallet_id r \<in> w_id ` set (wallets d)
      \<and> wl_amount_vnd r \<noteq> 0 \<and> wl_id r < ledger_seq d + 1"
    using assms(1) wmem row by (fastforce simp: wallet_inv_def)
  have run: "running_ok (\<lambda>_. 0) (ledger d @ [row])"
    using assms(1) row bal by (simp add: running_ok_snoc wallet_inv_def)
  show ?thesis
    using assms(1) key rows run balances
    by (simp add: wallet_inv_def posted_db_def table_simps) metis
qed

text \<open>Every posting keeps the invariant, whatever other transactions commit meanwhile.\<close>

lemma ghi_so_cai_inv:
  assumes inv: "wallet_inv d" and env: "rely wid d (env d)"
    and run: "ghi_so_cai env wid et amt rt ri actor d = Inr (row, d')"
  shows "wallet_inv d'"
  using run
proof (cases rule: ghi_so_cai_cases)
  case (posted w)
  have "row_of w_id wid (wallets (env d)) = Some w" using env posted(1) by (simp add: rely_def)
  moreover have "wallet_inv (env d)" using env by (simp add: rely_def)
  ultimately show ?thesis
    using posted posted_inv [of "env d" wid w row amt] by (auto simp: posted_row_def)
qed (use inv env in \<open>auto simp: rely_def\<close>)

lemma posted_found:
  assumes "find_entry et (strip ri) (ledger d) = None"
    and "row = posted_row wid et amt rt ri actor bal d"
  shows "find_entry et (strip ri) (ledger (posted_db wid bal row d)) = Some row"
  using assms by (simp add: posted_db_def posted_row_def find_entry_append find_entry_single)

lemma ghi_so_cai_found:
  assumes "ghi_so_cai env wid et amt rt ri actor d = Inr (row, d')"
  shows "find_entry et (strip ri) (ledger d') = Some row"
    and "wl_wallet_id row = wid" and "wl_amount_vnd row = amt"
  using assms by (cases rule: ghi_so_cai_cases; auto simp: posted_found posted_row_def)+

section \<open>At most once\<close>

text \<open>The tables a posting reads besides ledger and wallets are those of the environment.\<close>

lemma posted_db_tables:
  "users (posted_db wid b r d) = users d" "user_roles (posted_db wid b r d) = user_roles d"
  "wallet_audits (posted_db wid b r d) = wallet_audits d"
  "sessions (posted_db wid b r d) = sessions d" "invoices (posted_db wid b r d) = invoices d"
  "audit_logs (posted_db wid b r d) = audit_logs d" "tariffs (posted_db wid b r d) = tariffs d"
  "invoice_lines (posted_db wid b r d) = invoice_lines d"
  by (simp_all add: posted_db_def)

lemma posted_db_wallet:
  "row_of w_id w' (wallets (posted_db wid b r d)) =
    (if w' = wid then map_option (\<lambda>w. w\<lparr>w_balance_vnd := b\<rparr>) (row_of w_id wid (wallets d))
     else row_of w_id w' (wallets d))"
  by (simp add: posted_db_def row_of_update_row)

lemma adjustment_audit_cong:
  assumes "users d' = users d" and "user_roles d' = user_roles d"
    and "wallet_audits d' = wallet_audits d"
  shows "adjustment_audit wid amt rt ri actor d' = adjustment_audit wid amt rt ri actor d"
  using assms
  unfolding adjustment_audit_def require_admin_def is_active_admin_def has_role_def
  by (simp only: assms)

definition same_status :: "db \<Rightarrow> db \<Rightarrow> bool" where
  "same_status d d' \<longleftrightarrow> users d' = users d \<and> user_roles d' = user_roles d
    \<and> wallet_audits d' = wallet_audits d
    \<and> (\<forall>wid. map_option w_status (row_of w_id wid (wallets d'))
          = map_option w_status (row_of w_id wid (wallets d)))"

lemma same_status_refl [simp]: "same_status d d"
  by (simp add: same_status_def)

lemma same_status_trans: "same_status a b \<Longrightarrow> same_status b c \<Longrightarrow> same_status a c"
  by (simp add: same_status_def)

lemma same_status_posted: "same_status d (posted_db wid b r d)"
  by (auto simp: same_status_def posted_db_tables posted_db_wallet option.map_comp comp_def)

lemma ghi_so_cai_status:
  assumes "ghi_so_cai id wid et amt rt ri actor d = Inr (row, d')"
  shows "same_status d d'"
  using assms by (cases rule: ghi_so_cai_cases) (auto simp: same_status_posted)

text \<open>
  A posting that succeeded is found again, with the same row and no effect, in every later
  state that still holds its row and has the same wallet statuses and evidence.
\<close>

lemma ghi_so_cai_again:
  assumes run: "ghi_so_cai id wid et amt rt ri actor d = Inr (row, d')"
    and later: "same_status d d''" and found: "find_entry et (strip ri) (ledger d'') = Some row"
  shows "ghi_so_cai id wid et amt rt ri actor d'' = Inr (row, d'')"
proof -
  note match = ghi_so_cai_found(2,3) [OF run]
  from run obtain w where w: "row_of w_id wid (wallets d) = Some w"
    and ok: "\<not> (w_status w = WLocked \<and> et \<noteq> Adjustment)"
    and audit: "et = Adjustment \<Longrightarrow>
      \<exists>a. adjustment_audit wid amt (strip rt) (strip ri) actor d = Inr a"
    by (auto simp: ghi_so_cai_def Let_def split: if_splits option.splits)
  from later w obtain w'' where w'': "row_of w_id wid (wallets d'') = Some w''"
    "w_status w'' = w_status w"
    unfolding same_status_def by (metis (no_types) map_option_eq_Some option.map(2))
  have "adjustment_audit wid amt (strip rt) (strip ri) actor d''
      = adjustment_audit wid amt (strip rt) (strip ri) actor d"
    using later by (intro adjustment_audit_cong) (auto simp: same_status_def)
  with run found w'' ok audit match show ?thesis
    by (auto simp: ghi_so_cai_def Let_def lock_wallet_def split: if_splits)
qed

lemma ghi_so_cai_idempotent:
  assumes "ghi_so_cai id wid et amt rt ri actor d = Inr (row, d')"
  shows "ghi_so_cai id wid et amt rt ri actor d' = Inr (row, d')"
  using assms ghi_so_cai_status [OF assms] ghi_so_cai_found(1) [OF assms]
  by (rule ghi_so_cai_again)

lemma ghi_so_cai_keeps_rows:
  assumes "ghi_so_cai id wid et amt rt ri actor d = Inr (row, d')"
    and "find_entry et' ri' (ledger d) = Some r"
  shows "find_entry et' ri' (ledger d') = Some r"
  using assms(1)
  by (cases rule: ghi_so_cai_cases) (use assms(2) in \<open>auto simp: posted_db_def find_entry_append\<close>)

section \<open>Sequences of postings\<close>

text \<open>
  The contract a ledger offers its clients: a posting keeps the invariant, a posting that
  succeeded is a no-op when repeated, and later postings do not undo that.
\<close>

locale posting =
  fixes post :: "'q \<Rightarrow> 'd \<Rightarrow> exn + 'r \<times> 'd"
    and inv :: "'d \<Rightarrow> bool"
  assumes post_inv: "inv d \<Longrightarrow> post q d = Inr (r, d') \<Longrightarrow> inv d'"
    and post_again: "post q d = Inr (r, d') \<Longrightarrow> post q d' = Inr (r, d')"
    and post_stable: "post q d = Inr (r, d) \<Longrightarrow> post q' d = Inr (r', d') \<Longrightarrow> post q d' = Inr (r, d')"
begin

lemma run_inv:
  "inv d \<Longrightarrow> res_fold (\<lambda>q d. res_bind (post q d) (\<lambda>(r, d'). Inr d')) qs d = Inr d' \<Longrightarrow> inv d'"
  by (induction qs arbitrary: d) (auto intro: post_inv)

lemma run_stable:
  "post q d = Inr (r, d) \<Longrightarrow>
    res_fold (\<lambda>q d. res_bind (post q d) (\<lambda>(r, d'). Inr d')) qs d = Inr d' \<Longrightarrow>
    post q d' = Inr (r, d')"
  by (induction qs arbitrary: d) (auto dest: post_stable)

lemma run_done:
  assumes "res_fold (\<lambda>q d. res_bind (post q d) (\<lambda>(r, d'). Inr d')) qs d = Inr d'"
    and "q \<in> set qs"
  shows "\<exists>r. post q d' = Inr (r, d')"
  using assms
proof (induction qs arbitrary: d)
  case (Cons q' qs)
  then obtain r1 d1 where d1: "post q' d = Inr (r1, d1)"
    and rest: "res_fold (\<lambda>q d. res_bind (post q d) (\<lambda>(r, d'). Inr d')) qs d1 = Inr d'"
    by auto
  show ?case
  proof (cases "q \<in> set qs")
    case True
    with Cons.IH [OF rest] show ?thesis by blast
  next
    case False
    with Cons.prems(2) have "q = q'" by simp
    with run_stable [OF post_again [OF d1] rest] show ?thesis by blast
  qed
qed simp

text \<open>Replaying any of the postings, in any order and any number of times, changes nothing.\<close>

lemma run_replay:
  assumes "res_fold (\<lambda>q d. res_bind (post q d) (\<lambda>(r, d'). Inr d')) qs d = Inr d'"
    and "set qs' \<subseteq> set qs"
  shows "res_fold (\<lambda>q d. res_bind (post q d) (\<lambda>(r, d'). Inr d')) qs' d' = Inr d'"
  using assms(2)
proof (induction qs')
  case (Cons q qs')
  then show ?case using run_done [OF assms(1), of q] by auto
qed simp

end

record ledger_request =
  lr_wallet_id :: uuid
  lr_entry_type :: entry_type
  lr_amount_vnd :: vnd
  lr_reference_type :: string
  lr_reference_id :: string
  lr_actor_id :: "uuid option"

definition post_request :: "ledger_request \<Rightarrow> db \<Rightarrow> exn + wallet_ledger \<times> db" where
  "post_request q = ghi_so_cai id (lr_wallet_id q) (lr_entry_type q) (lr_amount_vnd q)
     (lr_reference_type q) (lr_reference_id q) (lr_actor_id q)"

definition post_all :: "ledger_request list \<Rightarrow> db \<Rightarrow> exn + db" where
  "post_all = res_fold (\<lambda>q d. res_bind (post_request q d) (\<lambda>(r, d'). Inr d'))"

interpretation so_cai: posting post_request wallet_inv
proof unfold_locales
  fix q q' d d' r r'
  show "wallet_inv d \<Longrightarrow> post_request q d = Inr (r, d') \<Longrightarrow> wallet_inv d'"
    unfolding post_request_def using ghi_so_cai_inv [of d _ id] rely_refl by fastforce
  show "post_request q d = Inr (r, d') \<Longrightarrow> post_request q d' = Inr (r, d')"
    unfolding post_request_def by (rule ghi_so_cai_idempotent)
  show "post_request q d' = Inr (r, d')"
    if "post_request q d = Inr (r, d)" "post_request q' d = Inr (r', d')"
    using that unfolding post_request_def
    by (metis ghi_so_cai_again ghi_so_cai_status ghi_so_cai_found(1) ghi_so_cai_keeps_rows)
qed

section \<open>Provisioning, debit, cache repair\<close>

lemma new_wallet_inv:
  assumes "wallet_inv d" and "new_id \<notin> w_id ` set (wallets d)"
    and "driver \<notin> w_driver_id ` set (wallets d)"
  shows "wallet_inv (d\<lparr>wallets := wallets d @ [\<lparr>w_id = new_id, w_driver_id = driver,
    w_balance_vnd = 0, w_status = WActive\<rparr>]\<rparr>)"
proof -
  have "filter (\<lambda>r. wl_wallet_id r = new_id) (ledger d) = []"
    using assms(1,2) by (auto simp: wallet_inv_def filter_empty_conv)
  then have "ledger_total new_id (ledger d) = 0" by (simp add: ledger_total_def)
  with assms show ?thesis by (auto simp: wallet_inv_def MIN_VND_def MAX_VND_def)
qed

lemma ensure_driver_wallet_inv:
  assumes "wallet_inv d" and "ensure_driver_wallet new_id driver d = Inr (w, d')"
  shows "wallet_inv d'" and "row_of w_driver_id driver (wallets d') = Some w"
    and "row_of w_id (w_id w) (wallets d') = Some w"
proof -
  consider "row_of w_driver_id driver (wallets d) = Some w" "d' = d"
    | "row_of w_driver_id driver (wallets d) = None" "new_id \<notin> w_id ` set (wallets d)"
      "w = \<lparr>w_id = new_id, w_driver_id = driver, w_balance_vnd = 0, w_status = WActive\<rparr>"
      "d' = d\<lparr>wallets := wallets d @ [w]\<rparr>"
    using assms(2)
    by (auto simp: ensure_driver_wallet_def Let_def split: if_splits option.splits)
  then have "wallet_inv d' \<and> row_of w_driver_id driver (wallets d') = Some w
      \<and> row_of w_id (w_id w) (wallets d') = Some w"
  proof cases
    case 1
    then have "w \<in> set (wallets d)" using row_of_SomeD by fast
    then have "row_of w_id (w_id w) (wallets d) = Some w"
      using assms(1) by (intro row_of_unique) (auto simp: wallet_inv_def)
    with 1 assms(1) show ?thesis by simp
  next
    case 2
    then have "wallet_inv d'"
      using new_wallet_inv [OF assms(1)] by (simp add: row_of_None_iff)
    moreover have "row_of w_id new_id (wallets d) = None"
      using 2(2) by (simp add: row_of_None_iff)
    ultimately show ?thesis using 2 by (simp add: row_of_append)
  qed
  then show "wallet_inv d'" "row_of w_driver_id driver (wallets d') = Some w"
    "row_of w_id (w_id w) (wallets d') = Some w" by auto
qed

lemma debit_wallet_inv:
  assumes "wallet_inv d" and "debit_wallet new_id wid driver d = Inr (w, d')"
  shows "wallet_inv d'"
    and "\<exists>x. row_of w_id w (wallets d') = Some x \<and> w_driver_id x = driver"
    and "ledger d' = ledger d"
proof -
  have own: "\<exists>x. row_of w_id (w_id y) (wallets d) = Some x \<and> w_driver_id x = driver"
    if "row_of w_driver_id driver (wallets d) = Some y" for y
    using that row_of_SomeD [OF that] assms(1) row_of_unique [of w_id "wallets d" y]
    by (auto simp: wallet_inv_def)
  have "wallet_inv d' \<and> (\<exists>x. row_of w_id w (wallets d') = Some x \<and> w_driver_id x = driver)
      \<and> ledger d' = ledger d"
  proof (cases "wid = None \<and> row_of w_driver_id driver (wallets d) = None")
    case True
    then obtain x where x: "ensure_driver_wallet new_id driver d = Inr (x, d')" "w = w_id x"
      using assms(2) by (auto simp: debit_wallet_def)
    moreover have "ledger d' = ledger d"
      using x(1) by (auto simp: ensure_driver_wallet_def Let_def split: if_splits option.splits)
    ultimately show ?thesis
      using ensure_driver_wallet_inv [OF assms(1) x(1)] row_of_SomeD by fast
  next
    case False
    with assms own show ?thesis
      by (auto simp: debit_wallet_def split: option.splits if_splits)
  qed
  then show "wallet_inv d'" "\<exists>x. row_of w_id w (wallets d') = Some x \<and> w_driver_id x = driver"
    "ledger d' = ledger d" by auto
qed

lemma tru_vi_cases:
  assumes "tru_vi new_id (Some bill) None wid actor d = Inr (res, d')"
  obtains (zero) "inv_total_vnd bill = 0" "res = None" "d' = d"
  | (debited) w d1 row where "0 < inv_total_vnd bill"
      "debit_wallet new_id wid (inv_driver_id bill) d = Inr (w, d1)"
      "ghi_so_cai id w ChargingDebit (- inv_total_vnd bill) ''charging_session''
         (str_int (inv_session_id bill)) actor d1 = Inr (row, d')" "res = Some row"
  using assms by (auto simp: tru_vi_def split: if_splits)

lemma tru_vi_inv:
  assumes "wallet_inv d" and "tru_vi new_id (Some bill) None wid actor d = Inr (res, d')"
  shows "wallet_inv d'"
  using assms(2)
proof (cases rule: tru_vi_cases)
  case (debited w d1 row)
  have "wallet_inv d1" by (rule debit_wallet_inv(1) [OF assms(1) debited(2)])
  with debited(3) show ?thesis using ghi_so_cai_inv [of d1 w id] rely_refl by fastforce
qed (use assms in simp)

lemma phuc_hoi_so_du_cache_cases:
  assumes "phuc_hoi_so_du_cache new_id wid actor reason auth d = Inr (w', d')"
  obtains (clean) w where "row_of w_id wid (wallets d) = Some w" "w' = w" "d' = d"
      "w_balance_vnd w = ledger_total wid (ledger d)"
  | (repaired) w audit row where "row_of w_id wid (wallets d) = Some w"
      "w_balance_vnd w \<noteq> ledger_total wid (ledger d)"
      "w' = w\<lparr>w_balance_vnd := ledger_total wid (ledger d)\<rparr>"
      "d' = d\<lparr>wallet_audits := wallet_audits d @ [audit],
              wallets := update_row w_id wid
                (\<lambda>w. w\<lparr>w_balance_vnd := ledger_total wid (ledger d)\<rparr>) (wallets d),
              audit_logs := audit_logs d @ [row]\<rparr>"
      "wa_action audit = ''cache_repaired''" "wa_before_balance_vnd audit = w_balance_vnd w"
      "wa_after_balance_vnd audit = ledger_total wid (ledger d)"
      "is_active_admin d (Some actor)"
proof -
  obtain w where w: "row_of w_id wid (wallets d) = Some w" "is_active_admin d (Some actor)"
    using assms
    by (auto simp: phuc_hoi_so_du_cache_def require_admin_def split: if_splits)
  show ?thesis
  proof (cases "w_balance_vnd w = ledger_total wid (ledger d)")
    case True
    with assms w have "w' = w" "d' = d"
      by (auto simp: phuc_hoi_so_du_cache_def split: if_splits)
    with True w show ?thesis by (intro clean) auto
  next
    case False
    define audit where "audit = \<lparr>wa_id = new_id, wa_wallet_id = wid, wa_actor_id = actor,
      wa_action = ''cache_repaired'', wa_before_balance_vnd = w_balance_vnd w,
      wa_after_balance_vnd = ledger_total wid (ledger d), wa_amount_vnd = None,
      wa_reason = strip reason\<rparr>"
    obtain data p r where log: "ghi_nhat_ky (Some actor) ''wallet.cache_repaired'' ''wallet_audit''
        (str_uuid new_id) data p r (d\<lparr>wallet_audits := wallet_audits d @ [audit],
          wallets := update_row w_id wid (\<lambda>w. w\<lparr>w_balance_vnd := ledger_total wid (ledger d)\<rparr>)
            (wallets d)\<rparr>) = Inr d'"
      and w': "w' = w\<lparr>w_balance_vnd := ledger_total wid (ledger d)\<rparr>"
      using assms w False unfolding phuc_hoi_so_du_cache_def audit_def Let_def
      by (auto split: if_splits)
    from ghi_nhat_ky_frame [OF log] obtain row where
      "d' = d\<lparr>wallet_audits := wallet_audits d @ [audit],
         wallets := update_row w_id wid (\<lambda>w. w\<lparr>w_balance_vnd := ledger_total wid (ledger d)\<rparr>)
           (wallets d), audit_logs := audit_logs d @ [row]\<rparr>"
      by auto
    with w w' False show ?thesis by (intro repaired [where w = w and audit = audit and row = row]) (auto simp: audit_def)
  qed
qed

section \<open>Properties\<close>

text \<open>A database with one driver and an empty wallet.\<close>

definition one_wallet :: db where
  "one_wallet = empty_db\<lparr>users := [\<lparr>u_id = 1, u_status = ''active''\<rparr>],
     user_roles := [(1, ''driver'')],
     wallets := [\<lparr>w_id = 7, w_driver_id = 1, w_balance_vnd = 0, w_status = WActive\<rparr>]\<rparr>"

definition topped_up :: db where
  "topped_up = one_wallet\<lparr>
     ledger := [\<lparr>wl_id = 1, wl_wallet_id = 7, wl_entry_type = GatewayTopup, wl_amount_vnd = 200000,
        wl_balance_after_vnd = 200000, wl_reference_type = ''payment'', wl_reference_id = ''p-1'',
        wl_actor_id = None\<rparr>],
     ledger_seq := 2,
     wallets := [\<lparr>w_id = 7, w_driver_id = 1, w_balance_vnd = 200000, w_status = WActive\<rparr>]\<rparr>"

lemma one_wallet_inv: "wallet_inv one_wallet"
  by (simp add: wallet_inv_def one_wallet_def empty_db_def ledger_total_def MIN_VND_def MAX_VND_def)

lemma topup_run:
  "ghi_so_cai id 7 GatewayTopup 200000 ''payment'' ''p-1'' None one_wallet
    = Inr (\<lparr>wl_id = 1, wl_wallet_id = 7, wl_entry_type = GatewayTopup, wl_amount_vnd = 200000,
        wl_balance_after_vnd = 200000, wl_reference_type = ''payment'', wl_reference_id = ''p-1'',
        wl_actor_id = None\<rparr>, topped_up)"
  by code_simp

text \<open>
  C15: the accounting invariant.  A posting keeps every cached balance equal to the sum of the
  wallet's ledger rows, within 64 bits, every running balance right, and every key (entry type,
  reference) unique, even when other transactions that keep the invariant and leave the locked
  wallet alone commit in between.
\<close>

theorem ledger_invariant:
  assumes "wallet_inv d" and "rely wid d (env d)"
    and "ghi_so_cai env wid et amt ref_type ref_id actor d = Inr (row, d')"
  shows "wallet_inv d'"
  using assms by (rule ghi_so_cai_inv)

theorem ledger_invariant_witness: "wallet_inv topped_up"
  by (rule ledger_invariant [OF one_wallet_inv _ topup_run]) (simp add: rely_refl one_wallet_inv)

text \<open>
  C27: a posting happens at most once.  Repeating it returns the same row and changes nothing,
  and replaying any selection of an already performed sequence of postings, in any order,
  changes nothing either.
\<close>

theorem postings_at_most_once:
  assumes "post_all qs d = Inr d'" and "set qs' \<subseteq> set qs"
  shows "post_all qs' d' = Inr d'"
  using assms unfolding post_all_def by (rule so_cai.run_replay)

definition topup_request :: ledger_request where
  "topup_request = \<lparr>lr_wallet_id = 7, lr_entry_type = GatewayTopup, lr_amount_vnd = 200000,
     lr_reference_type = ''payment'', lr_reference_id = ''p-1'', lr_actor_id = None\<rparr>"

theorem postings_at_most_once_witness:
  "post_all [topup_request, topup_request] topped_up = Inr topped_up"
proof (rule postings_at_most_once)
  show "post_all [topup_request] one_wallet = Inr topped_up"
    by (simp add: post_all_def post_request_def topup_request_def topup_run)
qed simp

text \<open>
  A posting is exact.  On success the ledger holds the row under its key with the requested
  wallet and amount, and either the row was there before and nothing changed, or one row was
  appended and exactly that wallet's balance moved by the amount; a locked wallet accepts only
  adjustments.
\<close>

theorem posting_exact:
  assumes "ghi_so_cai id wid et amt ref_type ref_id actor d = Inr (row, d')"
  shows "find_entry et (strip ref_id) (ledger d') = Some row \<and> wl_wallet_id row = wid
    \<and> wl_amount_vnd row = amt
    \<and> ((find_entry et (strip ref_id) (ledger d) = Some row \<and> d' = d)
       \<or> (\<exists>w. row_of w_id wid (wallets d) = Some w \<and> (w_status w = WLocked \<longrightarrow> et = Adjustment)
            \<and> find_entry et (strip ref_id) (ledger d) = None
            \<and> ledger d' = ledger d @ [row] \<and> wl_balance_after_vnd row = w_balance_vnd w + amt
            \<and> wallets d' = update_row w_id wid
                (\<lambda>w'. w'\<lparr>w_balance_vnd := w_balance_vnd w + amt\<rparr>) (wallets d)))"
proof -
  have "(find_entry et (strip ref_id) (ledger d) = Some row \<and> d' = d)
       \<or> (\<exists>w. row_of w_id wid (wallets d) = Some w \<and> (w_status w = WLocked \<longrightarrow> et = Adjustment)
            \<and> find_entry et (strip ref_id) (ledger d) = None
            \<and> ledger d' = ledger d @ [row] \<and> wl_balance_after_vnd row = w_balance_vnd w + amt
            \<and> wallets d' = update_row w_id wid
                (\<lambda>w'. w'\<lparr>w_balance_vnd := w_balance_vnd w + amt\<rparr>) (wallets d))"
    using assms by (cases rule: ghi_so_cai_cases) (auto simp: posted_db_def posted_row_def)
  with ghi_so_cai_found [OF assms] show ?thesis by blast
qed

theorem posting_exact_witness:
  "find_entry GatewayTopup (strip ''p-1'') (ledger topped_up)
    = Some \<lparr>wl_id = 1, wl_wallet_id = 7, wl_entry_type = GatewayTopup, wl_amount_vnd = 200000,
        wl_balance_after_vnd = 200000, wl_reference_type = ''payment'', wl_reference_id = ''p-1'',
        wl_actor_id = None\<rparr>"
  using posting_exact [OF topup_run] by blast

text \<open>
  Repairing a cached balance.  It succeeds only for an active administrator; afterwards the
  cache equals the ledger sum, the ledger is untouched, and a changed balance leaves a wallet
  audit row and an audit log row.
\<close>

theorem cache_repair_exact:
  assumes "phuc_hoi_so_du_cache new_id wid actor reason auth d = Inr (w', d')"
  shows "w_balance_vnd w' = ledger_total wid (ledger d') \<and> ledger d' = ledger d
    \<and> (d' = d \<or> (\<exists>audit row w. row_of w_id wid (wallets d) = Some w
         \<and> is_active_admin d (Some actor)
         \<and> wallet_audits d' = wallet_audits d @ [audit] \<and> audit_logs d' = audit_logs d @ [row]
         \<and> wa_before_balance_vnd audit = w_balance_vnd w
         \<and> wa_after_balance_vnd audit = ledger_total wid (ledger d)))"
  using assms by (cases rule: phuc_hoi_so_du_cache_cases) auto

definition stale_cache :: db where
  "stale_cache = topped_up\<lparr>users := users topped_up @ [\<lparr>u_id = 2, u_status = ''active''\<rparr>],
     user_roles := user_roles topped_up @ [(2, ''admin'')],
     wallets := [\<lparr>w_id = 7, w_driver_id = 1, w_balance_vnd = 5, w_status = WActive\<rparr>]\<rparr>"

lemma repair_run:
  "\<exists>w' d'. phuc_hoi_so_du_cache 9 7 2 ''drift'' None stale_cache = Inr (w', d')"
proof -
  have "(case phuc_hoi_so_du_cache 9 7 2 ''drift'' None stale_cache of Inl _ \<Rightarrow> False | Inr _ \<Rightarrow> True)"
    by code_simp
  then show ?thesis by (auto split: sum.splits)
qed

theorem cache_repair_exact_witness:
  "\<exists>w' d'. phuc_hoi_so_du_cache 9 7 2 ''drift'' None stale_cache = Inr (w', d')
    \<and> w_balance_vnd w' = ledger_total 7 (ledger d')"
  using repair_run cache_repair_exact by blast

end
