(* ===== verification/Closure.thy ===== *)
theory Closure
  imports Invoicing Wallet_Laws
begin

text \<open>
  src/src/modules/billing/closure.py: closing a session.  \<open>chot_phien\<close> issues the invoice,
  debits the driver's wallet and marks the session as settled in one transaction; the recovery
  scan repeats it for every ended session that is not settled; \<open>ClosureRunner\<close> is a bounded
  queue of hints with its set of pending sessions.

  \<open>bill_id\<close> and \<open>wallet_id\<close> are the identifiers drawn for a new invoice and a new wallet.
  In the scan every session has its own transaction with its own clock and draws (a function of
  the session id), an exception rolls its transaction back, and \<open>busy\<close> tells which rows other
  transactions hold locked.  The endless loops around the scan and the workers only repeat the
  modelled steps.
\<close>

section \<open>Closing one session\<close>

definition settlement_entries :: "int \<Rightarrow> db \<Rightarrow> wallet_ledger list" where
  "settlement_entries session_id d = filter (\<lambda>r. wl_reference_id r = str_int session_id
     \<and> (wl_entry_type r = ChargingDebit \<or> wl_reference_type r = ''charging_session'')) (ledger d)"

definition entries_mismatch :: "invoice \<Rightarrow> wallet option \<Rightarrow> wallet_ledger list \<Rightarrow> bool" where
  "entries_mismatch bill wallet entries \<longleftrightarrow> entries \<noteq> []
    \<and> (length entries \<noteq> 1
       \<or> (case wallet of None \<Rightarrow> True | Some w \<Rightarrow> wl_wallet_id (hd entries) \<noteq> w_id w)
       \<or> wl_entry_type (hd entries) \<noteq> ChargingDebit
       \<or> wl_reference_type (hd entries) \<noteq> ''charging_session''
       \<or> wl_amount_vnd (hd entries) \<noteq> - inv_total_vnd bill
       \<or> inv_total_vnd bill = 0)"

definition mark_settled :: "instant \<Rightarrow> int \<Rightarrow> invoice \<Rightarrow> db \<Rightarrow> db" where
  "mark_settled now session_id bill d = d\<lparr>sessions := update_row cs_id session_id
     (\<lambda>c. c\<lparr>cs_settlement_completed_at := Some now,
            cs_settlement_reason := Some (if inv_total_vnd bill = 0 then ''zero_invoice''
              else ''debited'')\<rparr>) (sessions d)\<rparr>"

definition settle_invoice ::
  "instant \<Rightarrow> uuid \<Rightarrow> int \<Rightarrow> invoice \<Rightarrow> db \<Rightarrow> exn + invoice_result \<times> db" where
  "settle_invoice now wallet_id session_id bill d =
    (let wallet = row_of w_driver_id (inv_driver_id bill) (wallets d);
         entries = settlement_entries session_id d in
     if entries_mismatch bill wallet entries
     then Inr (needs_review ''settlement_ledger_mismatch'',
            add_review_reason session_id ''settlement_ledger_mismatch'' d)
     else
       res_bind (if entries = []
                 then res_bind (tru_vi wallet_id (Some bill) None None None d) (\<lambda>(_, d1). Inr d1)
                 else Inr d) (\<lambda>d1.
         Inr (ready bill, mark_settled now session_id bill d1)))"

definition chot_phien ::
  "zones \<Rightarrow> int \<Rightarrow> instant \<Rightarrow> uuid \<Rightarrow> uuid \<Rightarrow> bool \<Rightarrow> int \<Rightarrow> db \<Rightarrow> exn + invoice_result \<times> db" where
  "chot_phien zones retention_days now bill_id wallet_id settle session_id d =
    (case row_of cs_id session_id (sessions d) of
       None \<Rightarrow> lap_hoa_don zones retention_days now bill_id session_id d
     | Some charging \<Rightarrow>
         if cs_settlement_completed_at charging \<noteq> None
         then lap_hoa_don zones retention_days now bill_id session_id d
         else
           res_bind (lap_hoa_don zones retention_days now bill_id session_id d) (\<lambda>(outcome, d1).
             case ir_invoice outcome of
               None \<Rightarrow> Inr (outcome, d1)
             | Some bill \<Rightarrow>
                 if ir_status outcome \<noteq> Ready \<or> \<not> settle then Inr (outcome, d1)
                 else settle_invoice now wallet_id session_id bill d1))"

section \<open>The recovery scan\<close>

record scan_result =
  sr_scanned :: nat
  sr_ready :: nat
  sr_needs_review :: nat
  sr_pending :: nat
  sr_busy :: nat
  sr_failed :: nat

definition empty_scan :: scan_result where
  "empty_scan = \<lparr>sr_scanned = 0, sr_ready = 0, sr_needs_review = 0, sr_pending = 0,
     sr_busy = 0, sr_failed = 0\<rparr>"

definition unsettled :: "charging_session \<Rightarrow> bool" where
  "unsettled c \<longleftrightarrow> cs_ended_at c \<noteq> None \<and> cs_settlement_completed_at c = None"

definition scan_identifiers :: "int \<Rightarrow> int \<Rightarrow> db \<Rightarrow> int list" where
  "scan_identifiers cursor batch_size d = take (nat batch_size)
     (sort (map cs_id (filter (\<lambda>c. cs_id c > cursor \<and> unsettled c) (sessions d))))"

type_synonym draws = "int \<Rightarrow> instant \<times> uuid \<times> uuid"

definition count_outcome :: "invoice_status \<Rightarrow> scan_result \<Rightarrow> scan_result" where
  "count_outcome status r = (case status of
     Ready \<Rightarrow> r\<lparr>sr_ready := sr_ready r + 1\<rparr>
   | NeedsReview \<Rightarrow> r\<lparr>sr_needs_review := sr_needs_review r + 1\<rparr>
   | Pending \<Rightarrow> r\<lparr>sr_pending := sr_pending r + 1\<rparr>)"

definition scan_one ::
  "zones \<Rightarrow> int \<Rightarrow> draws \<Rightarrow> (int \<Rightarrow> bool) \<Rightarrow> bool \<Rightarrow> int \<Rightarrow> scan_result \<times> db \<Rightarrow> scan_result \<times> db" where
  "scan_one zones retention_days draws busy settle session_id = (\<lambda>(r, d).
    let r1 = r\<lparr>sr_scanned := sr_scanned r + 1\<rparr>;
        (now, bill_id, wallet_id) = draws session_id in
    if busy session_id \<or> \<not> (\<exists>c\<in>set (sessions d). cs_id c = session_id \<and> unsettled c)
    then (r1\<lparr>sr_busy := sr_busy r1 + 1\<rparr>, d)
    else
      case chot_phien zones retention_days now bill_id wallet_id settle session_id d of
        Inl _ \<Rightarrow> (r1\<lparr>sr_failed := sr_failed r1 + 1\<rparr>, d)
      | Inr (outcome, d1) \<Rightarrow> (count_outcome (ir_status outcome) r1, d1))"

fun closure_pages ::
  "nat \<Rightarrow> zones \<Rightarrow> int \<Rightarrow> draws \<Rightarrow> (int \<Rightarrow> bool) \<Rightarrow> bool \<Rightarrow> int \<Rightarrow> int \<Rightarrow> scan_result \<times> db
   \<Rightarrow> exn + scan_result \<times> db" where
  "closure_pages 0 zones retention_days draws busy settle batch_size cursor rd = Inl Diverges"
| "closure_pages (Suc fuel) zones retention_days draws busy settle batch_size cursor rd =
    (let ids = scan_identifiers cursor batch_size (snd rd) in
     if ids = [] then Inr rd
     else closure_pages fuel zones retention_days draws busy settle batch_size (last ids)
       (fold (scan_one zones retention_days draws busy settle) ids rd))"

definition scan_unsettled_sessions ::
  "zones \<Rightarrow> int \<Rightarrow> draws \<Rightarrow> (int \<Rightarrow> bool) \<Rightarrow> int \<Rightarrow> bool \<Rightarrow> db \<Rightarrow> exn + scan_result \<times> db" where
  "scan_unsettled_sessions zones retention_days draws busy batch_size settle d =
    (if batch_size < 1 then Inl ValueError
     else closure_pages (Suc (length (sessions d))) zones retention_days draws busy settle
       batch_size 0 (empty_scan, d))"

section \<open>The queue of hints\<close>

record closure_runner =
  rq_capacity :: nat
  rq_queue :: "int list"
  rq_pending :: "int set"

definition new_runner :: "nat \<Rightarrow> closure_runner" where
  "new_runner capacity = \<lparr>rq_capacity = capacity, rq_queue = [], rq_pending = {}\<rparr>"

text \<open>\<open>asyncio.Queue.full\<close>: a queue of size 0 is unbounded.\<close>

definition queue_full :: "closure_runner \<Rightarrow> bool" where
  "queue_full q \<longleftrightarrow> 0 < rq_capacity q \<and> rq_capacity q \<le> length (rq_queue q)"

definition schedule :: "int \<Rightarrow> closure_runner \<Rightarrow> bool \<times> closure_runner" where
  "schedule session_id q =
    (if session_id \<in> rq_pending q then (True, q)
     else if queue_full q then (False, q)
     else (True, q\<lparr>rq_queue := rq_queue q @ [session_id],
                   rq_pending := insert session_id (rq_pending q)\<rparr>))"

definition worker_get :: "closure_runner \<Rightarrow> (int \<times> closure_runner) option" where
  "worker_get q = (case rq_queue q of [] \<Rightarrow> None | x # xs \<Rightarrow> Some (x, q\<lparr>rq_queue := xs\<rparr>))"

definition worker_done :: "int \<Rightarrow> closure_runner \<Rightarrow> closure_runner" where
  "worker_done session_id q = q\<lparr>rq_pending := rq_pending q - {session_id}\<rparr>"

end
