(* ===== verification/Closure_Laws.thy ===== *)
theory Closure_Laws
  imports Closure
begin

text \<open>
  Settlement is exactly once: a settled session has its invoice and, unless the total is zero,
  the one debit of that total in its driver's wallet.  Closing a session and the recovery scan
  keep this invariant; the hint queue never holds a session twice.
\<close>

section \<open>Ledger references of a session\<close>

lemma strip_id: "\<forall>c\<in>set s. \<not> py_isspace c \<Longrightarrow> strip s = s"
  unfolding strip_def
  by (metis dropWhile_eq_self_iff hd_in_set rev_rev_ident set_rev)

lemma str_int_strip [simp]: "strip (str_int n) = str_int n"
proof (rule strip_id)
  have "\<not> py_isspace (digit_char k)" if "k < 10" for k
    using that by (auto simp: py_isspace_def digit_char_def Let_def of_char_of)
  then have "\<not> py_isspace c" if "c \<in> set (str_nat k)" for c k
    using str_nat_digits [OF that] by auto
  moreover have "\<not> py_isspace (CHR ''-'')" by (simp add: py_isspace_def Let_def)
  ultimately show "\<forall>c\<in>set (str_int n). \<not> py_isspace c" by (auto simp: str_int_def)
qed

section \<open>What a debit keeps\<close>

definition keeps_ledger :: "db \<Rightarrow> db \<Rightarrow> bool" where
  "keeps_ledger d d' \<longleftrightarrow>
    (\<forall>et ri r. find_entry et ri (ledger d) = Some r \<longrightarrow> find_entry et ri (ledger d') = Some r)
    \<and> (\<forall>wid w. row_of w_id wid (wallets d) = Some w \<longrightarrow>
         (\<exists>w'. row_of w_id wid (wallets d') = Some w' \<and> w_driver_id w' = w_driver_id w))"

definition other_tables :: "db \<Rightarrow> db \<Rightarrow> bool" where
  "other_tables d d' \<longleftrightarrow> d'\<lparr>wallets := [], ledger := [], ledger_seq := 0\<rparr>
    = d\<lparr>wallets := [], ledger := [], ledger_seq := 0\<rparr>"

lemma keeps_ledger_refl [simp]: "keeps_ledger d d"
  by (simp add: keeps_ledger_def)

lemma keeps_ledger_trans: "keeps_ledger d d1 \<Longrightarrow> keeps_ledger d1 d2 \<Longrightarrow> keeps_ledger d d2"
  unfolding keeps_ledger_def by metis

lemma keeps_ledger_same:
  "wallets d' = wallets d \<Longrightarrow> ledger d' = ledger d \<Longrightarrow> keeps_ledger d d'"
  by (simp add: keeps_ledger_def)

lemma other_tables_refl [simp]: "other_tables d d"
  by (simp add: other_tables_def)

lemma other_tables_trans: "other_tables d d1 \<Longrightarrow> other_tables d1 d2 \<Longrightarrow> other_tables d d2"
  by (simp add: other_tables_def)

lemma other_tablesD:
  assumes "other_tables d d'"
  shows "sessions d' = sessions d" "invoices d' = invoices d" "invoice_lines d' = invoice_lines d"
    "tariffs d' = tariffs d" "tariff_bands d' = tariff_bands d" "stations d' = stations d"
  using arg_cong [where f = sessions, OF assms [unfolded other_tables_def]]
    arg_cong [where f = invoices, OF assms [unfolded other_tables_def]]
    arg_cong [where f = invoice_lines, OF assms [unfolded other_tables_def]]
    arg_cong [where f = tariffs, OF assms [unfolded other_tables_def]]
    arg_cong [where f = tariff_bands, OF assms [unfolded other_tables_def]]
    arg_cong [where f = stations, OF assms [unfolded other_tables_def]]
  by simp_all

lemma ghi_so_cai_keeps:
  assumes "ghi_so_cai id wid et amt rt ri actor d = Inr (row, d')"
  shows "keeps_ledger d d'" and "other_tables d d'"
proof -
  have rows: "\<exists>w'. row_of w_id x (wallets d') = Some w' \<and> w_driver_id w' = w_driver_id w"
    if "row_of w_id x (wallets d) = Some w" for x w
    using assms that by (cases rule: ghi_so_cai_cases) (auto simp: posted_db_wallet)
  then show "keeps_ledger d d'"
    using ghi_so_cai_keeps_rows [OF assms] by (simp add: keeps_ledger_def)
  show "other_tables d d'"
    using assms by (cases rule: ghi_so_cai_cases) (auto simp: posted_db_def other_tables_def)
qed

lemma debit_wallet_keeps:
  assumes "debit_wallet new_id wid driver d = Inr (w, d')"
  shows "keeps_ledger d d'" and "other_tables d d'"
proof -
  have "d' = d \<or> (\<exists>x. d' = d\<lparr>wallets := wallets d @ [x]\<rparr>)"
    using assms by (auto simp: debit_wallet_def ensure_driver_wallet_def Let_def
        split: option.splits if_splits)
  then show "keeps_ledger d d'" "other_tables d d'"
    by (auto simp: keeps_ledger_def row_of_append other_tables_def)
qed

lemma tru_vi_keeps:
  assumes "tru_vi new_id (Some bill) None wid actor d = Inr (res, d')"
  shows "keeps_ledger d d'" and "other_tables d d'"
proof -
  have "keeps_ledger d d' \<and> other_tables d d'"
    using assms
  proof (cases rule: tru_vi_cases)
    case (debited w d1 row)
    with debit_wallet_keeps [OF debited(2)] ghi_so_cai_keeps [OF debited(3)] show ?thesis
      using keeps_ledger_trans other_tables_trans by blast
  qed simp
  then show "keeps_ledger d d'" "other_tables d d'" by simp_all
qed

text \<open>After a debit the entry of the session is in the driver's wallet.\<close>

definition debited :: "invoice \<Rightarrow> db \<Rightarrow> bool" where
  "debited bill d \<longleftrightarrow> (\<exists>r w. find_entry ChargingDebit (str_int (inv_session_id bill)) (ledger d) = Some r
     \<and> wl_amount_vnd r = - inv_total_vnd bill
     \<and> row_of w_id (wl_wallet_id r) (wallets d) = Some w \<and> w_driver_id w = inv_driver_id bill)"

lemma debited_keeps: "debited bill d \<Longrightarrow> keeps_ledger d d' \<Longrightarrow> debited bill d'"
  unfolding debited_def keeps_ledger_def by metis

lemma tru_vi_debited:
  assumes "wallet_inv d" and "tru_vi new_id (Some bill) None wid actor d = Inr (res, d')"
    and "inv_total_vnd bill \<noteq> 0"
  shows "debited bill d'"
  using assms(2)
proof (cases rule: tru_vi_cases)
  case (debited w d1 row)
  obtain x where x: "row_of w_id w (wallets d1) = Some x" "w_driver_id x = inv_driver_id bill"
    using debit_wallet_inv(2) [OF assms(1) debited(2)] by blast
  have "\<exists>y. row_of w_id w (wallets d') = Some y \<and> w_driver_id y = w_driver_id x"
    using ghi_so_cai_keeps(1) [OF debited(3)] x(1) by (simp add: keeps_ledger_def)
  with x ghi_so_cai_found [OF debited(3)] show ?thesis by (auto simp: debited_def)
qed (use assms(3) in simp)

section \<open>The settlement invariant\<close>

definition bill_settles :: "db \<Rightarrow> string option \<Rightarrow> invoice \<Rightarrow> bool" where
  "bill_settles d reason bill \<longleftrightarrow> (if inv_total_vnd bill = 0 then reason = Some ''zero_invoice''
     else reason = Some ''debited'' \<and> debited bill d)"

definition settled_ok :: "db \<Rightarrow> charging_session \<Rightarrow> bool" where
  "settled_ok d c \<longleftrightarrow> (cs_settlement_completed_at c \<noteq> None \<longrightarrow>
    (\<exists>bill\<in>set (invoices d). inv_session_id bill = cs_id c
      \<and> bill_settles d (cs_settlement_reason c) bill))"

definition closure_inv :: "db \<Rightarrow> bool" where
  "closure_inv d \<longleftrightarrow> wallet_inv d \<and> pricing_inv d \<and> billing_inv d
    \<and> distinct (map cs_id (sessions d)) \<and> (\<forall>c\<in>set (sessions d). settled_ok d c)"

lemma closure_invD:
  assumes "closure_inv d"
  shows "wallet_inv d" "pricing_inv d" "billing_inv d" "distinct (map cs_id (sessions d))"
    "c \<in> set (sessions d) \<Longrightarrow> settled_ok d c"
  using assms by (simp_all add: closure_inv_def)

lemma bill_settles_mono: "bill_settles d reason bill \<Longrightarrow> keeps_ledger d d' \<Longrightarrow> bill_settles d' reason bill"
  using debited_keeps by (auto simp: bill_settles_def split: if_splits)

lemma settled_ok_mono:
  assumes "settled_ok d c" and "keeps_ledger d d'" and "set (invoices d) \<subseteq> set (invoices d')"
  shows "settled_ok d' c"
  using assms(1, 3) bill_settles_mono [OF _ assms(2)] unfolding settled_ok_def by blast

lemma settled_ok_fields:
  "settled_ok d c \<Longrightarrow> cs_id c' = cs_id c \<Longrightarrow>
    cs_settlement_completed_at c' = cs_settlement_completed_at c \<Longrightarrow>
    cs_settlement_reason c' = cs_settlement_reason c \<Longrightarrow> settled_ok d c'"
  by (simp add: settled_ok_def)

lemma pricing_inv_cong:
  "tariffs d' = tariffs d \<Longrightarrow> tariff_bands d' = tariff_bands d \<Longrightarrow> pricing_inv d' = pricing_inv d"
  by (simp add: pricing_inv_def)

lemma wallet_inv_cong:
  "wallets d' = wallets d \<Longrightarrow> ledger d' = ledger d \<Longrightarrow> ledger_seq d' = ledger_seq d \<Longrightarrow>
    wallet_inv d' = wallet_inv d"
  by (simp add: wallet_inv_def)

lemma add_review_reason_inv:
  assumes "closure_inv d"
  shows "closure_inv (add_review_reason sid reason d)"
proof -
  let ?d = "add_review_reason sid reason d"
  have "settled_ok ?d c" if c: "c \<in> set (sessions ?d)" for c
  proof -
    obtain c0 where c0: "c0 \<in> set (sessions d)" "cs_id c = cs_id c0"
        "cs_settlement_completed_at c = cs_settlement_completed_at c0"
        "cs_settlement_reason c = cs_settlement_reason c0"
      using c by (auto simp: add_review_reason_def set_update_row)
    then have "settled_ok d c" using assms settled_ok_fields by (auto simp: closure_inv_def)
    then show ?thesis
      by (rule settled_ok_mono) (auto simp: keeps_ledger_def add_review_reason_def)
  qed
  moreover have "same_billing d ?d" by (simp add: same_billing_def add_review_reason_def)
  ultimately show ?thesis
    using assms billing_inv_cong pricing_inv_cong [of ?d d] wallet_inv_cong [of ?d d]
    by (auto simp: closure_inv_def add_review_reason_def map_key_update_row)
qed

lemma notifications_closure:
  assumes "closure_inv d"
  shows "closure_inv (d\<lparr>notifications := ns\<rparr>)"
proof -
  let ?d = "d\<lparr>notifications := ns\<rparr>"
  have "pricing_inv ?d" "wallet_inv ?d" "billing_inv ?d"
    using assms pricing_inv_cong [of ?d d] wallet_inv_cong [of ?d d] billing_inv_cong [of d ?d]
    by (simp_all add: closure_inv_def same_billing_def)
  moreover have "settled_ok ?d c" if "c \<in> set (sessions d)" for c
    by (rule settled_ok_mono [OF closure_invD(5) [OF assms that]]) (simp_all add: keeps_ledger_same)
  ultimately show ?thesis using assms by (simp add: closure_inv_def)
qed

lemma saved_invoice_closure:
  assumes "closure_inv d" and "saved_invoice charging bill zones d d'"
  shows "closure_inv d'"
proof -
  obtain lines ts where d': "d' = d\<lparr>tariffs := ts, invoices := invoices d @ [bill],
      invoice_lines := invoice_lines d @ lines\<rparr>" and "pricing_inv d'"
    using assms(2) by (auto simp: saved_invoice_def)
  moreover have "wallet_inv d'" using assms(1) wallet_inv_cong [of d' d] by (simp add: closure_inv_def d')
  moreover have "settled_ok d' c" if "c \<in> set (sessions d)" for c
    by (rule settled_ok_mono [OF closure_invD(5) [OF assms(1) that]]) (auto simp: d' intro!: keeps_ledger_same)
  ultimately show ?thesis
    using assms saved_invoice_inv [OF assms(2)] by (simp add: closure_inv_def)
qed

lemma lap_hoa_don_closure:
  assumes "proper_zones zones" and "closure_inv d"
    and "lap_hoa_don zones ret now bill_id sid d = Inr (r, d')"
  shows "closure_inv d'"
proof -
  have "pricing_inv d" using assms(2) by (simp add: closure_inv_def)
  with assms(3, 1) show ?thesis
  proof (cases rule: lap_hoa_don_cases)
    case (review reason)
    then show ?thesis using add_review_reason_inv assms(2) by simp
  next
    case (again charging bill)
    then show ?thesis using notifications_closure assms(2) by auto
  next
    case (new charging bill d1)
    then show ?thesis using saved_invoice_closure [OF assms(2)] notifications_closure by auto
  qed (use assms(2) in simp)
qed

lemma lap_hoa_don_ready:
  assumes "proper_zones zones" and "closure_inv d"
    and "lap_hoa_don zones ret now bill_id sid d = Inr (r, d')" and "ir_invoice r = Some bill"
  shows "row_of inv_session_id sid (invoices d') = Some bill" and "r = ready bill"
proof -
  have "pricing_inv d" using assms(2) by (simp add: closure_inv_def)
  with assms(3, 1) have "row_of inv_session_id sid (invoices d') = Some bill \<and> r = ready bill"
  proof (cases rule: lap_hoa_don_cases)
    case (new charging bill' d1)
    then have "inv_session_id bill' = sid" "\<exists>lines ts. d1 = d\<lparr>tariffs := ts,
        invoices := invoices d @ [bill'], invoice_lines := invoice_lines d @ lines\<rparr>"
      by (auto simp: saved_invoice_def dest!: row_of_SomeD)
    with new assms(4) show ?thesis by (auto simp: ready_def row_of_append)
  qed (use assms(4) in \<open>auto simp: ready_def needs_review_def\<close>)
  then show "row_of inv_session_id sid (invoices d') = Some bill" "r = ready bill" by simp_all
qed

section \<open>Settling\<close>

lemma find_entry_member:
  assumes "distinct (map entry_key rows)" and "r \<in> set rows" and "entry_key r = (et, ri)"
  shows "find_entry et ri rows = Some r"
  using assms
  by (induction rows) (auto simp: find_entry_def entry_key_def rev_image_eqI)

lemma matching_entries_debited:
  assumes inv: "wallet_inv d" and "inv_session_id bill = sid"
    and entries: "settlement_entries sid d \<noteq> []"
    and ok: "\<not> entries_mismatch bill (row_of w_driver_id (inv_driver_id bill) (wallets d))
      (settlement_entries sid d)"
  shows "inv_total_vnd bill \<noteq> 0" and "debited bill d"
proof -
  obtain r where r: "settlement_entries sid d = [r]"
    using entries ok by (auto simp: entries_mismatch_def length_Suc_conv)
  with ok obtain w where w: "row_of w_driver_id (inv_driver_id bill) (wallets d) = Some w"
    and row: "wl_wallet_id r = w_id w" "wl_entry_type r = ChargingDebit"
      "wl_amount_vnd r = - inv_total_vnd bill" and "inv_total_vnd bill \<noteq> 0"
    by (auto simp: entries_mismatch_def split: option.splits)
  have "r \<in> set (settlement_entries sid d)" using r by simp
  then have "r \<in> set (ledger d)" "entry_key r = (ChargingDebit, str_int sid)"
    using row(2) by (auto simp: settlement_entries_def entry_key_def)
  then have "find_entry ChargingDebit (str_int sid) (ledger d) = Some r"
    using inv by (intro find_entry_member) (auto simp: wallet_inv_def)
  moreover have "row_of w_id (w_id w) (wallets d) = Some w"
    using row_of_unique [of w_id "wallets d" w] row_of_SomeD [OF w] inv by (simp add: wallet_inv_def)
  ultimately show "debited bill d" "inv_total_vnd bill \<noteq> 0"
    using row w \<open>inv_total_vnd bill \<noteq> 0\<close> assms(2) row_of_SomeD [OF w] by (auto simp: debited_def)
qed

lemma mark_settled_rows:
  assumes "c \<in> set (sessions (mark_settled now sid bill d))"
  shows "if cs_id c = sid then cs_settlement_completed_at c = Some now
      \<and> cs_settlement_reason c = Some (if inv_total_vnd bill = 0 then ''zero_invoice'' else ''debited'')
    else c \<in> set (sessions d)"
proof -
  let ?f = "\<lambda>c. c\<lparr>cs_settlement_completed_at := Some now, cs_settlement_reason :=
    Some (if inv_total_vnd bill = 0 then ''zero_invoice'' else ''debited'')\<rparr>"
  have "c \<in> set (update_row cs_id sid ?f (sessions d))" using assms by (simp add: mark_settled_def)
  then have row: "if cs_id c = sid then \<exists>x\<in>set (sessions d). cs_id x = sid \<and> c = ?f x
      else c \<in> set (sessions d)"
    by (rule update_row_key) simp
  show ?thesis
  proof (cases "cs_id c = sid")
    case True
    with row obtain x where "c = ?f x" by (simp only: simp_thms if_True) blast
    with True show ?thesis by simp
  qed (use row in simp)
qed

lemma mark_settled_inv:
  assumes inv: "closure_inv d" and bill: "bill \<in> set (invoices d)" "inv_session_id bill = sid"
    and paid: "inv_total_vnd bill \<noteq> 0 \<Longrightarrow> debited bill d"
  shows "closure_inv (mark_settled now sid bill d)"
proof -
  let ?d = "mark_settled now sid bill d"
  have same: "keeps_ledger d ?d" "invoices ?d = invoices d"
    by (simp_all add: mark_settled_def keeps_ledger_same)
  have "settled_ok ?d c" if c: "c \<in> set (sessions ?d)" for c
  proof (cases "cs_id c = sid")
    case True
    then have "cs_settlement_reason c = Some (if inv_total_vnd bill = 0 then ''zero_invoice'' else ''debited'')"
      using mark_settled_rows [OF c] by simp
    then have "bill_settles ?d (cs_settlement_reason c) bill"
      using paid debited_keeps [OF _ same(1)] by (simp add: bill_settles_def)
    with bill True same(2) show ?thesis by (auto simp: settled_ok_def)
  next
    case False
    then have "c \<in> set (sessions d)" using mark_settled_rows [OF c] by simp
    from settled_ok_mono [OF closure_invD(5) [OF inv this] same(1)] same(2) show ?thesis by simp
  qed
  moreover have "wallet_inv ?d" "pricing_inv ?d"
    using closure_invD(1, 2) [OF inv] wallet_inv_cong [of ?d d] pricing_inv_cong [of ?d d]
    by (simp_all add: mark_settled_def)
  moreover have "billing_inv ?d"
    using closure_invD(3) [OF inv] billing_inv_cong [of d ?d] by (simp add: same_billing_def mark_settled_def)
  moreover have "distinct (map cs_id (sessions ?d))"
    using closure_invD(4) [OF inv] by (simp add: mark_settled_def map_key_update_row)
  ultimately show ?thesis unfolding closure_inv_def by blast
qed

lemma tru_vi_closure:
  assumes "closure_inv d" and run: "tru_vi new_id (Some bill) None wid actor d = Inr (res, d')"
  shows "closure_inv d'"
proof -
  note keeps = tru_vi_keeps [OF run]
  note same = other_tablesD [OF keeps(2)]
  have "settled_ok d' c" if "c \<in> set (sessions d)" for c
    using settled_ok_mono [OF closure_invD(5) [OF assms(1) that] keeps(1)] same(2) by simp
  then show ?thesis
    using assms(1) tru_vi_inv [OF closure_invD(1) [OF assms(1)] run] pricing_inv_cong [of d' d]
      billing_inv_cong [of d d'] same
    by (simp add: closure_inv_def same_billing_def)
qed

text \<open>What a successful settlement leaves behind.\<close>

definition settles :: "int \<Rightarrow> invoice \<Rightarrow> db \<Rightarrow> bool" where
  "settles sid bill d \<longleftrightarrow> (\<forall>c\<in>set (sessions d). cs_id c = sid \<longrightarrow> cs_settlement_completed_at c \<noteq> None)
     \<and> (inv_total_vnd bill \<noteq> 0 \<longrightarrow> debited bill d)"

lemma settle_invoice_cases:
  assumes inv: "closure_inv d" and bill: "row_of inv_session_id sid (invoices d) = Some bill"
    and run: "settle_invoice now wid sid bill d = Inr (r, d')"
  shows "closure_inv d' \<and> (r = ready bill \<and> settles sid bill d'
    \<or> r = needs_review ''settlement_ledger_mismatch''
      \<and> d' = add_review_reason sid ''settlement_ledger_mismatch'' d)"
proof -
  have mem: "bill \<in> set (invoices d)" "inv_session_id bill = sid" using row_of_SomeD [OF bill] by auto
  note winv = closure_invD(1) [OF inv]
  let ?w = "row_of w_driver_id (inv_driver_id bill) (wallets d)"
  show ?thesis
  proof (cases "entries_mismatch bill ?w (settlement_entries sid d)")
    case True
    with run add_review_reason_inv [OF inv] show ?thesis by (auto simp: settle_invoice_def Let_def)
  next
    case False
    with run obtain d1 where d1: "closure_inv d1" "invoices d1 = invoices d"
      and paid: "inv_total_vnd bill \<noteq> 0 \<Longrightarrow> debited bill d1"
      and r: "r = ready bill" and d': "d' = mark_settled now sid bill d1"
    proof (cases "settlement_entries sid d = []")
      case True
      with run False obtain res d1 where tru: "tru_vi wid (Some bill) None None None d = Inr (res, d1)"
        and "r = ready bill" "d' = mark_settled now sid bill d1"
        by (auto simp: settle_invoice_def Let_def)
      with that [of d1] tru_vi_closure [OF inv tru] tru_vi_debited [OF winv tru]
        other_tablesD(2) [OF tru_vi_keeps(2) [OF tru]] show ?thesis by blast
    next
      case entries: False
      with run False that [of d] inv matching_entries_debited(2) [OF winv mem(2) entries False]
      show ?thesis by (auto simp: settle_invoice_def Let_def)
    qed
    have "settles sid bill d'"
      using paid debited_keeps [of bill d1 d']
        mark_settled_rows [of _ now sid bill d1]
      by (auto simp: settles_def d' keeps_ledger_same mark_settled_def [of _ _ _ d1])
    with mark_settled_inv [OF d1(1) _ mem(2) paid] d1(2) mem(1) r d' show ?thesis by simp
  qed
qed

lemma chot_phien_cases:
  assumes zones: "proper_zones zones" and inv: "closure_inv d"
    and run: "chot_phien zones ret now bill_id wid settle sid d = Inr (r, d')"
  obtains (issued) d1 where "lap_hoa_don zones ret now bill_id sid d = Inr (r, d1)" "d' = d1"
      "settle \<longrightarrow> ir_invoice r = None \<or> (\<exists>c\<in>set (sessions d). cs_id c = sid \<and> cs_settlement_completed_at c \<noteq> None)"
  | (settled) bill d1 where "lap_hoa_don zones ret now bill_id sid d = Inr (ready bill, d1)"
      "settle_invoice now wid sid bill d1 = Inr (r, d')" "settle"
      "row_of inv_session_id sid (invoices d1) = Some bill"
proof (cases "row_of cs_id sid (sessions d)")
  case None
  with run show ?thesis by (auto simp: chot_phien_def lap_hoa_don_def)
next
  case (Some c)
  show ?thesis
  proof (cases "cs_settlement_completed_at c = None")
    case False
    with run Some row_of_SomeD [OF Some] issued show ?thesis by (auto simp: chot_phien_def)
  next
    case True
    with run Some obtain o1 d1 where lap: "lap_hoa_don zones ret now bill_id sid d = Inr (o1, d1)"
      and rest: "(case ir_invoice o1 of None \<Rightarrow> Inr (o1, d1)
             | Some bill \<Rightarrow> if ir_status o1 \<noteq> Ready \<or> \<not> settle then Inr (o1, d1)
                 else settle_invoice now wid sid bill d1) = Inr (r, d')"
      by (auto simp: chot_phien_def)
    show ?thesis
    proof (cases "ir_invoice o1")
      case None
      with lap rest issued show ?thesis by auto
    next
      case (Some bill)
      note ready = lap_hoa_don_ready [OF zones inv lap Some]
      show ?thesis
      proof (cases settle)
        case True
        with Some rest lap ready settled [of bill d1] show ?thesis by (simp add: ready_def)
      next
        case False
        with Some rest lap issued show ?thesis by auto
      qed
    qed
  qed
qed

lemma chot_phien_inv:
  assumes "proper_zones zones" and "closure_inv d"
    and run: "chot_phien zones ret now bill_id wid settle sid d = Inr (r, d')"
  shows "closure_inv d'"
  using assms
proof (cases rule: chot_phien_cases)
  case (issued d1)
  then show ?thesis using lap_hoa_don_closure [OF assms(1, 2)] by blast
next
  case (settled bill d1)
  then show ?thesis using lap_hoa_don_closure [OF assms(1, 2)] settle_invoice_cases by blast
qed

text \<open>Issuing an invoice moves no money and keeps the identifiers of the sessions.\<close>

lemma lap_hoa_don_frame:
  assumes "proper_zones zones" and "closure_inv d"
    and run: "lap_hoa_don zones ret now bill_id sid d = Inr (r, d')"
  shows "ledger d' = ledger d" "wallets d' = wallets d" "map cs_id (sessions d') = map cs_id (sessions d)"
proof -
  have "ledger d' = ledger d \<and> wallets d' = wallets d
      \<and> map cs_id (sessions d') = map cs_id (sessions d)"
    using run assms(1) closure_invD(2) [OF assms(2)]
  proof (cases rule: lap_hoa_don_cases)
    case (review reason)
    then show ?thesis by (simp add: add_review_reason_def map_key_update_row)
  next
    case (new charging bill d1)
    then show ?thesis by (auto simp: saved_invoice_def)
  qed auto
  then show "ledger d' = ledger d" "wallets d' = wallets d"
    "map cs_id (sessions d') = map cs_id (sessions d)" by simp_all
qed

lemma chot_phien_ids:
  assumes "proper_zones zones" and "closure_inv d"
    and run: "chot_phien zones ret now bill_id wid settle sid d = Inr (r, d')"
  shows "map cs_id (sessions d') = map cs_id (sessions d)"
  using assms
proof (cases rule: chot_phien_cases)
  case (issued d1)
  then show ?thesis using lap_hoa_don_frame(3) [OF assms(1, 2)] by blast
next
  case (settled bill d1)
  have "map cs_id (sessions d1) = map cs_id (sessions d)"
    by (rule lap_hoa_don_frame(3) [OF assms(1, 2) settled(1)])
  moreover have "map cs_id (sessions d') = map cs_id (sessions d1)"
    using settled(2)
    by (auto simp: settle_invoice_def Let_def add_review_reason_def mark_settled_def map_key_update_row
        split: if_splits dest!: tru_vi_keeps(2) other_tablesD(1))
  ultimately show ?thesis by simp
qed

lemma invoice_of_session:
  assumes "closure_inv d" and "row_of inv_session_id sid (invoices d) = Some bill"
    and "b \<in> set (invoices d)" "inv_session_id b = sid"
  shows "b = bill"
  using row_of_unique [of inv_session_id "invoices d" b] assms closure_invD(3) [OF assms(1)]
  by (simp add: billing_inv_def)

lemma lap_hoa_don_settled:
  assumes "proper_zones zones" and inv: "closure_inv d"
    and run: "lap_hoa_don zones ret now bill_id sid d = Inr (r, d')"
    and c: "c \<in> set (sessions d)" "cs_id c = sid" "cs_settlement_completed_at c \<noteq> None"
    and bill: "ir_invoice r = Some bill"
  shows "settles sid bill d'"
proof -
  have "pricing_inv d" by (rule closure_invD(2) [OF inv])
  obtain b where b: "b \<in> set (invoices d)" "inv_session_id b = sid"
      "bill_settles d (cs_settlement_reason c) b"
    using closure_invD(5) [OF inv c(1)] c by (auto simp: settled_ok_def)
  have only: "x = c" if "x \<in> set (sessions d)" "cs_id x = sid" for x
    using unique_row [of cs_id "sessions d" x c] closure_invD(4) [OF inv] c that by simp
  have some: "row_of inv_session_id sid (invoices d) \<noteq> None"
    using b by (auto simp: row_of_None_iff)
  from run assms(1) \<open>pricing_inv d\<close> show ?thesis
  proof (cases rule: lap_hoa_don_cases)
    case (again charging bill')
    have "bill' = bill" using again(1) bill by (simp add: ready_def)
    then have "b = bill" using invoice_of_session [OF inv] again(2) b by blast
    with b(3) have "inv_total_vnd bill \<noteq> 0 \<longrightarrow> debited bill d" by (auto simp: bill_settles_def)
    moreover obtain ns where "d' = d\<lparr>notifications := ns\<rparr>" using again(6) by blast
    ultimately show ?thesis
      using only c(3) debited_keeps [of bill d d'] by (auto simp: settles_def keeps_ledger_same)
  qed (use some bill in \<open>auto simp: needs_review_def\<close>)
qed

section \<open>The recovery scan\<close>

definition scan_total :: "scan_result \<Rightarrow> nat" where
  "scan_total r = sr_ready r + sr_needs_review r + sr_pending r + sr_busy r + sr_failed r"

definition scan_state :: "db \<Rightarrow> scan_result \<times> db \<Rightarrow> bool" where
  "scan_state d0 = (\<lambda>(r, d). closure_inv d \<and> map cs_id (sessions d) = map cs_id (sessions d0)
     \<and> sr_scanned r = scan_total r)"

lemma count_outcome_total:
  "scan_total (count_outcome s r) = Suc (scan_total r)" "sr_scanned (count_outcome s r) = sr_scanned r"
  by (cases s; simp add: count_outcome_def scan_total_def)+

lemma scan_one_state:
  assumes "proper_zones zones" and "scan_state d0 rd"
  shows "scan_state d0 (scan_one zones ret draws busy settle sid rd)"
proof -
  obtain r d where rd: "rd = (r, d)" by (cases rd) auto
  obtain now bid wid where dr: "draws sid = (now, bid, wid)" by (cases "draws sid") auto
  have st: "closure_inv d" "map cs_id (sessions d) = map cs_id (sessions d0)" "sr_scanned r = scan_total r"
    using assms(2) by (simp_all add: scan_state_def rd)
  show ?thesis
  proof (cases "chot_phien zones ret now bid wid settle sid d")
    case (Inl e)
    with st show ?thesis by (simp add: scan_one_def rd dr Let_def scan_state_def scan_total_def)
  next
    case (Inr p)
    obtain o1 d1 where p: "p = (o1, d1)" by (cases p) auto
    note run = Inr [unfolded p]
    have "closure_inv d1" "map cs_id (sessions d1) = map cs_id (sessions d)"
      using chot_phien_inv [OF assms(1) st(1) run] chot_phien_ids [OF assms(1) st(1) run] by simp_all
    with st run show ?thesis
      by (simp add: scan_one_def rd dr Let_def scan_state_def count_outcome_total)
        (simp add: scan_total_def)
  qed
qed

lemma scan_fold_state:
  "proper_zones zones \<Longrightarrow> scan_state d0 rd \<Longrightarrow>
    scan_state d0 (fold (scan_one zones ret draws busy settle) ids rd)"
  by (induction ids arbitrary: rd) (simp_all add: scan_one_state)

lemma scan_identifiers_member:
  "x \<in> set (scan_identifiers cursor n d) \<Longrightarrow> x \<in> set (map cs_id (sessions d)) \<and> cursor < x"
  by (auto simp: scan_identifiers_def dest!: in_set_takeD)

lemma closure_pages_total:
  assumes zones: "proper_zones zones" and "scan_state d0 rd"
    and "length (filter (\<lambda>i. cursor < i) (map cs_id (sessions d0))) < fuel"
  shows "\<exists>rd'. closure_pages fuel zones ret draws busy settle n cursor rd = Inr rd' \<and> scan_state d0 rd'"
  using assms(2, 3)
proof (induction fuel arbitrary: cursor rd)
  case (Suc fuel)
  define ids where "ids = scan_identifiers cursor n (snd rd)"
  show ?case
  proof (cases "ids = []")
    case True
    with Suc.prems show ?thesis by (simp flip: ids_def)
  next
    case False
    let ?rows = "map cs_id (sessions d0)"
    let ?last = "last ids"
    have same: "map cs_id (sessions (snd rd)) = ?rows"
      using Suc.prems(1) by (auto simp: scan_state_def)
    have last: "?last \<in> set ?rows" "cursor < ?last"
      using scan_identifiers_member [of ?last cursor n "snd rd"] last_in_set [OF False]
      unfolding ids_def [symmetric] same by blast+
    have "filter (\<lambda>i. ?last < i) ?rows = filter (\<lambda>i. ?last < i) (filter (\<lambda>i. cursor < i) ?rows)"
      using last(2) by (auto intro: filter_cong)
    then have "length (filter (\<lambda>i. ?last < i) ?rows) < length (filter (\<lambda>i. cursor < i) ?rows)"
      using last length_filter_less [of ?last "filter (\<lambda>i. cursor < i) ?rows" "\<lambda>i. ?last < i"] by simp
    with Suc.prems(2) have "length (filter (\<lambda>i. ?last < i) ?rows) < fuel" by linarith
    from Suc.IH [OF scan_fold_state [OF zones Suc.prems(1)] this] False show ?thesis
      by (simp flip: ids_def)
  qed
qed simp

section \<open>The queue of hints\<close>

text \<open>The runner with the sessions its workers are processing.\<close>

inductive runner_step :: "closure_runner \<times> int list \<Rightarrow> closure_runner \<times> int list \<Rightarrow> bool" where
  hint: "schedule sid q = (accepted, q') \<Longrightarrow> runner_step (q, active) (q', active)"
| take: "worker_get q = Some (sid, q') \<Longrightarrow> runner_step (q, active) (q', sid # active)"
| finish: "sid \<in> set active \<Longrightarrow> runner_step (q, active) (worker_done sid q, remove1 sid active)"

inductive_cases runner_stepE: "runner_step s s'"

definition runner_inv :: "closure_runner \<times> int list \<Rightarrow> bool" where
  "runner_inv = (\<lambda>(q, active). distinct (rq_queue q @ active)
     \<and> rq_pending q = set (rq_queue q @ active)
     \<and> (0 < rq_capacity q \<longrightarrow> length (rq_queue q) \<le> rq_capacity q))"

lemma runner_step_inv: "runner_step s s' \<Longrightarrow> runner_inv s \<Longrightarrow> runner_inv s'"
  by (erule runner_stepE)
    (auto simp: runner_inv_def schedule_def queue_full_def worker_get_def worker_done_def
      split: if_splits list.splits)

section \<open>An example\<close>

definition example_db :: db where
  "example_db = topped_up\<lparr>stations := stations one_station, tariffs := tariffs priced_station,
     tariff_bands := tariff_bands priced_station,
     charge_points := [example_point], connectors := [example_connector],
     sessions := [example_session]\<rparr>"

lemma example_zones: "proper_zones vn_zones"
  by (simp add: proper_zones_def vn_zones_def fixed.station_zone_axioms)

lemma example_inv: "closure_inv example_db"
proof -
  have "wallet_inv example_db"
    by (simp add: wallet_inv_def example_db_def topped_up_def one_wallet_def empty_db_def
        ledger_total_def MIN_VND_def MAX_VND_def)
  moreover have "pricing_inv example_db"
    by (simp add: pricing_inv_def example_db_def topped_up_def one_wallet_def priced_station_def
        one_station_def empty_db_def bands_of_def)
  moreover have "billing_inv example_db"
    by (simp add: billing_inv_def example_db_def topped_up_def one_wallet_def empty_db_def)
  ultimately show ?thesis
    by (simp add: closure_inv_def example_db_def example_session_def settled_ok_def)
qed

definition example_close :: "exn + invoice_result \<times> db" where
  "example_close = chot_phien vn_zones 30 (11 * DAY_US) 21 22 True 1 example_db"

lemma example_run:
  "case example_close of Inl _ \<Rightarrow> False | Inr (r, d) \<Rightarrow> ir_status r = Ready
     \<and> map_option inv_total_vnd (ir_invoice r) = Some 35000
     \<and> map w_balance_vnd (wallets d) = [165000]"
  by code_simp

section \<open>Properties\<close>


lemma example_invoice:
  "\<exists>bill d'. lap_hoa_don vn_zones 30 (11 * DAY_US) 21 1 example_db = Inr (ready bill, d')
    \<and> inv_total_vnd bill = 35000"
proof -
  have "case lap_hoa_don vn_zones 30 (11 * DAY_US) 21 1 example_db of Inl _ \<Rightarrow> False
    | Inr (r, d) \<Rightarrow> ir_status r = Ready \<and> ir_reason r = None
        \<and> map_option inv_total_vnd (ir_invoice r) = Some 35000"
    by code_simp
  then obtain r d' where "lap_hoa_don vn_zones 30 (11 * DAY_US) 21 1 example_db = Inr (r, d')"
    and "ir_status r = Ready" "ir_reason r = None" "map_option inv_total_vnd (ir_invoice r) = Some 35000"
    by (auto split: sum.splits)
  then show ?thesis by (cases r) (auto simp: ready_def)
qed




text \<open>
  An invoice is a snapshot.  Once a session has its invoice, asking for it again in any later
  state that still holds the session row and the invoice returns that same invoice and changes
  neither invoices nor lines, whatever happened to tariffs, meters or occupation.
\<close>

theorem invoice_snapshot:
  assumes "proper_zones zones" and "closure_inv d"
    and "lap_hoa_don zones ret now bill_id sid d = Inr (ready bill, d1)"
    and "row_of cs_id sid (sessions d2) = row_of cs_id sid (sessions d)"
    and "row_of inv_session_id sid (invoices d2) = Some bill"
  shows "\<exists>d3. lap_hoa_don zones' ret' now' bill_id' sid d2 = Inr (ready bill, d3) \<and> same_billing d2 d3"
proof -
  obtain c finish where c: "row_of cs_id sid (sessions d) = Some c" "cs_review_reasons c = []"
      "cs_ended_at c = Some finish"
    using assms(3)
    by (auto simp: lap_hoa_don_def ready_def needs_review_def pending_def split: option.splits if_splits)
  obtain d3 where "notify_event zones' ret' now' c InvoiceEvent (Some bill) None None d2 = Inr d3"
    using notify_invoice_total by blast
  with c assms(4, 5) notify_same_billing show ?thesis by (auto simp: lap_hoa_don_def)
qed

theorem invoice_snapshot_witness:
  "\<exists>bill d1 d3. lap_hoa_don vn_zones 30 (11 * DAY_US) 21 1 example_db = Inr (ready bill, d1)
    \<and> lap_hoa_don vn_zones 30 (12 * DAY_US) 99 1 (example_db\<lparr>invoices := [bill], tariffs := []\<rparr>)
      = Inr (ready bill, d3)"
proof -
  obtain bill d1 where run: "lap_hoa_don vn_zones 30 (11 * DAY_US) 21 1 example_db = Inr (ready bill, d1)"
    using example_invoice by blast
  have "row_of inv_session_id 1 (invoices d1) = Some bill"
    using lap_hoa_don_ready(1) [OF example_zones example_inv run] by (simp add: ready_def)
  then have "row_of inv_session_id 1 (invoices (example_db\<lparr>invoices := [bill], tariffs := []\<rparr>)) = Some bill"
    by (auto dest: row_of_SomeD)
  from invoice_snapshot [OF example_zones example_inv run _ this]
  obtain d3 where "lap_hoa_don vn_zones 30 (12 * DAY_US) 99 1 (example_db\<lparr>invoices := [bill], tariffs := []\<rparr>)
      = Inr (ready bill, d3)" by force
  with run show ?thesis by blast
qed

text \<open>
  C14: the settlement invariant.  Closing a session keeps the whole billing state consistent:
  ledger, prices, invoices, and for every settled session its invoice and, unless the total is
  zero, exactly one debit of that total in a wallet of the invoiced driver.
\<close>

theorem settlement_invariant:
  assumes "proper_zones zones" and "closure_inv d"
    and "chot_phien zones ret now bill_id wid settle sid d = Inr (r, d')"
  shows "closure_inv d'"
  using assms by (rule chot_phien_inv)

theorem settlement_invariant_witness:
  "\<exists>r d'. example_close = Inr (r, d') \<and> closure_inv d'"
proof -
  obtain r d' where "example_close = Inr (r, d')"
    using example_run by (auto split: sum.splits)
  with settlement_invariant [OF example_zones example_inv] show ?thesis
    by (auto simp: example_close_def)
qed

text \<open>
  C13: settlement happens exactly once.  When closing with settlement reports ready, the session
  is settled, and its debit of the invoice total is in the ledger; closing it again, at any time
  and with any outcome, changes no balance and no ledger row.
\<close>

theorem settlement_exactly_once:
  assumes "proper_zones zones" and "closure_inv d"
    and "chot_phien zones ret now bill_id wid True sid d = Inr (r, d')" and "ir_invoice r = Some bill"
  shows "settles sid bill d' \<and> (\<forall>ret' now' bill_id' wid' settle' r2 d2.
    chot_phien zones ret' now' bill_id' wid' settle' sid d' = Inr (r2, d2)
      \<longrightarrow> ledger d2 = ledger d' \<and> wallets d2 = wallets d')"
proof -
  have inv': "closure_inv d'" by (rule chot_phien_inv [OF assms(1-3)])
  have fin: "settles sid bill d'"
    using assms(1-3)
  proof (cases rule: chot_phien_cases)
    case (issued d1)
    with assms(4) lap_hoa_don_settled [OF assms(1, 2) issued(1)] show ?thesis by auto
  next
    case (settled bill' d1)
    have "closure_inv d1" by (rule lap_hoa_don_closure [OF assms(1, 2) settled(1)])
    from settle_invoice_cases [OF this settled(4) settled(2)] assms(4) show ?thesis
      by (auto simp: ready_def needs_review_def)
  qed
  moreover have "ledger d2 = ledger d' \<and> wallets d2 = wallets d'"
    if run: "chot_phien zones ret' now' bill_id' wid' settle' sid d' = Inr (r2, d2)"
    for ret' now' bill_id' wid' settle' r2 d2
  proof -
    have "lap_hoa_don zones ret' now' bill_id' sid d' = Inr (r2, d2)"
      using run fin row_of_SomeD [of cs_id sid "sessions d'"]
      by (auto simp: chot_phien_def settles_def split: option.splits if_splits)
    from lap_hoa_don_frame(1, 2) [OF assms(1) inv' this] show ?thesis by simp
  qed
  ultimately show ?thesis by blast
qed

theorem settlement_exactly_once_witness:
  "\<exists>r bill d'. example_close = Inr (r, d') \<and> ir_invoice r = Some bill \<and> inv_total_vnd bill = 35000
    \<and> settles 1 bill d'"
proof -
  obtain r bill d' where run: "example_close = Inr (r, d')" "ir_invoice r = Some bill"
      "inv_total_vnd bill = 35000"
    using example_run by (auto split: sum.splits)
  with settlement_exactly_once [OF example_zones example_inv run(1) [unfolded example_close_def]]
  show ?thesis by auto
qed



text \<open>
  C38: the hint queue.  In every state reachable from a new runner by hints, workers taking and
  workers finishing, no session is queued or processed twice, the pending set is exactly what is
  queued or being processed, and the queue respects its capacity.
\<close>

theorem hint_queue_invariant:
  assumes "runner_step\<^sup>*\<^sup>* (new_runner capacity, []) (q, active)"
  shows "distinct (rq_queue q @ active) \<and> rq_pending q = set (rq_queue q @ active)
    \<and> (0 < rq_capacity q \<longrightarrow> length (rq_queue q) \<le> rq_capacity q)"
proof -
  have "runner_inv (q, active)"
    using assms
  proof (induction rule: rtranclp_induct)
    case base
    then show ?case by (simp add: runner_inv_def new_runner_def)
  next
    case (step y z)
    then show ?case using runner_step_inv by blast
  qed
  then show ?thesis by (simp add: runner_inv_def)
qed

theorem hint_queue_invariant_witness:
  "rq_pending (snd (schedule 4 (new_runner 256))) = {4}"
proof -
  have "runner_step (new_runner 256, []) (snd (schedule 4 (new_runner 256)), [])"
    by (rule runner_step.hint [of 4 _ "fst (schedule 4 (new_runner 256))"]) simp
  then have "runner_step\<^sup>*\<^sup>* (new_runner 256, []) (snd (schedule 4 (new_runner 256)), [])"
    by (rule r_into_rtranclp)
  from hint_queue_invariant [OF this] show ?thesis
    by (simp add: schedule_def new_runner_def queue_full_def)
qed

end
