(* ===== verification/Power_Allocation.thy ===== *)
theory Power_Allocation
  imports Csms_Prelude "HOL-Library.AList" "HOL-Library.Product_Lexorder"
begin

text \<open>
  src/src/modules/power/allocation.py (\<open>allocate_watts\<close>) and
  src/src/modules/stations/power_allocation_engine.py (\<open>phan_bo_cong_suat\<close>): sharing a power
  budget in integer watts, and stopping the newest sessions when the minimum powers do not fit.
  A dict is an association list in insertion order; \<open>AList.update\<close> is item assignment.

  Both routines fill their customers to a common water level.  The locale \<open>water_filling\<close> states
  what they promise, against the reference definition \<open>fair_level\<close> (the greatest level whose
  total fits the budget), and derives the bounds and the optimality of the shares once.
\<close>

section \<open>The reference: the greatest level that fits\<close>

definition water_total :: "int \<Rightarrow> int list \<Rightarrow> int" where
  "water_total level ds = (\<Sum>d\<leftarrow>ds. min d level)"

definition fair_level :: "int \<Rightarrow> int list \<Rightarrow> int" where
  "fair_level budget ds = Max (set (filter (\<lambda>l. water_total l ds \<le> budget) [0..budget]))"

definition fair_share :: "int \<Rightarrow> int list \<Rightarrow> int \<Rightarrow> int" where
  "fair_share budget ds d = min d (fair_level budget ds)"

text \<open>A level the loops stop at: it fits, and the next one does not or is not needed.\<close>

definition is_level :: "int \<Rightarrow> int list \<Rightarrow> int \<Rightarrow> bool" where
  "is_level budget ds level \<longleftrightarrow> 0 \<le> level \<and> water_total level ds \<le> budget
    \<and> ((\<forall>d\<in>set ds. d \<le> level) \<or> budget < water_total (level + 1) ds)"

lemma water_total_mono: "l \<le> l' \<Longrightarrow> water_total l ds \<le> water_total l' ds"
  unfolding water_total_def by (intro sum_list_mono) auto

lemma water_total_zero: "(\<And>d. d \<in> set ds \<Longrightarrow> 0 \<le> d) \<Longrightarrow> water_total 0 ds = 0"
  by (induction ds) (auto simp: water_total_def)

lemma water_total_full: "(\<And>d. d \<in> set ds \<Longrightarrow> d \<le> l) \<Longrightarrow> water_total l ds = sum_list ds"
  by (induction ds) (auto simp: water_total_def)

lemma member_le_total: "(\<And>d. d \<in> set ds \<Longrightarrow> 0 \<le> d) \<Longrightarrow> d \<in> set ds \<Longrightarrow> 0 \<le> l
    \<Longrightarrow> min d l \<le> water_total l ds"
proof (induction ds)
  case (Cons x xs)
  have nonneg: "0 \<le> water_total l xs"
    unfolding water_total_def using Cons.prems by (intro sum_list_nonneg) auto
  with Cons show ?case by (fastforce simp: water_total_def)
qed simp

lemma fair_level_props:
  assumes "0 \<le> b" and "\<And>d. d \<in> set ds \<Longrightarrow> 0 \<le> d"
  shows "0 \<le> fair_level b ds" and "water_total (fair_level b ds) ds \<le> b"
    and "0 \<le> l \<Longrightarrow> l \<le> b \<Longrightarrow> water_total l ds \<le> b \<Longrightarrow> l \<le> fair_level b ds"
proof -
  let ?S = "set (filter (\<lambda>l. water_total l ds \<le> b) [0..b])"
  have "0 \<in> ?S" using assms water_total_zero [of ds] by simp
  then have "Max ?S \<in> ?S" by (intro Max_in finite_set) (metis empty_iff)
  then show "0 \<le> fair_level b ds" and "water_total (fair_level b ds) ds \<le> b"
    by (auto simp: fair_level_def)
  show "0 \<le> l \<Longrightarrow> l \<le> b \<Longrightarrow> water_total l ds \<le> b \<Longrightarrow> l \<le> fair_level b ds"
    unfolding fair_level_def by (intro Max_ge finite_set) auto
qed

lemma is_level_share:
  assumes lev: "is_level b ds l" and b: "0 \<le> b" and ds: "\<And>d. d \<in> set ds \<Longrightarrow> 0 \<le> d"
    and d: "d \<in> set ds"
  shows "min d l = fair_share b ds d"
proof -
  let ?M = "fair_level b ds"
  have l: "0 \<le> l" "water_total l ds \<le> b" using lev by (auto simp: is_level_def)
  have full: "min d l = min d ?M" if all: "\<forall>d\<in>set ds. d \<le> l"
  proof -
    have le: "d' \<le> b" if "d' \<in> set ds" for d'
      using member_le_total [OF ds that l(1)] l(2) all that by force
    then have "water_total b ds = sum_list ds" and "water_total l ds = sum_list ds"
      using all water_total_full [of ds b] water_total_full [of ds l] by auto
    then have "b \<le> ?M" using fair_level_props(3) [OF b ds, where l = b] b l(2) by simp
    then show ?thesis using le [OF d] all d by auto
  qed
  have "min d l = min d ?M" if next_level: "b < water_total (l + 1) ds"
  proof (cases "l \<le> b")
    case True
    then have "l \<le> ?M" using fair_level_props(3) [OF b ds] l by blast
    moreover have "?M < l + 1"
      using fair_level_props(2) [OF b ds] next_level water_total_mono [of "l + 1" ?M ds]
      by fastforce
    ultimately show ?thesis by simp
  next
    case False
    have "d' \<le> l" if "d' \<in> set ds" for d'
      using member_le_total [OF ds that l(1)] l(2) False by force
    then show ?thesis using full by blast
  qed
  with full lev show ?thesis by (auto simp: is_level_def fair_share_def)
qed

section \<open>The rounds of the loops\<close>

text \<open>
  After rounds that satisfied every demand up to \<open>s\<close>: the demands left, and the budget left.
\<close>

definition filling :: "int \<Rightarrow> int list \<Rightarrow> int \<Rightarrow> int \<Rightarrow> int list \<Rightarrow> bool" where
  "filling b0 ds s b left \<longleftrightarrow> 0 \<le> s \<and> 0 \<le> b \<and> (\<forall>d\<in>set ds. 0 \<le> d)
    \<and> left = filter (\<lambda>d. s < d) ds \<and> b = b0 - sum_list (filter (\<lambda>d. d \<le> s) ds)
    \<and> s * int (length left) \<le> b"

lemma sum_list_zeros: "(\<And>d. d \<in> set ds \<Longrightarrow> d = (0::int)) \<Longrightarrow> sum_list ds = 0"
  by (induction ds) auto

lemma filling_start: "0 \<le> b \<Longrightarrow> \<forall>d\<in>set ds. 0 \<le> d \<Longrightarrow> filling b ds 0 b (filter (\<lambda>d. 0 < d) ds)"
  by (force simp: filling_def intro!: sum_list_zeros)

lemma water_total_split:
  assumes "s \<le> l" and "\<And>d. d \<in> set (filter (\<lambda>d. s < d) ds) \<Longrightarrow> l \<le> d"
  shows "water_total l ds = sum_list (filter (\<lambda>d. d \<le> s) ds)
    + l * int (length (filter (\<lambda>d. s < d) ds))"
  using assms by (induction ds) (auto simp: water_total_def algebra_simps)

lemma filling_all_served: "filling b0 ds s b [] \<Longrightarrow> is_level b0 ds s"
proof -
  assume fill: "filling b0 ds s b []"
  then have le: "d \<le> s" if "d \<in> set ds" for d
    using that by (metis (mono_tags, lifting) empty_filter_conv filling_def not_le)
  then have "filter (\<lambda>d. d \<le> s) ds = ds" by simp
  then have "water_total s ds \<le> b0" using fill le by (simp add: filling_def water_total_full)
  then show ?thesis using le fill by (auto simp: is_level_def filling_def)
qed

lemma filling_short:
  assumes fill: "filling b0 ds s b left" and short: "b < int (length left)"
  shows "s = 0" and "is_level b0 ds 0"
proof -
  show s: "s = 0"
  proof (rule ccontr)
    assume "s \<noteq> 0"
    with fill have "1 * int (length left) \<le> s * int (length left)"
      by (intro mult_right_mono) (auto simp: filling_def)
    with fill short show False by (auto simp: filling_def)
  qed
  have "water_total 1 ds = b0 - b + int (length left)"
    using water_total_split [of 0 1 ds] fill s by (auto simp: filling_def)
  moreover have "b0 = b" using fill s by (force simp: filling_def intro!: sum_list_zeros)
  ultimately show "is_level b0 ds 0"
    using short fill water_total_zero [of ds] by (auto simp: is_level_def filling_def)
qed

lemma share_bounds:
  assumes "left \<noteq> []" and "share = b div int (length left)"
  shows "share * int (length left) \<le> b" and "b < (share + 1) * int (length left)"
proof -
  have pos: "0 < int (length left)" using assms(1) by simp
  have eq: "b = share * int (length left) + b mod int (length left)"
    using assms(2) by simp
  show "share * int (length left) \<le> b"
    using eq pos_mod_sign [OF pos, of b] by linarith
  show "b < (share + 1) * int (length left)"
    using eq pos_mod_bound [OF pos, of b] by (simp only: ring_distribs)
qed

lemma share_ge:
  assumes "filling b0 ds s b left" and "left \<noteq> []" and "share = b div int (length left)"
  shows "s \<le> share"
proof (rule ccontr)
  assume "\<not> s \<le> share"
  then have "(share + 1) * int (length left) \<le> s * int (length left)"
    by (intro mult_right_mono) auto
  with share_bounds(2) [OF assms(2,3)] assms(1) show False by (auto simp: filling_def)
qed

lemma filling_round:
  assumes fill: "filling b0 ds s b left" and "left \<noteq> []" and "share = b div int (length left)"
  shows "filling b0 ds share (b - sum_list (filter (\<lambda>d. d \<le> share) left))
    (filter (\<lambda>d. share < d) left)"
proof -
  note ge = share_ge [OF assms] and bounds = share_bounds [OF assms(2,3)]
  have left_eq: "left = filter (\<lambda>d. s < d) ds" using fill by (simp add: filling_def)
  have sums: "sum_list (filter (\<lambda>d. d \<le> s) ds) + sum_list (filter (\<lambda>d. d \<le> share) left)
      = sum_list (filter (\<lambda>d. d \<le> share) ds)"
    unfolding left_eq using ge by (induction ds) auto
  have rest: "filter (\<lambda>d. share < d) left = filter (\<lambda>d. share < d) ds"
    unfolding left_eq using ge by (auto intro!: filter_cong)
  have "share * int (length (filter (\<lambda>d. share < d) left))
      + sum_list (filter (\<lambda>d. d \<le> share) left) \<le> share * int (length left)"
    by (induction left) (auto simp: algebra_simps)
  then have "share * int (length (filter (\<lambda>d. share < d) left))
      \<le> b - sum_list (filter (\<lambda>d. d \<le> share) left)" using bounds(1) by linarith
  moreover have "0 \<le> share * int (length (filter (\<lambda>d. share < d) left))"
    using ge fill by (auto simp: filling_def)
  ultimately show ?thesis
    using fill ge sums rest unfolding filling_def by (metis (no_types, lifting) diff_diff_eq order_trans)
qed

lemma filling_level:
  assumes fill: "filling b0 ds s b left" and "left \<noteq> []" and "share = b div int (length left)"
    and none: "filter (\<lambda>d. d \<le> share) left = []"
  shows "is_level b0 ds share"
proof -
  note ge = share_ge [OF assms(1-3)] and bounds = share_bounds [OF assms(2,3)]
  have more: "share + 1 \<le> d" if "d \<in> set left" for d
    using none that by (force simp: filter_empty_conv)
  have "water_total share ds = b0 - b + share * int (length left)"
    using water_total_split [of s share ds] ge more fill by (fastforce simp: filling_def)
  moreover have "water_total (share + 1) ds = b0 - b + (share + 1) * int (length left)"
    using water_total_split [of s "share + 1" ds] ge more fill by (fastforce simp: filling_def)
  ultimately show ?thesis
    using bounds ge fill by (auto simp: is_level_def filling_def)
qed

section \<open>What a water filling promises\<close>

text \<open>
  A filling serves keyed demands from a budget.  Its law: every customer gets its demand, cut at
  one level that is a fixed point of the sharing; demands that \<open>ok\<close> admits are not negative.
\<close>

locale water_filling =
  fixes fill :: "int \<Rightarrow> ('k \<times> int) list \<Rightarrow> ('k \<times> int) list"
    and ok :: "int \<Rightarrow> bool"
  assumes ok_nonneg: "ok d \<Longrightarrow> 0 \<le> d"
    and fill_level: "0 \<le> b \<Longrightarrow> distinct (map fst ds) \<Longrightarrow> list_all (\<lambda>(k, d). ok d) ds \<Longrightarrow>
      \<exists>l. is_level b (map snd ds) l
        \<and> (\<forall>k. map_of (fill b ds) k = map_option (\<lambda>d. min d l) (map_of ds k))"
    and fill_keys: "distinct (map fst ds) \<Longrightarrow> distinct (map fst (fill b ds))"
begin

lemma fill_share:
  assumes b: "0 \<le> b" and dist: "distinct (map fst ds)" and ok: "list_all (\<lambda>(k, d). ok d) ds"
  shows "map_of (fill b ds) k = map_option (fair_share b (map snd ds)) (map_of ds k)"
proof -
  obtain l where l: "is_level b (map snd ds) l"
      "map_of (fill b ds) k = map_option (\<lambda>d. min d l) (map_of ds k)"
    using fill_level [OF assms] by blast
  have "0 \<le> d" if "d \<in> set (map snd ds)" for d
    using ok that ok_nonneg by (fastforce simp: list_all_iff)
  then have "min d l = fair_share b (map snd ds) d" if "map_of ds k = Some d" for d
    using is_level_share [OF l(1) b] map_of_SomeD [OF that] by force
  then show ?thesis using l(2) by (cases "map_of ds k") auto
qed

lemma fill_total:
  assumes b: "0 \<le> b" and dist: "distinct (map fst ds)" and ok: "list_all (\<lambda>(k, d). ok d) ds"
  shows "(\<Sum>w\<leftarrow>map snd (fill b ds). w) \<le> b"
proof -
  obtain l where l: "is_level b (map snd ds) l"
      "\<And>k. map_of (fill b ds) k = map_option (\<lambda>d. min d l) (map_of ds k)"
    using fill_level [OF assms] by blast
  let ?cut = "map (\<lambda>(k, d). (k, min d l)) ds"
  have "map_of (fill b ds) = map_of ?cut"
    using l(2) by (intro ext) (simp add: map_of_map)
  moreover have cut: "distinct (map fst ?cut)"
    using dist by (simp add: comp_def case_prod_unfold)
  ultimately have "set (fill b ds) = set ?cut"
    using fill_keys [OF dist, of b] by (metis map_of_inject_set)
  moreover have "distinct (fill b ds)" and "distinct ?cut"
    using cut fill_keys [OF dist, of b] by (simp_all only: distinct_map)
  ultimately have "sum_list (map snd (fill b ds)) = sum_list (map snd ?cut)"
    by (simp only: sum_list_distinct_conv_sum_set)
  also have "\<dots> = water_total l (map snd ds)"
    by (simp add: water_total_def comp_def case_prod_unfold)
  finally show ?thesis using l(1) by (simp add: is_level_def)
qed

text \<open>Enough budget serves every demand in full.\<close>

lemma fill_enough:
  assumes b: "sum_list (map snd ds) \<le> b" and dist: "distinct (map fst ds)"
    and ok: "list_all (\<lambda>(k, d). ok d) ds"
  shows "map_of (fill b ds) = map_of ds"
proof -
  have nonneg: "0 \<le> d" if "d \<in> set (map snd ds)" for d
    using ok that ok_nonneg by (fastforce simp: list_all_iff)
  then have b0: "0 \<le> b" using b by (meson order_trans sum_list_nonneg)
  let ?ds = "map snd ds"
  have "is_level b ?ds (Max (insert 0 (set ?ds)))"
    using b water_total_full [of ?ds "Max (insert 0 (set ?ds))"] by (auto simp: is_level_def)
  then have "fair_share b ?ds d = d" if "d \<in> set ?ds" for d
    using is_level_share [of b ?ds _ d] b0 nonneg that
    by (metis List.finite_set Max_ge finite_insert insertI2 min.absorb1)
  then have "fair_share b ?ds d = d" if "map_of ds k = Some d" for k d
    using map_of_SomeD [OF that] by force
  then have "map_option (fair_share b ?ds) (map_of ds k) = map_of ds k" for k
    by (cases "map_of ds k") auto
  then show ?thesis using fill_share [OF b0 dist ok] by (intro ext) simp
qed

end

section \<open>allocate_watts\<close>

function allocate_loop ::
  "int \<Rightarrow> ('k \<times> int) list \<Rightarrow> ('k \<times> int) list \<Rightarrow> ('k \<times> int) list" where
  "allocate_loop budget remaining result =
    (if remaining = [] \<or> budget = 0 then result
     else
       let share = budget div int (length remaining) in
       if share = 0 then result
       else
         let capped = filter (\<lambda>(key, val). val \<le> share) remaining in
         if capped \<noteq> []
         then allocate_loop (budget - sum_list (map snd capped))
                (filter (\<lambda>(key, val). \<not> val \<le> share) remaining)
                (fold (\<lambda>(key, val). AList.update key val) capped result)
         else fold (\<lambda>(key, val). AList.update key share) remaining result)"
  by pat_completeness auto
termination
proof (relation "measure (\<lambda>(budget, remaining, result). length remaining)", goal_cases)
  case (2 budget remaining result share capped)
  then show ?case by (auto simp: filter_empty_conv intro!: length_filter_less)
qed simp

declare allocate_loop.simps [simp del]

definition watts_ok :: "pynum \<Rightarrow> bool" where
  "watts_ok x = (case x of PyInt n \<Rightarrow> 0 \<le> n | _ \<Rightarrow> False)"

definition int_watts :: "pynum \<Rightarrow> int" where
  "int_watts x = (case x of PyInt n \<Rightarrow> n | _ \<Rightarrow> 0)"

definition share_watts :: "int \<Rightarrow> ('k \<times> int) list \<Rightarrow> ('k \<times> int) list" where
  "share_watts budget demands =
    allocate_loop budget (filter (\<lambda>(key, val). val \<noteq> 0) demands)
      (map (\<lambda>(key, val). (key, 0)) demands)"

definition allocate_watts :: "pynum \<Rightarrow> ('k \<times> pynum) list \<Rightarrow> exn + ('k \<times> int) list" where
  "allocate_watts budget demands =
    (if \<not> watts_ok budget then Inl ValueError
     else if list_ex (\<lambda>(key, val). \<not> watts_ok val) demands then Inl ValueError
     else Inr (share_watts (int_watts budget)
            (map (\<lambda>(key, val). (key, int_watts val)) demands)))"

lemma map_of_fold_update:
  "distinct (map fst xs) \<Longrightarrow> map_of (fold (\<lambda>(k, v). AList.update k (f v)) xs r) k
    = (case map_of xs k of None \<Rightarrow> map_of r k | Some v \<Rightarrow> Some (f v))"
proof (induction xs arbitrary: r)
  case (Cons x xs)
  obtain k' v where "x = (k', v)" by fastforce
  moreover from this Cons.prems have "map_of xs k' = None" by (simp add: map_of_eq_None_iff)
  ultimately show ?case using Cons by (auto simp: update_conv' split: option.splits)
qed simp

lemma map_of_filter_val:
  "distinct (map fst xs) \<Longrightarrow> map_of (filter (\<lambda>(k, v). P v) xs) k
    = (case map_of xs k of None \<Rightarrow> None | Some v \<Rightarrow> if P v then Some v else None)"
  by (induction xs) (auto simp: map_of_eq_None_iff rev_image_eqI split: option.splits)

lemma distinct_fold_update:
  "distinct (map fst r) \<Longrightarrow> distinct (map fst (fold (\<lambda>(k, v). AList.update k (f v)) xs r))"
  by (induction xs arbitrary: r) (auto simp: distinct_update)

lemma distinct_filter_fst: "distinct (map fst xs) \<Longrightarrow> distinct (map fst (filter P xs))"
  by (induction xs) auto

lemma map_snd_filter: "map snd (filter (\<lambda>(k, v). P v) xs) = filter P (map snd xs)"
  by (induction xs) auto

lemma map_of_const: "map_of (map (\<lambda>(k, v). (k, c)) xs) k = map_option (\<lambda>v. c) (map_of xs k)"
  by (induction xs) auto

lemma allocate_loop_level:
  assumes "filling b0 (map snd ds) s b (map snd rem)" and "rem = filter (\<lambda>(k, d). s < d) ds"
    and "distinct (map fst ds)"
    and "\<And>k. map_of r k = map_option (\<lambda>d. if d \<le> s then d else 0) (map_of ds k)"
  shows "\<exists>l. is_level b0 (map snd ds) l
    \<and> (\<forall>k. map_of (allocate_loop b rem r) k = map_option (\<lambda>d. min d l) (map_of ds k))"
  using assms
proof (induction b rem r arbitrary: s rule: allocate_loop.induct)
  case (1 b rem r)
  note loop = allocate_loop.simps [of b rem r]
  have nonneg: "0 \<le> d" if "map_of ds k = Some d" for k d
    using "1.prems"(1) map_of_SomeD [OF that] by (force simp: filling_def)
  have keys: "distinct (map fst rem)" using "1.prems"(2,3) by (simp add: distinct_filter_fst)
  have remk: "map_of rem k = (case map_of ds k of None \<Rightarrow> None | Some v \<Rightarrow> if s < v then Some v else None)"
    for k using map_of_filter_val [OF "1.prems"(3), of "\<lambda>d. s < d" k] "1.prems"(2) by simp
  define share where "share = b div int (length (map snd rem))"
  consider "rem = []" | "rem \<noteq> []" "b < int (length rem)" | "rem \<noteq> []" "int (length rem) \<le> b" by linarith
  then show ?case
  proof cases
    case 1
    have "d \<le> s" if "map_of ds k = Some d" for k d
      using "1.prems"(2) 1 map_of_SomeD [OF that] by (force simp: filter_empty_conv)
    then have "map_of (allocate_loop b rem r) k = map_option (\<lambda>d. min d s) (map_of ds k)" for k
      using 1 "1.prems"(4) [of k] loop by (cases "map_of ds k") auto
    then show ?thesis using filling_all_served "1.prems"(1) 1 by fastforce
  next
    case 2
    then have s: "s = 0" "is_level b0 (map snd ds) 0" using filling_short [OF "1.prems"(1)] by auto
    have "allocate_loop b rem r = r"
      using loop 2 "1.prems"(1) by (simp add: filling_def div_pos_pos_trivial)
    then have "map_of (allocate_loop b rem r) k = map_option (\<lambda>d. min d 0) (map_of ds k)" for k
      using "1.prems"(4) [of k] s nonneg [of k] by (cases "map_of ds k") auto
    then show ?thesis using s by blast
  next
    case 3
    then have b: "b \<noteq> 0" and share: "share \<noteq> 0" "share = b div int (length rem)"
      using pos_imp_zdiv_pos_iff [of "int (length rem)" b] by (auto simp: share_def)
    have ge: "s \<le> share" using share_ge [OF "1.prems"(1)] 3 by (simp add: share_def)
    show ?thesis
    proof (cases "filter (\<lambda>(k, v). v \<le> share) rem = []")
      case True
      have "is_level b0 (map snd ds) share"
        using filling_level [OF "1.prems"(1)] 3 True map_snd_filter [of "\<lambda>v. v \<le> share" rem]
        by (simp add: share_def)
      moreover have "share < d" if "map_of ds k = Some d" "s < d" for k d
        using True "1.prems"(2) map_of_SomeD [OF that(1)] that(2)
        by (force simp: filter_empty_conv)
      then have "map_of (allocate_loop b rem r) k = map_option (\<lambda>d. min d share) (map_of ds k)" for k
        using loop 3 b share True "1.prems"(4) [of k] keys ge
          map_of_fold_update [of rem "\<lambda>_. share" r k] remk [of k]
        by (fastforce simp: Let_def split: option.splits if_splits)
      ultimately show ?thesis by blast
    next
      case False
      let ?capped = "filter (\<lambda>(k, v). v \<le> share) rem"
      let ?rest = "filter (\<lambda>(k, v). \<not> v \<le> share) rem"
      let ?r = "fold (\<lambda>(key, val). AList.update key val) ?capped r"
      have round: "filling b0 (map snd ds) share (b - sum_list (map snd ?capped)) (map snd ?rest)"
        using filling_round [OF "1.prems"(1)] 3 map_snd_filter [of "\<lambda>v. v \<le> share" rem]
          map_snd_filter [of "\<lambda>v. \<not> v \<le> share" rem] by (simp add: share_def not_le)
      have rest: "?rest = filter (\<lambda>(k, d). share < d) ds"
        unfolding "1.prems"(2) using ge by (induction ds) auto
      have "map_of ?r k = map_option (\<lambda>d. if d \<le> share then d else 0) (map_of ds k)" for k
        using "1.prems"(4) [of k] map_of_fold_update [of ?capped "\<lambda>v. v" r k] ge remk [of k]
          map_of_filter_val [OF keys, of "\<lambda>d. d \<le> share" k] distinct_filter_fst [OF keys]
        by (auto split: option.splits if_splits)
      then show ?thesis
        using "1.IH" [OF _ share(2) share(1) refl False round rest "1.prems"(3)] 3 b loop share False
        by (simp add: Let_def)
    qed
  qed
qed

lemma allocate_loop_keys: "distinct (map fst r) \<Longrightarrow> distinct (map fst (allocate_loop b rem r))"
proof (induction b rem r rule: allocate_loop.induct)
  case (1 b rem r)
  then show ?case
    using distinct_fold_update [of r "\<lambda>v. v"] distinct_fold_update [of r "\<lambda>_. b div int (length rem)" rem]
    by (subst allocate_loop.simps) (auto simp: Let_def)
qed

interpretation watts: water_filling share_watts "\<lambda>d. 0 \<le> d"
proof
  fix b :: int and ds :: "('a \<times> int) list"
  assume b: "0 \<le> b" and dist: "distinct (map fst ds)" and ok: "list_all (\<lambda>(k, d). 0 \<le> d) ds"
  have nz: "filter (\<lambda>(k, v). v \<noteq> 0) ds = filter (\<lambda>(k, d). 0 < d) ds"
    using ok by (auto simp: list_all_iff intro!: filter_cong)
  have "filling b (map snd ds) 0 b (map snd (filter (\<lambda>(k, d). 0 < d) ds))"
    unfolding map_snd_filter using ok by (intro filling_start [OF b]) (auto simp: list_all_iff)
  moreover have "map_of (map (\<lambda>(k, v). (k, 0)) ds) k
      = map_option (\<lambda>d. if d \<le> 0 then d else 0) (map_of ds k)" for k
    using ok map_of_SomeD [of ds k]
    by (force simp: map_of_const list_all_iff map_option_case split: option.splits)
  ultimately show "\<exists>l. is_level b (map snd ds) l
      \<and> (\<forall>k. map_of (share_watts b ds) k = map_option (\<lambda>d. min d l) (map_of ds k))"
    unfolding share_watts_def nz using allocate_loop_level [OF _ refl dist] by blast
next
  fix b :: int and ds :: "('a \<times> int) list"
  assume "distinct (map fst ds)"
  then show "distinct (map fst (share_watts b ds))"
    unfolding share_watts_def by (intro allocate_loop_keys) (simp add: comp_def case_prod_unfold)
qed simp

text \<open>The result keeps the keys of the demands in their order.\<close>

lemma fst_fold_update:
  "set (map fst xs) \<subseteq> set (map fst r) \<Longrightarrow>
    map fst (fold (\<lambda>(k, v). AList.update k (f v)) xs r) = map fst r"
proof (induction xs arbitrary: r)
  case (Cons x xs)
  then have "map fst (AList.update (fst x) (f (snd x)) r) = map fst r"
    by (simp add: update_keys)
  with Cons.IH [of "AList.update (fst x) (f (snd x)) r"] Cons.prems show ?case
    by (simp add: case_prod_unfold)
qed simp

lemma allocate_loop_fst:
  "set (map fst rem) \<subseteq> set (map fst r) \<Longrightarrow> map fst (allocate_loop b rem r) = map fst r"
proof (induction b rem r rule: allocate_loop.induct)
  case (1 b rem r)
  have keep: "map fst (fold (\<lambda>(k, v). AList.update k v) (filter P rem) r) = map fst r" for P
    using "1.prems" by (intro fst_fold_update [where f = "\<lambda>v. v"]) auto
  moreover have "map fst (fold (\<lambda>(k, v). AList.update k w) rem r) = map fst r" for w
    using "1.prems" by (intro fst_fold_update) auto
  moreover have "set (map fst (filter P rem)) \<subseteq> set (map fst r)" for P
    using "1.prems" by auto
  ultimately show ?case using "1.IH"
    by (subst allocate_loop.simps) (auto simp: Let_def keep)
qed

lemma same_dict:
  "map fst xs = map fst ys \<Longrightarrow> distinct (map fst xs) \<Longrightarrow> map_of xs = map_of ys \<Longrightarrow> xs = ys"
proof (induction xs arbitrary: ys)
  case (Cons x xs)
  then obtain y ys' where ys: "ys = y # ys'" "fst y = fst x" "map fst xs = map fst ys'"
    by (auto simp: map_eq_Cons_conv)
  have xy: "x = y" using fun_cong [OF Cons.prems(3), of "fst x"] ys by (auto intro: prod_eqI)
  have "map_of xs k = map_of ys' k" for k
  proof (cases "k = fst x")
    case True
    then have "k \<notin> fst ` set xs" and "k \<notin> fst ` set ys'"
      using Cons.prems(2) arg_cong [OF ys(3), of set] by simp_all
    then show ?thesis by (metis map_of_eq_None_iff)
  next
    case False
    moreover have "map_of (x # xs) k = map_of (x # ys') k"
      using fun_cong [OF Cons.prems(3), of k] unfolding ys(1) xy .
    ultimately show ?thesis by (cases x) simp
  qed
  then have "xs = ys'" using Cons.IH [OF ys(3)] Cons.prems(2) by (simp add: fun_eq_iff)
  then show ?case using ys xy by simp
qed simp

lemma share_watts_exact:
  assumes "0 \<le> b" and "distinct (map fst ds)" and "list_all (\<lambda>(k, d). 0 \<le> d) ds"
  shows "share_watts b ds = map (\<lambda>(k, d). (k, fair_share b (map snd ds) d)) ds"
proof (rule same_dict)
  have "map fst (map (\<lambda>(k, v). (k, 0)) ds) = map fst ds"
    by (simp add: comp_def case_prod_unfold)
  then show "map fst (share_watts b ds) = map fst (map (\<lambda>(k, d). (k, fair_share b (map snd ds) d)) ds)"
    unfolding share_watts_def by (subst allocate_loop_fst) (auto simp: comp_def case_prod_unfold)
  show "distinct (map fst (share_watts b ds))" using watts.fill_keys [OF assms(2)] .
  show "map_of (share_watts b ds) = map_of (map (\<lambda>(k, d). (k, fair_share b (map snd ds) d)) ds)"
    using watts.fill_share [OF assms] by (intro ext) (simp add: map_of_map)
qed

section \<open>Properties\<close>

text \<open>
  C21: the rounds of \<open>allocate_watts\<close> compute the fairest division.  For every dict of demands the
  result is the reference division: every key, in order, gets its demand cut at the greatest
  common level whose total stays within the budget; a budget or demand that is not a nonnegative
  integer is refused with \<open>ValueError\<close>.
\<close>

theorem allocate_watts_fair:
  assumes "distinct (map fst demands)"
  shows "allocate_watts budget demands =
    (if watts_ok budget \<and> list_all (\<lambda>(key, val). watts_ok val) demands
     then Inr (map (\<lambda>(key, val). (key,
            fair_share (int_watts budget) (map (\<lambda>(key, val). int_watts val) demands) (int_watts val)))
          demands)
     else Inl ValueError)"
proof -
  let ?ds = "map (\<lambda>(key, val). (key, int_watts val)) demands"
  have "distinct (map fst ?ds)" using assms by (simp add: comp_def case_prod_unfold)
  moreover have "list_all (\<lambda>(k, d). 0 \<le> d) ?ds" and "0 \<le> int_watts budget"
    if "watts_ok budget" "list_all (\<lambda>(key, val). watts_ok val) demands"
    using that by (auto simp: list_all_iff watts_ok_def int_watts_def split: pynum.splits)
  ultimately show ?thesis
    using share_watts_exact [of "int_watts budget" ?ds]
    by (auto simp: allocate_watts_def list_ex_iff list_all_iff comp_def case_prod_unfold)
qed

theorem allocate_watts_fair_witness:
  "allocate_watts (PyInt 10) [(1 :: uuid, PyInt 2), (2, PyInt 9), (3, PyInt 9)]
    = Inr [(1, 2), (2, 4), (3, 4)]"
proof -
  have "fair_level 10 [2, 9, 9] = 4" by code_simp
  then show ?thesis
    using allocate_watts_fair [of "[(1 :: uuid, PyInt 2), (2, PyInt 9), (3, PyInt 9)]" "PyInt 10"]
    by (simp add: watts_ok_def int_watts_def fair_share_def)
qed

lemma allocate_watts_bounds_parts:
  assumes "distinct (map fst demands)" and "allocate_watts (PyInt b) demands = Inr result"
  shows "sum_list (map snd result) \<le> b"
    and "list_all2 (\<lambda>(k, d) (k', w). k = k' \<and> 0 \<le> w \<and> w \<le> int_watts d) demands result"
    and "(\<Sum>(k, d)\<leftarrow>demands. int_watts d) \<le> b \<Longrightarrow> map snd result = map (int_watts \<circ> snd) demands"
proof -
  let ?ds = "map (\<lambda>(key, val). (key, int_watts val)) demands"
  have ds: "distinct (map fst ?ds)" using assms(1) by (simp add: comp_def case_prod_unfold)
  have ok: "0 \<le> b" "list_all (\<lambda>(k, d). 0 \<le> d) ?ds" "result = share_watts b ?ds"
    using assms(2) by (auto simp: allocate_watts_def list_ex_iff list_all_iff watts_ok_def
        int_watts_def split: if_splits pynum.splits)
  show "sum_list (map snd result) \<le> b" using watts.fill_total [OF ok(1) ds ok(2)] ok(3) by simp
  have exact: "result = map (\<lambda>(k, d). (k, fair_share b (map snd ?ds) d)) ?ds"
    using share_watts_exact [OF ok(1) ds ok(2)] ok(3) by simp
  have "0 \<le> fair_share b (map snd ?ds) d \<and> fair_share b (map snd ?ds) d \<le> d"
    if "d \<in> set (map snd ?ds)" for d
  proof -
    have "0 \<le> d'" if "d' \<in> set (map snd ?ds)" for d'
      using ok(2) that by (auto simp: list_all_iff)
    then show ?thesis
      using fair_level_props(1) [OF ok(1), of "map snd ?ds"] that by (auto simp: fair_share_def)
  qed
  then show "list_all2 (\<lambda>(k, d) (k', w). k = k' \<and> 0 \<le> w \<and> w \<le> int_watts d) demands result"
    unfolding exact by (auto simp: list_all2_conv_all_nth case_prod_unfold)
  show "map snd result = map (int_watts \<circ> snd) demands"
    if "(\<Sum>(k, d)\<leftarrow>demands. int_watts d) \<le> b"
  proof -
    have "map_of result = map_of ?ds"
      using watts.fill_enough [OF _ ds ok(2), of b] that ok(3)
      by (simp add: comp_def case_prod_unfold)
    moreover have "map fst result = map fst ?ds" unfolding exact by (simp add: case_prod_unfold)
    ultimately have "result = ?ds" using same_dict [of result ?ds] ds by simp
    then show ?thesis by (simp add: comp_def case_prod_unfold)
  qed
qed

text \<open>
  C34: the watts handed out never exceed the budget, no key gets more than its demand or less than
  nothing, and when the demands fit the budget every key gets exactly its demand.
\<close>

theorem allocate_watts_bounds:
  assumes "distinct (map fst demands)" and "allocate_watts (PyInt b) demands = Inr result"
  shows "(sum_list (map snd result) \<le> b)
    \<and> (list_all2 (\<lambda>(k, d) (k', w). k = k' \<and> 0 \<le> w \<and> w \<le> int_watts d) demands result)
    \<and> ((\<Sum>(k, d)\<leftarrow>demands. int_watts d) \<le> b \<longrightarrow> map snd result = map (int_watts \<circ> snd) demands)"
  by (intro conjI impI allocate_watts_bounds_parts [OF assms])

theorem allocate_watts_bounds_witness:
  "sum_list (map snd [(1 :: uuid, 2), (2, 4), (3, 4 :: int)]) \<le> 10"
proof -
  have "allocate_watts (PyInt 10) [(1 :: uuid, PyInt 2), (2, PyInt 9), (3, PyInt 9)]
      = Inr [(1, 2), (2, 4), (3, 4)]" by code_simp
  from allocate_watts_bounds [OF _ this] show ?thesis by simp
qed

end
