(* ===== verification/Power_Engine.thy ===== *)
theory Power_Engine
  imports Power_Allocation "HOL-Library.Multiset"
begin

text \<open>
  \<open>phan_bo_cong_suat\<close> of src/src/modules/stations/power_allocation_engine.py: stop the newest
  sessions until the minimum powers of the others fit the limit, share the limit equally with
  the nominal power as cap, and order the changes, decreases first.  Session identifiers are any
  totally ordered type (the code allows integers and UUIDs); the Vietnamese reason texts are the
  values of a datatype.
\<close>

section \<open>Data\<close>

record 'i session_demand =
  sd_session_id :: 'i
  sd_started_at :: instant
  sd_current_w :: int
  sd_nominal_w :: int
  sd_min_w :: int

datatype preemption_reason =
    NoPreemption | LimitNotPositive | NoSessionFits | NewestStopped nat int

record 'i allocation_result =
  to_decrease :: "('i \<times> int) list"
  to_increase :: "('i \<times> int) list"
  unchanged :: "('i \<times> int) list"
  to_preempt :: "'i list"
  preemption_reason :: preemption_reason
  allocated_total_w :: int
  is_degraded :: bool

definition no_allocation :: "'i list \<Rightarrow> preemption_reason \<Rightarrow> bool \<Rightarrow> 'i allocation_result" where
  "no_allocation preempted reason degraded =
    \<lparr>to_decrease = [], to_increase = [], unchanged = [], to_preempt = preempted,
     preemption_reason = reason, allocated_total_w = 0, is_degraded = degraded\<rparr>"

section \<open>Preemption\<close>

definition age_key :: "'i :: linorder session_demand \<Rightarrow> instant \<times> 'i" where
  "age_key s = (sd_started_at s, sd_session_id s)"

text \<open>\<open>max\<close> with a key keeps the first of equal elements.\<close>

fun newest :: "'i :: linorder session_demand \<Rightarrow> 'i session_demand list \<Rightarrow> 'i session_demand" where
  "newest best [] = best"
| "newest best (s # ss) = newest (if age_key best < age_key s then s else best) ss"

lemma newest_in: "newest best ss \<in> insert best (set ss)"
  by (induction best ss rule: newest.induct) (auto split: if_splits)

function preempt_loop ::
  "int \<Rightarrow> 'i :: linorder session_demand list \<Rightarrow> 'i list \<Rightarrow> 'i session_demand list \<times> 'i list" where
  "preempt_loop limit_w active preempted =
    (if active \<noteq> [] \<and> (\<Sum>s\<leftarrow>active. sd_min_w s) > limit_w
     then let candidate = newest (hd active) (tl active) in
       preempt_loop limit_w (remove1 candidate active) (preempted @ [sd_session_id candidate])
     else (active, preempted))"
  by pat_completeness auto
termination
proof (relation "measure (\<lambda>(limit_w, active, preempted). length active)", goal_cases)
  case (2 limit_w active preempted candidate)
  then have "candidate \<in> set active"
    using newest_in [of "hd active" "tl active"] by (cases active) auto
  then show ?case by (fastforce simp: length_remove1 dest: length_pos_if_in_set)
qed simp

declare preempt_loop.simps [simp del]

section \<open>Sharing\<close>

function share_loop ::
  "int \<Rightarrow> ('i \<times> int) list \<Rightarrow> ('i \<times> int) list \<Rightarrow> ('i \<times> int) list" where
  "share_loop remaining_budget unassigned allocated =
    (if unassigned \<noteq> [] \<and> remaining_budget > 0
     then
       let equal_share = remaining_budget div int (length unassigned) in
       if equal_share = 0
       then fold (\<lambda>(sid, nominal). \<lambda>al. AList.update sid
              (case map_of al sid of None \<Rightarrow> 0 | Some w \<Rightarrow> w) al) unassigned allocated
       else
         let satisfied = filter (\<lambda>(sid, nominal). nominal \<le> equal_share) unassigned;
             still_unassigned = filter (\<lambda>(sid, nominal). \<not> nominal \<le> equal_share) unassigned;
             allocated' = fold (\<lambda>(sid, nominal). AList.update sid nominal) satisfied allocated
         in if satisfied = []
            then fold (\<lambda>(sid, nominal). AList.update sid equal_share) still_unassigned allocated'
            else share_loop (remaining_budget - (\<Sum>(sid, nominal)\<leftarrow>satisfied. nominal))
                   still_unassigned allocated'
     else allocated)"
  by pat_completeness auto
termination
proof (relation "measure (\<lambda>(budget, unassigned, allocated). length unassigned)", goal_cases)
  case (2 budget unassigned allocated share satisfied still allocated')
  then show ?case by (auto simp: filter_empty_conv intro!: length_filter_less)
qed simp

declare share_loop.simps [simp del]

definition share_power :: "int \<Rightarrow> ('i \<times> int) list \<Rightarrow> ('i \<times> int) list" where
  "share_power limit_w demands =
    fold (\<lambda>(sid, nominal) al. if sid \<in> fst ` set al then al else AList.update sid 0 al)
      demands (share_loop limit_w demands [])"

section \<open>The engine\<close>

definition classify ::
  "('i \<times> int) list \<Rightarrow> (int \<Rightarrow> int \<Rightarrow> bool) \<Rightarrow> 'i session_demand list \<Rightarrow> ('i \<times> int) list" where
  "classify allocated rel active =
    fold (\<lambda>s. case map_of allocated (sd_session_id s) of
        None \<Rightarrow> id
      | Some target \<Rightarrow> if rel target (sd_current_w s) then AList.update (sd_session_id s) target else id)
      active []"

definition phan_bo_cong_suat ::
  "int \<Rightarrow> 'i :: linorder session_demand list \<Rightarrow> 'i allocation_result" where
  "phan_bo_cong_suat limit_w sessions =
    (if sessions = [] then no_allocation [] NoPreemption False
     else if limit_w \<le> 0 then
       no_allocation (map sd_session_id (rev (sort_key age_key (rev sessions)))) LimitNotPositive True
     else
       let (active, preempted) = preempt_loop limit_w sessions [] in
       if active = [] then no_allocation preempted NoSessionFits True
       else
         let allocated = share_power limit_w (map (\<lambda>s. (sd_session_id s, sd_nominal_w s)) active) in
         \<lparr>to_decrease = classify allocated (<) active,
          to_increase = classify allocated (>) active,
          unchanged = classify allocated (=) active,
          to_preempt = preempted,
          preemption_reason = (if preempted = [] then NoPreemption
            else NewestStopped (length preempted) limit_w),
          allocated_total_w = (\<Sum>(sid, w)\<leftarrow>allocated. w),
          is_degraded = False\<rparr>)"

section \<open>The sharing loop fills to a level\<close>

definition or_zero :: "int option \<Rightarrow> int option \<Rightarrow> int option" where
  "or_zero found demand = (case found of None \<Rightarrow> map_option (\<lambda>_. 0) demand | Some w \<Rightarrow> Some w)"

lemma fold_get_zero:
  "map_of (fold (\<lambda>(sid, d) al. AList.update sid (case map_of al sid of None \<Rightarrow> 0 | Some w \<Rightarrow> w) al) xs r) k
    = or_zero (map_of r k) (map_of xs k)"
  by (induction xs arbitrary: r)
    (auto simp: or_zero_def update_conv' split: option.splits)

lemma fold_add_missing:
  "map_of (fold (\<lambda>(sid, d) al. if sid \<in> fst ` set al then al else AList.update sid 0 al) xs r) k
    = or_zero (map_of r k) (map_of xs k)"
proof (induction xs arbitrary: r)
  case (Cons x xs)
  obtain sid d where x: "x = (sid, d)" by fastforce
  show ?case
  proof (cases "sid \<in> fst ` set r")
    case True
    then have "\<exists>w. map_of r sid = Some w" by (metis map_of_eq_None_iff not_None_eq)
    with True x Cons.IH [of r] show ?thesis by (auto simp: or_zero_def split: option.splits)
  next
    case False
    then have "map_of r sid = None" by (simp add: map_of_eq_None_iff)
    with False x Cons.IH [of "AList.update sid 0 r"] show ?thesis
      by (auto simp: or_zero_def update_conv' split: option.splits)
  qed
qed (simp add: or_zero_def split: option.splits)

lemma share_loop_level:
  assumes "filling b0 (map snd ds) s b (map snd rem)" and "rem = filter (\<lambda>(k, d). s < d) ds"
    and "distinct (map fst ds)" and "\<And>k d. map_of ds k = Some d \<Longrightarrow> 0 < d"
    and "\<And>k. map_of r k = (case map_of ds k of None \<Rightarrow> None | Some d \<Rightarrow> if d \<le> s then Some d else None)"
  shows "\<exists>l. is_level b0 (map snd ds) l \<and> (\<forall>k. or_zero (map_of (share_loop b rem r) k) (map_of ds k)
      = map_option (\<lambda>d. min d l) (map_of ds k))"
  using assms
proof (induction b rem r arbitrary: s rule: share_loop.induct)
  case (1 b rem r)
  note loop = share_loop.simps [of b rem r]
  have keys: "distinct (map fst rem)" using "1.prems"(2,3) by (simp add: distinct_filter_fst)
  have remk: "map_of rem k = (case map_of ds k of None \<Rightarrow> None | Some v \<Rightarrow> if s < v then Some v else None)"
    for k using map_of_filter_val [OF "1.prems"(3), of "\<lambda>d. s < d" k] "1.prems"(2) by simp
  define share where "share = b div int (length (map snd rem))"
  consider "rem = []" | "rem \<noteq> []" "b < int (length rem)" | "rem \<noteq> []" "int (length rem) \<le> b"
    by linarith
  then show ?case
  proof cases
    case 1
    have "d \<le> s" if "map_of ds k = Some d" for k d
      using "1.prems"(2) 1 map_of_SomeD [OF that] by (force simp: filter_empty_conv)
    then have "or_zero (map_of (share_loop b rem r) k) (map_of ds k) = map_option (\<lambda>d. min d s) (map_of ds k)" for k
      using 1 "1.prems"(5) [of k] loop by (cases "map_of ds k") (auto simp: or_zero_def)
    then show ?thesis using filling_all_served "1.prems"(1) 1 by fastforce
  next
    case 2
    then have s: "s = 0" "is_level b0 (map snd ds) 0" using filling_short [OF "1.prems"(1)] by auto
    then have none: "map_of r k = None" for k
      using "1.prems"(5) [of k] "1.prems"(4) [of k] by (fastforce split: option.splits)
    have out: "map_of (share_loop b rem r) k = or_zero (map_of r k) (map_of rem k)
        \<or> map_of (share_loop b rem r) k = map_of r k" for k
      using loop 2 "1.prems"(1) fold_get_zero [of rem r k]
      by (auto simp: filling_def div_pos_pos_trivial)
    have "or_zero (map_of (share_loop b rem r) k) (map_of ds k) = map_option (\<lambda>d. min d 0) (map_of ds k)" for k
      using none [of k] s "1.prems"(4) [of k] remk [of k] out [of k]
      by (cases "map_of ds k") (auto simp: or_zero_def)
    then show ?thesis using s by blast
  next
    case 3
    then have b: "b > 0" by (cases rem) auto
    have share: "share \<noteq> 0" "share = b div int (length rem)"
      using 3 pos_imp_zdiv_pos_iff [of "int (length rem)" b] by (auto simp: share_def)
    have ge: "s \<le> share" using share_ge [OF "1.prems"(1)] 3 by (simp add: share_def)
    show ?thesis
    proof (cases "filter (\<lambda>(k, v). v \<le> share) rem = []")
      case True
      then have all: "filter (\<lambda>(k, v). \<not> v \<le> share) rem = rem"
        by (auto simp: filter_empty_conv filter_id_conv)
      have "is_level b0 (map snd ds) share"
        using filling_level [OF "1.prems"(1)] 3 True map_snd_filter [of "\<lambda>v. v \<le> share" rem]
        by (simp add: share_def)
      moreover have "share < d" if "map_of ds k = Some d" "s < d" for k d
        using True "1.prems"(2) map_of_SomeD [OF that(1)] that(2)
        by (force simp: filter_empty_conv)
      then have "or_zero (map_of (share_loop b rem r) k) (map_of ds k) = map_option (\<lambda>d. min d share) (map_of ds k)" for k
        using loop 3 b share True all "1.prems"(5) [of k] keys ge
          map_of_fold_update [of rem "\<lambda>_. share" r k] remk [of k]
        by (fastforce simp: Let_def or_zero_def split: option.splits if_splits)
      ultimately show ?thesis by blast
    next
      case False
      let ?capped = "filter (\<lambda>(k, v). v \<le> share) rem"
      let ?rest = "filter (\<lambda>(k, v). \<not> v \<le> share) rem"
      let ?r = "fold (\<lambda>(sid, nominal). AList.update sid nominal) ?capped r"
      have snds: "(\<Sum>(sid, nominal)\<leftarrow>xs. nominal) = sum_list (map snd xs)"
        for xs :: "('a \<times> int) list" by (simp add: case_prod_unfold)
      have round: "filling b0 (map snd ds) share (b - sum_list (map snd ?capped)) (map snd ?rest)"
        using filling_round [OF "1.prems"(1)] 3 map_snd_filter [of "\<lambda>v. v \<le> share" rem]
          map_snd_filter [of "\<lambda>v. \<not> v \<le> share" rem] by (simp add: share_def not_le)
      have rest: "?rest = filter (\<lambda>(k, d). share < d) ds"
        unfolding "1.prems"(2) using ge by (induction ds) auto
      have "map_of ?r k = (case map_of ds k of None \<Rightarrow> None
          | Some d \<Rightarrow> if d \<le> share then Some d else None)" for k
        using "1.prems"(5) [of k] map_of_fold_update [of ?capped "\<lambda>v. v" r k] ge remk [of k]
          map_of_filter_val [OF keys, of "\<lambda>d. d \<le> share" k] distinct_filter_fst [OF keys]
        by (auto split: option.splits if_splits)
      then show ?thesis
        using "1.IH" [OF _ share(2,1) refl refl refl False round [folded snds] rest "1.prems"(3,4)]
          3 b loop share False by (simp add: Let_def)
    qed
  qed
qed

lemma distinct_fold_al:
  "distinct (map fst r) \<Longrightarrow> (\<And>x al. distinct (map fst al) \<Longrightarrow> distinct (map fst (f x al)))
    \<Longrightarrow> distinct (map fst (fold f xs r))"
  by (induction xs arbitrary: r) auto

lemma share_loop_keys: "distinct (map fst r) \<Longrightarrow> distinct (map fst (share_loop b rem r))"
proof (induction b rem r rule: share_loop.induct)
  case (1 b rem r)
  have zero: "distinct (map fst (fold (\<lambda>(sid, d) al. AList.update sid
      (case map_of al sid of None \<Rightarrow> 0 | Some w \<Rightarrow> w) al) rem r))"
    using "1.prems" by (intro distinct_fold_al) (auto simp: distinct_update)
  show ?case
    using "1.IH" [OF _ refl _ refl refl refl] "1.prems" distinct_fold_update [where f = "\<lambda>d. d"]
      distinct_fold_update [where f = "\<lambda>d. b div int (length rem)"] zero
    by (subst share_loop.simps) (auto simp: Let_def)
qed

interpretation power: water_filling share_power "\<lambda>d. 0 < d"
proof
  fix b :: int and ds :: "('a \<times> int) list"
  assume b: "0 \<le> b" and dist: "distinct (map fst ds)" and ok: "list_all (\<lambda>(k, d). 0 < d) ds"
  have pos: "0 < d" if "map_of ds k = Some d" for k d
    using ok map_of_SomeD [OF that] by (auto simp: list_all_iff)
  have all: "filter (\<lambda>(k, d). 0 < d) ds = ds" using ok by (simp add: list_all_iff filter_id_conv)
  have "filling b (map snd ds) 0 b (map snd (filter (\<lambda>(k, d). 0 < d) ds))"
    unfolding map_snd_filter using ok by (intro filling_start [OF b]) (auto simp: list_all_iff)
  moreover have "map_of [] k = (case map_of ds k of None \<Rightarrow> None
      | Some d \<Rightarrow> if d \<le> 0 then Some d else None)" for k
    using pos [of k] by (auto split: option.splits)
  ultimately show "\<exists>l. is_level b (map snd ds) l
      \<and> (\<forall>k. map_of (share_power b ds) k = map_option (\<lambda>d. min d l) (map_of ds k))"
    unfolding share_power_def fold_add_missing all
    using share_loop_level [OF _ all [symmetric] dist pos, where r = "[]" and b = b] by simp
next
  fix b :: int and ds :: "('a \<times> int) list"
  assume "distinct (map fst ds)"
  show "distinct (map fst (share_power b ds))"
    unfolding share_power_def
    by (intro distinct_fold_al share_loop_keys) (auto simp: distinct_update)
qed simp

section \<open>Preemption stops the newest sessions\<close>

lemma newest_max:
  "age_key best \<le> age_key (newest best ss)"
  "s \<in> set ss \<Longrightarrow> age_key s \<le> age_key (newest best ss)"
proof (induction best ss rule: newest.induct)
  case (2 best x ss)
  define b where "b = (if age_key best < age_key x then x else best)"
  have le: "age_key best \<le> age_key b" "age_key x \<le> age_key b" by (auto simp: b_def)
  note IH = "2.IH" [folded b_def]
  case 1
  show ?case using IH(1) le by (simp add: b_def [symmetric])
  case 2
  then show ?case using IH le by (auto simp: b_def [symmetric])
qed simp_all

lemma sort_newest:
  assumes ne: "active \<noteq> []" and dist: "distinct (map age_key active)"
  defines "c \<equiv> newest (hd active) (tl active)"
  shows "c = last (sort_key age_key active)"
    and "sort_key age_key (remove1 c active) = butlast (sort_key age_key active)"
    and "c \<in> set active"
proof -
  let ?s = "sort_key age_key active"
  have sne: "?s \<noteq> []" using ne by (metis set_empty set_sort)
  have inj: "inj_on age_key (set active)" using dist by (simp add: distinct_map)
  have set: "insert (hd active) (set (tl active)) = set active" using ne by (cases active) auto
  show c: "c \<in> set active" using newest_in [of "hd active" "tl active"] set by (simp add: c_def)
  have "sorted (map age_key ?s)" by simp
  then have top: "age_key x \<le> age_key (last ?s)" if "x \<in> set active" for x
  proof -
    have "x \<in> set ?s" using that by simp
    then obtain i where "i < length ?s" "?s ! i = x" by (metis in_set_conv_nth)
    then show ?thesis
      using sne sorted_nth_mono [OF \<open>sorted (map age_key ?s)\<close>, of i "length ?s - 1"]
      by (simp add: last_conv_nth)
  qed
  have last_in: "last ?s \<in> set active" using last_in_set [OF sne] by simp
  have "age_key (last ?s) \<le> age_key c"
    using newest_max(1) [of "hd active" "tl active"]
      newest_max(2) [of "last ?s" "tl active" "hd active"] last_in set
    unfolding c_def by (metis insertE)
  with top [OF c] have "age_key c = age_key (last ?s)" by simp
  with inj c last_in show cl: "c = last ?s" by (auto dest: inj_onD)
  have split: "?s = butlast ?s @ [c]" using sne cl by simp
  have "mset (remove1 c active) = mset (butlast ?s)"
    using arg_cong [OF split, of mset] by simp
  moreover have "sorted (map age_key (butlast ?s))"
    by (metis \<open>sorted (map age_key ?s)\<close> map_append sorted_append split)
  moreover have "inj_on age_key (set (remove1 c active))"
    using inj by (rule inj_on_subset) (rule set_remove1_subset)
  ultimately show "sort_key age_key (remove1 c active) = butlast ?s"
    by (intro sort_key_inj_key_eq)
qed

text \<open>The survivors are the longest run of oldest sessions whose minimum powers fit.\<close>

definition min_total :: "'i session_demand list \<Rightarrow> int" where
  "min_total ss = (\<Sum>s\<leftarrow>ss. sd_min_w s)"

definition fits_up_to :: "int \<Rightarrow> 'i session_demand list \<Rightarrow> nat \<Rightarrow> bool" where
  "fits_up_to limit ss k \<longleftrightarrow> k \<le> length ss \<and> (k = 0 \<or> min_total (take k ss) \<le> limit)
    \<and> (\<forall>j. k < j \<longrightarrow> j \<le> length ss \<longrightarrow> limit < min_total (take j ss))"

lemma min_total_mset: "mset xs = mset ys \<Longrightarrow> min_total xs = min_total ys"
  by (metis min_total_def mset_map sum_mset_sum_list)

lemma preempt_loop_spec:
  assumes "preempt_loop limit active pre = (act', pre')" and "distinct (map age_key active)"
  shows "\<exists>k. fits_up_to limit (sort_key age_key active) k
    \<and> mset act' = mset (take k (sort_key age_key active))
    \<and> pre' = pre @ map sd_session_id (rev (drop k (sort_key age_key active)))"
  using assms
proof (induction limit active pre rule: preempt_loop.induct)
  case (1 limit active pre)
  let ?s = "sort_key age_key active"
  show ?case
  proof (cases "active \<noteq> [] \<and> min_total active > limit")
    case False
    then have "act' = active" "pre' = pre"
      using "1.prems"(1) by (auto simp: preempt_loop.simps [of limit active] min_total_def)
    moreover have "fits_up_to limit ?s (length ?s)"
      using False min_total_mset [of ?s active] by (auto simp: fits_up_to_def)
    ultimately show ?thesis by (intro exI [of _ "length ?s"]) simp
  next
    case True
    define c where "c = newest (hd active) (tl active)"
    note newest = sort_newest [of active, folded c_def]
    have step: "preempt_loop limit (remove1 c active) (pre @ [sd_session_id c]) = (act', pre')"
      using "1.prems"(1) True
      by (simp add: preempt_loop.simps [of limit active] min_total_def c_def Let_def)
    have dist: "distinct (map age_key (remove1 c active))"
      using "1.prems"(2) inj_on_subset [OF _ set_remove1_subset [of c active]]
      by (simp only: distinct_map distinct_remove1) blast
    have ne: "?s \<noteq> []" using True by (metis set_empty set_sort)
    obtain k where k: "fits_up_to limit (butlast ?s) k" "mset act' = mset (take k (butlast ?s))"
        "pre' = (pre @ [sd_session_id c]) @ map sd_session_id (rev (drop k (butlast ?s)))"
      using "1.IH" [OF _ c_def step dist] True newest(2) [OF _ "1.prems"(2)]
      by (auto simp: min_total_def)
    have split: "?s = butlast ?s @ [c]" using newest(1) [OF _ "1.prems"(2)] True ne by simp
    have kle: "k \<le> length (butlast ?s)" using k(1) by (simp add: fits_up_to_def)
    have "limit < min_total (take j ?s)" if "k < j" "j \<le> length ?s" for j
    proof (cases "j = length ?s")
      case False
      then have "take j ?s = take j (butlast ?s)" using that by (subst split) simp
      then show ?thesis using k(1) that False by (auto simp: fits_up_to_def)
    qed (use True min_total_mset [of ?s active] in auto)
    moreover have td: "take k ?s = take k (butlast ?s)" "drop k ?s = drop k (butlast ?s) @ [c]"
      using kle by (subst split, simp)+
    ultimately have "fits_up_to limit ?s k"
      using k(1) kle unfolding fits_up_to_def by (metis diff_le_self length_butlast order_trans)
    then show ?thesis using k(2,3) td by (intro exI [of _ k]) simp
  qed
qed

section \<open>The targets\<close>

lemma classify_fold:
  "distinct (map sd_session_id active) \<Longrightarrow>
    map_of (fold (\<lambda>s. case map_of al (sd_session_id s) of None \<Rightarrow> id
        | Some t \<Rightarrow> if rel t (sd_current_w s) then AList.update (sd_session_id s) t else id) active r) k
    = (case row_of sd_session_id k active of None \<Rightarrow> map_of r k
       | Some s \<Rightarrow> (case map_of al k of None \<Rightarrow> map_of r k
           | Some t \<Rightarrow> if rel t (sd_current_w s) then Some t else map_of r k))"
proof (induction active arbitrary: r)
  case (Cons s active)
  then have "row_of sd_session_id (sd_session_id s) active = None"
    by (auto simp: row_of_None_iff)
  with Cons show ?case by (auto simp: update_conv' split: option.splits)
qed simp

lemma classify_map_of:
  assumes "distinct (map sd_session_id active)" and "row_of sd_session_id k active = Some s"
    and "map_of al k = Some t"
  shows "map_of (classify al rel active) k = (if rel t (sd_current_w s) then Some t else None)"
  using assms unfolding classify_def by (simp add: classify_fold)

lemma classify_dom:
  assumes "distinct (map sd_session_id active)" and "(k, t) \<in> set (classify al rel active)"
    and "distinct (map fst (classify al rel active))"
  shows "\<exists>s\<in>set active. sd_session_id s = k \<and> map_of al k = Some t \<and> rel t (sd_current_w s)"
proof -
  have "map_of (classify al rel active) k = Some t" using assms(2,3) by simp
  then show ?thesis using assms(1) row_of_SomeD [of sd_session_id k active]
    by (auto simp: classify_def classify_fold split: option.splits if_splits)
qed

lemma classify_keys: "distinct (map fst (classify al rel active))"
  unfolding classify_def
  by (intro distinct_fold_al) (auto simp: distinct_update split: option.splits)

text \<open>The demands of the survivors, and the share each of them is to get.\<close>

definition nominals :: "'i session_demand list \<Rightarrow> ('i \<times> int) list" where
  "nominals ss = map (\<lambda>s. (sd_session_id s, sd_nominal_w s)) ss"

definition power_share :: "int \<Rightarrow> 'i session_demand list \<Rightarrow> 'i session_demand \<Rightarrow> int" where
  "power_share limit active s = fair_share limit (map sd_nominal_w active) (sd_nominal_w s)"

lemma share_power_of:
  assumes "0 < limit" and "distinct (map sd_session_id active)"
    and "\<forall>s\<in>set active. 0 < sd_nominal_w s"
  shows "s \<in> set active \<Longrightarrow>
      map_of (share_power limit (nominals active)) (sd_session_id s) = Some (power_share limit active s)"
    and "(\<Sum>(sid, w)\<leftarrow>share_power limit (nominals active). w) = (\<Sum>s\<leftarrow>active. power_share limit active s)"
    and "(\<Sum>s\<leftarrow>active. power_share limit active s) \<le> limit"
proof -
  have keys: "distinct (map fst (nominals active))" "map snd (nominals active) = map sd_nominal_w active"
    using assms(2) by (simp_all add: nominals_def comp_def)
  have ok: "list_all (\<lambda>(k, d). 0 < d) (nominals active)"
    using assms(3) by (simp add: nominals_def list_all_iff)
  have lookup: "map_of (share_power limit (nominals active)) k
      = map_option (fair_share limit (map sd_nominal_w active)) (map_of (nominals active) k)" for k
    using power.fill_share [OF _ keys(1) ok, of limit k] assms(1) keys(2) by simp
  have "map_of (nominals active) (sd_session_id s) = Some (sd_nominal_w s)" if "s \<in> set active" for s
    using keys(1) that by (intro map_of_is_SomeI) (auto simp: nominals_def)
  then show "s \<in> set active \<Longrightarrow>
      map_of (share_power limit (nominals active)) (sd_session_id s) = Some (power_share limit active s)"
    using lookup by (simp add: power_share_def)
  let ?cut = "map (\<lambda>(k, d). (k, fair_share limit (map sd_nominal_w active) d)) (nominals active)"
  have "map_of (share_power limit (nominals active)) = map_of ?cut"
    by (intro ext) (simp add: lookup map_of_map)
  moreover have cut: "distinct (map fst ?cut)" using keys(1) by (simp add: comp_def case_prod_unfold)
  ultimately have "set (share_power limit (nominals active)) = set ?cut"
    using power.fill_keys [OF keys(1), of limit] by (metis map_of_inject_set)
  moreover have "distinct (share_power limit (nominals active))" and "distinct ?cut"
    using cut power.fill_keys [OF keys(1), of limit] by (simp_all only: distinct_map)
  ultimately have "sum_list (map snd (share_power limit (nominals active))) = sum_list (map snd ?cut)"
    by (simp only: sum_list_distinct_conv_sum_set)
  then show total: "(\<Sum>(sid, w)\<leftarrow>share_power limit (nominals active). w)
      = (\<Sum>s\<leftarrow>active. power_share limit active s)"
    by (simp add: nominals_def power_share_def comp_def case_prod_unfold)
  show "(\<Sum>s\<leftarrow>active. power_share limit active s) \<le> limit"
    using power.fill_total [OF _ keys(1) ok, of limit] assms(1) total
    by (simp add: case_prod_unfold)
qed

lemma phan_bo_run:
  assumes "sessions \<noteq> []" and "0 < limit" and "preempt_loop limit sessions [] = (active, pre)"
    and "active \<noteq> []"
  shows "phan_bo_cong_suat limit sessions =
    (let allocated = share_power limit (nominals active) in
     \<lparr>to_decrease = classify allocated (<) active, to_increase = classify allocated (>) active,
      unchanged = classify allocated (=) active, to_preempt = pre,
      preemption_reason = (if pre = [] then NoPreemption else NewestStopped (length pre) limit),
      allocated_total_w = (\<Sum>(sid, w)\<leftarrow>allocated. w), is_degraded = False\<rparr>)"
  using assms by (simp add: phan_bo_cong_suat_def nominals_def Let_def)

section \<open>The specification: who is kept and what they get\<close>

definition fitting :: "int \<Rightarrow> 'i session_demand list \<Rightarrow> nat" where
  "fitting limit ss =
    Max (set (filter (\<lambda>k. k = 0 \<or> min_total (take k ss) \<le> limit) [0..<Suc (length ss)]))"

definition kept :: "int \<Rightarrow> 'i :: linorder session_demand list \<Rightarrow> 'i session_demand list" where
  "kept limit sessions = (let ss = sort_key age_key sessions in
     if limit \<le> 0 then [] else take (fitting limit ss) ss)"

definition stopped :: "int \<Rightarrow> 'i :: linorder session_demand list \<Rightarrow> 'i session_demand list" where
  "stopped limit sessions = (let ss = sort_key age_key sessions in
     if limit \<le> 0 then ss else drop (fitting limit ss) ss)"

definition targets :: "'i allocation_result \<Rightarrow> ('i \<times> int) list" where
  "targets r = to_decrease r @ to_increase r @ unchanged r"

lemma fits_up_to_fitting: "fits_up_to limit ss k \<Longrightarrow> fitting limit ss = k"
proof -
  assume fits: "fits_up_to limit ss k"
  have "y \<le> k" if "y \<in> set (filter (\<lambda>k. k = 0 \<or> min_total (take k ss) \<le> limit) [0..<Suc (length ss)])" for y
  proof (rule ccontr)
    assume "\<not> y \<le> k"
    then have "k < y" and "y \<le> length ss" and "min_total (take y ss) \<le> limit"
      using that by (auto simp del: upt_Suc)
    moreover have "limit < min_total (take y ss)" if "k < y" "y \<le> length ss"
      using fits that by (simp add: fits_up_to_def)
    ultimately show False by linarith
  qed
  with fits show ?thesis unfolding fitting_def
    by (intro Max_eqI finite_set) (auto simp: fits_up_to_def simp del: upt_Suc)
qed

lemma water_total_mset: "mset xs = mset ys \<Longrightarrow> water_total l xs = water_total l ys"
  unfolding water_total_def by (metis mset_map sum_mset_sum_list)

lemma power_share_mset:
  assumes "mset xs = mset ys"
  shows "power_share limit xs = power_share limit ys"
proof -
  have "mset (map sd_nominal_w xs) = mset (map sd_nominal_w ys)" using assms by simp
  then have "water_total l (map sd_nominal_w xs) = water_total l (map sd_nominal_w ys)" for l
    by (rule water_total_mset)
  then show ?thesis by (intro ext) (simp add: power_share_def fair_share_def fair_level_def)
qed

lemma distinct_ages: "distinct (map sd_session_id ss) \<Longrightarrow> distinct (map age_key ss)"
  by (auto simp: distinct_map inj_on_def age_key_def)

lemma preempt_kept:
  assumes "preempt_loop limit sessions [] = (active, pre)" and "0 < limit"
    and "distinct (map sd_session_id sessions)"
  shows "mset active = mset (kept limit sessions)"
    and "pre = map sd_session_id (rev (stopped limit sessions))"
proof -
  let ?ss = "sort_key age_key sessions"
  obtain k where "fits_up_to limit ?ss k" "mset active = mset (take k ?ss)"
      "pre = map sd_session_id (rev (drop k ?ss))"
    using preempt_loop_spec [OF assms(1) distinct_ages [OF assms(3)]] by auto
  with fits_up_to_fitting [of limit ?ss k] assms(2)
  show "mset active = mset (kept limit sessions)"
    and "pre = map sd_session_id (rev (stopped limit sessions))"
    by (simp_all add: kept_def stopped_def)
qed

lemma kept_sub: "set (kept limit sessions) \<subseteq> set sessions"
  by (auto simp: kept_def Let_def dest: in_set_takeD split: if_splits)

lemma kept_distinct: "distinct (map sd_session_id sessions) \<Longrightarrow> distinct (map sd_session_id (kept limit sessions))"
proof -
  assume "distinct (map sd_session_id sessions)"
  then have "distinct (map sd_session_id (sort_key age_key sessions))"
    by (simp add: distinct_map)
  then show ?thesis unfolding kept_def Let_def by (simp add: take_map [symmetric])
qed

lemma mset_distinct_ids:
  "mset xs = mset ys \<Longrightarrow> distinct (map sd_session_id ys) \<Longrightarrow> distinct (map sd_session_id xs)"
  by (metis mset_eq_imp_distinct_iff mset_map)

text \<open>The whole result on the branch where some session is kept.\<close>

lemma engine_result:
  assumes dist: "distinct (map sd_session_id sessions)"
    and nom: "\<forall>s\<in>set sessions. 0 < sd_nominal_w s" and keep: "kept limit sessions \<noteq> []"
  defines "r \<equiv> phan_bo_cong_suat limit sessions" and "keep \<equiv> kept limit sessions"
  shows "to_preempt r = map sd_session_id (rev (stopped limit sessions))" "\<not> is_degraded r"
    "s \<in> set keep \<Longrightarrow> map_of (to_decrease r) (sd_session_id s) =
        (if power_share limit keep s < sd_current_w s then Some (power_share limit keep s) else None)"
    "s \<in> set keep \<Longrightarrow> map_of (to_increase r) (sd_session_id s) =
        (if power_share limit keep s > sd_current_w s then Some (power_share limit keep s) else None)"
    "s \<in> set keep \<Longrightarrow> map_of (unchanged r) (sd_session_id s) =
        (if power_share limit keep s = sd_current_w s then Some (power_share limit keep s) else None)"
    "fst ` set (targets r) \<subseteq> sd_session_id ` set keep"
    "distinct (map fst (to_decrease r))" "distinct (map fst (to_increase r))"
    "allocated_total_w r = (\<Sum>s\<leftarrow>keep. power_share limit keep s)"
    "(\<Sum>s\<leftarrow>keep. power_share limit keep s) \<le> limit"
proof -
  have limit: "0 < limit" and ne: "sessions \<noteq> []"
    using keep by (auto simp: kept_def Let_def split: if_splits)
  obtain active pre where loop: "preempt_loop limit sessions [] = (active, pre)" by fastforce
  have act: "mset active = mset keep" and pre: "pre = map sd_session_id (rev (stopped limit sessions))"
    using preempt_kept [OF loop limit dist] by (simp_all add: keep_def)
  have active: "active \<noteq> []" using act keep by (auto simp: keep_def)
  have sets: "set active = set keep" using act by (rule mset_eq_setD)
  have ids: "distinct (map sd_session_id active)"
    using mset_distinct_ids [OF act] kept_distinct [OF dist] by (simp add: keep_def)
  have noms: "\<forall>s\<in>set active. 0 < sd_nominal_w s"
    using nom sets kept_sub [of limit sessions] by (auto simp: keep_def)
  have share: "power_share limit active = power_share limit keep" using power_share_mset [OF act] .
  note run = phan_bo_run [OF ne limit loop active, folded r_def]
  note shares = share_power_of [OF limit ids noms, unfolded share]
  have look: "map_of (classify (share_power limit (nominals active)) rel active) (sd_session_id s)
      = (if rel (power_share limit keep s) (sd_current_w s) then Some (power_share limit keep s) else None)"
    if "s \<in> set keep" for rel s
    using that sets shares(1) [of s] classify_map_of [OF ids row_of_unique [OF ids]] by simp
  show "to_preempt r = map sd_session_id (rev (stopped limit sessions))" "\<not> is_degraded r"
    using run pre by (simp_all add: Let_def)
  show "s \<in> set keep \<Longrightarrow> map_of (to_decrease r) (sd_session_id s) =
        (if power_share limit keep s < sd_current_w s then Some (power_share limit keep s) else None)"
    "s \<in> set keep \<Longrightarrow> map_of (to_increase r) (sd_session_id s) =
        (if power_share limit keep s > sd_current_w s then Some (power_share limit keep s) else None)"
    "s \<in> set keep \<Longrightarrow> map_of (unchanged r) (sd_session_id s) =
        (if power_share limit keep s = sd_current_w s then Some (power_share limit keep s) else None)"
    using run look by (simp_all add: Let_def)
  show "fst ` set (targets r) \<subseteq> sd_session_id ` set keep"
    using run sets classify_dom [OF ids _ classify_keys] by (force simp: Let_def targets_def)
  show "distinct (map fst (to_decrease r))" "distinct (map fst (to_increase r))"
    using run by (simp_all add: Let_def classify_keys)
  have perm: "(\<Sum>s\<leftarrow>active. power_share limit keep s) = (\<Sum>s\<leftarrow>keep. power_share limit keep s)"
    using act by (metis mset_map sum_mset_sum_list)
  show "allocated_total_w r = (\<Sum>s\<leftarrow>keep. power_share limit keep s)"
    using run shares(2) perm by (simp add: Let_def)
  show "(\<Sum>s\<leftarrow>keep. power_share limit keep s) \<le> limit" using shares(3) perm by simp
qed

lemma engine_nothing_kept:
  assumes dist: "distinct (map sd_session_id sessions)" and "kept limit sessions = []"
  shows "targets (phan_bo_cong_suat limit sessions) = []"
    and "is_degraded (phan_bo_cong_suat limit sessions) \<longleftrightarrow> sessions \<noteq> []"
    and "to_preempt (phan_bo_cong_suat limit sessions) = map sd_session_id (rev (stopped limit sessions))"
    and "allocated_total_w (phan_bo_cong_suat limit sessions) = 0"
proof -
  obtain active pre where loop: "preempt_loop limit sessions [] = (active, pre)" by fastforce
  have act: "active = []" and pre: "pre = map sd_session_id (rev (stopped limit sessions))"
    if "0 < limit" using preempt_kept [OF loop that dist] assms(2) by auto
  have "sort_key age_key (rev sessions) = sort_key age_key sessions"
    using distinct_ages [OF dist] by (intro sort_key_inj_key_eq) (auto simp: distinct_map)
  then show "targets (phan_bo_cong_suat limit sessions) = []"
    and "is_degraded (phan_bo_cong_suat limit sessions) \<longleftrightarrow> sessions \<noteq> []"
    and "to_preempt (phan_bo_cong_suat limit sessions) = map sd_session_id (rev (stopped limit sessions))"
    and "allocated_total_w (phan_bo_cong_suat limit sessions) = 0"
    using act pre loop
    by (auto simp: phan_bo_cong_suat_def targets_def no_allocation_def stopped_def Let_def)
qed

section \<open>Properties\<close>

lemma phan_bo_cong_suat_spec_parts:
  assumes "distinct (map sd_session_id sessions)" and "\<forall>s\<in>set sessions. 0 < sd_nominal_w s"
  shows "to_preempt (phan_bo_cong_suat limit sessions) = map sd_session_id (rev (stopped limit sessions))"
    and "is_degraded (phan_bo_cong_suat limit sessions) \<longleftrightarrow> sessions \<noteq> [] \<and> kept limit sessions = []"
    and "\<forall>s\<in>set (kept limit sessions).
      (let share = power_share limit (kept limit sessions) s; r = phan_bo_cong_suat limit sessions in
       map_of (to_decrease r) (sd_session_id s) = (if share < sd_current_w s then Some share else None)
       \<and> map_of (to_increase r) (sd_session_id s) = (if share > sd_current_w s then Some share else None)
       \<and> map_of (unchanged r) (sd_session_id s) = (if share = sd_current_w s then Some share else None))"
    and "fst ` set (targets (phan_bo_cong_suat limit sessions)) \<subseteq> sd_session_id ` set (kept limit sessions)"
    and "allocated_total_w (phan_bo_cong_suat limit sessions)
      = (\<Sum>s\<leftarrow>kept limit sessions. power_share limit (kept limit sessions) s)"
    and "allocated_total_w (phan_bo_cong_suat limit sessions) \<le> max 0 limit"
proof -
  note none = engine_nothing_kept [OF assms(1), of limit] and some = engine_result [OF assms, of limit]
  show "to_preempt (phan_bo_cong_suat limit sessions) = map sd_session_id (rev (stopped limit sessions))"
    using none(3) some(1) by blast
  show "is_degraded (phan_bo_cong_suat limit sessions) \<longleftrightarrow> sessions \<noteq> [] \<and> kept limit sessions = []"
    using none(2) some(2) by blast
  show "\<forall>s\<in>set (kept limit sessions).
      (let share = power_share limit (kept limit sessions) s; r = phan_bo_cong_suat limit sessions in
       map_of (to_decrease r) (sd_session_id s) = (if share < sd_current_w s then Some share else None)
       \<and> map_of (to_increase r) (sd_session_id s) = (if share > sd_current_w s then Some share else None)
       \<and> map_of (unchanged r) (sd_session_id s) = (if share = sd_current_w s then Some share else None))"
  proof
    fix s
    assume s: "s \<in> set (kept limit sessions)"
    then have "kept limit sessions \<noteq> []" by auto
    from some(3-5) [OF this s] show "let share = power_share limit (kept limit sessions) s;
          r = phan_bo_cong_suat limit sessions in
       map_of (to_decrease r) (sd_session_id s) = (if share < sd_current_w s then Some share else None)
       \<and> map_of (to_increase r) (sd_session_id s) = (if share > sd_current_w s then Some share else None)
       \<and> map_of (unchanged r) (sd_session_id s) = (if share = sd_current_w s then Some share else None)"
      unfolding Let_def by blast
  qed
  show "fst ` set (targets (phan_bo_cong_suat limit sessions)) \<subseteq> sd_session_id ` set (kept limit sessions)"
    using none(1) some(6) by (cases "kept limit sessions = []") auto
  show total: "allocated_total_w (phan_bo_cong_suat limit sessions)
      = (\<Sum>s\<leftarrow>kept limit sessions. power_share limit (kept limit sessions) s)"
    using none(4) some(9) by (cases "kept limit sessions = []") simp_all
  show "allocated_total_w (phan_bo_cong_suat limit sessions) \<le> max 0 limit"
    using total some(10) by (cases "kept limit sessions = []") simp_all
qed

text \<open>
  C20: the engine implements its specification.  With distinct sessions of positive nominal power,
  it keeps the longest run of oldest sessions whose minimum powers fit the limit and stops the
  others, newest first; every kept session, and no other, is given its fair share of the limit
  under exactly one of the headings decrease, increase and unchanged; the total handed out is
  the sum of the shares and stays within the limit; the result is degraded exactly when there
  were sessions and none could be kept.
\<close>

theorem phan_bo_cong_suat_spec:
  assumes "distinct (map sd_session_id sessions)" and "\<forall>s\<in>set sessions. 0 < sd_nominal_w s"
  shows "(to_preempt (phan_bo_cong_suat limit sessions) = map sd_session_id (rev (stopped limit sessions)))
    \<and> (is_degraded (phan_bo_cong_suat limit sessions) \<longleftrightarrow> sessions \<noteq> [] \<and> kept limit sessions = [])
    \<and> (\<forall>s\<in>set (kept limit sessions).
      (let share = power_share limit (kept limit sessions) s; r = phan_bo_cong_suat limit sessions in
       map_of (to_decrease r) (sd_session_id s) = (if share < sd_current_w s then Some share else None)
       \<and> map_of (to_increase r) (sd_session_id s) = (if share > sd_current_w s then Some share else None)
       \<and> map_of (unchanged r) (sd_session_id s) = (if share = sd_current_w s then Some share else None)))
    \<and> (fst ` set (targets (phan_bo_cong_suat limit sessions)) \<subseteq> sd_session_id ` set (kept limit sessions))
    \<and> (allocated_total_w (phan_bo_cong_suat limit sessions)
      = (\<Sum>s\<leftarrow>kept limit sessions. power_share limit (kept limit sessions) s))
    \<and> (allocated_total_w (phan_bo_cong_suat limit sessions) \<le> max 0 limit)"
  by (intro conjI impI phan_bo_cong_suat_spec_parts [OF assms])

text \<open>A station of 12000 W with an old and a new car.\<close>

definition two_cars :: "int session_demand list" where
  "two_cars = [\<lparr>sd_session_id = 7, sd_started_at = 100, sd_current_w = 0, sd_nominal_w = 22000, sd_min_w = 4150\<rparr>,
     \<lparr>sd_session_id = 5, sd_started_at = 50, sd_current_w = 11000, sd_nominal_w = 7000, sd_min_w = 4150\<rparr>]"

lemma two_cars_ok: "distinct (map sd_session_id two_cars)" "\<forall>s\<in>set two_cars. 0 < sd_nominal_w s"
  by (simp_all add: two_cars_def)

theorem phan_bo_cong_suat_spec_witness:
  "to_preempt (phan_bo_cong_suat 8000 two_cars) = [7]"
proof -
  have "map sd_session_id (rev (stopped 8000 two_cars)) = [7]" by code_simp
  then show ?thesis using phan_bo_cong_suat_spec [OF two_cars_ok, of 8000] by simp
qed

definition power_after :: "('i \<times> int) list \<Rightarrow> 'i session_demand \<Rightarrow> int" where
  "power_after applied s = (case map_of applied (sd_session_id s) of Some w \<Rightarrow> w | None \<Rightarrow> sd_current_w s)"

lemma map_of_take: "map_of (take n xs) k = Some w \<Longrightarrow> distinct (map fst xs) \<Longrightarrow> map_of xs k = Some w"
  by (metis in_set_takeD map_of_SomeD map_of_is_SomeI)

text \<open>
  C22: decrease first, increase after.  When the changes of the engine are applied one by one in
  the order decreases, then increases, the power set for the kept sessions never exceeds both
  what was set before and the limit, at any moment of the sequence.
\<close>

theorem decrease_before_increase:
  assumes dist: "distinct (map sd_session_id sessions)" and nom: "\<forall>s\<in>set sessions. 0 < sd_nominal_w s"
    and r: "r = phan_bo_cong_suat limit sessions" and keep: "keep = kept limit sessions"
  shows "(\<Sum>s\<leftarrow>keep. power_after (take n (to_decrease r @ to_increase r)) s)
    \<le> max (\<Sum>s\<leftarrow>keep. sd_current_w s) limit"
proof (cases "keep = []")
  case False
  note result = engine_result [OF dist nom False [unfolded keep], folded r keep]
  show ?thesis
  proof (cases "n \<le> length (to_decrease r)")
    case True
    have "power_after (take n (to_decrease r)) s \<le> sd_current_w s" if "s \<in> set keep" for s
      using result(3) [OF that] map_of_take [OF _ result(7), of n "sd_session_id s"]
      by (fastforce simp: power_after_def split: option.splits if_splits)
    then have "(\<Sum>s\<leftarrow>keep. power_after (take n (to_decrease r)) s) \<le> (\<Sum>s\<leftarrow>keep. sd_current_w s)"
      by (intro sum_list_mono) auto
    with True show ?thesis by simp
  next
    case after: False
    let ?some = "take (n - length (to_decrease r)) (to_increase r)"
    have "power_after (to_decrease r @ ?some) s \<le> power_share limit keep s" if "s \<in> set keep" for s
      using result(3) [OF that] result(4) [OF that]
        map_of_take [OF _ result(8), of "n - length (to_decrease r)" "sd_session_id s"]
      by (fastforce simp: power_after_def map_add_def split: option.splits if_splits)
    then have "(\<Sum>s\<leftarrow>keep. power_after (to_decrease r @ ?some) s) \<le> (\<Sum>s\<leftarrow>keep. power_share limit keep s)"
      by (intro sum_list_mono) auto
    with after result(10) show ?thesis by simp
  qed
qed (simp add: max_def)

theorem decrease_before_increase_witness:
  "(\<Sum>s\<leftarrow>kept 12000 two_cars. power_after (take 1 (to_decrease (phan_bo_cong_suat 12000 two_cars)
      @ to_increase (phan_bo_cong_suat 12000 two_cars))) s) \<le> 12000"
proof -
  have "(\<Sum>s\<leftarrow>kept 12000 two_cars. sd_current_w s) = 11000" by code_simp
  then show ?thesis
    using decrease_before_increase [OF two_cars_ok refl refl, of 1 12000] by simp
qed

lemma kept_fits:
  assumes "distinct (map sd_session_id sessions)" and "kept limit sessions \<noteq> []"
  shows "min_total (kept limit sessions) \<le> limit"
proof -
  let ?ss = "sort_key age_key sessions"
  obtain active pre where loop: "preempt_loop limit sessions [] = (active, pre)" by fastforce
  obtain k where "fits_up_to limit ?ss k"
    using preempt_loop_spec [OF loop distinct_ages [OF assms(1)]] by auto
  then have "fits_up_to limit ?ss (fitting limit ?ss)" using fits_up_to_fitting by metis
  then show ?thesis using assms(2) by (auto simp: kept_def Let_def fits_up_to_def split: if_splits)
qed

text \<open>
  When all sessions share one minimum power, below their nominal powers, every session the
  engine keeps is given at least that minimum.
\<close>

theorem uniform_minimum_served:
  assumes dist: "distinct (map sd_session_id sessions)"
    and same: "\<forall>s\<in>set sessions. sd_min_w s = m \<and> m \<le> sd_nominal_w s" and m: "0 < m"
    and s: "s \<in> set (kept limit sessions)"
  shows "m \<le> power_share limit (kept limit sessions) s"
proof -
  let ?keep = "kept limit sessions" and ?noms = "map sd_nominal_w (kept limit sessions)"
  have keep: "?keep \<noteq> []" using s by auto
  then have limit: "0 < limit" by (auto simp: kept_def Let_def split: if_splits)
  have all: "sd_min_w x = m \<and> m \<le> sd_nominal_w x" if "x \<in> set ?keep" for x
    using same that kept_sub [of limit sessions] by blast
  have "map sd_min_w ?keep = map (\<lambda>_. m) ?keep" and "map (\<lambda>x. min (sd_nominal_w x) m) ?keep = map (\<lambda>_. m) ?keep"
    using all by (auto intro!: map_cong)
  then have "min_total ?keep = int (length ?keep) * m" and level: "water_total m ?noms = int (length ?keep) * m"
    by (simp_all only: min_total_def water_total_def map_map comp_def sum_list_triv of_nat_id)
  then have fits: "int (length ?keep) * m \<le> limit" using kept_fits [OF dist keep] by simp
  have "1 * m \<le> int (length ?keep) * m" using keep m by (intro mult_right_mono) (auto simp: Suc_le_eq)
  then have "m \<le> limit" using fits by linarith
  moreover have "0 \<le> d" if "d \<in> set ?noms" for d using all m that by force
  ultimately have "m \<le> fair_level limit ?noms"
    using fair_level_props(3) [of limit ?noms m] limit m level fits by simp
  then show ?thesis using all [OF s] by (simp add: power_share_def fair_share_def)
qed

theorem uniform_minimum_served_witness:
  "list_all (\<lambda>s. 4150 \<le> power_share 9000 (kept 9000 two_cars) s) (kept 9000 two_cars)"
  using uniform_minimum_served [OF two_cars_ok(1), of 4150 _ 9000] by (auto simp: two_cars_def list_all_iff)

text \<open>
  The minimum powers of the connectors may differ (\<open>resolve_min_w\<close> gives 6000 W to a DC connector
  and 1380 W to one without data).  Then the equal shares can leave a kept session below its
  minimum although the minima fit the limit: here 4000 W for a session that needs 6000 W.
\<close>

definition mixed_cars :: "int session_demand list" where
  "mixed_cars = [\<lparr>sd_session_id = 1, sd_started_at = 0, sd_current_w = 0, sd_nominal_w = 60000, sd_min_w = 6000\<rparr>,
     \<lparr>sd_session_id = 2, sd_started_at = 1, sd_current_w = 0, sd_nominal_w = 7400, sd_min_w = 1380\<rparr>]"

theorem share_below_minimum:
  "to_preempt (phan_bo_cong_suat 8000 mixed_cars) = []
    \<and> map_of (to_increase (phan_bo_cong_suat 8000 mixed_cars)) 1 = Some 4000"
  by code_simp

end
