(* ===== verification/Power_Schedule.thy ===== *)
theory Power_Schedule
  imports Pricing Power_Bands
begin

text \<open>
  src/src/modules/stations/power_schedule_service.py: the versioned daily power limits of a
  station, the limit in force at an instant and the replacement of a schedule.  The wall clock
  of a zone (minute of the local day) is a parameter next to its calendar dates; the code needs
  only that it lies within the day.
\<close>

type_synonym wall_clock = "string \<Rightarrow> instant \<Rightarrow> int"

definition proper_clock :: "wall_clock \<Rightarrow> bool" where
  "proper_clock clock \<longleftrightarrow> (\<forall>tz t. 0 \<le> clock tz t \<and> clock tz t < 1440)"

definition DEFAULT_STATION_TIMEZONE :: string where
  "DEFAULT_STATION_TIMEZONE = ''Asia/Ho_Chi_Minh''"

definition timezone_or_default :: "string \<Rightarrow> string" where
  "timezone_or_default tz = (if tz = [] then DEFAULT_STATION_TIMEZONE else tz)"

definition power_ngay_dia_phuong :: "zones \<Rightarrow> string \<Rightarrow> instant \<Rightarrow> day" where
  "power_ngay_dia_phuong zones tz dt = zone_date (zones (timezone_or_default tz)) dt"

definition phut_trong_ngay :: "wall_clock \<Rightarrow> string \<Rightarrow> instant \<Rightarrow> int" where
  "phut_trong_ngay clock tz dt = clock (timezone_or_default tz) dt"

fun pick_schedule :: "power_schedule option \<Rightarrow> power_schedule list \<Rightarrow> power_schedule option" where
  "pick_schedule best [] = best"
| "pick_schedule best (s # ss) =
    (case best of
       None \<Rightarrow> pick_schedule (Some s) ss
     | Some b \<Rightarrow> pick_schedule (if ps_effective_from s > ps_effective_from b then Some s else best) ss)"

definition get_effective_power_schedule :: "uuid \<Rightarrow> day \<Rightarrow> db \<Rightarrow> power_schedule option" where
  "get_effective_power_schedule station_id target_date d =
    pick_schedule None (filter (\<lambda>s. ps_station_id s = station_id \<and> ps_effective_from s \<le> target_date)
      (power_schedules d))"

text \<open>The relationship \<open>bands\<close> is ordered by the start minute.\<close>

definition schedule_bands :: "uuid \<Rightarrow> db \<Rightarrow> power_schedule_band list" where
  "schedule_bands schedule_id d =
    sort_key psb_start_min (filter (\<lambda>b. psb_schedule_id b = schedule_id) (power_schedule_bands d))"

definition band_at :: "int \<Rightarrow> power_schedule_band list \<Rightarrow> int option" where
  "band_at m bands = map_option psb_power_limit_w
     (find (\<lambda>b. psb_start_min b \<le> m \<and> m < psb_end_min b) bands)"

definition get_current_power_limit_w ::
  "zones \<Rightarrow> wall_clock \<Rightarrow> uuid \<Rightarrow> instant \<Rightarrow> db \<Rightarrow> int option" where
  "get_current_power_limit_w zones clock station_id instant d =
    (case row_of st_id station_id (stations d) of
       None \<Rightarrow> None
     | Some station \<Rightarrow>
         let local_date = power_ngay_dia_phuong zones (st_timezone station) instant;
             local_min = phut_trong_ngay clock (st_timezone station) instant
         in case get_effective_power_schedule station_id local_date d of
              None \<Rightarrow> None
            | Some schedule \<Rightarrow> band_at local_min (schedule_bands (ps_id schedule) d))"

definition schedule_rows :: "uuid \<Rightarrow> power_band list \<Rightarrow> power_schedule_band list" where
  "schedule_rows schedule_id bands = map (\<lambda>b. \<lparr>psb_schedule_id = schedule_id,
     psb_start_min = pb_start_min b, psb_end_min = pb_end_min b,
     psb_power_limit_w = pb_power_limit_w b\<rparr>) bands"

definition save_station_power_schedule ::
  "uuid \<Rightarrow> instant \<Rightarrow> uuid \<Rightarrow> day \<Rightarrow> power_band list \<Rightarrow> db \<Rightarrow> exn + power_schedule \<times> db" where
  "save_station_power_schedule new_id now station_id effective_from raw_bands d =
    (case kiem_khung_gio_cong_suat raw_bands of
       Inl issues \<Rightarrow> Inl (PowerBandsError issues)
     | Inr normalized_bands \<Rightarrow>
         (case find (\<lambda>s. ps_station_id s = station_id \<and> ps_effective_from s = effective_from)
                 (power_schedules d) of
            None \<Rightarrow>
              if new_id \<in> ps_id ` set (power_schedules d) then Inl IntegrityError
              else
                let schedule = \<lparr>ps_id = new_id, ps_station_id = station_id,
                      ps_effective_from = effective_from, ps_updated_at = now\<rparr>
                in Inr (schedule, d\<lparr>power_schedules := power_schedules d @ [schedule],
                     power_schedule_bands := power_schedule_bands d @ schedule_rows new_id normalized_bands\<rparr>)
          | Some schedule \<Rightarrow>
              Inr (schedule\<lparr>ps_updated_at := now\<rparr>,
                d\<lparr>power_schedules := update_row ps_id (ps_id schedule)
                    (\<lambda>s. s\<lparr>ps_updated_at := now\<rparr>) (power_schedules d),
                  power_schedule_bands :=
                    filter (\<lambda>b. psb_schedule_id b \<noteq> ps_id schedule) (power_schedule_bands d)
                    @ schedule_rows (ps_id schedule) normalized_bands\<rparr>)))"

section \<open>The tables\<close>

definition same_schedule :: "power_schedule \<Rightarrow> power_schedule \<Rightarrow> bool" where
  "same_schedule s t \<longleftrightarrow> ps_station_id s = ps_station_id t \<and> ps_effective_from s = ps_effective_from t"

text \<open>
  Identifiers are unique, a station has one schedule per day, every band belongs to a schedule
  and the bands of a schedule run over the day without gap or overlap, with positive limits.
\<close>

definition schedules_inv :: "db \<Rightarrow> bool" where
  "schedules_inv d \<longleftrightarrow> distinct (map ps_id (power_schedules d))
    \<and> distinct (map (\<lambda>s. (ps_station_id s, ps_effective_from s)) (power_schedules d))
    \<and> (\<forall>b\<in>set (power_schedule_bands d). psb_schedule_id b \<in> ps_id ` set (power_schedules d)
         \<and> 0 < psb_power_limit_w b)
    \<and> (\<forall>s\<in>set (power_schedules d). contiguous psb_start_min psb_end_min 0 (schedule_bands (ps_id s) d))"

lemma contiguous_rows:
  "contiguous psb_start_min psb_end_min a (schedule_rows i bands)
    \<longleftrightarrow> contiguous pb_start_min pb_end_min a bands"
  by (induction bands arbitrary: a) (auto simp: schedule_rows_def)

lemma sort_rows:
  assumes "kiem_khung_gio_cong_suat raw = Inr bands"
  shows "sort_key psb_start_min (schedule_rows i bands) = schedule_rows i bands"
  using power_bands.output_sorted [OF assms]
  by (intro sort_key_id_if_sorted) (simp add: schedule_rows_def comp_def)

lemma filter_rows: "filter (\<lambda>b. psb_schedule_id b = i) (schedule_rows j bands)
    = (if i = j then schedule_rows j bands else [])"
  by (auto simp: schedule_rows_def filter_empty_conv filter_id_conv)

lemma kiem_positive:
  assumes "kiem_khung_gio_cong_suat raw = Inr bands" and "b \<in> set bands"
  shows "0 < pb_power_limit_w b"
proof -
  have "0 \<le> pb_start_min b" "pb_start_min b < pb_end_min b"
    using power_bands.output_range [OF assms] by auto
  then obtain c where "c \<in> set raw" "same_limit c b"
    using power_bands.output_source [OF assms, of "pb_start_min b"] by auto
  moreover have "power_band_valid c" if "c \<in> set raw" for c
    using power_bands.accepts_iff [of raw] assms(1) that by blast
  ultimately show ?thesis by (metis power_band_valid_def same_limit_def)
qed

text \<open>What a successful save leaves in the tables.\<close>

lemma save_cases:
  assumes "save_station_power_schedule new_id now sid eff raw d = Inr (s, d')" and "schedules_inv d"
  obtains bands where "kiem_khung_gio_cong_suat raw = Inr bands"
    and "ps_station_id s = sid" and "ps_effective_from s = eff"
    and "s \<in> set (power_schedules d')" and "stations d' = stations d"
    and "schedule_bands (ps_id s) d' = schedule_rows (ps_id s) bands"
    and "\<And>t. t \<in> set (power_schedules d) \<Longrightarrow> ps_id t \<noteq> ps_id s
      \<Longrightarrow> t \<in> set (power_schedules d') \<and> schedule_bands (ps_id t) d' = schedule_bands (ps_id t) d"
    and "\<And>t. t \<in> set (power_schedules d') \<Longrightarrow> t = s \<or> t \<in> set (power_schedules d) \<and> ps_id t \<noteq> ps_id s"
    and "schedules_inv d'"
proof -
  obtain bands where bands: "kiem_khung_gio_cong_suat raw = Inr bands"
    using assms(1) by (auto simp: save_station_power_schedule_def split: sum.splits)
  note inv = assms(2) [unfolded schedules_inv_def]
  note rows = sort_rows [OF bands] filter_rows
  have cont: "contiguous psb_start_min psb_end_min 0 (schedule_rows i bands)" for i
    using power_bands.output_contiguous [OF bands] by (simp add: contiguous_rows)
  have pos: "\<forall>b\<in>set (schedule_rows i bands). 0 < psb_power_limit_w b \<and> psb_schedule_id b = i" for i
    using kiem_positive [OF bands] by (auto simp: schedule_rows_def)
  show ?thesis
  proof (cases "find (\<lambda>s. ps_station_id s = sid \<and> ps_effective_from s = eff) (power_schedules d)")
    case None
    then have fresh: "new_id \<notin> ps_id ` set (power_schedules d)"
      and s: "s = \<lparr>ps_id = new_id, ps_station_id = sid, ps_effective_from = eff, ps_updated_at = now\<rparr>"
      and d': "d' = d\<lparr>power_schedules := power_schedules d @ [s],
        power_schedule_bands := power_schedule_bands d @ schedule_rows new_id bands\<rparr>"
      using assms(1) bands by (auto simp: save_station_power_schedule_def Let_def split: if_splits)
    have none: "filter (\<lambda>b. psb_schedule_id b = new_id) (power_schedule_bands d) = []"
      using inv fresh by (auto simp: filter_empty_conv)
    have own: "schedule_bands new_id d' = schedule_rows new_id bands"
      using none rows by (simp add: schedule_bands_def d')
    have other: "schedule_bands i d' = schedule_bands i d" if "i \<noteq> new_id" for i
      using that rows by (simp add: schedule_bands_def d')
    have new_day: "(sid, eff) \<notin> (\<lambda>s. (ps_station_id s, ps_effective_from s)) ` set (power_schedules d)"
      using None by (force simp: find_None_iff)
    have tabs: "power_schedules d' = power_schedules d @ [s]" "stations d' = stations d"
      "power_schedule_bands d' = power_schedule_bands d @ schedule_rows new_id bands"
      by (simp_all add: d')
    have sid: "ps_id s = new_id" "ps_station_id s = sid" "ps_effective_from s = eff"
      by (simp_all add: s)
    have "contiguous psb_start_min psb_end_min 0 (schedule_bands (ps_id t) d')"
      if "t \<in> set (power_schedules d')" for t
    proof (cases "t = s")
      case False
      then have "t \<in> set (power_schedules d)" using that by (simp add: tabs)
      moreover from this have "ps_id t \<noteq> new_id" using fresh by blast
      ultimately show ?thesis using inv other by simp
    qed (use own cont sid in simp)
    then have "schedules_inv d'"
      using inv fresh new_day pos unfolding schedules_inv_def tabs by (auto simp: sid)
    then show ?thesis
      using that [OF bands sid(2,3)] own other fresh by (auto simp: sid tabs)
  next
    case (Some s0)
    then have s0: "s0 \<in> set (power_schedules d)" "ps_station_id s0 = sid" "ps_effective_from s0 = eff"
      using find_Some_iff_set [OF Some] by auto
    have s: "s = s0\<lparr>ps_updated_at := now\<rparr>"
      and d': "d' = d\<lparr>power_schedules := update_row ps_id (ps_id s0) (\<lambda>s. s\<lparr>ps_updated_at := now\<rparr>) (power_schedules d),
        power_schedule_bands := filter (\<lambda>b. psb_schedule_id b \<noteq> ps_id s0) (power_schedule_bands d)
          @ schedule_rows (ps_id s0) bands\<rparr>"
      using assms(1) bands Some by (auto simp: save_station_power_schedule_def)
    have own: "schedule_bands (ps_id s0) d' = schedule_rows (ps_id s0) bands"
      using rows by (simp add: schedule_bands_def d' comp_def)
    have other: "schedule_bands i d' = schedule_bands i d" if "i \<noteq> ps_id s0" for i
      using that rows by (auto simp: schedule_bands_def d' comp_def intro!: arg_cong2 [where f = sort_key] filter_cong)
    have keys: "map ps_id (power_schedules d') = map ps_id (power_schedules d)"
      "map (\<lambda>s. (ps_station_id s, ps_effective_from s)) (power_schedules d')
        = map (\<lambda>s. (ps_station_id s, ps_effective_from s)) (power_schedules d)"
      by (auto simp: d' update_row_def)
    have ids: "ps_id ` set (power_schedules d') = ps_id ` set (power_schedules d)"
      using arg_cong [OF keys(1), of set] by simp
    have mem: "t = s \<or> t \<in> set (power_schedules d) \<and> ps_id t \<noteq> ps_id s" if "t \<in> set (power_schedules d')" for t
      using that inv s0(1) by (auto simp: d' s set_update_row distinct_map inj_on_def)
    have sid: "ps_id s = ps_id s0" "ps_station_id s = sid" "ps_effective_from s = eff"
      using s0 by (simp_all add: s)
    have tabs: "stations d' = stations d" "power_schedule_bands d'
        = filter (\<lambda>b. psb_schedule_id b \<noteq> ps_id s0) (power_schedule_bands d) @ schedule_rows (ps_id s0) bands"
      by (simp_all add: d')
    have "contiguous psb_start_min psb_end_min 0 (schedule_bands (ps_id t) d')"
      if "t \<in> set (power_schedules d')" for t
      using mem [OF that] inv own other [of "ps_id t"] cont sid by (cases "t = s") auto
    then have "schedules_inv d'"
      unfolding schedules_inv_def keys ids tabs using inv pos s0(1) by auto
    moreover have "s \<in> set (power_schedules d')"
      and "\<And>t. t \<in> set (power_schedules d) \<Longrightarrow> ps_id t \<noteq> ps_id s \<Longrightarrow> t \<in> set (power_schedules d')"
      using s0(1) by (auto simp: d' s set_update_row)
    ultimately show ?thesis
      using that [OF bands sid(2,3) _ tabs(1) _ _ mem] own other sid by auto
  qed
qed

lemma pick_schedule_max:
  "ss \<noteq> [] \<or> best \<noteq> None \<Longrightarrow> \<exists>s. pick_schedule best ss = Some s \<and> s \<in> set_option best \<union> set ss
    \<and> (\<forall>t\<in>set_option best \<union> set ss. ps_effective_from t \<le> ps_effective_from s)"
proof (induction best ss rule: pick_schedule.induct)
  case (2 best s ss)
  show ?case
  proof (cases best)
    case None
    then show ?thesis using "2.IH"(1) by auto
  next
    case (Some b)
    then show ?thesis using "2.IH"(2) [OF Some] by (fastforce split: if_splits)
  qed
qed auto

text \<open>The effective schedule is the station's latest one that has started.\<close>

lemma effective_schedule:
  assumes "schedules_inv d" and "s \<in> set (power_schedules d)" and "ps_station_id s = sid"
    and "ps_effective_from s \<le> day"
    and "\<forall>t\<in>set (power_schedules d). ps_station_id t = sid \<longrightarrow> ps_effective_from t \<le> day
      \<longrightarrow> ps_effective_from t \<le> ps_effective_from s"
  shows "get_effective_power_schedule sid day d = Some s"
proof -
  let ?ss = "filter (\<lambda>t. ps_station_id t = sid \<and> ps_effective_from t \<le> day) (power_schedules d)"
  have "s \<in> set ?ss" using assms by simp
  then obtain r where r: "pick_schedule None ?ss = Some r" "r \<in> set ?ss"
      "ps_effective_from s \<le> ps_effective_from r"
    using pick_schedule_max [of ?ss None] by fastforce
  then have "ps_effective_from r = ps_effective_from s" and "ps_station_id r = ps_station_id s"
    using assms by fastforce+
  then have "r = s"
    using assms(1,2) r(2) by (auto simp: schedules_inv_def distinct_map inj_on_def)
  with r(1) show ?thesis by (simp add: get_effective_power_schedule_def)
qed

lemma band_at_rows:
  "band_at m (schedule_rows i bands)
    = map_option pb_power_limit_w (find (\<lambda>c. pb_start_min c \<le> m \<and> m < pb_end_min c) bands)"
  by (induction bands) (auto simp: band_at_def schedule_rows_def)

lemma contiguous_lookup:
  "contiguous psb_start_min psb_end_min a bands \<Longrightarrow> a \<le> m \<Longrightarrow> m < 1440 \<Longrightarrow>
    \<exists>b\<in>set bands. band_at m bands = Some (psb_power_limit_w b)"
proof (induction bands arbitrary: a)
  case (Cons b bands)
  show ?case
  proof (cases "m < psb_end_min b")
    case False
    then obtain c where "c \<in> set bands" "band_at m bands = Some (psb_power_limit_w c)"
      using Cons.IH [of "psb_end_min b"] Cons.prems by auto
    then show ?thesis using False by (auto simp: band_at_def)
  qed (use Cons.prems in \<open>simp add: band_at_def\<close>)
qed simp

section \<open>Properties\<close>

lemma save_schedule_roundtrip_parts:
  assumes "schedules_inv d" and "proper_clock clock"
    and "save_station_power_schedule new_id now sid eff raw d = Inr (s, d')"
    and "row_of st_id sid (stations d) = Some station"
    and "eff \<le> power_ngay_dia_phuong zones (st_timezone station) t"
    and "\<forall>x\<in>set (power_schedules d). ps_station_id x = sid
      \<longrightarrow> ps_effective_from x \<le> power_ngay_dia_phuong zones (st_timezone station) t
      \<longrightarrow> ps_effective_from x \<le> eff"
  shows "\<exists>b\<in>set raw. covers (pb_start_min b) (pb_end_min b) (phut_trong_ngay clock (st_timezone station) t)
      \<and> get_current_power_limit_w zones clock sid t d' = Some (pb_power_limit_w b)"
    and "schedules_inv d'"
proof -
  let ?day = "power_ngay_dia_phuong zones (st_timezone station) t"
  let ?m = "phut_trong_ngay clock (st_timezone station) t"
  obtain bands where b: "kiem_khung_gio_cong_suat raw = Inr bands" "ps_station_id s = sid"
      "ps_effective_from s = eff" "s \<in> set (power_schedules d')" "stations d' = stations d"
      "schedule_bands (ps_id s) d' = schedule_rows (ps_id s) bands" "schedules_inv d'"
      "\<And>x. x \<in> set (power_schedules d') \<Longrightarrow> x = s \<or> x \<in> set (power_schedules d) \<and> ps_id x \<noteq> ps_id s"
    using save_cases [OF assms(3,1)] by metis
  show "schedules_inv d'" by (rule b(7))
  have "get_effective_power_schedule sid ?day d' = Some s"
    using b assms(5,6) by (intro effective_schedule) auto
  then have now: "get_current_power_limit_w zones clock sid t d' = band_at ?m (schedule_rows (ps_id s) bands)"
    using assms(4) b(5,6) by (simp add: get_current_power_limit_w_def)
  have "0 \<le> ?m" "?m < 1440" using assms(2) by (auto simp: proper_clock_def phut_trong_ngay_def)
  from power_bands.lookup_total [OF b(1) this] obtain c r
    where "find (\<lambda>c. pb_start_min c \<le> ?m \<and> ?m < pb_end_min c) bands = Some c" "r \<in> set raw"
      "covers (pb_start_min r) (pb_end_min r) ?m" "same_limit r c" by blast
  then show "\<exists>b\<in>set raw. covers (pb_start_min b) (pb_end_min b) ?m
      \<and> get_current_power_limit_w zones clock sid t d' = Some (pb_power_limit_w b)"
    using now by (auto simp: band_at_rows same_limit_def)
qed

text \<open>
  C32: what is saved is what is looked up.  After a schedule is saved, the limit at every instant of
  a local day on which it is the latest schedule in force is the limit of the submitted row that
  covers the local minute, overnight rows included; and the tables keep their invariant.
\<close>

theorem save_schedule_roundtrip:
  assumes "schedules_inv d" and "proper_clock clock"
    and "save_station_power_schedule new_id now sid eff raw d = Inr (s, d')"
    and "row_of st_id sid (stations d) = Some station"
    and "eff \<le> power_ngay_dia_phuong zones (st_timezone station) t"
    and "\<forall>x\<in>set (power_schedules d). ps_station_id x = sid
      \<longrightarrow> ps_effective_from x \<le> power_ngay_dia_phuong zones (st_timezone station) t
      \<longrightarrow> ps_effective_from x \<le> eff"
  shows "(\<exists>b\<in>set raw. covers (pb_start_min b) (pb_end_min b) (phut_trong_ngay clock (st_timezone station) t)
      \<and> get_current_power_limit_w zones clock sid t d' = Some (pb_power_limit_w b))
    \<and> (schedules_inv d')"
  by (intro conjI impI save_schedule_roundtrip_parts [OF assms])

definition day_and_night :: "power_band list" where
  "day_and_night = [\<lparr>pb_start_min = 1080, pb_end_min = 360, pb_power_limit_w = 80000\<rparr>,
     \<lparr>pb_start_min = 360, pb_end_min = 1080, pb_power_limit_w = 50000\<rparr>]"

definition noon_clock :: wall_clock where
  "noon_clock tz t = 720"

definition limited_station :: db where
  "limited_station = one_station\<lparr>
     power_schedules := [\<lparr>ps_id = 6, ps_station_id = 3, ps_effective_from = 10, ps_updated_at = 0\<rparr>],
     power_schedule_bands := [
       \<lparr>psb_schedule_id = 6, psb_start_min = 0, psb_end_min = 360, psb_power_limit_w = 80000\<rparr>,
       \<lparr>psb_schedule_id = 6, psb_start_min = 360, psb_end_min = 1080, psb_power_limit_w = 50000\<rparr>,
       \<lparr>psb_schedule_id = 6, psb_start_min = 1080, psb_end_min = 1440, psb_power_limit_w = 80000\<rparr>]\<rparr>"

lemma save_run: "save_station_power_schedule 6 0 3 10 day_and_night one_station
    = Inr (\<lparr>ps_id = 6, ps_station_id = 3, ps_effective_from = 10, ps_updated_at = 0\<rparr>, limited_station)"
  by code_simp

lemma one_station_schedules: "schedules_inv one_station"
  by (simp add: schedules_inv_def one_station_def empty_db_def)

theorem save_schedule_roundtrip_witness:
  "get_current_power_limit_w vn_zones noon_clock 3 (11 * DAY_US) limited_station = Some 50000"
proof -
  obtain st where st: "row_of st_id 3 (stations one_station) = Some st"
    by (simp add: one_station_def)
  have day: "power_ngay_dia_phuong vn_zones (st_timezone st) (11 * DAY_US) = 11"
    by (simp add: power_ngay_dia_phuong_def vn_zones_def fixed_zone_def)
  have none: "power_schedules one_station = []" by (simp add: one_station_def empty_db_def)
  have clock: "proper_clock noon_clock" by (simp add: proper_clock_def noon_clock_def)
  have "\<exists>b\<in>set day_and_night. covers (pb_start_min b) (pb_end_min b)
        (phut_trong_ngay noon_clock (st_timezone st) (11 * DAY_US))
      \<and> get_current_power_limit_w vn_zones noon_clock 3 (11 * DAY_US) limited_station
        = Some (pb_power_limit_w b)"
    by (rule conjunct1 [OF save_schedule_roundtrip [OF one_station_schedules clock save_run st]])
      (simp_all add: day [simplified] none)
  then show ?thesis
    by (auto simp: day_and_night_def covers_def phut_trong_ngay_def noon_clock_def)
qed

text \<open>
  Once a station has a schedule in force, the limit is known at every instant, and it is
  positive; the look-up never falls between two bands.
\<close>

theorem power_limit_total:
  assumes "schedules_inv d" and "proper_clock clock"
    and "row_of st_id sid (stations d) = Some station"
    and "get_effective_power_schedule sid (power_ngay_dia_phuong zones (st_timezone station) t) d = Some s"
  shows "\<exists>w. get_current_power_limit_w zones clock sid t d = Some w \<and> 0 < w"
proof -
  let ?m = "phut_trong_ngay clock (st_timezone station) t"
  let ?ss = "filter (\<lambda>x. ps_station_id x = sid
      \<and> ps_effective_from x \<le> power_ngay_dia_phuong zones (st_timezone station) t) (power_schedules d)"
  have "s \<in> set ?ss"
    using assms(4) pick_schedule_max [of ?ss None]
    by (cases "?ss = []") (auto simp: get_effective_power_schedule_def)
  then have cont: "contiguous psb_start_min psb_end_min 0 (schedule_bands (ps_id s) d)"
    using assms(1) by (simp add: schedules_inv_def)
  have "0 \<le> ?m" "?m < 1440" using assms(2) by (auto simp: proper_clock_def phut_trong_ngay_def)
  then obtain b where "b \<in> set (schedule_bands (ps_id s) d)"
      "band_at ?m (schedule_bands (ps_id s) d) = Some (psb_power_limit_w b)"
    using contiguous_lookup [OF cont] by blast
  moreover from this(1) have "0 < psb_power_limit_w b"
    using assms(1) by (auto simp: schedules_inv_def schedule_bands_def)
  ultimately show ?thesis using assms(3,4) by (simp add: get_current_power_limit_w_def)
qed

theorem power_limit_total_witness:
  "\<exists>w. get_current_power_limit_w vn_zones noon_clock 3 (11 * DAY_US) limited_station = Some w \<and> 0 < w"
proof -
  obtain st where st: "row_of st_id 3 (stations limited_station) = Some st"
    by (simp add: limited_station_def one_station_def)
  have "schedules_inv limited_station"
    by (simp add: schedules_inv_def limited_station_def schedule_bands_def)
  moreover have "proper_clock noon_clock" by (simp add: proper_clock_def noon_clock_def)
  moreover have "get_effective_power_schedule 3
      (power_ngay_dia_phuong vn_zones (st_timezone st) (11 * DAY_US)) limited_station
      = Some \<lparr>ps_id = 6, ps_station_id = 3, ps_effective_from = 10, ps_updated_at = 0\<rparr>"
    by (simp add: get_effective_power_schedule_def power_ngay_dia_phuong_def vn_zones_def
        fixed_zone_def limited_station_def)
  ultimately show ?thesis by (rule power_limit_total [OF _ _ st])
qed

end
