(* ===== verification/Power_Control.thy ===== *)
theory Power_Control
  imports Power_Schedule Wallet
begin

text \<open>
  src/src/modules/power/service.py: owner settings of the station power control, the switch that
  enables and disables it, the gate in front of a charging start, and the notes left for the
  power worker; and \<open>put_power_schedule\<close> of stations/power_schedule_router.py.  Row locks only
  serialise transactions, so a function of the database is one locked transaction.  The columns
  \<open>limit_kw\<close> and \<open>rated_kw\<close> of a request are decimals in kilowatts; \<open>int(x * 1000)\<close> truncates.
\<close>

section \<open>Requests\<close>

record connector_setting =
  cset_connector_id :: uuid
  cset_rated_kw :: decimal

record power_setting =
  pset_version :: int
  pset_limit_kw :: decimal
  pset_connectors :: "connector_setting list"
  pset_zero_limit_verified :: bool
  pset_offline_retention_verified :: bool
  pset_verification_note :: string

text \<open>What the request schema has already checked when a handler runs.\<close>

definition kw_ok :: "decimal \<Rightarrow> decimal \<Rightarrow> bool" where
  "kw_ok most x \<longleftrightarrow> 0 < x \<and> x \<le> most \<and> x * 1000 = of_int \<lfloor>x * 1000\<rfloor>"

definition power_setting_valid :: "power_setting \<Rightarrow> bool" where
  "power_setting_valid body \<longleftrightarrow> 0 \<le> pset_version body \<and> kw_ok (999999999 / 1000) (pset_limit_kw body)
    \<and> pset_connectors body \<noteq> [] \<and> length (pset_connectors body) \<le> 200
    \<and> list_all (\<lambda>c. kw_ok (99999999 / 1000) (cset_rated_kw c)) (pset_connectors body)
    \<and> length (pset_verification_note body) \<le> 500"

definition trunc_int :: "decimal \<Rightarrow> int" where
  "trunc_int x = (if 0 \<le> x then \<lfloor>x\<rfloor> else \<lceil>x\<rceil>)"

section \<open>Look-ups\<close>

definition owned_station :: "uuid \<Rightarrow> actor_scope \<Rightarrow> db \<Rightarrow> exn + station" where
  "owned_station station_id scope d =
    (case get_station_by_id station_id scope d of
       Inl StationOwnershipDeniedError \<Rightarrow> Inl (http 403 ''permission_denied'')
     | Inl e \<Rightarrow> Inl e
     | Inr None \<Rightarrow> Inl (http 404 ''resource_not_found'')
     | Inr (Some station) \<Rightarrow>
         if st_archived_at station \<noteq> None then Inl (http 404 ''resource_not_found'') else Inr station)"

text \<open>The join of connectors and charge points; its order is only used for display.\<close>

definition registered_connectors :: "uuid \<Rightarrow> db \<Rightarrow> (connector \<times> charge_point) list" where
  "registered_connectors station_id d =
    [(c, p). c \<leftarrow> connectors d, p \<leftarrow> charge_points d,
       cn_charge_point_id c = cp_id p \<and> cp_station_id p = station_id
       \<and> cp_archived_at p = None \<and> cn_archived_at c = None]"

definition station_config :: "uuid \<Rightarrow> db \<Rightarrow> station_power option" where
  "station_config station_id d = row_of sp_station_id station_id (station_powers d)"

definition station_caps :: "uuid \<Rightarrow> db \<Rightarrow> connector_power list" where
  "station_caps station_id d = filter (\<lambda>c. cw_station_id c = station_id) (connector_powers d)"

definition update_config :: "uuid \<Rightarrow> (station_power \<Rightarrow> station_power) \<Rightarrow> db \<Rightarrow> db" where
  "update_config station_id f d =
    d\<lparr>station_powers := update_row sp_station_id station_id f (station_powers d)\<rparr>"

section \<open>Settings\<close>

definition new_config :: "uuid \<Rightarrow> int \<Rightarrow> station_power" where
  "new_config station_id limit = \<lparr>sp_station_id = station_id, sp_limit_w = limit,
     sp_applied_limit_w = limit, sp_version = 1, sp_generation = 0, sp_enabled = False,
     sp_target_enabled = False, sp_state = PDisabled, sp_zero_limit_verified = False,
     sp_offline_retention_verified = False, sp_verification_note = [], sp_issue = None,
     sp_dirty_at = None, sp_last_plan_at = None\<rparr>"

definition save_connector :: "uuid \<Rightarrow> connector_setting \<Rightarrow> db \<Rightarrow> db" where
  "save_connector station_id value d =
    (let rated = trunc_int (cset_rated_kw value * 1000) in
     case row_of cw_connector_id (cset_connector_id value) (connector_powers d) of
       None \<Rightarrow> d\<lparr>connector_powers := connector_powers d @
           [\<lparr>cw_connector_id = cset_connector_id value, cw_station_id = station_id,
             cw_rated_w = rated, cw_profile_id = profile_seq d, cw_confirmed_w = 0,
             cw_reserved_w = 0, cw_desired_w = 0, cw_baseline_boot_at = None,
             cw_pending_command_id = None\<rparr>],
           profile_seq := profile_seq d + 1\<rparr>
     | Some cap \<Rightarrow> d\<lparr>connector_powers := update_row cw_connector_id (cset_connector_id value)
           (\<lambda>c. c\<lparr>cw_rated_w := rated\<rparr>) (connector_powers d)\<rparr>)"

definition save_settings ::
  "uuid \<Rightarrow> power_setting \<Rightarrow> actor_scope \<Rightarrow> evidence \<Rightarrow> instant \<Rightarrow> db \<Rightarrow> exn + db" where
  "save_settings station_id body scope evidence now d =
    (let config = station_config station_id d in
     if pset_version body \<noteq> (case config of None \<Rightarrow> 0 | Some c \<Rightarrow> sp_version c)
     then Inl (http 409 ''power_version_conflict'')
     else if (case config of None \<Rightarrow> False
              | Some c \<Rightarrow> sp_state c \<in> {PApplying, PBootstrap, PDisablePending})
     then Inl (http 409 ''power_plan_in_progress'')
     else
       let ids = map cset_connector_id (pset_connectors body) in
       if \<not> distinct ids
         \<or> set ids \<noteq> set (map (cn_id \<circ> fst) (registered_connectors station_id d))
       then Inl (http 422 ''power_connectors_must_match_station'')
       else if (case config of None \<Rightarrow> False | Some c \<Rightarrow> sp_enabled c)
         \<and> (\<not> pset_zero_limit_verified body \<or> \<not> pset_offline_retention_verified body
            \<or> strip (pset_verification_note body) = [])
       then Inl (http 409 ''cannot_remove_enabled_commissioning_evidence'')
       else
         let limit = trunc_int (pset_limit_kw body * 1000);
             before = (case config of None \<Rightarrow> JNull
               | Some c \<Rightarrow> JObj [(''limit_w'', JInt (sp_limit_w c)), (''version'', JInt (sp_version c))]);
             d1 = (case config of
                     None \<Rightarrow> d\<lparr>station_powers := station_powers d @ [new_config station_id limit]\<rparr>
                   | Some _ \<Rightarrow> update_config station_id (\<lambda>c. c\<lparr>sp_version := sp_version c + 1\<rparr>) d);
             d2 = update_config station_id (\<lambda>c. c\<lparr>sp_limit_w := limit,
                    sp_zero_limit_verified := pset_zero_limit_verified body,
                    sp_offline_retention_verified := pset_offline_retention_verified body,
                    sp_verification_note := strip (pset_verification_note body)\<rparr>) d1;
             d3 = fold (save_connector station_id) (pset_connectors body) d2;
             d4 = update_config station_id (\<lambda>c. (if \<not> sp_enabled c then c\<lparr>sp_applied_limit_w := limit\<rparr> else c)
                    \<lparr>sp_generation := sp_generation c + 1, sp_dirty_at := Some now\<rparr>) d3
         in ghi_nhat_ky (Some (as_actor_id scope)) ''power.config_saved'' ''station'' (str_uuid station_id)
              [(''before'', before), (''limit_w'', JInt limit),
               (''version'', JInt (case station_config station_id d4 of None \<Rightarrow> 0 | Some c \<Rightarrow> sp_version c))]
              (Some (fst evidence)) (Some (snd evidence)) d4)"

section \<open>The switch\<close>

definition open_session_at :: "uuid \<Rightarrow> db \<Rightarrow> bool" where
  "open_session_at station_id d \<longleftrightarrow> (\<exists>s\<in>set (sessions d). \<exists>p\<in>set (charge_points d).
     cp_id p = cs_charge_point_id s \<and> cp_station_id p = station_id \<and> cs_ended_at s = None)"

definition change_control ::
  "uuid \<Rightarrow> int \<Rightarrow> bool \<Rightarrow> actor_scope \<Rightarrow> evidence \<Rightarrow> instant \<Rightarrow> db \<Rightarrow> exn + db" where
  "change_control station_id version enable scope evidence now d =
    (case station_config station_id d of
       None \<Rightarrow> Inl (http 409 ''power_not_configured'')
     | Some config \<Rightarrow>
         if sp_version config \<noteq> version then Inl (http 409 ''power_version_conflict'')
         else if sp_enabled config = enable \<and> sp_state config \<notin> {PDegraded, PDisablePending} then Inr d
         else if sp_state config \<in> {PApplying, PBootstrap} then Inl (http 409 ''power_plan_in_progress'')
         else if enable \<and> \<not> (sp_zero_limit_verified config \<and> sp_offline_retention_verified config
             \<and> sp_verification_note config \<noteq> []) then Inl (http 409 ''power_commissioning_required'')
         else if open_session_at station_id d
         then Inl (http 409 ''power_control_requires_no_open_sessions'')
         else if set (map (cn_id \<circ> fst) (registered_connectors station_id d))
               \<noteq> set (map cw_connector_id (station_caps station_id d))
             \<or> registered_connectors station_id d = []
         then Inl (http 409 ''power_configuration_incomplete'')
         else
           let d1 = (if enable then d\<lparr>connector_powers := map (\<lambda>c. if cw_station_id c = station_id
                       then c\<lparr>cw_baseline_boot_at := None\<rparr> else c) (connector_powers d)\<rparr> else d);
               d2 = update_config station_id (\<lambda>c. c\<lparr>sp_version := sp_version c + 1,
                      sp_generation := sp_generation c + 1, sp_enabled := True,
                      sp_target_enabled := enable,
                      sp_state := (if enable then PBootstrap else PDisablePending),
                      sp_issue := None, sp_dirty_at := Some now\<rparr>) d1
           in ghi_nhat_ky (Some (as_actor_id scope))
                (if enable then ''power.enable_requested'' else ''power.disable_requested'') ''station''
                (str_uuid station_id) [(''version'', JInt (sp_version config + 1))]
                (Some (fst evidence)) (Some (snd evidence)) d2)"

section \<open>The start gate and the notes for the worker\<close>

definition total_reserved :: "uuid \<Rightarrow> db \<Rightarrow> int" where
  "total_reserved station_id d = (\<Sum>c\<leftarrow>station_caps station_id d. cw_reserved_w c)"

definition baseline_verified :: "db \<Rightarrow> connector \<times> charge_point \<Rightarrow> bool" where
  "baseline_verified d = (\<lambda>(c, charger).
     case row_of cw_connector_id (cn_id c) (station_caps (cp_station_id charger) d) of
       None \<Rightarrow> False
     | Some cap \<Rightarrow> cw_baseline_boot_at cap \<noteq> None \<and> cw_baseline_boot_at cap = cp_last_boot_at charger)"

definition power_start_allowed :: "zones \<Rightarrow> wall_clock \<Rightarrow> uuid \<Rightarrow> instant \<Rightarrow> db \<Rightarrow> bool" where
  "power_start_allowed zones clock station_id at_time d =
    (case station_config station_id d of
       None \<Rightarrow> True
     | Some config \<Rightarrow>
         if \<not> sp_enabled config then True
         else if sp_state config \<notin> {PReady, PApplying}
           \<or> (case sp_issue config of None \<Rightarrow> False | Some issue \<Rightarrow> issue \<noteq> [])
           \<or> \<not> sp_target_enabled config then False
         else if (case get_current_power_limit_w zones clock station_id at_time d of
                    None \<Rightarrow> False
                  | Some scheduled_limit \<Rightarrow> sp_applied_limit_w config > scheduled_limit
                      \<or> total_reserved station_id d + 1380 > scheduled_limit) then False
         else
           let rows = registered_connectors station_id d in
           rows \<noteq> [] \<and> list_all (baseline_verified d) rows)"

definition note_power_start :: "uuid \<Rightarrow> uuid \<Rightarrow> db \<Rightarrow> db" where
  "note_power_start station_id connector_id d =
    (case station_config station_id d of
       None \<Rightarrow> d
     | Some config \<Rightarrow>
         if sp_enabled config
         then d\<lparr>connector_powers := update_row cw_connector_id connector_id
                  (\<lambda>c. c\<lparr>cw_confirmed_w := 0\<rparr>) (connector_powers d)\<rparr>
         else d)"

definition note_power_event :: "uuid \<Rightarrow> instant \<Rightarrow> db \<Rightarrow> db" where
  "note_power_event station_id now d =
    (case station_config station_id d of
       None \<Rightarrow> d
     | Some config \<Rightarrow>
         if sp_enabled config
         then update_config station_id (\<lambda>c. c\<lparr>sp_generation := sp_generation c + 1,
                sp_dirty_at := (case sp_dirty_at c of None \<Rightarrow> Some now | Some t \<Rightarrow> Some t)\<rparr>) d
         else d)"

definition put_power_schedule ::
  "zones \<Rightarrow> uuid \<Rightarrow> instant \<Rightarrow> uuid \<Rightarrow> day \<Rightarrow> power_band list \<Rightarrow> actor_scope \<Rightarrow> db
   \<Rightarrow> exn + power_schedule \<times> db" where
  "put_power_schedule zones new_id now station_id effective_from bands scope d =
    (case get_station_by_id station_id scope d of
       Inl StationOwnershipDeniedError \<Rightarrow> Inl (http 403 ''permission_denied'')
     | Inl e \<Rightarrow> Inl e
     | Inr None \<Rightarrow> Inl (http 404 ''resource_not_found'')
     | Inr (Some station) \<Rightarrow>
         if effective_from < power_ngay_dia_phuong zones (st_timezone station) now
         then Inl (http 422 ''effective_date'')
         else (case save_station_power_schedule new_id now station_id effective_from bands d of
             Inl (PowerBandsError issues) \<Rightarrow>
               Inl (HTTPException 422 (JList (map (\<lambda>i. JStr (issue_code i)) issues)))
           | Inl e \<Rightarrow> Inl e
           | Inr (schedule, d1) \<Rightarrow> Inr (schedule, note_power_event station_id now d1)))"

section \<open>The invariant of the power tables\<close>

definition commissioned :: "station_power \<Rightarrow> bool" where
  "commissioned c \<longleftrightarrow> sp_zero_limit_verified c \<and> sp_offline_retention_verified c
    \<and> sp_verification_note c \<noteq> []"

definition config_ok :: "station_power \<Rightarrow> bool" where
  "config_ok c \<longleftrightarrow> 0 < sp_limit_w c \<and> 0 < sp_applied_limit_w c \<and> 0 < sp_version c
    \<and> 0 \<le> sp_generation c \<and> (sp_enabled c \<longrightarrow> commissioned c)
    \<and> (\<not> sp_enabled c \<longrightarrow> sp_state c = PDisabled)"

definition cap_ok :: "connector_power \<Rightarrow> bool" where
  "cap_ok c \<longleftrightarrow> 0 < cw_rated_w c \<and> 0 \<le> cw_confirmed_w c \<and> cw_confirmed_w c \<le> cw_reserved_w c"

definition power_inv :: "db \<Rightarrow> bool" where
  "power_inv d \<longleftrightarrow> distinct (map sp_station_id (station_powers d))
    \<and> distinct (map cw_connector_id (connector_powers d))
    \<and> (\<forall>c\<in>set (station_powers d). config_ok c)
    \<and> (\<forall>c\<in>set (connector_powers d). cap_ok c \<and> cw_station_id c \<in> sp_station_id ` set (station_powers d))"

lemma power_inv_cong:
  "station_powers d' = station_powers d \<Longrightarrow> connector_powers d' = connector_powers d
    \<Longrightarrow> power_inv d' = power_inv d"
  by (simp add: power_inv_def)

lemma ghi_nhat_ky_power:
  assumes "ghi_nhat_ky a ac ot oi data p r d = Inr d'"
  shows "station_powers d' = station_powers d" "connector_powers d' = connector_powers d"
    "power_schedules d' = power_schedules d"
  using ghi_nhat_ky_frame [OF assms] by auto

lemma update_config_inv:
  assumes "power_inv d" and "\<And>c. sp_station_id (f c) = sp_station_id c"
    and "\<And>c. station_config sid d = Some c \<Longrightarrow> config_ok c \<Longrightarrow> config_ok (f c)"
  shows "power_inv (update_config sid f d)"
proof -
  have keys: "map sp_station_id (update_row sp_station_id sid f (station_powers d)) = map sp_station_id (station_powers d)"
    using assms(2) by (rule map_key_update_row)
  have "config_ok c" if c: "c \<in> set (update_row sp_station_id sid f (station_powers d))" for c
  proof -
    have "if sp_station_id c = sid then \<exists>x\<in>set (station_powers d). sp_station_id x = sid \<and> c = f x
        else c \<in> set (station_powers d)"
      using c assms(2) by (rule update_row_key)
    moreover have "station_config sid d = Some x" if "x \<in> set (station_powers d)" "sp_station_id x = sid" for x
      using row_of_unique [of sp_station_id "station_powers d" x] that assms(1)
      by (simp add: station_config_def power_inv_def)
    ultimately show ?thesis
      using assms(1,3) by (auto simp: power_inv_def split: if_splits)
  qed
  moreover have "sp_station_id ` set (update_row sp_station_id sid f (station_powers d))
      = sp_station_id ` set (station_powers d)" using keys by (metis set_map)
  ultimately show ?thesis
    using assms(1) keys by (simp add: power_inv_def update_config_def)
qed

lemma trunc_kw:
  assumes "kw_ok most x"
  shows "0 < trunc_int (x * 1000)"
proof -
  have "0 < x * 1000" and whole: "x * 1000 = of_int \<lfloor>x * 1000\<rfloor>" using assms by (simp_all add: kw_ok_def)
  then have "(0 :: rat) < of_int \<lfloor>x * 1000\<rfloor>" by simp
  then have "0 < \<lfloor>x * 1000\<rfloor>" by (simp only: of_int_0_less_iff)
  then show ?thesis using \<open>0 < x * 1000\<close> by (simp add: trunc_int_def del: zero_less_floor)
qed

lemma save_connector_frame:
  "station_powers (save_connector sid v d) = station_powers d"
  "registered_connectors s (save_connector sid v d) = registered_connectors s d"
  by (auto simp: save_connector_def registered_connectors_def Let_def split: option.splits)

lemma save_connector_inv:
  assumes "power_inv d" and "kw_ok most (cset_rated_kw v)" and "sid \<in> sp_station_id ` set (station_powers d)"
  shows "power_inv (save_connector sid v d)"
proof (cases "row_of cw_connector_id (cset_connector_id v) (connector_powers d)")
  case None
  then have "cset_connector_id v \<notin> cw_connector_id ` set (connector_powers d)"
    by (simp add: row_of_None_iff)
  then show ?thesis
    using None assms(1,3) trunc_kw [OF assms(2)]
    by (auto simp: save_connector_def power_inv_def cap_ok_def Let_def)
next
  case (Some cap)
  let ?f = "\<lambda>c. c\<lparr>cw_rated_w := trunc_int (cset_rated_kw v * 1000)\<rparr>"
  have "map cw_connector_id (update_row cw_connector_id (cset_connector_id v) ?f (connector_powers d))
      = map cw_connector_id (connector_powers d)"
    by (rule map_key_update_row) simp
  then show ?thesis
    using Some assms(1) trunc_kw [OF assms(2)]
    by (auto simp: save_connector_def power_inv_def set_update_row cap_ok_def)
qed

lemma save_connectors_inv:
  assumes "power_inv d" and "list_all (\<lambda>c. kw_ok most (cset_rated_kw c)) vs"
    and "sid \<in> sp_station_id ` set (station_powers d)"
  shows "power_inv (fold (save_connector sid) vs d)
    \<and> station_powers (fold (save_connector sid) vs d) = station_powers d"
  using assms
proof (induction vs arbitrary: d)
  case (Cons v vs)
  then show ?case
    using Cons.IH [of "save_connector sid v d"] save_connector_inv [of d most v sid]
    by (simp add: save_connector_frame)
qed simp

text \<open>The configuration row a successful save leaves.\<close>

definition saved_config :: "power_setting \<Rightarrow> instant \<Rightarrow> station_power \<Rightarrow> station_power" where
  "saved_config body now c =
    (let limit = trunc_int (pset_limit_kw body * 1000) in
     c\<lparr>sp_limit_w := limit, sp_zero_limit_verified := pset_zero_limit_verified body,
       sp_offline_retention_verified := pset_offline_retention_verified body,
       sp_verification_note := strip (pset_verification_note body),
       sp_applied_limit_w := (if sp_enabled c then sp_applied_limit_w c else limit),
       sp_generation := sp_generation c + 1, sp_dirty_at := Some now\<rparr>)"

lemma row_of_config: "station_config sid (update_config sid f d)
    = (if \<forall>c. sp_station_id (f c) = sp_station_id c then map_option f (station_config sid d)
       else station_config sid (update_config sid f d))"
  by (simp add: station_config_def update_config_def row_of_update_row)

lemma station_config_cong: "station_powers d' = station_powers d \<Longrightarrow> station_config s d' = station_config s d"
  by (simp add: station_config_def)

lemma save_settings_ok:
  assumes run: "save_settings sid body scope ev now d = Inr d'" and inv: "power_inv d"
    and valid: "power_setting_valid body"
  shows "power_inv d'"
    and "pset_version body = (case station_config sid d of None \<Rightarrow> 0 | Some c \<Rightarrow> sp_version c)"
    and "station_config sid d' = Some (saved_config body now
      (case station_config sid d of
         None \<Rightarrow> new_config sid (trunc_int (pset_limit_kw body * 1000))
       | Some c \<Rightarrow> c\<lparr>sp_version := sp_version c + 1\<rparr>))"
proof -
  define limit where "limit = trunc_int (pset_limit_kw body * 1000)"
  define d1 where "d1 = (case station_config sid d of
      None \<Rightarrow> d\<lparr>station_powers := station_powers d @ [new_config sid limit]\<rparr>
    | Some _ \<Rightarrow> update_config sid (\<lambda>c. c\<lparr>sp_version := sp_version c + 1\<rparr>) d)"
  define d2 where "d2 = update_config sid (\<lambda>c. c\<lparr>sp_limit_w := limit,
      sp_zero_limit_verified := pset_zero_limit_verified body,
      sp_offline_retention_verified := pset_offline_retention_verified body,
      sp_verification_note := strip (pset_verification_note body)\<rparr>) d1"
  define d3 where "d3 = fold (save_connector sid) (pset_connectors body) d2"
  define d4 where "d4 = update_config sid (\<lambda>c. (if \<not> sp_enabled c then c\<lparr>sp_applied_limit_w := limit\<rparr> else c)
      \<lparr>sp_generation := sp_generation c + 1, sp_dirty_at := Some now\<rparr>) d3"
  note defs = limit_def d1_def d2_def d3_def d4_def
  have ver: "pset_version body = (case station_config sid d of None \<Rightarrow> 0 | Some c \<Rightarrow> sp_version c)"
    and ev: "(case station_config sid d of None \<Rightarrow> False | Some c \<Rightarrow> sp_enabled c)
      \<Longrightarrow> pset_zero_limit_verified body \<and> pset_offline_retention_verified body
        \<and> strip (pset_verification_note body) \<noteq> []"
    and log: "\<exists>ac data. ghi_nhat_ky (Some (as_actor_id scope)) ac ''station'' (str_uuid sid) data
      (Some (fst ev)) (Some (snd ev)) d4 = Inr d'"
    using run unfolding save_settings_def Let_def defs
    by (auto split: if_splits option.splits)
  show "pset_version body = (case station_config sid d of None \<Rightarrow> 0 | Some c \<Rightarrow> sp_version c)"
    by (rule ver)
  have pos: "0 < limit" using valid trunc_kw by (auto simp: power_setting_valid_def limit_def)
  let ?c1 = "case station_config sid d of None \<Rightarrow> new_config sid limit
       | Some c \<Rightarrow> c\<lparr>sp_version := sp_version c + 1\<rparr>"
  have c1: "station_config sid d1 = Some ?c1"
    by (auto simp: d1_def station_config_def update_config_def row_of_append row_of_update_row
        new_config_def split: option.splits)
  have i1: "power_inv d1"
  proof (cases "station_config sid d")
    case None
    then have "sid \<notin> sp_station_id ` set (station_powers d)"
      by (simp add: station_config_def row_of_None_iff)
    then show ?thesis using inv None pos
      by (auto simp: d1_def power_inv_def new_config_def config_ok_def)
  next
    case (Some c)
    then show ?thesis using inv
      by (auto simp: d1_def config_ok_def commissioned_def intro!: update_config_inv)
  qed
  have i2: "power_inv d2"
    unfolding d2_def using i1 c1 pos ev
    by (intro update_config_inv) (auto simp: config_ok_def commissioned_def new_config_def split: option.splits)
  have c2: "station_config sid d2 = Some (?c1\<lparr>sp_limit_w := limit,
      sp_zero_limit_verified := pset_zero_limit_verified body,
      sp_offline_retention_verified := pset_offline_retention_verified body,
      sp_verification_note := strip (pset_verification_note body)\<rparr>)"
    unfolding d2_def using c1 by (subst row_of_config) simp
  have "sid \<in> sp_station_id ` set (station_powers d2)"
    using c2 row_of_None_iff [of sp_station_id sid "station_powers d2"] by (simp add: station_config_def)
  then have i3: "power_inv d3" "station_powers d3 = station_powers d2"
    using save_connectors_inv [OF i2, of _ "pset_connectors body" sid] valid
    by (auto simp: d3_def power_setting_valid_def)
  note c3 = trans [OF station_config_cong [OF i3(2)] c2]
  have i4: "power_inv d4"
    unfolding d4_def using i3(1) pos
    by (intro update_config_inv) (auto simp: config_ok_def commissioned_def)
  have c4: "station_config sid d4 = Some (saved_config body now ?c1)"
    unfolding d4_def using c3 by (subst row_of_config) (simp add: saved_config_def limit_def Let_def)
  obtain ac data where "ghi_nhat_ky (Some (as_actor_id scope)) ac ''station'' (str_uuid sid) data
      (Some (fst ev)) (Some (snd ev)) d4 = Inr d'" using log by blast
  note log = ghi_nhat_ky_power [OF this]
  show "power_inv d'" using i4 power_inv_cong [OF log(1,2)] by simp
  show "station_config sid d' = Some (saved_config body now
      (case station_config sid d of
         None \<Rightarrow> new_config sid (trunc_int (pset_limit_kw body * 1000))
       | Some c \<Rightarrow> c\<lparr>sp_version := sp_version c + 1\<rparr>))"
    unfolding limit_def [symmetric] using c4 station_config_cong [OF log(1)] by simp
qed

lemma reset_baselines_inv:
  "power_inv d \<Longrightarrow> power_inv (d\<lparr>connector_powers := map (\<lambda>c. if cw_station_id c = sid
      then c\<lparr>cw_baseline_boot_at := None\<rparr> else c) (connector_powers d)\<rparr>)"
proof -
  assume inv: "power_inv d"
  have "map cw_connector_id (map (\<lambda>c. if cw_station_id c = sid then c\<lparr>cw_baseline_boot_at := None\<rparr> else c)
      (connector_powers d)) = map cw_connector_id (connector_powers d)" by simp
  then show ?thesis using inv by (auto simp: power_inv_def cap_ok_def simp del: map_map)
qed

lemma change_control_ok:
  assumes run: "change_control sid version enable scope ev now d = Inr d'" and inv: "power_inv d"
  shows "power_inv d'"
    and "\<exists>c c'. station_config sid d = Some c \<and> sp_version c = version \<and> station_config sid d' = Some c'
      \<and> (d' = d \<or> sp_version c' = version + 1 \<and> sp_enabled c' \<and> sp_target_enabled c' = enable)"
proof -
  obtain c where c: "station_config sid d = Some c" "sp_version c = version"
    using run by (auto simp: change_control_def split: option.splits if_splits)
  have same: "power_inv d' \<and> (\<exists>c'. station_config sid d' = Some c'
      \<and> (d' = d \<or> sp_version c' = version + 1 \<and> sp_enabled c' \<and> sp_target_enabled c' = enable))"
  proof (cases "d' = d")
    case False
    define d1 where "d1 = (if enable then d\<lparr>connector_powers := map (\<lambda>c. if cw_station_id c = sid
        then c\<lparr>cw_baseline_boot_at := None\<rparr> else c) (connector_powers d)\<rparr> else d)"
    define f :: "station_power \<Rightarrow> station_power" where "f = (\<lambda>c. c\<lparr>sp_version := sp_version c + 1, sp_generation := sp_generation c + 1,
        sp_enabled := True, sp_target_enabled := enable,
        sp_state := (if enable then PBootstrap else PDisablePending), sp_issue := None,
        sp_dirty_at := Some now\<rparr>)"
    have com: "commissioned c" if "config_ok c"
    proof (cases "sp_enabled c")
      case False
      with that run c \<open>d' \<noteq> d\<close> have "enable"
        by (auto simp: change_control_def config_ok_def split: if_splits)
      with run c \<open>d' \<noteq> d\<close> show ?thesis
        by (auto simp: change_control_def commissioned_def split: if_splits)
    qed (use that in \<open>simp add: config_ok_def\<close>)
    obtain ac data p r where log: "ghi_nhat_ky (Some (as_actor_id scope)) ac ''station'' (str_uuid sid) data p r
        (update_config sid f d1) = Inr d'"
      using run c False by (auto simp: change_control_def d1_def f_def Let_def split: if_splits)
    have d1: "power_inv d1" "station_config sid d1 = Some c"
      using inv c reset_baselines_inv [OF inv] by (auto simp: d1_def station_config_def)
    have "power_inv (update_config sid f d1)"
      using d1 com by (intro update_config_inv) (auto simp: f_def config_ok_def commissioned_def)
    moreover have "station_config sid (update_config sid f d1) = Some (f c)"
      using d1(2) by (subst row_of_config) (simp add: f_def)
    ultimately have "power_inv d'" and "station_config sid d' = Some (f c)"
      using power_inv_cong [OF ghi_nhat_ky_power(1,2) [OF log]]
        station_config_cong [OF ghi_nhat_ky_power(1) [OF log]] by simp_all
    then show ?thesis using c by (simp add: f_def)
  qed (use inv c in simp)
  then show "power_inv d'" by blast
  from same c show "\<exists>c c'. station_config sid d = Some c \<and> sp_version c = version \<and> station_config sid d' = Some c'
      \<and> (d' = d \<or> sp_version c' = version + 1 \<and> sp_enabled c' \<and> sp_target_enabled c' = enable)"
    by blast
qed

lemma note_power_start_inv: "power_inv d \<Longrightarrow> power_inv (note_power_start sid cid d)"
proof -
  assume inv: "power_inv d"
  have "map cw_connector_id (update_row cw_connector_id cid (\<lambda>c. c\<lparr>cw_confirmed_w := 0\<rparr>) (connector_powers d))
      = map cw_connector_id (connector_powers d)" by (rule map_key_update_row) simp
  moreover have "0 \<le> cw_reserved_w c" if "c \<in> set (connector_powers d)" for c
    using inv that by (force simp: power_inv_def cap_ok_def)
  ultimately show ?thesis
    using inv by (auto simp: note_power_start_def power_inv_def set_update_row cap_ok_def split: option.splits)
qed

lemma note_power_event_inv: "power_inv d \<Longrightarrow> power_inv (note_power_event sid now d)"
  by (auto simp: note_power_event_def config_ok_def commissioned_def intro!: update_config_inv split: option.splits)

lemma put_power_schedule_inv:
  assumes "put_power_schedule zones new_id now sid eff bands scope d = Inr (s, d')" and "power_inv d"
  shows "power_inv d'"
proof -
  obtain s d1 where run: "save_station_power_schedule new_id now sid eff bands d = Inr (s, d1)"
      "d' = note_power_event sid now d1"
    using assms(1) by (auto simp: put_power_schedule_def split: sum.splits exn.splits option.splits if_splits)
  have "station_powers d1 = station_powers d" "connector_powers d1 = connector_powers d"
    using run(1) by (auto simp: save_station_power_schedule_def Let_def split: sum.splits option.splits if_splits)
  then show ?thesis using run(2) assms(2) note_power_event_inv power_inv_cong by metis
qed

text \<open>One transaction of the power service.\<close>

inductive power_step :: "db \<Rightarrow> db \<Rightarrow> bool" where
  save: "power_setting_valid body \<Longrightarrow> save_settings sid body scope ev now d = Inr d' \<Longrightarrow> power_step d d'"
| switch: "change_control sid version enable scope ev now d = Inr d' \<Longrightarrow> power_step d d'"
| start: "power_step d (note_power_start sid cid d)"
| event: "power_step d (note_power_event sid now d)"
| schedule: "put_power_schedule zones new_id now sid eff bands scope d = Inr (s, d') \<Longrightarrow> power_step d d'"

lemma power_step_inv: "power_step d d' \<Longrightarrow> power_inv d \<Longrightarrow> power_inv d'"
  by (induction rule: power_step.induct)
    (auto intro: save_settings_ok change_control_ok note_power_start_inv note_power_event_inv put_power_schedule_inv)

section \<open>Properties\<close>


text \<open>A station with one charger; its owner saves a limit of 50 kW and enables the control.\<close>

definition power_station :: db where
  "power_station = one_station\<lparr>charge_points := [example_point], connectors := [example_connector]\<rparr>"

definition owner_scope :: actor_scope where
  "owner_scope = \<lparr>as_actor_id = 4, as_owner_id = Some 4\<rparr>"

definition fifty_kw :: power_setting where
  "fifty_kw = \<lparr>pset_version = 0, pset_limit_kw = 50,
     pset_connectors = [\<lparr>cset_connector_id = 12, cset_rated_kw = 22\<rparr>],
     pset_zero_limit_verified = True, pset_offline_retention_verified = True,
     pset_verification_note = ''ok''\<rparr>"

definition power_saved :: db where
  "power_saved = (case save_settings 3 fifty_kw owner_scope (''owner.power.manage'', [''station_owner'']) 0 power_station of
     Inr d \<Rightarrow> d | Inl _ \<Rightarrow> power_station)"

lemma power_station_inv: "power_inv power_station"
  by (simp add: power_inv_def power_station_def one_station_def empty_db_def)

lemma fifty_kw_valid: "power_setting_valid fifty_kw"
  by (simp add: power_setting_valid_def fifty_kw_def kw_ok_def)

lemma power_save_run:
  "save_settings 3 fifty_kw owner_scope (''owner.power.manage'', [''station_owner'']) 0 power_station = Inr power_saved"
proof -
  have "\<exists>d. save_settings 3 fifty_kw owner_scope (''owner.power.manage'', [''station_owner'']) 0 power_station = Inr d"
  proof -
    have "case save_settings 3 fifty_kw owner_scope (''owner.power.manage'', [''station_owner'']) 0 power_station of
        Inr d \<Rightarrow> True | Inl _ \<Rightarrow> False" by code_simp
    then show ?thesis by (simp split: sum.splits)
  qed
  then show ?thesis by (auto simp: power_saved_def)
qed


lemma stale_power_version_refused_parts:
  assumes "power_inv d" and "power_setting_valid body" and "save_settings sid body scope ev now d = Inr d'"
    and "pset_version body' = pset_version body"
  shows "save_settings sid body' scope' ev' now' d' = Inl (http 409 ''power_version_conflict'')"
    and "change_control sid (pset_version body) enable scope' ev' now' d' = Inl (http 409 ''power_version_conflict'')"
proof -
  let ?c = "case station_config sid d of
      None \<Rightarrow> new_config sid (trunc_int (pset_limit_kw body * 1000)) | Some c \<Rightarrow> c\<lparr>sp_version := sp_version c + 1\<rparr>"
  note saved = save_settings_ok [OF assms(3,1,2)]
  have "sp_version (saved_config body now ?c) = pset_version body + 1"
    using saved(2) by (auto simp: saved_config_def new_config_def Let_def split: option.splits)
  then show "save_settings sid body' scope' ev' now' d' = Inl (http 409 ''power_version_conflict'')"
    and "change_control sid (pset_version body) enable scope' ev' now' d' = Inl (http 409 ''power_version_conflict'')"
    using saved(3) assms(4) by (simp_all add: save_settings_def change_control_def)
qed

text \<open>
  C33: settings are protected against lost updates.  When a save or a switch with version v has
  changed the configuration, every later save or switch of that station that still carries the
  version v is refused with 409 \<open>power_version_conflict\<close>.
\<close>

theorem stale_power_version_refused:
  assumes "power_inv d" and "power_setting_valid body" and "save_settings sid body scope ev now d = Inr d'"
    and "pset_version body' = pset_version body"
  shows "(save_settings sid body' scope' ev' now' d' = Inl (http 409 ''power_version_conflict''))
    \<and> (change_control sid (pset_version body) enable scope' ev' now' d' = Inl (http 409 ''power_version_conflict''))"
  by (intro conjI impI stale_power_version_refused_parts [OF assms])

theorem stale_power_version_refused_witness:
  "save_settings 3 fifty_kw owner_scope (''p'', []) 5 power_saved = Inl (http 409 ''power_version_conflict'')"
  by (rule conjunct1 [OF stale_power_version_refused [OF power_station_inv fifty_kw_valid power_save_run refl]])

lemma start_gate_sound_parts:
  assumes "power_start_allowed zones clock sid t d" and "station_config sid d = Some c" and "sp_enabled c"
  shows "sp_state c \<in> {PReady, PApplying}" and "sp_target_enabled c"
    and "\<forall>(cn, cp)\<in>set (registered_connectors sid d). \<exists>cap\<in>set (station_caps sid d).
      cw_connector_id cap = cn_id cn \<and> cw_baseline_boot_at cap \<noteq> None
      \<and> cw_baseline_boot_at cap = cp_last_boot_at cp"
    and "get_current_power_limit_w zones clock sid t d = Some w \<Longrightarrow>
      total_reserved sid d + 1380 \<le> w \<and> sp_applied_limit_w c \<le> w"
proof -
  have rows: "list_all (baseline_verified d) (registered_connectors sid d)"
    using assms by (auto simp: power_start_allowed_def Let_def split: if_splits)
  show "sp_state c \<in> {PReady, PApplying}" and "sp_target_enabled c"
    and "get_current_power_limit_w zones clock sid t d = Some w \<Longrightarrow>
      total_reserved sid d + 1380 \<le> w \<and> sp_applied_limit_w c \<le> w"
    using assms by (auto simp: power_start_allowed_def split: if_splits)
  show "\<forall>(cn, cp)\<in>set (registered_connectors sid d). \<exists>cap\<in>set (station_caps sid d).
      cw_connector_id cap = cn_id cn \<and> cw_baseline_boot_at cap \<noteq> None
      \<and> cw_baseline_boot_at cap = cp_last_boot_at cp"
  proof safe
    fix cn cp
    assume row: "(cn, cp) \<in> set (registered_connectors sid d)"
    then have "cp_station_id cp = sid" by (auto simp: registered_connectors_def)
    moreover have "baseline_verified d (cn, cp)" using rows row by (simp add: list_all_iff)
    ultimately show "\<exists>cap\<in>set (station_caps sid d). cw_connector_id cap = cn_id cn
        \<and> cw_baseline_boot_at cap \<noteq> None \<and> cw_baseline_boot_at cap = cp_last_boot_at cp"
      using row_of_SomeD [of cw_connector_id "cn_id cn" "station_caps sid d"]
      by (auto simp: baseline_verified_def split: option.splits)
  qed
qed


definition power_ready :: db where
  "power_ready = power_station\<lparr>
     station_powers := [(new_config 3 50000)\<lparr>sp_enabled := True, sp_target_enabled := True, sp_state := PReady,
       sp_zero_limit_verified := True, sp_offline_retention_verified := True, sp_verification_note := ''ok''\<rparr>],
     connector_powers := [\<lparr>cw_connector_id = 12, cw_station_id = 3, cw_rated_w = 22000, cw_profile_id = 1,
       cw_confirmed_w = 0, cw_reserved_w = 0, cw_desired_w = 0, cw_baseline_boot_at = Some 0,
       cw_pending_command_id = None\<rparr>]\<rparr>"


end
