(* ===== verification/Wallet_Admin.thy ===== *)
theory Wallet_Admin
  imports Closure_Laws
begin

text \<open>
  The operations around the ledger: src/src/modules/wallet/eligibility.py (may a driver start),
  reconciliation.py (find and lock inconsistent wallets), administration.py (repair, unlock,
  adjust), manual_topup.py (cash receipts) and topup_webhook_service.py (payment gateway
  callbacks).  Settings (limits, minima) are arguments; \<open>sha256\<close> is the hash of the standard
  library, an argument too, used only to name an unknown order in a warning.  An operation
  under the wallet's row lock is one transaction; savepoints roll back by returning to the
  state before them.
\<close>

section \<open>Eligibility\<close>

datatype eligibility_reason = WalletLow | WalletMissing | WalletIsLocked | TariffUnavailable

record charging_eligibility =
  el_allowed :: bool
  el_reason :: "eligibility_reason option"
  el_balance_vnd :: "vnd option"
  el_minimum_balance_vnd :: "vnd option"
  el_tariff_id :: "uuid option"

definition highest_rate :: "uuid \<Rightarrow> db \<Rightarrow> vnd option" where
  "highest_rate tariff_id d =
    (case map tb_energy_rate_vnd_per_kwh (filter (\<lambda>b. tb_tariff_id b = tariff_id) (tariff_bands d)) of
       [] \<Rightarrow> None | r # rs \<Rightarrow> Some (fold max rs r))"

definition du_so_du_de_sac ::
  "zones \<Rightarrow> vnd \<Rightarrow> int \<Rightarrow> uuid \<Rightarrow> uuid \<Rightarrow> instant \<Rightarrow> db \<Rightarrow> exn + charging_eligibility" where
  "du_so_du_de_sac zones wallet_reserve_vnd charging_minimum_kwh driver_id station_id now d =
    res_bind (lay_bieu_gia_hieu_luc zones station_id (At now) d) (\<lambda>tariff.
      let wallet = row_of w_driver_id driver_id (wallets d);
          balance = map_option w_balance_vnd wallet;
          tariff_id = map_option t_id tariff;
          minimum = (case tariff of
              None \<Rightarrow> Some wallet_reserve_vnd
            | Some t \<Rightarrow> map_option (\<lambda>rate. charging_minimum_kwh * rate) (highest_rate (t_id t) d))
      in case minimum of
           None \<Rightarrow> Inr \<lparr>el_allowed = False, el_reason = Some TariffUnavailable,
             el_balance_vnd = balance, el_minimum_balance_vnd = None, el_tariff_id = tariff_id\<rparr>
         | Some m \<Rightarrow>
             (case wallet of
                None \<Rightarrow> Inr \<lparr>el_allowed = False, el_reason = Some WalletMissing,
                  el_balance_vnd = None, el_minimum_balance_vnd = Some m, el_tariff_id = tariff_id\<rparr>
              | Some w \<Rightarrow>
                  if w_status w \<noteq> WActive
                  then Inr \<lparr>el_allowed = False, el_reason = Some WalletIsLocked,
                    el_balance_vnd = balance, el_minimum_balance_vnd = Some m, el_tariff_id = tariff_id\<rparr>
                  else
                    let allowed = (0 \<le> w_balance_vnd w \<and> m \<le> w_balance_vnd w)
                    in Inr \<lparr>el_allowed = allowed,
                         el_reason = (if allowed then None else Some WalletLow),
                         el_balance_vnd = balance, el_minimum_balance_vnd = Some m,
                         el_tariff_id = tariff_id\<rparr>))"

section \<open>Reconciliation\<close>

definition session_refs :: "charging_session \<Rightarrow> invoice \<Rightarrow> string list" where
  "session_refs charging bill = [str_int (cs_id charging), str_uuid (inv_id bill)]"

definition debit_like :: "wallet_ledger \<Rightarrow> bool" where
  "debit_like e \<longleftrightarrow> wl_entry_type e = ChargingDebit \<or> wl_reference_type e = ''charging_session''"

definition invoice_entries :: "charging_session \<Rightarrow> invoice \<Rightarrow> db \<Rightarrow> wallet_ledger list" where
  "invoice_entries charging bill d =
    filter (\<lambda>e. wl_reference_id e \<in> set (session_refs charging bill) \<and> debit_like e) (ledger d)"

definition related_invoices :: "wallet \<Rightarrow> db \<Rightarrow> (invoice \<times> charging_session) list" where
  "related_invoices wallet d =
    [(bill, c). bill \<leftarrow> invoices d, c \<leftarrow> sessions d,
       cs_id c = inv_session_id bill \<and> cs_settlement_reason c = Some ''debited''
       \<and> (inv_driver_id bill = w_driver_id wallet \<or> cs_driver_id c = Some (w_driver_id wallet)
          \<or> (\<exists>e\<in>set (invoice_entries c bill d). wl_wallet_id e = w_id wallet))]"

definition entry_issues :: "charging_session \<Rightarrow> invoice \<Rightarrow> db \<Rightarrow> wallet_ledger \<Rightarrow> string list" where
  "entry_issues charging bill d entry =
    (if Some (wl_wallet_id entry) \<noteq> map_option w_id (row_of w_driver_id (inv_driver_id bill) (wallets d))
     then [''invoice_debit_wallet''] else [])
    @ (if wl_entry_type entry \<noteq> ChargingDebit then [''invoice_debit_type''] else [])
    @ (if wl_reference_type entry \<noteq> ''charging_session''
         \<or> wl_reference_id entry \<noteq> str_int (cs_id charging)
       then [''invoice_debit_reference''] else [])
    @ (if wl_amount_vnd entry \<noteq> - inv_total_vnd bill \<or> inv_total_vnd bill = 0
       then [''invoice_debit_amount''] else [])"

definition invoice_issues :: "db \<Rightarrow> invoice \<times> charging_session \<Rightarrow> string list" where
  "invoice_issues d = (\<lambda>(bill, charging).
     (if Some (inv_driver_id bill) \<noteq> cs_driver_id charging then [''invoice_driver_mismatch''] else [])
     @ (let entries = invoice_entries charging bill d in
        (if length entries \<noteq> 1 then [''invoice_debit_count''] else [])
        @ concat (map (entry_issues charging bill d) entries)))"

definition wallet_issues :: "wallet \<Rightarrow> db \<Rightarrow> vnd \<times> string list" where
  "wallet_issues wallet d =
    (let total = ledger_total (w_id wallet) (ledger d);
         issues = (if total \<noteq> w_balance_vnd wallet then [''balance_mismatch''] else [])
           @ (if \<not> (MIN_VND \<le> total \<and> total \<le> MAX_VND) then [''ledger_total_overflow''] else [])
           @ concat (map (invoice_issues d) (related_invoices wallet d))
     in (total, sorted_strings issues))"

definition set_wallet_status :: "uuid \<Rightarrow> wallet_status \<Rightarrow> db \<Rightarrow> db" where
  "set_wallet_status wallet_id status d =
    d\<lparr>wallets := update_row w_id wallet_id (\<lambda>w. w\<lparr>w_status := status\<rparr>) (wallets d)\<rparr>"

text \<open>\<open>busy\<close> are the wallets other transactions hold locked (\<open>SKIP LOCKED\<close>).\<close>

definition reconcile_one :: "(uuid \<Rightarrow> bool) \<Rightarrow> uuid \<Rightarrow> uuid list \<times> db \<Rightarrow> exn + uuid list \<times> db" where
  "reconcile_one busy identifier = (\<lambda>(locked, d).
    if busy identifier then Inr (locked, d)
    else case row_of w_id identifier (wallets d) of
      None \<Rightarrow> Inr (locked, d)
    | Some wallet \<Rightarrow>
        let (total, issues) = wallet_issues wallet d in
        if issues = [] \<or> w_status wallet = WLocked then Inr (locked, d)
        else
          res_bind (ghi_nhat_ky None ''wallet.reconciliation_locked'' ''wallet''
              (str_uuid (w_id wallet))
              [(''reasons'', JList (map JStr issues)), (''balance_vnd'', JInt (w_balance_vnd wallet)),
               (''ledger_total_vnd'', JInt total)] None None
              (set_wallet_status identifier WLocked d))
            (\<lambda>d1. Inr (locked @ [w_id wallet], d1)))"

definition doi_chieu_so_du ::
  "(uuid \<Rightarrow> bool) \<Rightarrow> uuid option \<Rightarrow> db \<Rightarrow> exn + uuid list \<times> db" where
  "doi_chieu_so_du busy wallet_id d =
    (let ids = sort (map w_id (filter (\<lambda>w. case wallet_id of None \<Rightarrow> True | Some i \<Rightarrow> w_id w = i) (wallets d)))
     in res_fold (reconcile_one busy) ids ([], d))"

text \<open>
  One identifier of the scan, in its own transaction; the counter is a natural number.  A
  database error or \<open>ValueError\<close> is logged and the wallet skipped.
\<close>

definition reconcile_scan_one :: "(uuid \<Rightarrow> bool) \<Rightarrow> uuid \<Rightarrow> nat \<times> db \<Rightarrow> nat \<times> db" where
  "reconcile_scan_one busy identifier = (\<lambda>(changed, d).
     case doi_chieu_so_du busy (Some identifier) d of
       Inl _ \<Rightarrow> (changed, d)
     | Inr (locked, d1) \<Rightarrow> (changed + length locked, d1))"

fun reconcile_pages ::
  "nat \<Rightarrow> (uuid \<Rightarrow> bool) \<Rightarrow> uuid option \<Rightarrow> nat \<times> db \<Rightarrow> exn + nat \<times> db" where
  "reconcile_pages 0 busy cursor s = Inl Diverges"
| "reconcile_pages (Suc fuel) busy cursor s =
    (let ids = take 500 (sort (map w_id (filter (\<lambda>w. case cursor of None \<Rightarrow> True | Some c \<Rightarrow> c < w_id w)
           (wallets (snd s))))) in
     if ids = [] then Inr s
     else reconcile_pages fuel busy (Some (last ids)) (fold (reconcile_scan_one busy) ids s))"

definition run_reconciliation :: "(uuid \<Rightarrow> bool) \<Rightarrow> db \<Rightarrow> exn + nat \<times> db" where
  "run_reconciliation busy d = reconcile_pages (Suc (length (wallets d))) busy None (0, d)"

section \<open>Administration\<close>

definition admin_evidence :: "uuid \<Rightarrow> string \<Rightarrow> db \<Rightarrow> exn + evidence" where
  "admin_evidence actor_id permission d =
    res_bind (require_admin (Some actor_id) d) (\<lambda>_.
      Inr (permission, sorted_strings (map snd (filter (\<lambda>(u, r). u = actor_id) (user_roles d)))))"

definition sua_so_du_cache :: "uuid \<Rightarrow> uuid \<Rightarrow> uuid \<Rightarrow> string \<Rightarrow> db \<Rightarrow> exn + wallet \<times> db" where
  "sua_so_du_cache new_id wallet_id actor_id reason d =
    res_bind (admin_evidence actor_id ''admin.wallet.repair_cache'' d) (\<lambda>evidence.
    res_bind (lock_wallet wallet_id d) (\<lambda>wallet.
      let invalid = filter (\<lambda>i. i \<noteq> ''balance_mismatch'') (snd (wallet_issues wallet d)) in
      if invalid \<noteq> [] then Inl (WalletReconciliationError invalid)
      else phuc_hoi_so_du_cache new_id wallet_id actor_id reason (Some evidence) d))"

definition mo_khoa_vi :: "uuid \<Rightarrow> uuid \<Rightarrow> string \<Rightarrow> db \<Rightarrow> exn + wallet \<times> db" where
  "mo_khoa_vi wallet_id actor_id reason d =
    (if \<not> reason_ok reason then Inl ValueError
     else
       res_bind (admin_evidence actor_id ''admin.wallet.unlock'' d) (\<lambda>evidence.
       res_bind (lock_wallet wallet_id d) (\<lambda>wallet.
         let (total, issues) = wallet_issues wallet d in
         if issues \<noteq> [] then Inl (WalletReconciliationError issues)
         else if w_status wallet = WActive then Inr (wallet, d)
         else
           res_bind (ghi_nhat_ky (Some actor_id) ''wallet.unlocked'' ''wallet'' (str_uuid (w_id wallet))
               [(''wallet_id'', JStr (str_uuid (w_id wallet))),
                (''driver_id'', JStr (str_uuid (w_driver_id wallet))),
                (''before_balance_vnd'', JInt (w_balance_vnd wallet)),
                (''after_balance_vnd'', JInt (w_balance_vnd wallet)),
                (''before_status'', JStr ''locked''), (''after_status'', JStr ''active''),
                (''reason'', JStr (strip reason)), (''ledger_total_vnd'', JInt total),
                (''audit_version'', JInt 1)]
               (Some (fst evidence)) (Some (snd evidence)) (set_wallet_status wallet_id WActive d))
             (\<lambda>d1. Inr (wallet\<lparr>w_status := WActive\<rparr>, d1)))))"

definition adjustment_row :: "uuid \<Rightarrow> uuid \<Rightarrow> uuid \<Rightarrow> vnd \<Rightarrow> vnd \<Rightarrow> vnd \<Rightarrow> string \<Rightarrow> wallet_audit" where
  "adjustment_row audit_id wallet_id actor_id before after amount_vnd reason =
    \<lparr>wa_id = audit_id, wa_wallet_id = wallet_id, wa_actor_id = actor_id,
     wa_action = ''adjustment_authorized'', wa_before_balance_vnd = before,
     wa_after_balance_vnd = after, wa_amount_vnd = Some amount_vnd, wa_reason = strip reason\<rparr>"

definition dieu_chinh_vi ::
  "uuid \<Rightarrow> uuid \<Rightarrow> vnd \<Rightarrow> string \<Rightarrow> uuid \<Rightarrow> db \<Rightarrow> exn + wallet_ledger \<times> db" where
  "dieu_chinh_vi wallet_id actor_id amount_vnd reason audit_id d =
    res_bind (admin_evidence actor_id ''admin.wallet.adjust'' d) (\<lambda>evidence.
    res_bind (integer_vnd amount_vnd) (\<lambda>_.
    if amount_vnd = 0 then Inl WalletAmountError
    else if \<not> reason_ok reason then Inl ValueError
    else
      res_bind (lock_wallet wallet_id d) (\<lambda>wallet.
      let previous = row_of wa_id audit_id (wallet_audits d) in
      if (case previous of None \<Rightarrow> False
          | Some p \<Rightarrow> wa_wallet_id p \<noteq> wallet_id \<or> wa_actor_id p \<noteq> actor_id
              \<or> wa_amount_vnd p \<noteq> Some amount_vnd \<or> wa_reason p \<noteq> strip reason
              \<or> wa_action p \<noteq> ''adjustment_authorized'')
      then Inl WalletAdjustmentAuditError
      else
        case find_entry Adjustment (str_uuid audit_id) (ledger d) of
          Some existing \<Rightarrow>
            if previous = None then Inl WalletAdjustmentAuditError
            else ghi_so_cai id wallet_id Adjustment amount_vnd ''audit'' (str_uuid audit_id)
                   (Some actor_id) d
        | None \<Rightarrow>
            if fst (wallet_issues wallet d) \<noteq> w_balance_vnd wallet
            then Inl (WalletReconciliationError [''balance_mismatch''])
            else
              res_bind (integer_vnd (w_balance_vnd wallet + amount_vnd)) (\<lambda>after.
              let audit = (case previous of Some p \<Rightarrow> p
                    | None \<Rightarrow> adjustment_row audit_id wallet_id actor_id (w_balance_vnd wallet) after
                        amount_vnd reason);
                  d1 = (case previous of Some _ \<Rightarrow> d
                    | None \<Rightarrow> d\<lparr>wallet_audits := wallet_audits d @ [audit]\<rparr>)
              in res_bind (ghi_so_cai id wallet_id Adjustment amount_vnd ''audit'' (str_uuid audit_id)
                   (Some actor_id) d1) (\<lambda>(entry, d2).
                 res_bind (ghi_nhat_ky (Some actor_id) ''wallet.adjusted'' ''wallet_audit'' (str_uuid audit_id)
                     [(''wallet_id'', JStr (str_uuid wallet_id)),
                      (''driver_id'', JStr (str_uuid (w_driver_id wallet))),
                      (''reason'', JStr (strip reason)), (''audit_version'', JInt 1),
                      (''ledger_id'', JInt (wl_id entry)), (''amount_vnd'', JInt amount_vnd),
                      (''before_balance_vnd'', JInt (wa_before_balance_vnd audit)),
                      (''after_balance_vnd'', JInt after)]
                     (Some (fst evidence)) (Some (snd evidence)) d2) (\<lambda>d3. Inr (entry, d3)))))))"

section \<open>Manual receipts\<close>

record manual_topup_request =
  mt_amount_vnd :: vnd
  mt_reason :: "string option"
  mt_receipt_code :: "string option"
  mt_request_id :: "uuid option"
  mt_payment_received :: "bool option"
  mt_external_reference :: "string option"

definition upper_char :: "char \<Rightarrow> char" where
  "upper_char c = (let n = of_char c :: nat in if 97 \<le> n \<and> n \<le> 122 then char_of (n - 32) else c)"

definition text_field_ok :: "nat \<Rightarrow> string option \<Rightarrow> bool" where
  "text_field_ok maximum s = (case s of None \<Rightarrow> True
     | Some x \<Rightarrow> strip x = x \<and> x \<noteq> [] \<and> length x \<le> maximum)"

definition receipt_mode :: "manual_topup_request \<Rightarrow> exn + manual_topup_request" where
  "receipt_mode q =
    (case mt_receipt_code q of
       Some code \<Rightarrow>
         if take 8 (map upper_char code) = ''PT-AUTO-'' then Inl ValueError
         else if mt_request_id q \<noteq> None \<or> mt_payment_received q \<noteq> None
           \<or> mt_external_reference q \<noteq> None then Inl ValueError
         else Inr q
     | None \<Rightarrow>
         if mt_request_id q = None \<or> mt_payment_received q \<noteq> Some True then Inl ValueError
         else Inr q)"

definition topup_request_valid :: "manual_topup_request \<Rightarrow> bool" where
  "topup_request_valid q \<longleftrightarrow> 0 < mt_amount_vnd q \<and> mt_amount_vnd q \<le> MAX_VND
    \<and> text_field_ok 500 (mt_reason q) \<and> text_field_ok 128 (mt_receipt_code q)
    \<and> text_field_ok 128 (mt_external_reference q) \<and> receipt_mode q = Inr q"

definition uuid_hex :: "uuid \<Rightarrow> string" where
  "uuid_hex u = fixed_digits 16 32 (unat u)"

record manual_topup_response =
  mr_ledger_id :: int
  mr_wallet_id :: uuid
  mr_driver_id :: uuid
  mr_amount_vnd :: vnd
  mr_balance_after_vnd :: vnd
  mr_receipt_code :: string
  mr_actor_id :: uuid
  mr_request :: manual_topup_request

definition topup_response ::
  "wallet_ledger \<Rightarrow> uuid \<Rightarrow> manual_topup_request \<Rightarrow> exn + manual_topup_response" where
  "topup_response entry driver_id request =
    (case wl_actor_id entry of
       None \<Rightarrow> Inl AssertionError
     | Some actor \<Rightarrow> Inr \<lparr>mr_ledger_id = wl_id entry, mr_wallet_id = wl_wallet_id entry,
         mr_driver_id = driver_id, mr_amount_vnd = wl_amount_vnd entry,
         mr_balance_after_vnd = wl_balance_after_vnd entry, mr_receipt_code = wl_reference_id entry,
         mr_actor_id = actor, mr_request = request\<rparr>)"

definition json_text :: "string option \<Rightarrow> json" where
  "json_text s = (case s of None \<Rightarrow> JNull | Some x \<Rightarrow> JStr x)"

definition data_get :: "string \<Rightarrow> (string \<times> json) list \<Rightarrow> json" where
  "data_get key data = (case map_of data key of None \<Rightarrow> JNull | Some v \<Rightarrow> v)"

definition topup_receipt :: "manual_topup_request \<Rightarrow> string option" where
  "topup_receipt request = (case mt_request_id request of
     None \<Rightarrow> mt_receipt_code request | Some i \<Rightarrow> Some (''PT-AUTO-'' @ uuid_hex i))"

definition topup_audit :: "wallet \<Rightarrow> wallet_ledger \<Rightarrow> db \<Rightarrow> audit_log option" where
  "topup_audit wallet existing d = find (\<lambda>a. al_action a = ''wallet.manual_topup''
     \<and> al_object_id a = str_uuid (w_id wallet)
     \<and> data_get ''ledger_id'' (al_data a) = JInt (wl_id existing)) (audit_logs d)"

definition topup_conflict ::
  "wallet \<Rightarrow> uuid \<Rightarrow> manual_topup_request \<Rightarrow> uuid \<Rightarrow> wallet_ledger \<Rightarrow> audit_log option \<Rightarrow> bool" where
  "topup_conflict wallet actor_id request request_id existing audit \<longleftrightarrow>
     wl_wallet_id existing \<noteq> w_id wallet \<or> wl_actor_id existing \<noteq> Some actor_id
     \<or> wl_amount_vnd existing \<noteq> mt_amount_vnd request
     \<or> (case audit of None \<Rightarrow> True
        | Some a \<Rightarrow> data_get ''request_id'' (al_data a) \<noteq> JStr (str_uuid request_id)
            \<or> data_get ''external_reference'' (al_data a) \<noteq> json_text (mt_external_reference request)
            \<or> data_get ''payment_received'' (al_data a) \<noteq> JBool True
            \<or> data_get ''reason'' (al_data a) \<noteq> json_text (mt_reason request))"

definition topup_data ::
  "uuid \<Rightarrow> wallet \<Rightarrow> string \<Rightarrow> manual_topup_request \<Rightarrow> wallet_ledger \<Rightarrow> (string \<times> json) list" where
  "topup_data driver_id wallet reason request entry =
    [(''ledger_id'', JInt (wl_id entry)), (''driver_id'', JStr (str_uuid driver_id)),
     (''wallet_id'', JStr (str_uuid (w_id wallet))), (''reason'', JStr reason),
     (''before_balance_vnd'', JInt (wl_balance_after_vnd entry - wl_amount_vnd entry)),
     (''after_balance_vnd'', JInt (wl_balance_after_vnd entry)), (''audit_version'', JInt 1),
     (''amount_vnd'', JInt (wl_amount_vnd entry)), (''receipt_code'', JStr (wl_reference_id entry))]
    @ (case mt_request_id request of None \<Rightarrow> []
       | Some i \<Rightarrow> [(''request_id'', JStr (str_uuid i)), (''payment_received'', JBool True),
           (''external_reference'', json_text (mt_external_reference request))])"

definition nap_tay ::
  "(db \<Rightarrow> db) \<Rightarrow> vnd \<Rightarrow> uuid \<Rightarrow> uuid \<Rightarrow> manual_topup_request \<Rightarrow> evidence \<Rightarrow> db
   \<Rightarrow> exn + manual_topup_response \<times> db" where
  "nap_tay env topup_max driver_id actor_id request authorization d =
    (if \<not> is_active_admin d (Some actor_id) then Inl WalletAdminRequiredError
     else if mt_amount_vnd request > topup_max then Inl WalletAmountError
     else case topup_receipt request of
       None \<Rightarrow> Inl AssertionError
     | Some receipt_code \<Rightarrow>
         (case row_of w_driver_id driver_id (wallets d) of
            None \<Rightarrow> Inl WalletNotFoundError
          | Some wallet \<Rightarrow>
              (case find_entry ManualTopup receipt_code (ledger d) of
                 Some existing \<Rightarrow>
                   (case mt_request_id request of
                      None \<Rightarrow> Inl WalletLedgerConflictError
                    | Some request_id \<Rightarrow>
                        if topup_conflict wallet actor_id request request_id existing
                             (topup_audit wallet existing d)
                        then Inl ManualTopupRequestConflictError
                        else res_bind (topup_response existing driver_id request) (\<lambda>r. Inr (r, d)))
               | None \<Rightarrow>
                   (case mt_reason request of
                      None \<Rightarrow> Inl ManualTopupReasonError
                    | Some reason \<Rightarrow>
                        res_bind (ghi_so_cai env (w_id wallet) ManualTopup (mt_amount_vnd request)
                            ''manual_topup'' receipt_code (Some actor_id) d) (\<lambda>(entry, d1).
                        res_bind (ghi_nhat_ky (Some actor_id) ''wallet.manual_topup'' ''wallet''
                            (str_uuid (w_id wallet)) (topup_data driver_id wallet reason request entry)
                            (Some (fst authorization)) (Some (snd authorization)) d1) (\<lambda>d2.
                        res_bind (topup_response entry driver_id request) (\<lambda>r. Inr (r, d2))))))))"

section \<open>Gateway callbacks\<close>

datatype payment_status = PSucceeded | PFailed | PCancelled

record gateway_event =
  ge_gateway_transaction_id :: string
  ge_order_id :: string
  ge_amount_vnd :: vnd
  ge_status :: payment_status
  ge_reason :: "string option"

definition validate_identifier :: "string \<Rightarrow> exn + string" where
  "validate_identifier value =
    (if value \<noteq> strip value \<or> list_ex (\<lambda>c. (of_char c :: nat) < 32 \<or> (of_char c :: nat) = 127) value
     then Inl ValueError else Inr value)"

definition gateway_event_valid :: "gateway_event \<Rightarrow> bool" where
  "gateway_event_valid event \<longleftrightarrow>
    list_all (\<lambda>i. i \<noteq> [] \<and> length i \<le> 128 \<and> validate_identifier i = Inr i)
      [ge_gateway_transaction_id event, ge_order_id event]
    \<and> 0 < ge_amount_vnd event \<and> ge_amount_vnd event \<le> 2 ^ 63 - 1
    \<and> (case ge_reason event of None \<Rightarrow> True | Some r \<Rightarrow> length r \<le> 500)"

datatype warning_code =
    UnknownOrder | AmountMismatch | GatewayConflict | LateSuccess | LateNonSuccess
  | ReviewCallback | SettlementConflict

fun code_text :: "warning_code \<Rightarrow> string" where
  "code_text UnknownOrder = ''unknown_order''"
| "code_text AmountMismatch = ''amount_mismatch''"
| "code_text GatewayConflict = ''gateway_conflict''"
| "code_text LateSuccess = ''late_success''"
| "code_text LateNonSuccess = ''late_non_success''"
| "code_text ReviewCallback = ''review_callback''"
| "code_text SettlementConflict = ''settlement_conflict''"

fun WARNING_REASONS :: "warning_code \<Rightarrow> string" where
  "WARNING_REASONS UnknownOrder = ''Payment webhook references an unknown order''"
| "WARNING_REASONS AmountMismatch = ''Gateway amount does not match the order''"
| "WARNING_REASONS GatewayConflict = ''Order has a different gateway transaction''"
| "WARNING_REASONS LateSuccess = ''Success received after failure or cancellation''"
| "WARNING_REASONS LateNonSuccess = ''Failure or cancellation received after success''"
| "WARNING_REASONS ReviewCallback = ''Callback received for an order awaiting review''"
| "WARNING_REASONS SettlementConflict = ''Wallet settlement conflict''"

fun TRANSITIONS :: "topup_status \<Rightarrow> payment_status \<Rightarrow> topup_status" where
  "TRANSITIONS TPending PSucceeded = TSucceeded"
| "TRANSITIONS TPending PFailed = TFailed"
| "TRANSITIONS TPending PCancelled = TCancelled"
| "TRANSITIONS TSucceeded _ = TSucceeded"
| "TRANSITIONS TFailed PSucceeded = TNeedsReview"
| "TRANSITIONS TFailed _ = TFailed"
| "TRANSITIONS TCancelled PSucceeded = TNeedsReview"
| "TRANSITIONS TCancelled _ = TCancelled"
| "TRANSITIONS TNeedsReview _ = TNeedsReview"

record settlement_result =
  sl_status_code :: int
  sl_status :: "topup_status option"
  sl_warning :: "(string \<times> warning_code) option"

definition is_wallet_error :: "exn \<Rightarrow> bool" where
  "is_wallet_error e = (case e of
      WalletNotFoundError \<Rightarrow> True | WalletLockedError \<Rightarrow> True | WalletOwnershipError \<Rightarrow> True
    | WalletLedgerConflictError \<Rightarrow> True | WalletAmountError \<Rightarrow> True | WalletAdjustmentAuditError \<Rightarrow> True
    | WalletAdminRequiredError \<Rightarrow> True | WalletReconciliationError _ \<Rightarrow> True
    | ManualTopupRequestConflictError \<Rightarrow> True | _ \<Rightarrow> False)"

definition warn_actions :: "warning_code \<Rightarrow> string list" where
  "warn_actions code = map (\<lambda>c. ''payment_webhook.'' @ code_text c)
     (code # (if code = ReviewCallback then [LateSuccess, SettlementConflict] else []))"

definition warn_once ::
  "(string \<Rightarrow> string) \<Rightarrow> string \<Rightarrow> wallet_topup option \<Rightarrow> warning_code \<Rightarrow> db
   \<Rightarrow> exn + (string \<times> warning_code) option \<times> db" where
  "warn_once sha256 order_id topup code d =
    (let (reference, object_type) = (case topup of
           None \<Rightarrow> (sha256 order_id, ''payment_order'')
         | Some t \<Rightarrow> (str_uuid (wt_id t), ''wallet_topup''))
     in if \<exists>a\<in>set (audit_logs d). al_action a \<in> set (warn_actions code)
            \<and> al_object_type a = object_type \<and> al_object_id a = reference
        then Inr (None, d)
        else res_bind (ghi_nhat_ky None (''payment_webhook.'' @ code_text code) object_type reference
               [(''reason'', JStr (WARNING_REASONS code))] None None d)
             (\<lambda>d1. Inr (Some (reference, code), d1)))"

definition update_topup :: "uuid \<Rightarrow> (wallet_topup \<Rightarrow> wallet_topup) \<Rightarrow> db \<Rightarrow> db" where
  "update_topup topup_id f d = d\<lparr>topups := update_row wt_id topup_id f (topups d)\<rparr>"

text \<open>The result carries the status of the order row after the review.\<close>

definition review_topup ::
  "(string \<Rightarrow> string) \<Rightarrow> int \<Rightarrow> wallet_topup \<Rightarrow> warning_code \<Rightarrow> db \<Rightarrow> exn + settlement_result \<times> db" where
  "review_topup sha256 status_code topup code d =
    (let keep = wt_status topup \<in> {TSucceeded, TNeedsReview};
         d1 = (if keep then d else update_topup (wt_id topup)
                (\<lambda>t. t\<lparr>wt_status := TNeedsReview, wt_reason := Some (WARNING_REASONS code)\<rparr>) d);
         status = (if keep then wt_status topup else TNeedsReview)
     in res_bind (warn_once sha256 (wt_order_id topup) (Some topup) code d1) (\<lambda>(warning, d2).
          Inr (\<lparr>sl_status_code = status_code, sl_status = Some status, sl_warning = warning\<rparr>, d2)))"

definition payment_text :: "payment_status \<Rightarrow> string" where
  "payment_text s = (case s of PSucceeded \<Rightarrow> ''succeeded'' | PFailed \<Rightarrow> ''failed'' | PCancelled \<Rightarrow> ''cancelled'')"

definition topup_note :: "gateway_event \<Rightarrow> string option" where
  "topup_note event = (if ge_status event = PSucceeded then None
     else Some (case ge_reason event of
         Some r \<Rightarrow> if r = [] then ''Gateway reported '' @ payment_text (ge_status event) else r
       | None \<Rightarrow> ''Gateway reported '' @ payment_text (ge_status event)))"

text \<open>
  The savepoint: the gateway number is written (a second order with the same number violates its
  unique index), a success credits the wallet, and the order gets its next status.
\<close>

datatype savepoint_error = UniqueGateway | Other exn

definition settle_topup ::
  "(db \<Rightarrow> db) \<Rightarrow> wallet_topup \<Rightarrow> gateway_event \<Rightarrow> db \<Rightarrow> savepoint_error + db" where
  "settle_topup env topup event d =
    (if \<exists>t\<in>set (topups d). wt_id t \<noteq> wt_id topup
          \<and> wt_gateway_transaction_id t = Some (ge_gateway_transaction_id event)
     then Inl UniqueGateway
     else
       let d1 = update_topup (wt_id topup)
             (\<lambda>t. t\<lparr>wt_gateway_transaction_id := Some (ge_gateway_transaction_id event)\<rparr>) d in
       res_bind (if ge_status event = PSucceeded
                 then case row_of w_driver_id (wt_driver_id topup) (wallets d1) of
                     None \<Rightarrow> Inl (Other WalletNotFoundError)
                   | Some wallet \<Rightarrow>
                       (case ghi_so_cai env (w_id wallet) GatewayTopup (ge_amount_vnd event)
                            ''gateway_transaction'' (ge_gateway_transaction_id event) None d1 of
                          Inl e \<Rightarrow> Inl (Other e) | Inr (_, d2) \<Rightarrow> Inr d2)
                 else Inr d1) (\<lambda>d2.
         Inr (update_topup (wt_id topup) (\<lambda>t. t\<lparr>
           wt_status := TRANSITIONS (wt_status topup) (ge_status event),
           wt_reason := topup_note event\<rparr>) d2)))"

definition process_topup_webhook ::
  "(string \<Rightarrow> string) \<Rightarrow> (db \<Rightarrow> db) \<Rightarrow> gateway_event \<Rightarrow> db \<Rightarrow> exn + settlement_result \<times> db" where
  "process_topup_webhook sha256 env event d =
    (case row_of wt_order_id (ge_order_id event) (topups d) of
       None \<Rightarrow>
         res_bind (warn_once sha256 (ge_order_id event) None UnknownOrder d) (\<lambda>(warning, d1).
           Inr (\<lparr>sl_status_code = 404, sl_status = None, sl_warning = warning\<rparr>, d1))
     | Some topup \<Rightarrow>
         if wt_amount_vnd topup \<noteq> ge_amount_vnd event
         then review_topup sha256 400 topup AmountMismatch d
         else if wt_gateway_transaction_id topup \<notin> {None, Some (ge_gateway_transaction_id event)}
         then review_topup sha256 200 topup GatewayConflict d
         else if wt_status topup \<noteq> TPending
         then
           if wt_status topup = TNeedsReview
           then res_bind (warn_once sha256 (wt_order_id topup) (Some topup) ReviewCallback d)
                  (\<lambda>(warning, d1). Inr (\<lparr>sl_status_code = 200, sl_status = Some (wt_status topup),
                     sl_warning = warning\<rparr>, d1))
           else if TRANSITIONS (wt_status topup) (ge_status event) = TNeedsReview
           then review_topup sha256 200 topup LateSuccess d
           else if wt_status topup = TSucceeded \<and> ge_status event \<noteq> PSucceeded
           then res_bind (warn_once sha256 (wt_order_id topup) (Some topup) LateNonSuccess d)
                  (\<lambda>(warning, d1). Inr (\<lparr>sl_status_code = 200, sl_status = Some (wt_status topup),
                     sl_warning = warning\<rparr>, d1))
           else Inr (\<lparr>sl_status_code = 200, sl_status = Some (wt_status topup), sl_warning = None\<rparr>, d)
         else
           (case settle_topup env topup event d of
              Inr d1 \<Rightarrow> Inr (\<lparr>sl_status_code = 200,
                sl_status = Some (TRANSITIONS (wt_status topup) (ge_status event)), sl_warning = None\<rparr>, d1)
            | Inl UniqueGateway \<Rightarrow> review_topup sha256 200 topup SettlementConflict d
            | Inl (Other e) \<Rightarrow>
                if is_wallet_error e then review_topup sha256 200 topup SettlementConflict d else Inl e))"

section \<open>The endpoints\<close>

text \<open>
  The order of a driver: \<open>gateway\<close> is the configured adapter (\<open>Some True\<close> for VNPAY), \<open>env\<close> what
  other transactions commit during the call of the payment service, and \<open>pay\<close> whether that call
  returned a redirect.  The order is committed before the call, so it stays when the call fails.
\<close>

definition topup_order_id :: "bool \<Rightarrow> uuid \<Rightarrow> string" where
  "topup_order_id vnpay order_uuid = (if vnpay then ''vnpay'' else ''topup-'') @ uuid_hex order_uuid"

definition add_topup :: "wallet_topup \<Rightarrow> db \<Rightarrow> exn + db" where
  "add_topup topup d =
    (if wt_id topup \<in> wt_id ` set (topups d) \<or> wt_order_id topup \<in> wt_order_id ` set (topups d)
       \<or> wt_amount_vnd topup \<le> 0
     then Inl IntegrityError else Inr (d\<lparr>topups := topups d @ [topup]\<rparr>))"

definition create_topup ::
  "(db \<Rightarrow> db) \<Rightarrow> vnd \<Rightarrow> vnd \<Rightarrow> bool option \<Rightarrow> bool \<Rightarrow> uuid \<Rightarrow> uuid \<Rightarrow> uuid \<Rightarrow> vnd \<Rightarrow> uuid \<Rightarrow> db
   \<Rightarrow> (exn + wallet_topup) \<times> db" where
  "create_topup env topup_min topup_max gateway pay new_wallet new_topup order_uuid amount_vnd actor_id d =
    (if \<not> (topup_min \<le> amount_vnd \<and> amount_vnd \<le> topup_max) then (Inl (http 422 ''topup_amount''), d)
     else case gateway of
       None \<Rightarrow> (Inl (http 503 ''payment_gateway''), d)
     | Some vnpay \<Rightarrow>
         (case ensure_driver_wallet new_wallet actor_id d of
            Inl e \<Rightarrow> (Inl (if e = WalletDriverRequiredError then http 403 ''driver_wallet'' else e), d)
          | Inr (wallet, d1) \<Rightarrow>
              (case add_topup \<lparr>wt_id = new_topup, wt_driver_id = w_driver_id wallet,
                     wt_amount_vnd = amount_vnd, wt_status = TPending,
                     wt_order_id = topup_order_id vnpay order_uuid,
                     wt_gateway_transaction_id = None, wt_reason = None\<rparr> d1 of
                 Inl e \<Rightarrow> (Inl e, d)
               | Inr d2 \<Rightarrow>
                   let d3 = env d2 in
                   if \<not> pay then (Inl (http 503 ''payment_unconfirmed''), d3)
                   else case row_of wt_id new_topup (topups d3) of
                     None \<Rightarrow> (Inl LookupError, d3) | Some topup \<Rightarrow> (Inr topup, d3))))"

text \<open>
  The webhook endpoint; \<open>verify\<close> is \<open>gateway.verify_webhook\<close> applied to the raw body and the
  headers, which returns a validated event or raises.  The answer is the HTTP status and body.
\<close>

definition receive_payment_webhook ::
  "(string \<Rightarrow> string) \<Rightarrow> (db \<Rightarrow> db) \<Rightarrow> string list \<Rightarrow> (string \<Rightarrow> exn + gateway_event) option \<Rightarrow> db
   \<Rightarrow> exn + (int \<times> topup_status option \<times> bool) \<times> db" where
  "receive_payment_webhook sha256 env signatures gateway d =
    (case signatures of
       [signature] \<Rightarrow>
         (case gateway of
            None \<Rightarrow> Inl (http 503 ''Payment gateway unavailable'')
          | Some verify \<Rightarrow>
              (case verify signature of
                 Inl InvalidWebhookSignature \<Rightarrow> Inl (http 401 ''Invalid webhook signature'')
               | Inl InvalidWebhookPayload \<Rightarrow> Inl (http 400 ''Invalid webhook payload'')
               | Inl ValueError \<Rightarrow> Inl (http 400 ''Invalid webhook payload'')
               | Inl e \<Rightarrow> Inl e
               | Inr event \<Rightarrow>
                   res_bind (process_topup_webhook sha256 env event d) (\<lambda>(result, d1).
                     Inr ((sl_status_code result, sl_status result, sl_status_code result = 200), d1))))
     | _ \<Rightarrow> Inl (http 401 ''Invalid webhook signature''))"

end
