(* ===== verification/Wallet_Books.thy ===== *)
theory Wallet_Books
  imports Wallet_Admin
begin

text \<open>
  The books as a whole.  Every ledger row has its origin: a debit belongs to a charging session,
  a gateway credit to exactly one succeeded order.  All operations that touch money keep this,
  also when other transactions commit in the middle of them; therefore reconciliation finds
  nothing to lock as long as only the system's own operations write.
\<close>

section \<open>The invariant\<close>

definition proven_debit :: "wallet_ledger \<Rightarrow> bool" where
  "proven_debit r \<longleftrightarrow> wl_entry_type r = ChargingDebit \<and> wl_reference_type r = ''charging_session''
     \<and> (\<exists>n. wl_reference_id r = str_int n)"

definition debits_proven :: "db \<Rightarrow> bool" where
  "debits_proven d \<longleftrightarrow> (\<forall>r\<in>set (ledger d). debit_like r \<longrightarrow> proven_debit r)"

definition sessions_billed :: "db \<Rightarrow> bool" where
  "sessions_billed d \<longleftrightarrow> (\<forall>c\<in>set (sessions d).
     (cs_settlement_reason c = Some ''debited'' \<longrightarrow> cs_settlement_completed_at c \<noteq> None)
     \<and> (\<forall>b\<in>set (invoices d). inv_session_id b = cs_id c \<longrightarrow> cs_driver_id c = Some (inv_driver_id b)))"

definition credit_of :: "wallet_topup \<Rightarrow> db \<Rightarrow> wallet_ledger \<Rightarrow> bool" where
  "credit_of t d r \<longleftrightarrow> wl_entry_type r = GatewayTopup
     \<and> wt_gateway_transaction_id t = Some (wl_reference_id r) \<and> wl_amount_vnd r = wt_amount_vnd t
     \<and> (\<exists>w. row_of w_id (wl_wallet_id r) (wallets d) = Some w \<and> w_driver_id w = wt_driver_id t)"

definition orders_distinct :: "db \<Rightarrow> bool" where
  "orders_distinct d \<longleftrightarrow> distinct (map wt_id (topups d)) \<and> distinct (map wt_order_id (topups d))
    \<and> (\<forall>t\<in>set (topups d). \<forall>u\<in>set (topups d). wt_gateway_transaction_id t \<noteq> None
         \<longrightarrow> wt_gateway_transaction_id t = wt_gateway_transaction_id u \<longrightarrow> t = u)"

definition orders_credited :: "db \<Rightarrow> bool" where
  "orders_credited d \<longleftrightarrow>
    (\<forall>t\<in>set (topups d). wt_status t = TSucceeded \<longrightarrow> (\<exists>r\<in>set (ledger d). credit_of t d r))
    \<and> (\<forall>r\<in>set (ledger d). wl_entry_type r = GatewayTopup \<longrightarrow>
         (\<exists>t\<in>set (topups d). wt_status t = TSucceeded \<and> credit_of t d r))"

definition books_inv :: "db \<Rightarrow> bool" where
  "books_inv d \<longleftrightarrow> closure_inv d \<and> debits_proven d \<and> sessions_billed d \<and> orders_distinct d
     \<and> orders_credited d"

lemma books_invD:
  assumes "books_inv d"
  shows "closure_inv d" "debits_proven d" "sessions_billed d" "orders_distinct d" "orders_credited d"
    "wallet_inv d"
  using assms by (simp_all add: books_inv_def closure_inv_def)

lemma orders_distinct_cong: "topups d' = topups d \<Longrightarrow> orders_distinct d' = orders_distinct d"
  by (simp only: orders_distinct_def)

section \<open>Steps that only append to the ledger\<close>

definition keeps_drivers :: "db \<Rightarrow> db \<Rightarrow> bool" where
  "keeps_drivers d d' \<longleftrightarrow> (\<forall>wid w. row_of w_id wid (wallets d) = Some w \<longrightarrow>
     (\<exists>w'. row_of w_id wid (wallets d') = Some w' \<and> w_driver_id w' = w_driver_id w))"

definition append_step :: "wallet_ledger list \<Rightarrow> db \<Rightarrow> db \<Rightarrow> bool" where
  "append_step rows d d' \<longleftrightarrow> wallet_inv d' \<and> keeps_drivers d d' \<and> ledger d' = ledger d @ rows
    \<and> (\<forall>r\<in>set rows. debit_like r \<longrightarrow> proven_debit r)
    \<and> sessions d' = sessions d \<and> invoices d' = invoices d \<and> invoice_lines d' = invoice_lines d
    \<and> tariffs d' = tariffs d \<and> tariff_bands d' = tariff_bands d"

definition money_step :: "db \<Rightarrow> db \<Rightarrow> bool" where
  "money_step d d' \<longleftrightarrow> topups d' = topups d
    \<and> (\<exists>rows. append_step rows d d' \<and> (\<forall>r\<in>set rows. wl_entry_type r \<noteq> GatewayTopup))"

lemma keeps_drivers_refl [simp]: "keeps_drivers d d"
  by (simp add: keeps_drivers_def)

lemma keeps_drivers_trans: "keeps_drivers d d1 \<Longrightarrow> keeps_drivers d1 d2 \<Longrightarrow> keeps_drivers d d2"
  unfolding keeps_drivers_def by metis

lemma keeps_drivers_same [intro]: "wallets d' = wallets d \<Longrightarrow> keeps_drivers d d'"
  by (simp add: keeps_drivers_def)

lemma keeps_drivers_update:
  assumes "wallets d' = update_row w_id wid f (wallets d)"
    and "\<And>w. w_id (f w) = w_id w" and "\<And>w. w_driver_id (f w) = w_driver_id w"
  shows "keeps_drivers d d'"
  using assms(2, 3) unfolding keeps_drivers_def assms(1) by (simp add: row_of_update_row)

lemma keeps_drivers_posted: "keeps_drivers d (posted_db wid b r d)"
  by (auto simp: keeps_drivers_def posted_db_wallet)

lemma money_step_refl [simp]: "wallet_inv d \<Longrightarrow> money_step d d"
  by (auto simp: money_step_def append_step_def)

lemma append_step_trans: "append_step xs d d1 \<Longrightarrow> append_step ys d1 d2 \<Longrightarrow> append_step (xs @ ys) d d2"
  unfolding append_step_def by (auto intro: keeps_drivers_trans)

lemma money_step_trans:
  assumes "money_step d d1" and "money_step d1 d2"
  shows "money_step d d2"
proof -
  obtain xs ys where "append_step xs d d1" "append_step ys d1 d2"
    "\<forall>r\<in>set (xs @ ys). wl_entry_type r \<noteq> GatewayTopup" "topups d2 = topups d"
    using assms unfolding money_step_def by auto
  with append_step_trans show ?thesis unfolding money_step_def by blast
qed

lemma credit_of_keeps: "credit_of t d r \<Longrightarrow> keeps_drivers d d' \<Longrightarrow> credit_of t d' r"
  unfolding credit_of_def keeps_drivers_def by metis

lemma append_keeps_ledger:
  "ledger d' = ledger d @ rows \<Longrightarrow> keeps_drivers d d' \<Longrightarrow> keeps_ledger d d'"
  by (simp add: keeps_ledger_def keeps_drivers_def find_entry_append)

lemma append_step_closure:
  assumes "closure_inv d" and "append_step rows d d'"
  shows "closure_inv d'"
proof -
  have st: "wallet_inv d'" "keeps_drivers d d'" "ledger d' = ledger d @ rows"
      "sessions d' = sessions d" "invoices d' = invoices d" "invoice_lines d' = invoice_lines d"
      "tariffs d' = tariffs d" "tariff_bands d' = tariff_bands d"
    using assms(2) unfolding append_step_def by blast+
  have "settled_ok d' c" if "c \<in> set (sessions d)" for c
    by (rule settled_ok_mono [OF closure_invD(5) [OF assms(1) that]])
      (simp_all add: append_keeps_ledger [OF st(3,2)] st(5))
  then show ?thesis
    using assms(1) st pricing_inv_cong [of d' d] billing_inv_cong [of d d']
    by (simp add: closure_inv_def same_billing_def)
qed

lemma append_step_books:
  assumes "books_inv d" and step: "append_step rows d d'"
  shows "closure_inv d'" "debits_proven d'" "sessions_billed d'"
    "credit_of t d r \<Longrightarrow> credit_of t d' r"
proof -
  note inv = books_invD [OF assms(1)]
  have st: "keeps_drivers d d'" "ledger d' = ledger d @ rows"
      "\<forall>r\<in>set rows. debit_like r \<longrightarrow> proven_debit r"
      "sessions d' = sessions d" "invoices d' = invoices d"
    using step unfolding append_step_def by blast+
  show "debits_proven d'" using inv(2) st(2,3) by (auto simp: debits_proven_def)
  show "sessions_billed d'" using inv(3) unfolding sessions_billed_def st(4,5) .
  show "closure_inv d'" by (rule append_step_closure [OF inv(1) step])
  show "credit_of t d r \<Longrightarrow> credit_of t d' r" by (rule credit_of_keeps [OF _ st(1)])
qed

lemma money_step_books:
  assumes "books_inv d" and "money_step d d'"
  shows "books_inv d'"
proof -
  obtain rows where st: "append_step rows d d'" "\<forall>r\<in>set rows. wl_entry_type r \<noteq> GatewayTopup"
      "topups d' = topups d" "ledger d' = ledger d @ rows"
    using assms(2) unfolding money_step_def append_step_def by blast
  note step = append_step_books [OF assms(1) st(1)]
  have "orders_credited d'"
    using books_invD(5) [OF assms(1)] st(2-4) step(4) unfolding orders_credited_def by fastforce
  then show ?thesis
    using step(1-3) books_invD(4) [OF assms(1)] orders_distinct_cong [OF st(3)] by (simp add: books_inv_def)
qed

lemma ghi_so_cai_money:
  assumes inv: "wallet_inv d" and env: "rely wid d (env d)"
    and run: "ghi_so_cai env wid et amt rt ri actor d = Inr (row, d')"
    and et: "et \<noteq> GatewayTopup" and proof_of: "et = ChargingDebit \<or> strip rt = ''charging_session'' \<Longrightarrow>
      et = ChargingDebit \<and> strip rt = ''charging_session'' \<and> (\<exists>n. ri = str_int n)"
  shows "money_step d d' \<or> money_step (env d) d'"
  using run
proof (cases rule: ghi_so_cai_cases)
  case replayed
  with inv show ?thesis by simp
next
  case lost_race
  with env show ?thesis by (simp add: rely_def)
next
  case (posted w)
  have row: "wl_entry_type row = et" "wl_reference_type row = strip rt" "wl_reference_id row = strip ri"
    unfolding posted(9) posted_row_def by simp_all
  have "proven_debit row" if "debit_like row"
  proof -
    have "et = ChargingDebit \<or> strip rt = ''charging_session''"
      using that unfolding debit_like_def row by blast
    from proof_of [OF this] show ?thesis unfolding proven_debit_def row by auto
  qed
  moreover have "keeps_drivers (env d) d'" unfolding posted(10) by (rule keeps_drivers_posted)
  ultimately have "money_step (env d) d'"
    using ghi_so_cai_inv [OF inv env run] posted(10) row(1) et
    by (simp add: money_step_def append_step_def posted_db_def)
  then show ?thesis by simp
qed

lemma ghi_nhat_ky_money:
  assumes "wallet_inv d" and "ghi_nhat_ky a ac ot oi data p r d = Inr d'"
  shows "money_step d d'"
  using assms wallet_inv_cong [of d' d] keeps_drivers_same [of d' d] ghi_nhat_ky_tables [OF assms(2)]
  by (simp add: money_step_def append_step_def)

lemma ensure_driver_wallet_money:
  assumes "wallet_inv d" and "ensure_driver_wallet new_id driver d = Inr (w, d')"
  shows "money_step d d'"
proof -
  have "d' = d \<or> d' = d\<lparr>wallets := wallets d @ [w]\<rparr>"
    using assms(2) by (auto simp: ensure_driver_wallet_def Let_def split: option.splits if_splits)
  with ensure_driver_wallet_inv(1) [OF assms] show ?thesis
    by (auto simp: money_step_def append_step_def keeps_drivers_def row_of_append)
qed

lemma debit_wallet_money:
  assumes "wallet_inv d" and "debit_wallet new_id wid driver d = Inr (w, d')"
  shows "money_step d d'"
  using assms
  by (auto simp: debit_wallet_def split: option.splits if_splits dest: ensure_driver_wallet_money)

lemma tru_vi_money:
  assumes "wallet_inv d" and "tru_vi new_id (Some bill) None wid actor d = Inr (res, d')"
  shows "money_step d d'"
  using assms(2)
proof (cases rule: tru_vi_cases)
  case (debited w d1 row)
  have inv: "wallet_inv d1" by (rule debit_wallet_inv(1) [OF assms(1) debited(2)])
  have "strip ''charging_session'' = ''charging_session''" by (rule strip_id) (simp add: py_isspace_def Let_def)
  then have "money_step d1 d'"
    using ghi_so_cai_money [where env = id, OF inv _ debited(3)] inv by (auto simp: rely_refl)
  with debit_wallet_money [OF assms(1) debited(2)] show ?thesis by (rule money_step_trans)
qed (use assms(1) in simp)

section \<open>Closing sessions\<close>

lemma sessions_update_books:
  assumes inv: "books_inv d" and closure: "closure_inv (d\<lparr>sessions := update_row cs_id sid f (sessions d)\<rparr>)"
    and f: "\<And>c. cs_driver_id (f c) = cs_driver_id c" "\<And>c. cs_id (f c) = cs_id c"
      "\<And>c. c \<in> set (sessions d) \<Longrightarrow> cs_settlement_reason (f c) = Some ''debited'' \<Longrightarrow>
        cs_settlement_completed_at (f c) \<noteq> None"
  shows "books_inv (d\<lparr>sessions := update_row cs_id sid f (sessions d)\<rparr>)"
proof -
  note inv = books_invD [OF inv]
  let ?d = "d\<lparr>sessions := update_row cs_id sid f (sessions d)\<rparr>"
  have "sessions_billed ?d"
    using inv(3) f by (fastforce simp: sessions_billed_def set_update_row)
  moreover have "debits_proven ?d" using inv(2) by (simp add: debits_proven_def)
  moreover have "orders_distinct ?d" using inv(4) orders_distinct_cong [of ?d d] by simp
  moreover have "orders_credited ?d" using inv(5) by (simp add: orders_credited_def credit_of_def)
  ultimately show ?thesis using closure by (simp add: books_inv_def)
qed

lemma review_books:
  assumes "books_inv d"
  shows "books_inv (add_review_reason sid reason d)"
  using add_review_reason_inv [OF books_invD(1) [OF assms], of sid reason] books_invD(3) [OF assms]
  unfolding add_review_reason_def sessions_billed_def
  by (intro sessions_update_books [OF assms]) auto

lemma mark_settled_books:
  assumes "books_inv d" and "closure_inv (mark_settled now sid bill d)"
  shows "books_inv (mark_settled now sid bill d)"
  using sessions_update_books [OF assms(1), of sid] assms(2) unfolding mark_settled_def by simp

lemma books_cong:
  assumes "books_inv d" and "closure_inv d'" and "ledger d' = ledger d" and "sessions d' = sessions d"
    and "invoices d' = invoices d" and "topups d' = topups d" and "wallets d' = wallets d"
  shows "books_inv d'"
  using books_invD [OF assms(1)] assms(2)
  unfolding books_inv_def debits_proven_def sessions_billed_def orders_distinct_def orders_credited_def
    credit_of_def assms(3-)
  by blast

lemma saved_invoice_books:
  assumes inv: "books_inv d" and c: "row_of cs_id sid (sessions d) = Some charging"
    and saved: "saved_invoice charging bill zones d d1"
  shows "books_inv (d1\<lparr>notifications := ns\<rparr>)"
proof -
  note binv = books_invD [OF inv]
  let ?d = "d1\<lparr>notifications := ns\<rparr>"
  obtain ts lines where d1: "d1 = d\<lparr>tariffs := ts, invoices := invoices d @ [bill], invoice_lines := invoice_lines d @ lines\<rparr>"
    and bill: "inv_session_id bill = cs_id charging" "Some (inv_driver_id bill) = cs_driver_id charging"
    using saved unfolding saved_invoice_def by blast
  have "x = charging" if "x \<in> set (sessions d)" "cs_id x = cs_id charging" for x
    using unique_row [of cs_id "sessions d" x charging] closure_invD(4) [OF binv(1)] row_of_SomeD [OF c] that by auto
  then have "sessions_billed ?d"
    using binv(3) bill unfolding sessions_billed_def by (auto simp: d1)
  moreover have "debits_proven ?d" "orders_credited ?d"
    using binv(2,5) by (simp_all add: d1 debits_proven_def orders_credited_def credit_of_def)
  moreover have "orders_distinct ?d" using binv(4) orders_distinct_cong [of ?d d] by (simp add: d1)
  moreover have "closure_inv ?d"
    by (rule notifications_closure [OF saved_invoice_closure [OF binv(1) saved]])
  ultimately show ?thesis by (simp add: books_inv_def)
qed

lemma lap_hoa_don_books:
  assumes "proper_zones zones" and inv: "books_inv d"
    and run: "lap_hoa_don zones ret now bill_id sid d = Inr (r, d')"
  shows "books_inv d'"
  using run assms(1) closure_invD(2) [OF books_invD(1) [OF inv]]
proof (cases rule: lap_hoa_don_cases)
  case (review reason)
  then show ?thesis using review_books [OF inv] by simp
next
  case (again charging bill)
  then obtain ns where "d' = d\<lparr>notifications := ns\<rparr>" by blast
  then show ?thesis
    using books_cong [OF inv lap_hoa_don_closure [OF assms(1) books_invD(1) [OF inv] run]] by simp
next
  case (new charging bill d1)
  then show ?thesis using saved_invoice_books [OF inv] by blast
qed (use inv in simp)

lemma settle_invoice_books:
  assumes inv: "books_inv d" and bill: "row_of inv_session_id sid (invoices d) = Some bill"
    and run: "settle_invoice now wid sid bill d = Inr (r, d')"
  shows "books_inv d'"
proof -
  note closure = settle_invoice_cases [OF books_invD(1) [OF inv] bill run]
  consider "d' = add_review_reason sid ''settlement_ledger_mismatch'' d"
    | d1 where "money_step d d1" "d' = mark_settled now sid bill d1"
    using run tru_vi_money [OF books_invD(6) [OF inv]] money_step_refl [OF books_invD(6) [OF inv]]
    by (auto simp: settle_invoice_def Let_def split: if_splits) blast+
  then show ?thesis
  proof cases
    case 1
    then show ?thesis using review_books [OF inv] by simp
  next
    case (2 d1)
    then show ?thesis
      using mark_settled_books [OF money_step_books [OF inv 2(1)]] closure by blast
  qed
qed

lemma chot_phien_books:
  assumes "proper_zones zones" and inv: "books_inv d"
    and run: "chot_phien zones ret now bill_id wid settle sid d = Inr (r, d')"
  shows "books_inv d'"
  using assms(1) books_invD(1) [OF inv] run
proof (cases rule: chot_phien_cases)
  case (issued d1)
  then show ?thesis using lap_hoa_don_books [OF assms(1) inv] by blast
next
  case (settled bill d1)
  then show ?thesis using lap_hoa_don_books [OF assms(1) inv] settle_invoice_books by blast
qed

section \<open>Administration\<close>

lemma set_wallet_status_money:
  assumes "wallet_inv d"
  shows "money_step d (set_wallet_status wid st d)"
proof -
  let ?d = "set_wallet_status wid st d"
  let ?ws = "update_row w_id wid (\<lambda>w. w\<lparr>w_status := st\<rparr>) (wallets d)"
  have tables: "wallets ?d = ?ws" "ledger ?d = ledger d" "ledger_seq ?d = ledger_seq d"
    by (simp_all add: set_wallet_status_def)
  have ids: "map w_id ?ws = map w_id (wallets d)" "map w_driver_id ?ws = map w_driver_id (wallets d)"
    by (auto simp: update_row_def)
  have keys: "w_id ` set ?ws = w_id ` set (wallets d)" using ids(1) by (metis list.set_map)
  have "w_balance_vnd w = ledger_total (w_id w) (ledger d) \<and> MIN_VND \<le> w_balance_vnd w
      \<and> w_balance_vnd w \<le> MAX_VND" if "w \<in> set ?ws" for w
    using that assms by (fastforce simp: wallet_inv_def set_update_row)
  then have "wallet_inv ?d" using assms unfolding wallet_inv_def tables ids keys by blast
  moreover have "keeps_drivers d ?d"
    by (rule keeps_drivers_update [of _ wid "\<lambda>w. w\<lparr>w_status := st\<rparr>"]) (simp_all add: set_wallet_status_def)
  ultimately show ?thesis by (auto simp: money_step_def append_step_def set_wallet_status_def)
qed

lemma money_step_inv: "money_step d d' \<Longrightarrow> wallet_inv d'"
  by (auto simp: money_step_def append_step_def)

lemma money_step_logged:
  assumes "money_step d d1" and "ghi_nhat_ky a ac ot oi data p r d1 = Inr d'"
  shows "money_step d d'"
  using money_step_trans [OF assms(1) ghi_nhat_ky_money [OF money_step_inv [OF assms(1)] assms(2)]] .

lemma mo_khoa_vi_money:
  assumes "wallet_inv d" and "mo_khoa_vi wid actor reason d = Inr (w, d')"
  shows "money_step d d'"
  using assms money_step_logged [OF set_wallet_status_money [OF assms(1)]]
  by (auto simp: mo_khoa_vi_def Let_def case_prod_unfold split: if_splits)

text \<open>The cache is never wrong under the invariant, so the repair has nothing to do.\<close>

lemma sua_so_du_cache_same:
  assumes "wallet_inv d" and "sua_so_du_cache new_id wid actor reason d = Inr (w, d')"
  shows "d' = d"
proof -
  obtain auth where "phuc_hoi_so_du_cache new_id wid actor reason auth d = Inr (w, d')"
    using assms(2) by (auto simp: sua_so_du_cache_def Let_def split: if_splits)
  then show ?thesis
  proof (cases rule: phuc_hoi_so_du_cache_cases)
    case (repaired w0 audit row)
    then have "w0 \<in> set (wallets d)" "w_id w0 = wid" using row_of_SomeD [OF repaired(1)] by auto
    with repaired(2) assms(1) show ?thesis by (auto simp: wallet_inv_def)
  qed simp
qed

lemma strip_audit: "strip ''audit'' = ''audit''" "strip ''manual_topup'' = ''manual_topup''"
    "strip ''gateway_transaction'' = ''gateway_transaction''"
  by (rule strip_id, simp add: py_isspace_def Let_def)+

lemma adjustment_money:
  assumes "wallet_inv d" and "ghi_so_cai id wid Adjustment amt ''audit'' ri actor d = Inr (row, d')"
  shows "money_step d d'"
  using ghi_so_cai_money [where env = id, OF assms(1) _ assms(2)] assms(1)
  by (simp add: rely_refl strip_audit)

lemma audits_money:
  assumes "wallet_inv d"
  shows "money_step d (d\<lparr>wallet_audits := as\<rparr>)"
  using assms wallet_inv_cong [of "d\<lparr>wallet_audits := as\<rparr>" d]
  by (auto simp: money_step_def append_step_def)

lemma adjustment_after_audit_money:
  assumes "wallet_inv d"
    and "ghi_so_cai id wid Adjustment amt ''audit'' ri actor (d\<lparr>wallet_audits := as\<rparr>) = Inr (row, d2)"
  shows "money_step d d2"
  using money_step_trans audits_money [OF assms(1)] adjustment_money [OF _ assms(2)] money_step_inv
  by blast

lemma dieu_chinh_vi_money:
  assumes "wallet_inv d" and "dieu_chinh_vi wid actor amt reason audit_id d = Inr (row, d')"
  shows "money_step d d'"
  using assms(2)
  by (auto simp: dieu_chinh_vi_def Let_def split: if_splits option.splits
      dest: adjustment_money [OF assms(1)] money_step_logged [rotated]
        adjustment_after_audit_money [OF assms(1)])

text \<open>A receipt, with interference between the look-up of its key and the insert.\<close>

lemma nap_tay_books:
  assumes inv: "books_inv d" and env: "books_inv (env d)"
    and lock: "\<And>w. row_of w_driver_id driver (wallets d) = Some w \<Longrightarrow>
      row_of w_id (w_id w) (wallets (env d)) = row_of w_id (w_id w) (wallets d)"
    and run: "nap_tay env mx driver actor q auth d = Inr (r, d')"
  shows "books_inv d'"
proof -
  consider "d' = d"
    | w code entry d1 a ac ot oi data p r where "row_of w_driver_id driver (wallets d) = Some w"
        "ghi_so_cai env (w_id w) ManualTopup (mt_amount_vnd q) ''manual_topup'' code (Some actor) d
           = Inr (entry, d1)"
        "ghi_nhat_ky a ac ot oi data p r d1 = Inr d'"
    using run by (auto simp: nap_tay_def split: if_splits option.splits)
  then show ?thesis
  proof cases
    case 1
    with inv show ?thesis by simp
  next
    case (2 w code entry d1)
    have "rely (w_id w) d (env d)"
      using lock [OF 2(1)] books_invD(6) [OF env] by (simp add: rely_def)
    then have "money_step d d1 \<or> money_step (env d) d1"
      using ghi_so_cai_money [OF books_invD(6) [OF inv] _ 2(2)] by (simp add: strip_audit)
    then have "books_inv d1" using money_step_books inv env by blast
    then show ?thesis
      using money_step_books ghi_nhat_ky_money [OF books_invD(6) 2(3)] by blast
  qed
qed

section \<open>Orders\<close>

lemma set_update_row_unique:
  assumes "distinct (map k xs)" and "t \<in> set xs"
  shows "set (update_row k (k t) f xs) = insert (f t) (set xs - {t})"
proof -
  have only: "x \<in> set xs \<and> k x = k t \<longleftrightarrow> x = t" for x using unique_row [of k xs x t] assms by auto
  have "y \<in> set (update_row k (k t) f xs) \<longleftrightarrow> y \<in> insert (f t) (set xs - {t})" for y
    using only unfolding set_update_row by (metis Diff_iff insert_iff singletonD)
  then show ?thesis by blast
qed

lemma update_topup_distinct:
  assumes "orders_distinct d" and t: "t \<in> set (topups d)"
    and f: "\<And>x. wt_id (f x) = wt_id x" "\<And>x. wt_order_id (f x) = wt_order_id x"
    and gid: "\<And>u. u \<in> set (topups d) \<Longrightarrow> u \<noteq> t \<Longrightarrow> wt_gateway_transaction_id (f t) \<noteq> None \<Longrightarrow>
      wt_gateway_transaction_id u \<noteq> wt_gateway_transaction_id (f t)"
  shows "orders_distinct (update_topup (wt_id t) f d)"
    and "set (topups (update_topup (wt_id t) f d)) = insert (f t) (set (topups d) - {t})"
proof -
  have dist: "distinct (map wt_id (topups d))" "distinct (map wt_order_id (topups d))"
    using assms(1) unfolding orders_distinct_def by blast+
  have ids: "map wt_id (update_row wt_id (wt_id t) f (topups d)) = map wt_id (topups d)"
      "map wt_order_id (update_row wt_id (wt_id t) f (topups d)) = map wt_order_id (topups d)"
    using f by (simp_all add: update_row_def)
  have tables: "topups (update_topup (wt_id t) f d) = update_row wt_id (wt_id t) f (topups d)"
    by (simp add: update_topup_def)
  show members: "set (topups (update_topup (wt_id t) f d)) = insert (f t) (set (topups d) - {t})"
    unfolding tables by (rule set_update_row_unique [OF dist(1) t])
  have "x = y" if "x \<in> insert (f t) (set (topups d) - {t})" "y \<in> insert (f t) (set (topups d) - {t})"
      "wt_gateway_transaction_id x \<noteq> None" "wt_gateway_transaction_id x = wt_gateway_transaction_id y" for x y
    using that gid assms(1) unfolding orders_distinct_def by (metis Diff_iff insert_iff singletonI)
  then show "orders_distinct (update_topup (wt_id t) f d)"
    using dist unfolding orders_distinct_def members unfolding tables ids by blast
qed

lemma update_topup_books:
  assumes inv: "books_inv d" and t: "t \<in> set (topups d)" "wt_status t \<noteq> TSucceeded"
    and f: "\<And>x. wt_id (f x) = wt_id x" "\<And>x. wt_order_id (f x) = wt_order_id x"
      "wt_status (f t) \<noteq> TSucceeded"
    and gid: "\<And>u. u \<in> set (topups d) \<Longrightarrow> u \<noteq> t \<Longrightarrow> wt_gateway_transaction_id (f t) \<noteq> None \<Longrightarrow>
      wt_gateway_transaction_id u \<noteq> wt_gateway_transaction_id (f t)"
  shows "books_inv (update_topup (wt_id t) f d)"
proof -
  let ?d = "update_topup (wt_id t) f d"
  note binv = books_invD [OF inv]
  have rows: "orders_distinct ?d" "set (topups ?d) = insert (f t) (set (topups d) - {t})"
    using update_topup_distinct [OF binv(4) t(1) f(1,2)] gid by blast+
  have same: "ledger ?d = ledger d" "wallets ?d = wallets d" "ledger_seq ?d = ledger_seq d"
      "sessions ?d = sessions d" "invoices ?d = invoices d" "invoice_lines ?d = invoice_lines d"
      "tariffs ?d = tariffs d" "tariff_bands ?d = tariff_bands d"
    by (simp_all add: update_topup_def)
  have "append_step [] d ?d"
    using binv(6) wallet_inv_cong [OF same(2,1,3)] same keeps_drivers_same [of ?d d]
    by (simp add: append_step_def)
  note step = append_step_books [OF inv this]
  have "orders_credited ?d"
    using binv(5) step(4) t(2) f(3) unfolding orders_credited_def rows(2) same by blast
  with step(1-3) rows(1) show ?thesis by (simp add: books_inv_def)
qed

lemma warn_once_money:
  assumes "wallet_inv d" and "warn_once sha256 oid t code d = Inr (w, d')"
  shows "money_step d d'"
  using assms ghi_nhat_ky_money [OF assms(1)]
  by (auto simp: warn_once_def Let_def case_prod_unfold split: if_splits)

lemma own_gid:
  assumes "orders_distinct d" and "t \<in> set (topups d)" and "u \<in> set (topups d)" and "u \<noteq> t"
    and "wt_gateway_transaction_id t \<noteq> None"
  shows "wt_gateway_transaction_id u \<noteq> wt_gateway_transaction_id t"
  using assms unfolding orders_distinct_def by metis

lemma review_topup_books:
  assumes inv: "books_inv d" and t: "t \<in> set (topups d)"
    and run: "review_topup sha256 sc t code d = Inr (r, d')"
  shows "books_inv d'"
proof -
  define f :: "wallet_topup \<Rightarrow> wallet_topup"
    where "f = (\<lambda>t. t\<lparr>wt_status := TNeedsReview, wt_reason := Some (WARNING_REASONS code)\<rparr>)"
  define d1 where "d1 = (if wt_status t \<in> {TSucceeded, TNeedsReview} then d else update_topup (wt_id t) f d)"
  have "books_inv d1"
  proof (cases "wt_status t \<in> {TSucceeded, TNeedsReview}")
    case False
    have "books_inv (update_topup (wt_id t) f d)"
      using False own_gid [OF books_invD(4) [OF inv] t]
      by (intro update_topup_books [OF inv t]) (auto simp: f_def)
    with False show ?thesis by (simp add: d1_def)
  qed (use inv in \<open>simp add: d1_def\<close>)
  moreover obtain w where "warn_once sha256 (wt_order_id t) (Some t) code d1 = Inr (w, d')"
    using run unfolding review_topup_def Let_def f_def [symmetric] d1_def [symmetric] by auto
  ultimately show ?thesis using money_step_books warn_once_money books_invD(6) by blast
qed

lemma credit_books:
  assumes inv: "books_inv d" and t: "t \<in> set (topups d)" "wt_status t \<noteq> TSucceeded"
      "wt_gateway_transaction_id t = Some g"
    and w: "row_of w_id wid (wallets d) = Some w" "w_driver_id w = wt_driver_id t"
    and row: "wl_entry_type row = GatewayTopup" "wl_reference_id row = g" "wl_amount_vnd row = wt_amount_vnd t"
      "wl_wallet_id row = wid" "\<not> debit_like row"
    and post: "wallet_inv (posted_db wid b row d)"
    and f: "\<And>x. wt_id (f x) = wt_id x" "\<And>x. wt_order_id (f x) = wt_order_id x"
      "wt_gateway_transaction_id (f t) = Some g" "wt_amount_vnd (f t) = wt_amount_vnd t"
      "wt_driver_id (f t) = wt_driver_id t" "wt_status (f t) = TSucceeded"
  shows "books_inv (update_topup (wt_id t) f (posted_db wid b row d))"
proof -
  let ?d2 = "posted_db wid b row d" and ?d3 = "update_topup (wt_id t) f (posted_db wid b row d)"
  note binv = books_invD [OF inv]
  have d2: "topups ?d2 = topups d" by (simp add: posted_db_def)
  have gids: "wt_gateway_transaction_id u \<noteq> wt_gateway_transaction_id (f t)"
    if "u \<in> set (topups d)" "u \<noteq> t" for u
    using own_gid [OF binv(4) t(1) that] t(3) f(3) by simp
  have rows: "orders_distinct ?d3" "set (topups ?d3) = insert (f t) (set (topups d) - {t})"
    using update_topup_distinct [where d = ?d2 and t = t and f = f] gids f(1,2) t(1) binv(4)
      orders_distinct_cong [OF d2] unfolding d2 by blast+
  have "append_step [row] d ?d3"
    using post wallet_inv_cong [of ?d3 ?d2] keeps_drivers_posted [of d wid b row] row(5)
    by (simp add: append_step_def update_topup_def posted_db_def keeps_drivers_def)
  note step = append_step_books [OF inv this]
  have ledger: "set (ledger ?d3) = insert row (set (ledger d))" by (simp add: update_topup_def posted_db_def)
  have new: "credit_of (f t) ?d3 row"
  proof -
    obtain w' where "row_of w_id wid (wallets ?d3) = Some w'" "w_driver_id w' = w_driver_id w"
      using keeps_drivers_posted [of d wid b row] w(1) by (auto simp: keeps_drivers_def update_topup_def)
    then show ?thesis using row f(3-5) w(2) by (simp add: credit_of_def)
  qed
  have "orders_credited ?d3"
    using binv(5) step(4) new t(2) f(6) unfolding orders_credited_def rows(2) ledger by blast
  with step(1-3) rows(1) show ?thesis by (simp add: books_inv_def)
qed

text \<open>
  What another transaction may do to the rows that the running one holds locked: nothing.
\<close>

definition locks_wallet :: "uuid \<Rightarrow> (db \<Rightarrow> db) \<Rightarrow> bool" where
  "locks_wallet driver env \<longleftrightarrow> (\<forall>x w. row_of w_driver_id driver (wallets x) = Some w \<longrightarrow>
     row_of w_id (w_id w) (wallets (env x)) = row_of w_id (w_id w) (wallets x))"

definition locks_order :: "string \<Rightarrow> (db \<Rightarrow> db) \<Rightarrow> bool" where
  "locks_order oid env \<longleftrightarrow> (\<forall>x. row_of wt_order_id oid (topups (env x)) = row_of wt_order_id oid (topups x))"

lemma not_yet_credited:
  assumes "books_inv d" and "t \<in> set (topups d)" and "wt_status t \<noteq> TSucceeded"
    and "wt_gateway_transaction_id t = Some g"
  shows "find_entry GatewayTopup g (ledger d) = None"
proof (rule ccontr)
  assume "find_entry GatewayTopup g (ledger d) \<noteq> None"
  then obtain r where "r \<in> set (ledger d)" "wl_entry_type r = GatewayTopup" "wl_reference_id r = g"
    using find_entry_SomeD by (fastforce simp: entry_key_def)
  then obtain u where "u \<in> set (topups d)" "wt_status u = TSucceeded" "wt_gateway_transaction_id u = Some g"
    using books_invD(5) [OF assms(1)] unfolding orders_credited_def credit_of_def by metis
  then show False using own_gid [OF books_invD(4) [OF assms(1)] assms(2), of u] assms(3,4) by auto
qed

lemma settle_topup_books:
  assumes inv: "books_inv d" and t: "row_of wt_order_id oid (topups d) = Some t" "wt_status t = TPending"
      "wt_amount_vnd t = ge_amount_vnd event"
    and g: "strip (ge_gateway_transaction_id event) = ge_gateway_transaction_id event"
    and env: "\<And>x. books_inv x \<Longrightarrow> books_inv (env x)"
    and locks: "locks_wallet (wt_driver_id t) env" "locks_order oid env"
    and run: "settle_topup env t event d = Inr d'"
  shows "books_inv d'"
proof -
  let ?g = "ge_gateway_transaction_id event"
  define f :: "wallet_topup \<Rightarrow> wallet_topup" where "f = (\<lambda>t. t\<lparr>wt_gateway_transaction_id := Some ?g\<rparr>)"
  define h :: "wallet_topup \<Rightarrow> wallet_topup" where
    "h = (\<lambda>u. u\<lparr>wt_status := TRANSITIONS (wt_status t) (ge_status event), wt_reason := topup_note event\<rparr>)"
  define d1 where "d1 = update_topup (wt_id t) f d"
  have mem: "t \<in> set (topups d)" "wt_order_id t = oid" using row_of_SomeD [OF t(1)] by auto
  have free: "\<not> (\<exists>u\<in>set (topups d). wt_id u \<noteq> wt_id t \<and> wt_gateway_transaction_id u = Some ?g)"
    using run by (auto simp: settle_topup_def split: if_splits)
  have gids: "wt_gateway_transaction_id u \<noteq> Some ?g" if "u \<in> set (topups d)" "u \<noteq> t" for u
    using free that mem(1) books_invD(4) [OF inv] unique_row [of wt_id "topups d" u t]
    unfolding orders_distinct_def by blast
  have b1: "books_inv d1"
    unfolding d1_def using gids t(2) by (intro update_topup_books [OF inv mem(1)]) (auto simp: f_def)
  have in1: "f t \<in> set (topups d1)"
    unfolding d1_def using update_topup_distinct(2) [OF books_invD(4) [OF inv] mem(1), of f] gids
    by (auto simp: f_def)
  show ?thesis
  proof (cases "ge_status event = PSucceeded")
    case False
    then have "d' = update_topup (wt_id (f t)) h d1"
      using run free by (auto simp: settle_topup_def d1_def f_def h_def Let_def)
    moreover have "TRANSITIONS (wt_status t) (ge_status event) \<noteq> TSucceeded"
      using False t(2) by (cases "ge_status event") auto
    then have "books_inv (update_topup (wt_id (f t)) h d1)"
      using t(2) own_gid [OF books_invD(4) [OF b1] in1]
      by (intro update_topup_books [OF b1 in1]) (auto simp: f_def h_def)
    ultimately show ?thesis by simp
  next
    case True
    then obtain w row d2 where w: "row_of w_driver_id (wt_driver_id t) (wallets d1) = Some w"
      and post: "ghi_so_cai env (w_id w) GatewayTopup (ge_amount_vnd event) ''gateway_transaction'' ?g None d1
        = Inr (row, d2)" and d': "d' = update_topup (wt_id t) h d2"
      using run free by (auto simp: settle_topup_def d1_def f_def h_def Let_def split: option.splits sum.splits)
    note env1 = env [OF b1]
    have "row_of wt_order_id oid (topups d1) = Some (f t)"
      using row_of_unique [of wt_order_id "topups d1" "f t"] in1 books_invD(4) [OF b1] mem(2)
      unfolding orders_distinct_def by (simp add: f_def)
    then have te: "f t \<in> set (topups (env d1))"
      using locks(2) row_of_SomeD [of wt_order_id oid "topups (env d1)"] by (auto simp: locks_order_def)
    have wrow: "row_of w_id (w_id w) (wallets (env d1)) = Some w" "w_driver_id w = wt_driver_id t"
      using locks(1) w row_of_SomeD [OF w] row_of_unique [of w_id "wallets d1" w] books_invD(6) [OF b1]
      by (auto simp: locks_wallet_def wallet_inv_def)
    have rel: "rely (w_id w) d1 (env d1)"
      using locks(1) w books_invD(6) [OF env1] by (simp add: rely_def locks_wallet_def)
    have none: "find_entry GatewayTopup ?g (ledger d1) = None" "find_entry GatewayTopup ?g (ledger (env d1)) = None"
      using not_yet_credited [OF b1 in1] not_yet_credited [OF env1 te] t(2) by (simp_all add: f_def)
    from post show ?thesis
    proof (cases rule: ghi_so_cai_cases)
      case (posted w0)
      have "wallet_inv d2" by (rule ghi_so_cai_inv [OF books_invD(6) [OF b1] rel post])
      moreover have "\<not> debit_like row"
        unfolding posted(9) by (simp add: debit_like_def posted_row_def strip_audit)
      ultimately have "books_inv (update_topup (wt_id (f t)) h d2)"
        using True t wrow unfolding posted(10)
        by (intro credit_books [OF env1 te, of ?g "w_id w" w])
          (simp_all add: f_def h_def posted(9) posted_row_def g)
      then show ?thesis by (simp add: d' f_def)
    qed (use none g in simp_all)
  qed
qed

lemma webhook_books:
  assumes inv: "books_inv d" and valid: "gateway_event_valid event"
    and env: "\<And>x. books_inv x \<Longrightarrow> books_inv (env x)"
    and locks: "\<And>t. t \<in> set (topups d) \<Longrightarrow> wt_order_id t = ge_order_id event \<Longrightarrow> locks_wallet (wt_driver_id t) env"
      "locks_order (ge_order_id event) env"
    and run: "process_topup_webhook sha256 env event d = Inr (r, d')"
  shows "books_inv d'"
proof (cases "row_of wt_order_id (ge_order_id event) (topups d)")
  case None
  with run money_step_books [OF inv] warn_once_money [OF books_invD(6) [OF inv]] show ?thesis
    by (auto simp: process_topup_webhook_def)
next
  case (Some t)
  have mem: "t \<in> set (topups d)" "wt_order_id t = ge_order_id event" using row_of_SomeD [OF Some] by auto
  have g: "strip (ge_gateway_transaction_id event) = ge_gateway_transaction_id event"
    using valid by (auto simp: gateway_event_valid_def validate_identifier_def split: if_splits)
  note settle = settle_topup_books [OF inv Some _ _ g env locks(1) [OF mem] locks(2)]
  note warn = money_step_books [OF inv warn_once_money [OF books_invD(6) [OF inv]]]
  show ?thesis
    using run Some inv review_topup_books [OF inv mem(1)] warn settle
    by (auto simp: process_topup_webhook_def split: if_splits sum.splits savepoint_error.splits)
qed

end
