(* ===== verification/Wallet_Reconciliation.thy ===== *)
theory Wallet_Reconciliation
  imports Wallet_Books
begin

text \<open>
  The reconciliation scan: it ends, and it locks exactly the wallets whose books do not add up.
  In a state reached by the system's own operations there is no such wallet.
\<close>

section \<open>The audit row of a lock is always written\<close>

lemma digit_char_not_space: "k < 16 \<Longrightarrow> \<not> py_isspace (digit_char k)"
  by (auto simp: py_isspace_def digit_char_def Let_def of_char_of)

lemma fixed_digits_not_space: "0 < b \<Longrightarrow> b \<le> 16 \<Longrightarrow> c \<in> set (fixed_digits b k n) \<Longrightarrow> \<not> py_isspace c"
proof (induction k arbitrary: n)
  case (Suc k)
  have "n mod b < 16" using Suc.prems(1,2) mod_less_divisor [of b n] by linarith
  with Suc show ?case by (auto dest: digit_char_not_space)
qed simp

lemma str_uuid_strip [simp]: "strip (str_uuid u) = str_uuid u"
proof (rule strip_id)
  define h where "h = fixed_digits 16 32 (unat u)"
  have "set (str_uuid u) \<subseteq> set h \<union> {CHR ''-''}"
    unfolding str_uuid_def Let_def h_def [symmetric] by (auto dest: in_set_takeD in_set_dropD)
  then show "\<forall>c\<in>set (str_uuid u). \<not> py_isspace c"
    using fixed_digits_not_space [of 16 _ 32 "unat u"] by (auto simp: h_def py_isspace_def Let_def)
qed

lemma str_uuid_length [simp]: "length (str_uuid u) = 36"
  by (simp add: str_uuid_def Let_def)

lemma texts_ok:
  "validate_json (JList (map JStr xs))" "finite_json (JList (map JStr xs))"
  by (induction xs) auto

definition lock_data :: "string list \<Rightarrow> vnd \<Rightarrow> vnd \<Rightarrow> (string \<times> json) list" where
  "lock_data issues balance amount = [(''reasons'', JList (map JStr issues)), (''balance_vnd'', JInt balance),
     (''ledger_total_vnd'', JInt amount)]"

lemma lock_logged:
  "\<exists>row. ghi_nhat_ky None ''wallet.reconciliation_locked'' ''wallet'' (str_uuid u)
     (lock_data issues balance amount) None None d = Inr (d\<lparr>audit_logs := audit_logs d @ [row]\<rparr>)"
proof -
  have "validate_members (lock_data issues balance amount)" "finite_members (lock_data issues balance amount)"
    by (simp_all add: lock_data_def texts_ok) (code_simp)
  moreover have "strip ''wallet.reconciliation_locked'' = ''wallet.reconciliation_locked''" "strip ''wallet'' = ''wallet''"
    by code_simp+
  moreover have "str_uuid u \<noteq> []" using str_uuid_length [of u] by (metis list.size(3) zero_neq_numeral)
  ultimately show ?thesis by (simp add: ghi_nhat_ky_def audit_identifier_def) blast
qed

section \<open>The scan\<close>

lemma filter_key:
  assumes "distinct (map k xs)" and "x \<in> set xs"
  shows "filter (\<lambda>y. k y = k x) xs = [x]"
  using assms by (induction xs) (auto simp: filter_empty_conv rev_image_eqI image_iff)

definition inconsistent :: "(uuid \<Rightarrow> bool) \<Rightarrow> db \<Rightarrow> wallet \<Rightarrow> bool" where
  "inconsistent busy d w \<longleftrightarrow> \<not> busy (w_id w) \<and> snd (wallet_issues w d) \<noteq> []"

definition lock_when :: "(wallet \<Rightarrow> bool) \<Rightarrow> wallet \<Rightarrow> wallet" where
  "lock_when P w = (if P w then w\<lparr>w_status := WLocked\<rparr> else w)"

text \<open>The state when the wallets of the set \<open>S\<close> have been visited.\<close>

definition reconciled :: "(uuid \<Rightarrow> bool) \<Rightarrow> db \<Rightarrow> uuid set \<Rightarrow> nat \<times> db \<Rightarrow> bool" where
  "reconciled busy d S s \<longleftrightarrow>
    (\<exists>logs. snd s = d\<lparr>wallets := map (lock_when (\<lambda>w. w_id w \<in> S \<and> inconsistent busy d w)) (wallets d),
       audit_logs := logs\<rparr>)
    \<and> fst s = length (filter (\<lambda>w. w_id w \<in> S \<and> inconsistent busy d w \<and> w_status w = WActive) (wallets d))"

lemma lock_when_fields [simp]:
  "w_id (lock_when P w) = w_id w" "w_driver_id (lock_when P w) = w_driver_id w"
  "w_balance_vnd (lock_when P w) = w_balance_vnd w"
  by (simp_all add: lock_when_def)

lemma row_of_lock_when:
  "row_of w_id i (map (lock_when P) ws) = map_option (lock_when P) (row_of w_id i ws)"
  "row_of w_driver_id i (map (lock_when P) ws) = map_option (lock_when P) (row_of w_driver_id i ws)"
  by (induction ws) simp_all

lemma wallet_issues_cong:
  assumes "ledger d' = ledger d" and "invoices d' = invoices d" and "sessions d' = sessions d"
    and "\<And>i. map_option w_id (row_of w_driver_id i (wallets d')) = map_option w_id (row_of w_driver_id i (wallets d))"
  shows "wallet_issues w d' = wallet_issues w d"
  unfolding wallet_issues_def related_invoices_def invoice_issues_def invoice_entries_def entry_issues_def assms
  by (rule refl)

lemma length_filter_one_more:
  assumes "distinct xs" and "w \<in> set xs" and "\<not> P w" and "\<And>x. x \<in> set xs \<Longrightarrow> Q x \<longleftrightarrow> P x \<or> x = w"
  shows "length (filter Q xs) = Suc (length (filter P xs))"
proof -
  have "set (filter Q xs) = insert w (set (filter P xs))" using assms(2,4) by auto
  moreover have "w \<notin> set (filter P xs)" using assms(3) by simp
  ultimately show ?thesis using assms(1) by (metis card_insert_disjoint distinct_card distinct_filter finite_set)
qed

lemma reconcile_scan_one_step:
  assumes dist: "distinct (map w_id (wallets d0))" and st: "reconciled busy d0 S s" and i: "i \<notin> S"
    and mem: "i \<in> w_id ` set (wallets d0)"
  shows "reconciled busy d0 (insert i S) (reconcile_scan_one busy i s)"
proof -
  let ?P = "\<lambda>S w. w_id w \<in> S \<and> inconsistent busy d0 w"
  obtain n logs where s: "s = (n, d0\<lparr>wallets := map (lock_when (?P S)) (wallets d0), audit_logs := logs\<rparr>)"
      "n = length (filter (\<lambda>w. w_id w \<in> S \<and> inconsistent busy d0 w \<and> w_status w = WActive) (wallets d0))"
    using st by (cases s) (auto simp: reconciled_def)
  define d where "d = d0\<lparr>wallets := map (lock_when (?P S)) (wallets d0), audit_logs := logs\<rparr>"
  obtain w where w: "w \<in> set (wallets d0)" "w_id w = i" using mem by auto
  have only: "x = w" if "x \<in> set (wallets d0)" "w_id x = i" for x
    using unique_row [of w_id "wallets d0" x w] dist that w by simp
  have "row_of w_id i (wallets d0) = Some w" using row_of_unique [of w_id "wallets d0" w] dist w by simp
  then have row: "row_of w_id i (wallets d) = Some w"
    using w i by (simp add: d_def row_of_lock_when lock_when_def)
  have skip: "lock_when (?P S) w = w" using w i by (simp add: lock_when_def)
  have "filter (\<lambda>w. w_id w = i) (wallets d) = [w]"
  proof -
    have "filter (\<lambda>x. w_id x = i) (wallets d0) = [w]" using filter_key [OF dist w(1)] w(2) by simp
    then show ?thesis using skip by (simp add: d_def filter_map comp_def)
  qed
  then have one: "doi_chieu_so_du busy (Some i) d = reconcile_one busy i ([], d)"
    using w by (cases "reconcile_one busy i ([], d)") (simp_all add: doi_chieu_so_du_def)
  have issues: "wallet_issues w d = wallet_issues w d0"
    by (rule wallet_issues_cong) (simp_all add: d_def row_of_lock_when option.map_comp comp_def)
  have visit: "lock_when (?P (insert i S)) x = (if x = w then lock_when (\<lambda>w. inconsistent busy d0 w) w
      else lock_when (?P S) x)" if "x \<in> set (wallets d0)" for x
  proof (cases "x = w")
    case False
    then have "w_id x \<noteq> i" using only that by blast
    with False show ?thesis by (simp add: lock_when_def)
  qed (use w in \<open>simp add: lock_when_def\<close>)
  show ?thesis
  proof (cases "inconsistent busy d0 w \<and> w_status w = WActive")
    case False
    then have keep: "lock_when (\<lambda>w. inconsistent busy d0 w) w = w"
      by (cases "w_status w") (auto simp: lock_when_def)
    have maps: "map (lock_when (?P (insert i S))) (wallets d0) = map (lock_when (?P S)) (wallets d0)"
      using visit keep skip by (auto intro!: map_cong)
    have counts: "filter (\<lambda>x. w_id x \<in> insert i S \<and> inconsistent busy d0 x \<and> w_status x = WActive) (wallets d0)
        = filter (\<lambda>x. w_id x \<in> S \<and> inconsistent busy d0 x \<and> w_status x = WActive) (wallets d0)"
      using only False by (auto intro!: filter_cong)
    have same: "reconcile_scan_one busy i s = s"
    proof -
      have "busy i \<or> snd (wallet_issues w d) = [] \<or> w_status w = WLocked"
        using False issues w(2) by (cases "w_status w") (auto simp: inconsistent_def)
      then have "reconcile_one busy i ([], d) = Inr ([], d)"
        by (auto simp: reconcile_one_def row case_prod_unfold)
      then show ?thesis unfolding s(1) d_def [symmetric] by (simp add: reconcile_scan_one_def one)
    qed
    show ?thesis using st unfolding reconciled_def same maps counts .
  next
    case True
    obtain log where log: "ghi_nhat_ky None ''wallet.reconciliation_locked'' ''wallet'' (str_uuid (w_id w))
        (lock_data (snd (wallet_issues w d)) (w_balance_vnd w) (fst (wallet_issues w d))) None None
        (set_wallet_status i WLocked d)
        = Inr (set_wallet_status i WLocked d\<lparr>audit_logs := audit_logs (set_wallet_status i WLocked d) @ [log]\<rparr>)"
      using lock_logged by blast
    have run: "reconcile_scan_one busy i s = (Suc n, set_wallet_status i WLocked d
        \<lparr>audit_logs := audit_logs (set_wallet_status i WLocked d) @ [log]\<rparr>)"
    proof -
      have "\<not> busy i" "snd (wallet_issues w d) \<noteq> []" "w_status w \<noteq> WLocked"
        using True issues w(2) by (auto simp: inconsistent_def)
      then show ?thesis
        unfolding s(1) d_def [symmetric]
        by (simp add: reconcile_scan_one_def one reconcile_one_def row case_prod_unfold
            log [unfolded lock_data_def])
    qed
    have "update_row w_id i (\<lambda>w. w\<lparr>w_status := WLocked\<rparr>) (map (lock_when (?P S)) (wallets d0))
        = map (lock_when (?P (insert i S))) (wallets d0)"
      unfolding update_row_def map_map
    proof (rule map_cong [OF refl])
      fix x assume x: "x \<in> set (wallets d0)"
      show "((\<lambda>r. if w_id r = i then r\<lparr>w_status := WLocked\<rparr> else r) \<circ> lock_when (?P S)) x
          = lock_when (?P (insert i S)) x"
      proof (cases "x = w")
        case same: True
        then show ?thesis
          using True w(2) skip visit [OF x] by (simp add: lock_when_def [of "inconsistent busy d0"])
      next
        case False
        then have "w_id x \<noteq> i" using only x by blast
        with False visit [OF x] show ?thesis by simp
      qed
    qed
    moreover have "length (filter (\<lambda>x. w_id x \<in> insert i S \<and> inconsistent busy d0 x \<and> w_status x = WActive) (wallets d0))
        = Suc n"
      unfolding s(2)
    proof (rule length_filter_one_more [of _ w])
      show "distinct (wallets d0)" using dist by (simp add: distinct_map)
      show "(w_id x \<in> insert i S \<and> inconsistent busy d0 x \<and> w_status x = WActive) \<longleftrightarrow>
          (w_id x \<in> S \<and> inconsistent busy d0 x \<and> w_status x = WActive) \<or> x = w"
        if "x \<in> set (wallets d0)" for x
        using that only True w(2) by blast
    qed (use w i in simp_all)
    ultimately show ?thesis
      unfolding run reconciled_def by (auto simp: set_wallet_status_def d_def)
  qed
qed

lemma reconcile_fold:
  assumes "distinct (map w_id (wallets d0))"
  shows "reconciled busy d0 S s \<Longrightarrow> distinct ids \<Longrightarrow> set ids \<inter> S = {} \<Longrightarrow>
    set ids \<subseteq> w_id ` set (wallets d0) \<Longrightarrow>
    reconciled busy d0 (S \<union> set ids) (fold (reconcile_scan_one busy) ids s)"
proof (induction ids arbitrary: S s)
  case (Cons i ids)
  have "reconciled busy d0 (insert i S) (reconcile_scan_one busy i s)"
    using Cons.prems by (intro reconcile_scan_one_step [OF assms]) auto
  from Cons.IH [OF this] Cons.prems show ?case by simp
qed simp

lemma sorted_last: "sorted ys \<Longrightarrow> y \<in> set ys \<Longrightarrow> y \<le> last ys"
  by (induction ys) auto

lemma sorted_rest:
  fixes xs :: "'a :: linorder list"
  assumes "sorted xs" and "distinct xs" and "take n xs \<noteq> []"
  shows "filter (\<lambda>x. last (take n xs) < x) xs = drop n xs"
proof -
  let ?ys = "take n xs" and ?zs = "drop n xs"
  have "\<not> last ?ys < y" if "y \<in> set ?ys" for y
    using sorted_last [OF sorted_wrt_take [OF assms(1), of n] that] by simp
  moreover have "last ?ys < z" if "z \<in> set ?zs" for z
  proof -
    have "\<forall>y\<in>set ?ys. \<forall>z\<in>set ?zs. y \<le> z" "set ?ys \<inter> set ?zs = {}"
      using assms(1,2) sorted_append [of ?ys ?zs] distinct_append [of ?ys ?zs] by simp_all
    then have "last ?ys \<le> z" "last ?ys \<noteq> z" using that last_in_set [OF assms(3)] by blast+
    then show ?thesis by simp
  qed
  ultimately have "filter (\<lambda>x. last ?ys < x) (?ys @ ?zs) = ?zs"
    by (simp only: filter_append) (auto simp: filter_empty_conv filter_id_conv)
  then show ?thesis by simp
qed

definition after_cursor :: "'a :: linorder option \<Rightarrow> 'a list \<Rightarrow> 'a list" where
  "after_cursor cursor xs = filter (\<lambda>x. case cursor of None \<Rightarrow> True | Some c \<Rightarrow> c < x) xs"

lemma after_cursor_next:
  assumes "sorted xs" and "distinct xs" and "take n (after_cursor cursor xs) \<noteq> []"
  shows "after_cursor (Some (last (take n (after_cursor cursor xs)))) xs = drop n (after_cursor cursor xs)"
proof -
  let ?rest = "after_cursor cursor xs"
  let ?l = "last (take n ?rest)"
  have "?l \<in> set ?rest" using last_in_set [OF assms(3)] in_set_takeD by fast
  then have "filter (\<lambda>x. ?l < x) xs = filter (\<lambda>x. ?l < x) ?rest"
    by (auto simp: after_cursor_def intro!: filter_cong split: option.splits)
  with sorted_rest [of ?rest n] assms show ?thesis
    by (simp add: after_cursor_def sorted_wrt_filter)
qed

lemma reconcile_pages_total:
  assumes dist: "distinct (map w_id (wallets d0))" and all: "ids = sort (map w_id (wallets d0))"
  shows "reconciled busy d0 (set ids - set (after_cursor cursor ids)) s \<Longrightarrow>
    length (after_cursor cursor ids) < fuel \<Longrightarrow>
    \<exists>s'. reconcile_pages fuel busy cursor s = Inr s' \<and> reconciled busy d0 (set ids) s'"
proof (induction fuel arbitrary: cursor s)
  case (Suc fuel)
  let ?rest = "after_cursor cursor ids" and ?page = "take 500 (after_cursor cursor ids)"
  have sorted: "sorted ids" "distinct ids" using dist by (simp_all add: all)
  have ids: "map w_id (wallets (snd s)) = map w_id (wallets d0)"
    using Suc.prems(1) by (auto simp: reconciled_def)
  have "map w_id (filter (\<lambda>w. case cursor of None \<Rightarrow> True | Some c \<Rightarrow> c < w_id w) (wallets (snd s)))
      = after_cursor cursor (map w_id (wallets (snd s)))"
    by (simp add: after_cursor_def filter_map comp_def)
  then have page: "take 500 (sort (map w_id (filter (\<lambda>w. case cursor of None \<Rightarrow> True | Some c \<Rightarrow> c < w_id w)
      (wallets (snd s))))) = ?page"
    by (simp only: ids all after_cursor_def filter_sort)
  show ?case
  proof (cases "?page = []")
    case True
    then have "?rest = []" by simp
    with True page Suc.prems(1) show ?thesis by (simp add: Let_def)
  next
    case False
    note next_cursor = after_cursor_next [OF sorted False]
    have rest: "distinct ?rest" "set ?rest \<subseteq> set ids" using sorted(2) by (auto simp: after_cursor_def)
    have parts: "set ?page \<subseteq> set ?rest" "distinct ?page" "set ?page \<inter> set (drop 500 ?rest) = {}"
        "set ?rest = set ?page \<union> set (drop 500 ?rest)"
      using rest(1) set_take_subset [of 500 ?rest] set_append [of ?page "drop 500 ?rest"]
        distinct_append [of ?page "drop 500 ?rest"] by auto
    have "reconciled busy d0 ((set ids - set ?rest) \<union> set ?page) (fold (reconcile_scan_one busy) ?page s)"
      using parts rest by (intro reconcile_fold [OF dist Suc.prems(1)]) (auto simp: all)
    moreover have "(set ids - set ?rest) \<union> set ?page = set ids - set (drop 500 ?rest)"
      using parts rest by auto
    moreover have "length ?rest - 500 < fuel" using Suc.prems(2) False by (cases ?rest) auto
    ultimately have "\<exists>s'. reconcile_pages fuel busy (Some (last ?page)) (fold (reconcile_scan_one busy) ?page s) = Inr s'
        \<and> reconciled busy d0 (set ids) s'"
      by (intro Suc.IH) (simp_all add: next_cursor)
    with False page show ?thesis by (simp add: Let_def)
  qed
qed simp

lemma run_reconciliation_effect:
  assumes "distinct (map w_id (wallets d))"
  shows "\<exists>n logs. run_reconciliation busy d = Inr (n, d\<lparr>wallets := map (\<lambda>w.
        if \<not> busy (w_id w) \<and> snd (wallet_issues w d) \<noteq> [] then w\<lparr>w_status := WLocked\<rparr> else w) (wallets d),
        audit_logs := logs\<rparr>)
    \<and> n = length (filter (\<lambda>w. \<not> busy (w_id w) \<and> snd (wallet_issues w d) \<noteq> [] \<and> w_status w = WActive) (wallets d))"
proof -
  let ?ids = "sort (map w_id (wallets d))"
  have none: "after_cursor None ?ids = ?ids" by (simp add: after_cursor_def)
  have "map (lock_when (\<lambda>w. False)) (wallets d) = wallets d" by (rule map_idI) (simp add: lock_when_def)
  then have "reconciled busy d {} (0, d)"
    by (simp add: reconciled_def) (metis db.surjective db.update_convs(10) db.update_convs(6))
  then have start: "reconciled busy d (set ?ids - set (after_cursor None ?ids)) (0, d)"
    by (simp add: none)
  have fuel: "length (after_cursor None ?ids) < Suc (length (wallets d))" by (simp add: none)
  obtain s where run: "run_reconciliation busy d = Inr s" and done_all: "reconciled busy d (set ?ids) s"
    using reconcile_pages_total [OF assms refl start fuel] by (auto simp: run_reconciliation_def)
  have maps: "map (lock_when (\<lambda>w. w_id w \<in> set ?ids \<and> inconsistent busy d w)) (wallets d)
      = map (\<lambda>w. if \<not> busy (w_id w) \<and> snd (wallet_issues w d) \<noteq> [] then w\<lparr>w_status := WLocked\<rparr> else w) (wallets d)"
    by (auto simp: lock_when_def inconsistent_def)
  have counts: "filter (\<lambda>w. w_id w \<in> set ?ids \<and> inconsistent busy d w \<and> w_status w = WActive) (wallets d)
      = filter (\<lambda>w. \<not> busy (w_id w) \<and> snd (wallet_issues w d) \<noteq> [] \<and> w_status w = WActive) (wallets d)"
    by (auto simp: inconsistent_def intro!: filter_cong)
  obtain logs where "snd s = d\<lparr>wallets := map (\<lambda>w. if \<not> busy (w_id w) \<and> snd (wallet_issues w d) \<noteq> []
        then w\<lparr>w_status := WLocked\<rparr> else w) (wallets d), audit_logs := logs\<rparr>"
      "fst s = length (filter (\<lambda>w. \<not> busy (w_id w) \<and> snd (wallet_issues w d) \<noteq> []
        \<and> w_status w = WActive) (wallets d))"
    using done_all unfolding reconciled_def maps counts by blast
  then show ?thesis using run by (intro exI [of _ "fst s"] exI [of _ logs]) (simp add: prod_eq_iff)
qed

text \<open>
  C26: the reconciliation scan ends, for any database and however its pages fall, and it locks
  exactly the wallets that no other transaction holds and whose ledger or invoices do not add
  up; the other wallets stay as they are, nothing else but the audit log changes, and the
  result counts the wallets that were active before.
\<close>

theorem reconciliation_locks_exactly:
  assumes "distinct (map w_id (wallets d))"
  shows "\<exists>n logs. run_reconciliation busy d = Inr (n, d\<lparr>wallets := map (\<lambda>w.
        if \<not> busy (w_id w) \<and> snd (wallet_issues w d) \<noteq> [] then w\<lparr>w_status := WLocked\<rparr> else w) (wallets d),
        audit_logs := logs\<rparr>)
    \<and> n = length (filter (\<lambda>w. \<not> busy (w_id w) \<and> snd (wallet_issues w d) \<noteq> [] \<and> w_status w = WActive) (wallets d))"
  by (rule run_reconciliation_effect [OF assms])

lemma sorted_strings_Nil: "sorted_strings xs = [] \<longleftrightarrow> xs = []"
proof -
  have nonempty: "insert_string x ys \<noteq> []" for x ys by (cases ys) simp_all
  have "foldr insert_string ys [] = [] \<longleftrightarrow> ys = []" for ys using nonempty by (cases ys) simp_all
  then show ?thesis by (simp add: sorted_strings_def)
qed

theorem reconciliation_locks_exactly_witness:
  "\<exists>n logs. run_reconciliation (\<lambda>_. False) stale_cache = Inr (n, stale_cache\<lparr>
      wallets := [\<lparr>w_id = 7, w_driver_id = 1, w_balance_vnd = 5, w_status = WLocked\<rparr>], audit_logs := logs\<rparr>) \<and> n = 1"
proof -
  let ?w = "\<lparr>w_id = 7, w_driver_id = 1, w_balance_vnd = 5, w_status = WActive\<rparr>"
  have "wallets stale_cache = [?w]" by (simp add: stale_cache_def)
  moreover have "snd (wallet_issues ?w stale_cache) \<noteq> []"
    by (simp add: wallet_issues_def Let_def sorted_strings_Nil ledger_total_def stale_cache_def topped_up_def)
  moreover from calculation(1) have "distinct (map w_id (wallets stale_cache))" by simp
  from reconciliation_locks_exactly [OF this, of "\<lambda>_. False"] obtain n logs where
    "run_reconciliation (\<lambda>_. False) stale_cache = Inr (n, stale_cache\<lparr>wallets := map (\<lambda>w.
        if \<not> False \<and> snd (wallet_issues w stale_cache) \<noteq> [] then w\<lparr>w_status := WLocked\<rparr> else w) (wallets stale_cache),
        audit_logs := logs\<rparr>)"
    "n = length (filter (\<lambda>w. \<not> False \<and> snd (wallet_issues w stale_cache) \<noteq> [] \<and> w_status w = WActive) (wallets stale_cache))"
    by blast
  ultimately show ?thesis by (intro exI [of _ n] exI [of _ logs]) simp
qed

section \<open>Clean books\<close>

lemma str_int_not_uuid: "str_int n \<noteq> str_uuid u"
proof
  assume eq: "str_int n = str_uuid u"
  define h where "h = fixed_digits 16 32 (unat u)"
  have "str_uuid u ! 8 = CHR ''-''"
    unfolding str_uuid_def Let_def h_def [symmetric] by (simp add: nth_append h_def)
  then have "str_int n ! 8 = CHR ''-''" "8 < length (str_int n)" using eq by simp_all
  then have "CHR ''-'' \<in> set (tl (str_int n))"
    using nth_tl [of 7 "str_int n"] nth_mem [of 7 "tl (str_int n)"] by simp
  moreover have "set (tl (str_int n)) \<subseteq> set (str_nat (nat \<bar>n\<bar>))"
    by (auto simp: str_int_def) (metis list.sel(2) list.set_sel(2))
  ultimately show False using str_nat_no_minus by blast
qed

lemma related_invoice_clean:
  assumes inv: "books_inv d" and rel: "(bill, c) \<in> set (related_invoices w d)"
  shows "invoice_issues d (bill, c) = []"
proof -
  note binv = books_invD [OF inv]
  have mem: "bill \<in> set (invoices d)" "c \<in> set (sessions d)" "cs_id c = inv_session_id bill"
      "cs_settlement_reason c = Some ''debited''"
    using rel by (auto simp: related_invoices_def)
  have driver: "cs_driver_id c = Some (inv_driver_id bill)" "cs_settlement_completed_at c \<noteq> None"
    using binv(3) mem by (auto simp: sessions_billed_def)
  obtain b where b: "b \<in> set (invoices d)" "inv_session_id b = cs_id c" "bill_settles d (Some ''debited'') b"
    using closure_invD(5) [OF binv(1) mem(2)] driver(2) mem(4) by (auto simp: settled_ok_def)
  have "distinct (map inv_session_id (invoices d))"
    using closure_invD(3) [OF binv(1)] by (simp add: billing_inv_def)
  then have "b = bill" using unique_row [of inv_session_id "invoices d" b bill] b mem by simp
  with b(3) have nonzero: "inv_total_vnd bill \<noteq> 0" and "debited bill d"
    by (auto simp: bill_settles_def split: if_splits)
  then obtain r x where r: "find_entry ChargingDebit (str_int (inv_session_id bill)) (ledger d) = Some r"
      "wl_amount_vnd r = - inv_total_vnd bill" "row_of w_id (wl_wallet_id r) (wallets d) = Some x"
      "w_driver_id x = inv_driver_id bill"
    by (auto simp: debited_def)
  have key: "r \<in> set (ledger d)" "entry_key r = (ChargingDebit, str_int (inv_session_id bill))"
    using find_entry_SomeD [OF r(1)] by auto
  have fields: "wl_entry_type r = ChargingDebit" "wl_reference_id r = str_int (cs_id c)"
    using key(2) mem(3) by (simp_all add: entry_key_def)
  have proven: "proven_debit e" if "e \<in> set (ledger d)" "debit_like e" for e
    using binv(2) that by (simp add: debits_proven_def)
  have "debit_like r" using fields(1) by (simp add: debit_like_def)
  then have rtype: "wl_reference_type r = ''charging_session''" using proven key(1) by (auto simp: proven_debit_def)
  have "wl_reference_id e \<in> set (session_refs c bill) \<and> debit_like e \<longleftrightarrow> entry_key e = entry_key r"
    if "e \<in> set (ledger d)" for e
  proof
    assume e: "wl_reference_id e \<in> set (session_refs c bill) \<and> debit_like e"
    then have "wl_entry_type e = ChargingDebit" "\<exists>n. wl_reference_id e = str_int n"
      using proven [OF that] unfolding proven_debit_def by blast+
    moreover from this(2) have "wl_reference_id e \<noteq> str_uuid (inv_id bill)" using str_int_not_uuid by metis
    ultimately show "entry_key e = entry_key r" using e fields by (simp add: session_refs_def entry_key_def)
  next
    assume "entry_key e = entry_key r"
    then show "wl_reference_id e \<in> set (session_refs c bill) \<and> debit_like e"
      using fields by (simp add: session_refs_def entry_key_def debit_like_def)
  qed
  then have "invoice_entries c bill d = filter (\<lambda>e. entry_key e = entry_key r) (ledger d)"
    unfolding invoice_entries_def by (intro filter_cong) auto
  also have "\<dots> = [r]" using binv(6) key(1) by (intro filter_key) (auto simp: wallet_inv_def)
  finally have entries: "invoice_entries c bill d = [r]" .
  have "row_of w_driver_id (inv_driver_id bill) (wallets d) = Some x"
    using row_of_unique [of w_driver_id "wallets d" x] row_of_SomeD [OF r(3)] r(4) binv(6)
    by (auto simp: wallet_inv_def)
  with row_of_SomeD [OF r(3)] show ?thesis
    using entries driver(1) fields rtype r(2) nonzero by (simp add: invoice_issues_def entry_issues_def)
qed

lemma wallet_issues_clean:
  assumes inv: "books_inv d" and "w \<in> set (wallets d)"
  shows "wallet_issues w d = (w_balance_vnd w, [])"
proof -
  have "ledger_total (w_id w) (ledger d) = w_balance_vnd w" "MIN_VND \<le> w_balance_vnd w" "w_balance_vnd w \<le> MAX_VND"
    using books_invD(6) [OF inv] assms(2) by (auto simp: wallet_inv_def)
  moreover have none: "concat (map (invoice_issues d) (related_invoices w d)) = []"
    using related_invoice_clean [OF inv] by auto
  ultimately show ?thesis unfolding wallet_issues_def Let_def none by (simp add: sorted_strings_def)
qed

section \<open>Everything that writes to the books\<close>

lemma create_topup_books:
  assumes inv: "books_inv d" and env: "\<And>x. books_inv x \<Longrightarrow> books_inv (env x)"
    and run: "create_topup env lo hi gateway pay new_wallet new_topup order_uuid amount actor d = (r, d')"
  shows "books_inv d'"
proof -
  have step: "books_inv (env d2)" if "ensure_driver_wallet new_wallet actor d = Inr (w, d1)"
      "add_topup t d1 = Inr d2" "wt_gateway_transaction_id t = None" "wt_status t = TPending" for w d1 t d2
  proof (rule env)
    have b1: "books_inv d1"
      using money_step_books [OF inv ensure_driver_wallet_money [OF books_invD(6) [OF inv] that(1)]] .
    have d2: "d2 = d1\<lparr>topups := topups d1 @ [t]\<rparr>"
        "wt_id t \<notin> wt_id ` set (topups d1)" "wt_order_id t \<notin> wt_order_id ` set (topups d1)"
      using that(2) by (auto simp: add_topup_def split: if_splits)
    have "append_step [] d1 d2"
      using books_invD(6) [OF b1] wallet_inv_cong [of d2 d1] keeps_drivers_same [of d2 d1]
      by (simp add: append_step_def d2(1))
    note st = append_step_books [OF b1 this]
    have "orders_distinct d2"
    proof -
      have "u = v" if "u \<in> insert t (set (topups d1))" "v \<in> insert t (set (topups d1))"
          "wt_gateway_transaction_id u \<noteq> None" "wt_gateway_transaction_id u = wt_gateway_transaction_id v" for u v
        using that \<open>wt_gateway_transaction_id t = None\<close> books_invD(4) [OF b1]
        unfolding orders_distinct_def by (metis insert_iff)
      moreover have "distinct (map wt_id (topups d2))" "distinct (map wt_order_id (topups d2))"
        using books_invD(4) [OF b1] d2(2,3) unfolding orders_distinct_def d2(1) by simp_all
      moreover have "set (topups d2) = insert t (set (topups d1))" by (simp add: d2(1))
      ultimately show ?thesis unfolding orders_distinct_def by metis
    qed
    moreover have "orders_credited d2"
      using books_invD(5) [OF b1] st(4) that(4) unfolding orders_credited_def by (fastforce simp: d2(1))
    ultimately show "books_inv d2" using st(1-3) by (simp add: books_inv_def)
  qed
  show ?thesis
    using run inv step
    by (auto simp: create_topup_def Let_def split: if_splits option.splits sum.splits prod.splits)
qed

text \<open>
  The states the operations reach, in any order and number.  Operations whose transaction can be
  interrupted are interrupted by whole operations of others that respect the row locks.
\<close>

inductive books_steps :: "db \<Rightarrow> db \<Rightarrow> bool" where
  start: "books_steps d d"
| close: "books_steps d0 d \<Longrightarrow> proper_zones zones \<Longrightarrow>
    chot_phien zones ret now bill_id wid settle sid d = Inr (r, d') \<Longrightarrow> books_steps d0 d'"
| receipt: "books_steps d0 d \<Longrightarrow> (\<And>x. books_steps x (env x)) \<Longrightarrow> locks_wallet driver env \<Longrightarrow>
    nap_tay env maximum driver actor q auth d = Inr (response, d') \<Longrightarrow> books_steps d0 d'"
| order: "books_steps d0 d \<Longrightarrow> (\<And>x. books_steps x (env x)) \<Longrightarrow>
    create_topup env lo hi gateway pay new_wallet new_topup order_uuid amount actor d = (result, d') \<Longrightarrow>
    books_steps d0 d'"
| callback: "books_steps d0 d \<Longrightarrow> (\<And>x. books_steps x (env x)) \<Longrightarrow> gateway_event_valid event \<Longrightarrow>
    (\<And>t. t \<in> set (topups d) \<Longrightarrow> wt_order_id t = ge_order_id event \<Longrightarrow> locks_wallet (wt_driver_id t) env) \<Longrightarrow>
    locks_order (ge_order_id event) env \<Longrightarrow>
    process_topup_webhook sha256 env event d = Inr (settlement, d') \<Longrightarrow> books_steps d0 d'"
| adjust: "books_steps d0 d \<Longrightarrow> dieu_chinh_vi wid actor amount reason audit_id d = Inr (row, d') \<Longrightarrow>
    books_steps d0 d'"
| unlock: "books_steps d0 d \<Longrightarrow> mo_khoa_vi wid actor reason d = Inr (w, d') \<Longrightarrow> books_steps d0 d'"
| repair: "books_steps d0 d \<Longrightarrow> sua_so_du_cache new_id wid actor reason d = Inr (w, d') \<Longrightarrow> books_steps d0 d'"
| provision: "books_steps d0 d \<Longrightarrow> ensure_driver_wallet new_id driver d = Inr (w, d') \<Longrightarrow> books_steps d0 d'"
| reconcile: "books_steps d0 d \<Longrightarrow> run_reconciliation busy d = Inr (n, d') \<Longrightarrow> books_steps d0 d'"

lemma run_reconciliation_clean:
  assumes inv: "books_inv d"
  shows "\<exists>logs. run_reconciliation busy d = Inr (0, d\<lparr>audit_logs := logs\<rparr>)"
proof -
  have "distinct (map w_id (wallets d))" using books_invD(6) [OF inv] by (simp add: wallet_inv_def)
  from run_reconciliation_effect [OF this, of busy] obtain n logs where
    "run_reconciliation busy d = Inr (n, d\<lparr>wallets := map (\<lambda>w. if \<not> busy (w_id w)
       \<and> snd (wallet_issues w d) \<noteq> [] then w\<lparr>w_status := WLocked\<rparr> else w) (wallets d), audit_logs := logs\<rparr>)"
    "n = length (filter (\<lambda>w. \<not> busy (w_id w) \<and> snd (wallet_issues w d) \<noteq> [] \<and> w_status w = WActive) (wallets d))"
    by blast
  moreover have "map (\<lambda>w. if \<not> busy (w_id w) \<and> snd (wallet_issues w d) \<noteq> []
      then w\<lparr>w_status := WLocked\<rparr> else w) (wallets d) = wallets d"
    using wallet_issues_clean [OF inv] by (intro map_idI) simp
  moreover have "filter (\<lambda>w. \<not> busy (w_id w) \<and> snd (wallet_issues w d) \<noteq> [] \<and> w_status w = WActive) (wallets d) = []"
    using wallet_issues_clean [OF inv] by (auto simp: filter_empty_conv)
  ultimately show ?thesis by auto
qed

lemma books_steps_inv:
  assumes "books_steps d0 d"
  shows "books_inv d0 \<Longrightarrow> books_inv d"
  using assms
proof (induction rule: books_steps.induct)
  case (close d0 d zones ret now bill_id wid settle sid r d')
  then show ?case using chot_phien_books by blast
next
  case (receipt d0 d env driver maximum actor q auth response d')
  then show ?case using nap_tay_books [of d env driver] by (simp add: locks_wallet_def)
next
  case (order d0 d env lo hi gateway pay new_wallet new_topup order_uuid amount actor result d')
  then show ?case using create_topup_books [of d env] by blast
next
  case (callback d0 d env event sha256 settlement d')
  then show ?case using webhook_books [of d event env] by blast
next
  case (adjust d0 d wid actor amount reason audit_id row d')
  then show ?case using money_step_books dieu_chinh_vi_money books_invD(6) by blast
next
  case (unlock d0 d wid actor reason w d')
  then show ?case using money_step_books mo_khoa_vi_money books_invD(6) by blast
next
  case (repair d0 d new_id wid actor reason w d')
  then show ?case using sua_so_du_cache_same books_invD(6) by blast
next
  case (provision d0 d new_id driver w d')
  then show ?case using money_step_books ensure_driver_wallet_money books_invD(6) by blast
next
  case (reconcile d0 d busy n d')
  then obtain logs where "d' = d\<lparr>audit_logs := logs\<rparr>" using run_reconciliation_clean [of d busy] by auto
  moreover have "closure_inv (d\<lparr>audit_logs := logs\<rparr>)"
  proof (rule append_step_closure [OF books_invD(1)])
    show "books_inv d" using reconcile by blast
    then show "append_step [] d (d\<lparr>audit_logs := logs\<rparr>)"
      using books_invD(6) [of d] wallet_inv_cong [of "d\<lparr>audit_logs := logs\<rparr>" d]
      by (auto simp: append_step_def)
  qed
  ultimately show ?case using books_cong [of d d'] reconcile by simp
qed

text \<open>
  A driver with one credited and one pending order and an ended session: the session is closed,
  then the pending order is paid.
\<close>

definition example_books :: db where
  "example_books = example_db\<lparr>topups := [
     \<lparr>wt_id = 31, wt_driver_id = 1, wt_amount_vnd = 200000, wt_status = TSucceeded, wt_order_id = ''topup-1'',
      wt_gateway_transaction_id = Some ''p-1'', wt_reason = None\<rparr>,
     \<lparr>wt_id = 32, wt_driver_id = 1, wt_amount_vnd = 50000, wt_status = TPending, wt_order_id = ''topup-2'',
      wt_gateway_transaction_id = None, wt_reason = None\<rparr>]\<rparr>"

definition example_payment :: gateway_event where
  "example_payment = \<lparr>ge_gateway_transaction_id = ''p-2'', ge_order_id = ''topup-2'', ge_amount_vnd = 50000,
     ge_status = PSucceeded, ge_reason = None\<rparr>"

lemma example_books_inv: "books_inv example_books"
proof -
  have "append_step [] example_db example_books"
    using closure_invD(1) [OF example_inv] wallet_inv_cong [of example_books example_db]
      keeps_drivers_same [of example_books example_db]
    by (simp add: append_step_def example_books_def)
  from append_step_closure [OF example_inv this] show ?thesis
    by (simp add: books_inv_def debits_proven_def sessions_billed_def orders_distinct_def orders_credited_def
        credit_of_def debit_like_def example_books_def example_db_def topped_up_def one_wallet_def empty_db_def
        example_session_def)
qed

lemma example_books_steps:
  "\<exists>d. books_steps example_books d \<and> map w_balance_vnd (wallets d) = [215000]
     \<and> map wt_status (topups d) = [TSucceeded, TSucceeded]"
proof -
  have "case chot_phien vn_zones 30 (11 * DAY_US) 21 22 True 1 example_books of Inl _ \<Rightarrow> False
    | Inr (r, d) \<Rightarrow> (case process_topup_webhook (\<lambda>s. s) id example_payment d of Inl _ \<Rightarrow> False
        | Inr (r', d') \<Rightarrow> map w_balance_vnd (wallets d') = [215000]
            \<and> map wt_status (topups d') = [TSucceeded, TSucceeded])"
    by code_simp
  then obtain p q where "chot_phien vn_zones 30 (11 * DAY_US) 21 22 True 1 example_books = Inr p"
      "process_topup_webhook (\<lambda>s. s) id example_payment (snd p) = Inr q"
      "map w_balance_vnd (wallets (snd q)) = [215000]" "map wt_status (topups (snd q)) = [TSucceeded, TSucceeded]"
    by (simp only: case_prod_unfold split: sum.splits)
  then obtain r d r' d' where run: "chot_phien vn_zones 30 (11 * DAY_US) 21 22 True 1 example_books = Inr (r, d)"
      "process_topup_webhook (\<lambda>s. s) id example_payment d = Inr (r', d')"
      "map w_balance_vnd (wallets d') = [215000]" "map wt_status (topups d') = [TSucceeded, TSucceeded]"
    by (metis prod.collapse)
  have "gateway_event_valid example_payment" by code_simp
  then have "books_steps example_books d'"
    by (intro books_steps.callback [where env = id, OF books_steps.close [OF books_steps.start example_zones run(1)] _ _ _ _ run(2)])
      (simp_all add: books_steps.start locks_wallet_def locks_order_def)
  with run(3,4) show ?thesis by (intro exI [of _ d'] conjI)
qed



lemma gateway_credit_exactly_once_parts:
  assumes "books_inv d0" and "books_steps d0 d"
  shows "\<forall>t\<in>set (topups d). wt_status t = TSucceeded \<longrightarrow> (\<exists>!r. r \<in> set (ledger d) \<and> credit_of t d r)"
    and "\<forall>r\<in>set (ledger d). wl_entry_type r = GatewayTopup \<longrightarrow>
      (\<exists>!t. t \<in> set (topups d) \<and> credit_of t d r) \<and> (\<exists>t\<in>set (topups d). credit_of t d r \<and> wt_status t = TSucceeded)"
proof -
  note inv = books_invD [OF books_steps_inv [OF assms(2,1)]]
  have "r = r'" if "r \<in> set (ledger d)" "r' \<in> set (ledger d)" "credit_of t d r" "credit_of t d r'" for r r' t
    using unique_row [of entry_key "ledger d" r r'] inv(6) that
    by (auto simp: wallet_inv_def credit_of_def entry_key_def)
  then show "\<forall>t\<in>set (topups d). wt_status t = TSucceeded \<longrightarrow> (\<exists>!r. r \<in> set (ledger d) \<and> credit_of t d r)"
    using inv(5) unfolding orders_credited_def by blast
  have "t = u" if "t \<in> set (topups d)" "u \<in> set (topups d)" "credit_of t d r" "credit_of u d r" for t u r
    using own_gid [OF inv(4) that(1,2)] that(3,4) by (auto simp: credit_of_def)
  then show "\<forall>r\<in>set (ledger d). wl_entry_type r = GatewayTopup \<longrightarrow>
      (\<exists>!t. t \<in> set (topups d) \<and> credit_of t d r) \<and> (\<exists>t\<in>set (topups d). credit_of t d r \<and> wt_status t = TSucceeded)"
    using inv(5) unfolding orders_credited_def by blast
qed

text \<open>
  C25: a payment is credited exactly once.  In every reachable state each succeeded order has
  exactly one gateway credit, of the amount of the order and in the wallet of its driver, and
  every gateway credit belongs to exactly one order, which has succeeded.
\<close>

theorem gateway_credit_exactly_once:
  assumes "books_inv d0" and "books_steps d0 d"
  shows "(\<forall>t\<in>set (topups d). wt_status t = TSucceeded \<longrightarrow> (\<exists>!r. r \<in> set (ledger d) \<and> credit_of t d r))
    \<and> (\<forall>r\<in>set (ledger d). wl_entry_type r = GatewayTopup \<longrightarrow>
      (\<exists>!t. t \<in> set (topups d) \<and> credit_of t d r) \<and> (\<exists>t\<in>set (topups d). credit_of t d r \<and> wt_status t = TSucceeded))"
  by (intro conjI impI gateway_credit_exactly_once_parts [OF assms])

theorem gateway_credit_exactly_once_witness:
  "\<exists>d t u r s. books_steps example_books d \<and> topups d = [t, u] \<and> credit_of t d r \<and> credit_of u d s
     \<and> r \<in> set (ledger d) \<and> s \<in> set (ledger d)"
proof -
  obtain d where d: "books_steps example_books d" "map wt_status (topups d) = [TSucceeded, TSucceeded]"
    using example_books_steps by metis
  then obtain t u where tu: "topups d = [t, u]" "wt_status t = TSucceeded" "wt_status u = TSucceeded" by auto
  note once = conjunct1 [OF gateway_credit_exactly_once [OF example_books_inv d(1)], rule_format]
  obtain r s where "r \<in> set (ledger d)" "credit_of t d r" "s \<in> set (ledger d)" "credit_of u d s"
    using once [of t] once [of u] tu by auto
  with d(1) tu(1) show ?thesis by (intro exI conjI)
qed

end
