(* ===== verification/Reservations.thy ===== *)
theory Reservations
  imports Wallet_Reconciliation Power_Control
begin

text \<open>
  src/src/modules/reservations/policy.py and service.py, the fee decision of fees.py that the
  services call, and src/src/modules/charging/driver_provisioning.py: booking a connector for
  fifteen minutes, releasing it, and admitting the driver's start.

  What a transaction reads from outside the database is a value of \<open>runtime\<close>: the database
  clock and the application clock, the settings, the hash and date texts of the standard library,
  the registry of open charger sockets, and the identifiers it draws.  A mutation that works on a
  locked reservation row takes and returns the pair of the row and the database, and the
  enclosing transaction writes the row back with \<open>put_reservation\<close>; no query of these
  transactions reads the table between the change and the write.
\<close>

record runtime =
  rt_now :: instant
  rt_utcnow :: instant
  rt_sha256 :: "string \<Rightarrow> string"
  rt_isoformat :: "instant \<Rightarrow> string"
  rt_zones :: zones
  rt_clock :: wall_clock
  rt_wallet_reserve_vnd :: vnd
  rt_charging_minimum_kwh :: int
  rt_connected :: "string \<Rightarrow> bool"
  rt_new_wallet :: uuid
  rt_new_card :: uuid
  rt_new_command :: uuid
  rt_lease :: uuid
  rt_token :: string
  rt_command_timeout_s :: int

abbreviation SECOND_US :: int where "SECOND_US \<equiv> 1000000"

section \<open>Fee policy\<close>

definition quote :: "uuid \<Rightarrow> db \<Rightarrow> vnd \<times> int" where
  "quote station_id d =
    (case row_of rp_station_id station_id (policies d) of
       None \<Rightarrow> (0, 0) | Some policy \<Rightarrow> (rp_fee_vnd policy, rp_version policy))"

definition owned :: "uuid \<Rightarrow> uuid \<Rightarrow> db \<Rightarrow> exn + station" where
  "owned station_id actor_id d =
    (case row_of st_id station_id (stations d) of
       None \<Rightarrow> Inl (http 404 ''resource_not_found'')
     | Some station \<Rightarrow>
         if st_archived_at station \<noteq> None then Inl (http 404 ''resource_not_found'')
         else if st_owner_id station \<noteq> actor_id then Inl (http 403 ''permission_denied'')
         else Inr station)"

definition read_policy :: "uuid \<Rightarrow> uuid \<Rightarrow> db \<Rightarrow> exn + vnd \<times> int" where
  "read_policy station_id actor_id d =
    res_bind (owned station_id actor_id d) (\<lambda>_. Inr (quote station_id d))"

definition policy_body_ok :: "vnd \<Rightarrow> int \<Rightarrow> bool" where
  "policy_body_ok fee_vnd expected_version \<longleftrightarrow> 0 \<le> fee_vnd \<and> fee_vnd \<le> 1000000 \<and> 0 \<le> expected_version"

definition update_policy ::
  "uuid \<Rightarrow> vnd \<Rightarrow> int \<Rightarrow> uuid \<Rightarrow> evidence \<Rightarrow> db \<Rightarrow> exn + (vnd \<times> int) \<times> db" where
  "update_policy station_id fee_vnd expected_version actor_id evidence d =
    (if \<not> policy_body_ok fee_vnd expected_version then Inl (http 422 ''validation'')
     else
       res_bind (owned station_id actor_id d) (\<lambda>_.
       let policy = row_of rp_station_id station_id (policies d);
           (before, version) = quote station_id d
       in if version \<noteq> expected_version then Inl (http 409 ''reservation_policy_changed'')
          else if before = fee_vnd then Inr (quote station_id d, d)
          else
            let d1 = (case policy of
                   None \<Rightarrow> d\<lparr>policies := policies d @ [\<lparr>rp_station_id = station_id, rp_fee_vnd = fee_vnd,
                     rp_version = 1\<rparr>]\<rparr>
                 | Some _ \<Rightarrow> d\<lparr>policies := update_row rp_station_id station_id
                     (\<lambda>p. p\<lparr>rp_fee_vnd := fee_vnd, rp_version := version + 1\<rparr>) (policies d)\<rparr>)
            in res_bind (ghi_nhat_ky (Some actor_id) ''reservation.policy_updated'' ''station''
                   (str_uuid station_id)
                   [(''before_fee_vnd'', JInt before), (''fee_vnd'', JInt fee_vnd),
                    (''version'', JInt (if policy = None then 1 else version + 1))]
                   (Some (fst evidence)) (Some (snd evidence)) d1) (\<lambda>d2.
                 Inr (quote station_id d2, d2))))"

section \<open>Chargers, targets and events\<close>

definition is_hold :: "reservation \<Rightarrow> bool" where
  "is_hold r \<longleftrightarrow> r_status r \<in> {RPending, RUncertain, RActive, RCancelPending, RExpiryReleasePending}"

definition live :: "charge_point \<Rightarrow> instant \<Rightarrow> bool" where
  "live point now \<longleftrightarrow> cp_archived_at point = None \<and> cp_status point = ''online''
    \<and> cp_last_boot_at point \<noteq> None
    \<and> (case cp_last_seen_at point of None \<Rightarrow> False
       | Some seen \<Rightarrow> seen \<le> now
           \<and> now - seen \<le> 2 * cp_heartbeat_interval_seconds point * SECOND_US)"

datatype capability_state = Unverified | Supported | Unsupported

definition capability_status :: "reservation_capability option \<Rightarrow> charge_point \<Rightarrow> capability_state" where
  "capability_status capability point =
    (case capability of
       None \<Rightarrow> Unverified
     | Some cap \<Rightarrow>
         if rc_boot_at cap \<noteq> cp_last_boot_at point \<or> rc_checked_at cap = None then Unverified
         else if rc_supported cap then Supported else Unsupported)"

definition get_capability :: "uuid \<Rightarrow> db \<Rightarrow> reservation_capability option" where
  "get_capability point_id d = row_of rc_charge_point_id point_id (capabilities d)"

definition lock_target :: "uuid \<Rightarrow> db \<Rightarrow> exn + charge_point \<times> connector \<times> station" where
  "lock_target connector_id d =
    (case row_of cn_id connector_id (connectors d) of
       None \<Rightarrow> Inl (http 404 ''resource_not_found'')
     | Some connector \<Rightarrow>
         (case row_of cp_id (cn_charge_point_id connector) (charge_points d) of
            None \<Rightarrow> Inl (http 404 ''resource_not_found'')
          | Some point \<Rightarrow>
              (case row_of st_id (cp_station_id point) (stations d) of
                 None \<Rightarrow> Inl (http 404 ''resource_not_found'')
               | Some station \<Rightarrow>
                   if cp_archived_at point \<noteq> None \<or> cn_archived_at connector \<noteq> None
                     \<or> st_archived_at station \<noteq> None
                   then Inl (http 404 ''resource_not_found'')
                   else Inr (point, connector, station))))"

definition event ::
  "reservation \<Rightarrow> string \<Rightarrow> instant \<Rightarrow> (string \<times> json) list \<Rightarrow> db \<Rightarrow> db" where
  "event r action now details d = d\<lparr>reservation_events := reservation_events d @
     [\<lparr>rv_reservation_id = r_id r, rv_action = action, rv_occurred_at = now, rv_details = details\<rparr>]\<rparr>"

definition get_reservation :: "uuid \<Rightarrow> db \<Rightarrow> reservation option" where
  "get_reservation reservation_id d = row_of r_id reservation_id (reservations d)"

definition put_reservation :: "reservation \<Rightarrow> db \<Rightarrow> db" where
  "put_reservation r d = d\<lparr>reservations := update_row r_id (r_id r) (\<lambda>_. r) (reservations d)\<rparr>"

definition write_back :: "reservation \<times> db \<Rightarrow> db" where
  "write_back = (\<lambda>(r, d). put_reservation r d)"

definition update_command :: "uuid \<Rightarrow> (reservation_command \<Rightarrow> reservation_command) \<Rightarrow> db \<Rightarrow> db" where
  "update_command command_id f d =
    d\<lparr>reservation_commands := update_row rk_id command_id f (reservation_commands d)\<rparr>"

definition add_command :: "uuid \<Rightarrow> uuid \<Rightarrow> command_action \<Rightarrow> instant \<Rightarrow> db \<Rightarrow> exn + db" where
  "add_command command_id reservation_id action now d =
    (if command_id \<in> rk_id ` set (reservation_commands d) then Inl IntegrityError
     else Inr (d\<lparr>reservation_commands := reservation_commands d @
       [\<lparr>rk_id = command_id, rk_reservation_id = reservation_id, rk_action = action,
         rk_status = CQueued, rk_attempts = 0, rk_created_at = now, rk_next_attempt_at = now,
         rk_locked_until = None, rk_lease_token = None, rk_outcome = None\<rparr>]\<rparr>))"

definition reserve_command :: "uuid \<Rightarrow> db \<Rightarrow> reservation_command option" where
  "reserve_command reservation_id d =
    find (\<lambda>c. rk_reservation_id c = reservation_id \<and> rk_action c = ReserveNow) (reservation_commands d)"

definition probe_capability :: "runtime \<Rightarrow> uuid \<Rightarrow> db \<Rightarrow> exn + capability_state \<times> db" where
  "probe_capability rt connector_id d =
    res_bind (lock_target connector_id d) (\<lambda>(point, _, station).
      let now = rt_now rt in
      if st_status station \<noteq> ''active'' \<or> \<not> live point now
      then Inl (http 409 ''station_or_charger_unavailable'')
      else case get_capability (cp_id point) d of
        None \<Rightarrow>
          let cap = \<lparr>rc_charge_point_id = cp_id point, rc_boot_at = cp_last_boot_at point,
                     rc_supported = False, rc_checked_at = None, rc_next_attempt_at = now,
                     rc_lease_token = None, rc_locked_until = None, rc_outcome = ''queued''\<rparr>
          in Inr (capability_status (Some cap) point, d\<lparr>capabilities := capabilities d @ [cap]\<rparr>)
      | Some cap \<Rightarrow>
          let cap1 =
            (if rc_boot_at cap \<noteq> cp_last_boot_at point
             then cap\<lparr>rc_boot_at := cp_last_boot_at point, rc_supported := False, rc_checked_at := None,
                      rc_locked_until := None, rc_lease_token := None,
                      rc_next_attempt_at := now, rc_outcome := ''queued''\<rparr>
             else if \<not> rc_supported cap
               \<and> (case rc_locked_until cap of None \<Rightarrow> True | Some t \<Rightarrow> t \<le> now)
             then cap\<lparr>rc_checked_at := None, rc_next_attempt_at := now, rc_outcome := ''queued''\<rparr>
             else cap)
          in Inr (capability_status (Some cap1) point,
               d\<lparr>capabilities := update_row rc_charge_point_id (cp_id point) (\<lambda>_. cap1)
                  (capabilities d)\<rparr>))"

section \<open>Fee decisions\<close>

fun decision_text :: "fee_decision \<Rightarrow> string" where
  "decision_text FPending = ''pending''"
| "decision_text FLegacyExempt = ''legacy_exempt''"
| "decision_text FWaived = ''waived''"
| "decision_text FCharged = ''charged''"
| "decision_text FReview = ''review''"

definition json_int :: "int option \<Rightarrow> json" where
  "json_int i = (case i of None \<Rightarrow> JNull | Some n \<Rightarrow> JInt n)"

definition json_string :: "string option \<Rightarrow> json" where
  "json_string s = (case s of None \<Rightarrow> JNull | Some t \<Rightarrow> JStr t)"

definition decide ::
  "fee_decision \<Rightarrow> string \<Rightarrow> instant \<Rightarrow> reservation \<times> db \<Rightarrow> exn + reservation \<times> db" where
  "decide decision reason now = (\<lambda>(r, d).
    if r_fee_decision r = decision \<and> r_fee_reason r = Some reason then Inr (r, d)
    else
      let wallet_id = map_option w_id (row_of w_driver_id (r_driver_id r) (wallets d));
          r1 = r\<lparr>r_fee_decision := decision, r_fee_reason := Some reason, r_fee_decided_at := Some now\<rparr>;
          d1 = event r1 ''fee_decided'' now
             [(''decision'', JStr (decision_text decision)), (''reason'', JStr reason),
              (''fee_vnd'', JInt (r_fee_vnd r1)), (''ledger_id'', json_int (r_fee_ledger_id r1))] d
      in res_bind (ghi_nhat_ky None ''reservation.fee_decided'' ''reservation'' (str_uuid (r_id r1))
           [(''audit_version'', JInt 1), (''driver_id'', JStr (str_uuid (r_driver_id r1))),
            (''wallet_id'', json_string (map_option str_uuid wallet_id)),
            (''reservation_id'', JStr (str_uuid (r_id r1))),
            (''before_decision'', JStr (decision_text (r_fee_decision r))),
            (''decision'', JStr (decision_text decision)), (''reason'', JStr reason),
            (''fee_vnd'', JInt (r_fee_vnd r1)), (''ledger_id'', json_int (r_fee_ledger_id r1))]
           None None d1) (\<lambda>d2. Inr (r1, d2)))"

definition mark_late_start ::
  "runtime \<Rightarrow> instant \<Rightarrow> instant \<Rightarrow> string option \<Rightarrow> reservation \<times> db \<Rightarrow> exn + reservation \<times> db" where
  "mark_late_start rt source_time now message_id = (\<lambda>(r, d).
    res_bind (if 0 < r_fee_vnd r \<and> r_fee_decision r \<noteq> FLegacyExempt \<and> \<not> r_no_show_exempt r
              then decide FReview ''late_start_after_fee_window'' now (r, d) else Inr (r, d))
      (\<lambda>(r1, d1).
      let details = [(''source_timestamp'', JStr (rt_isoformat rt source_time)),
            (''received_at'', JStr (rt_isoformat rt now)), (''message_id'', json_string message_id),
            (''needs_review'', JBool True)]
      in res_bind (ghi_nhat_ky None ''reservation.late_start_observed'' ''reservation''
           (str_uuid (r_id r1)) details None None (event r1 ''late_start_observed'' now details d1))
           (\<lambda>d2. Inr (r1, d2))))"

section \<open>Booking\<close>

definition ensure_driver_resources ::
  "runtime \<Rightarrow> uuid \<Rightarrow> db \<Rightarrow> exn + driver_virtual_tag \<times> db" where
  "ensure_driver_resources rt driver_id d =
    res_bind (ensure_driver_wallet (rt_new_wallet rt) driver_id d) (\<lambda>(_, d1).
      case row_of vt_driver_id driver_id (virtual_tags d1) of
        Some tag \<Rightarrow> Inr (tag, d1)
      | None \<Rightarrow>
          let raw = rt_token rt;
              id_card = \<lparr>cc_id = rt_new_card rt, cc_tag_hash = rt_sha256 rt raw,
                      cc_tag_tail = drop (length raw - 4) raw, cc_driver_id = driver_id,
                      cc_issuer_id = driver_id, cc_status = ''active'', cc_expires_at = None\<rparr>;
              tag = \<lparr>vt_driver_id = driver_id, vt_card_id = cc_id id_card, vt_id_tag = raw\<rparr>
          in if cc_id id_card \<in> cc_id ` set (charging_cards d1)
               \<or> cc_tag_hash id_card \<in> cc_tag_hash ` set (charging_cards d1)
               \<or> raw \<in> vt_id_tag ` set (virtual_tags d1)
               \<or> cc_id id_card \<in> vt_card_id ` set (virtual_tags d1)
             then Inl IntegrityError
             else Inr (tag, d1\<lparr>charging_cards := charging_cards d1 @ [id_card],
                    virtual_tags := virtual_tags d1 @ [tag]\<rparr>))"

definition str_int_option :: "int option \<Rightarrow> string" where
  "str_int_option i = (case i of None \<Rightarrow> ''None'' | Some n \<Rightarrow> str_int n)"

definition canonical_arrival :: "runtime \<Rightarrow> instant option \<Rightarrow> string" where
  "canonical_arrival rt arrival_at = (case arrival_at of None \<Rightarrow> ''now'' | Some t \<Rightarrow> rt_isoformat rt t)"

definition legacy_hash :: "runtime \<Rightarrow> uuid \<Rightarrow> instant option \<Rightarrow> string" where
  "legacy_hash rt connector_id arrival_at =
    rt_sha256 rt (str_uuid connector_id @ ''|'' @ canonical_arrival rt arrival_at)"

definition request_digest :: "runtime \<Rightarrow> uuid \<Rightarrow> instant option \<Rightarrow> vnd option \<Rightarrow> int option \<Rightarrow> string" where
  "request_digest rt connector_id arrival_at accepted_fee_vnd accepted_policy_version =
    rt_sha256 rt (str_uuid connector_id @ ''|'' @ canonical_arrival rt arrival_at @ ''|''
      @ str_int_option accepted_fee_vnd @ ''|'' @ str_int_option accepted_policy_version)"

definition connector_occupied :: "uuid \<Rightarrow> db \<Rightarrow> bool" where
  "connector_occupied connector_id d \<longleftrightarrow> list_ex (\<lambda>c. cs_connector_id c = connector_id
     \<and> (cs_ended_at c = None
        \<or> cs_billing_lifecycle_version c = 1 \<and> cs_connector_released_at c = None)) (sessions d)"

definition start_pending :: "uuid \<Rightarrow> db \<Rightarrow> bool" where
  "start_pending connector_id d \<longleftrightarrow> list_ex (\<lambda>s. dsr_connector_id s = connector_id
     \<and> dsr_status s \<in> {''Pending'', ''Accepted''}) (start_requests d)"

definition reason_text :: "eligibility_reason option \<Rightarrow> string" where
  "reason_text reason = (case reason of None \<Rightarrow> ''tariff_unavailable''
     | Some WalletLow \<Rightarrow> ''wallet_low'' | Some WalletMissing \<Rightarrow> ''wallet_missing''
     | Some WalletIsLocked \<Rightarrow> ''wallet_locked'' | Some TariffUnavailable \<Rightarrow> ''tariff_unavailable'')"

text \<open>A request identifier already used: the same booking again, or a conflict.\<close>

definition replayed_booking ::
  "runtime \<Rightarrow> uuid \<Rightarrow> uuid \<Rightarrow> uuid \<Rightarrow> instant option \<Rightarrow> vnd option \<Rightarrow> int option \<Rightarrow> db
   \<Rightarrow> exn + reservation option" where
  "replayed_booking rt driver_id request_id connector_id arrival_at accepted_fee_vnd
       accepted_policy_version d =
    (case get_reservation request_id d of
       Some previous \<Rightarrow>
         let legacy_retry = (r_fee_decision previous = FLegacyExempt \<and> accepted_fee_vnd = None
               \<and> accepted_policy_version = None
               \<and> r_request_hash previous = legacy_hash rt connector_id arrival_at)
         in if r_driver_id previous \<noteq> driver_id
              \<or> r_request_hash previous \<noteq> request_digest rt connector_id arrival_at accepted_fee_vnd
                    accepted_policy_version \<and> \<not> legacy_retry
            then Inl (http 409 ''reservation_request_conflict'') else Inr (Some previous)
     | None \<Rightarrow>
         if request_id \<in> rk_id ` set (reservation_commands d)
         then Inl (http 409 ''reservation_request_conflict'') else Inr None)"

text \<open>The connector must be live, capable and free.\<close>

definition bookable_target ::
  "runtime \<Rightarrow> uuid \<Rightarrow> instant option \<Rightarrow> db \<Rightarrow> exn + charge_point \<times> connector \<times> station" where
  "bookable_target rt connector_id arrival_at d =
    res_bind (lock_target connector_id d) (\<lambda>(point, connector, station).
      let now = rt_now rt; state = capability_status (get_capability (cp_id point) d) point in
      if arrival_at \<noteq> None then Inl (http 422 ''reservation_arrival_out_of_range'')
      else if st_status station \<noteq> ''active'' \<or> \<not> live point now
      then Inl (http 409 ''station_or_charger_unavailable'')
      else if state \<noteq> Supported
      then Inl (http 409 (if state = Unsupported then ''reservation_unsupported''
             else ''reservation_capability_unverified''))
      else if list_ex (\<lambda>r. r_connector_id r = connector_id \<and> is_hold r) (reservations d)
      then Inl (http 409 ''connector_reserved'')
      else if cn_status connector \<noteq> ''Available'' then Inl (http 409 ''connector_unavailable'')
      else if cp_raw_ocpp_status point = Some ''Faulted''
        \<or> cp_error_code point \<notin> {None, Some ''NoError''}
      then Inl (http 409 ''connector_unavailable'')
      else if connector_occupied connector_id d \<or> start_pending connector_id d
      then Inl (http 409 ''connector_unavailable'')
      else Inr (point, connector, station))"

text \<open>The driver must be active, have accepted the fee in force, hold nothing and be able to pay.\<close>

definition bookable_driver ::
  "runtime \<Rightarrow> uuid \<Rightarrow> uuid \<Rightarrow> vnd option \<Rightarrow> int option \<Rightarrow> db \<Rightarrow> exn + (vnd \<times> int) \<times> charging_eligibility"
  where
  "bookable_driver rt driver_id station_id accepted_fee_vnd accepted_policy_version d =
    (let (fee, version) = quote station_id d in
     if (case row_of u_id driver_id (users d) of None \<Rightarrow> True | Some u \<Rightarrow> u_status u \<noteq> ''active'')
       \<or> \<not> has_role d driver_id ''driver'' then Inl (http 403 ''permission_denied'')
     else if accepted_fee_vnd \<notin> {None, Some fee} \<or> accepted_policy_version \<notin> {None, Some version}
       \<or> 0 < fee \<and> (accepted_fee_vnd = None \<or> accepted_policy_version = None)
     then Inl (http 409 ''reservation_policy_changed'')
     else if list_ex (\<lambda>r. r_driver_id r = driver_id \<and> is_hold r) (reservations d)
     then Inl (http 409 ''driver_already_reserved'')
     else if \<not> power_start_allowed (rt_zones rt) (rt_clock rt) station_id (rt_utcnow rt) d
     then Inl (http 409 ''power_unavailable'')
     else
       res_bind (du_so_du_de_sac (rt_zones rt) (rt_wallet_reserve_vnd rt) (rt_charging_minimum_kwh rt)
           driver_id station_id (rt_now rt) d) (\<lambda>eligibility.
         if \<not> el_allowed eligibility \<or> el_tariff_id eligibility = None
         then Inl (HTTPException 409 (JObj
           [(''reason'', JStr (reason_text (el_reason eligibility))),
            (''balance_vnd'', json_int (el_balance_vnd eligibility)),
            (''minimum_balance_vnd'', json_int (el_minimum_balance_vnd eligibility))]))
         else Inr ((fee, version), eligibility)))"

definition covers_fee :: "vnd \<Rightarrow> charging_eligibility \<Rightarrow> exn + unit" where
  "covers_fee fee eligibility =
    (case (el_minimum_balance_vnd eligibility, el_balance_vnd eligibility) of
       (Some minimum, Some balance) \<Rightarrow>
         guard (minimum + fee \<le> balance) (HTTPException 409 (JObj [(''reason'', JStr ''wallet_low''),
           (''minimum_balance_vnd'', JInt (minimum + fee))]))
     | _ \<Rightarrow> Inr ())"

definition identity_usable :: "uuid \<Rightarrow> instant \<Rightarrow> db \<Rightarrow> bool" where
  "identity_usable card_id now d =
    (case row_of cc_id card_id (charging_cards d) of
       None \<Rightarrow> False
     | Some id_card \<Rightarrow> cc_status id_card = ''active''
         \<and> (case cc_expires_at id_card of None \<Rightarrow> True | Some t \<Rightarrow> now < t))"

text \<open>
  The identity column: the next number, never above \<open>2147483647\<close>.  The unique indexes of the
  table on held connectors and drivers are not part of the insert: that they never have to refuse
  a row is a theorem.
\<close>

definition add_reservation :: "reservation \<Rightarrow> db \<Rightarrow> exn + reservation \<times> db" where
  "add_reservation r d =
    (if ocpp_seq d > 2147483647 then Inl DatabaseError
     else let r1 = r\<lparr>r_ocpp_id := ocpp_seq d\<rparr>
          in Inr (r1, d\<lparr>reservations := reservations d @ [r1], ocpp_seq := ocpp_seq d + 1\<rparr>))"

definition new_reservation ::
  "runtime \<Rightarrow> uuid \<Rightarrow> uuid \<Rightarrow> charge_point \<times> connector \<times> station \<Rightarrow> uuid \<Rightarrow> string \<Rightarrow> vnd \<times> int \<Rightarrow> reservation"
  where
  "new_reservation rt driver_id request_id = (\<lambda>(point, connector, station) card_id digest (fee, version).
    \<lparr>r_id = request_id, r_ocpp_id = 0, r_driver_id = driver_id, r_station_id = st_id station,
     r_charge_point_id = cp_id point, r_connector_id = cn_id connector, r_card_id = card_id,
     r_request_hash = digest, r_status = RPending, r_created_at = rt_now rt,
     r_arrival_at = rt_now rt, r_expires_at = rt_now rt + 15 * MINUTE_US, r_updated_at = rt_now rt,
     r_outcome = None, r_cancel_request_id = None, r_cancel_requested_at = None,
     r_cancel_reason = None, r_no_show_exempt = False, r_session_id = None, r_fee_vnd = fee,
     r_fee_policy_version = version, r_fee_decision = FPending, r_fee_reason = None,
     r_fee_decided_at = None, r_fee_ledger_id = None, r_activated_at = None,
     r_expiry_fee_eligible = None\<rparr>)"

definition create_reservation ::
  "runtime \<Rightarrow> uuid \<Rightarrow> uuid \<Rightarrow> uuid \<Rightarrow> instant option \<Rightarrow> evidence \<Rightarrow> vnd option \<Rightarrow> int option \<Rightarrow> db
   \<Rightarrow> exn + reservation \<times> db" where
  "create_reservation rt driver_id request_id connector_id arrival_at evidence accepted_fee_vnd
       accepted_policy_version d =
    res_bind (replayed_booking rt driver_id request_id connector_id arrival_at accepted_fee_vnd
        accepted_policy_version d) (\<lambda>previous.
    case previous of
      Some r \<Rightarrow> Inr (r, d)
    | None \<Rightarrow>
        res_bind (bookable_target rt connector_id arrival_at d) (\<lambda>(point, connector, station).
        res_bind (bookable_driver rt driver_id (st_id station) accepted_fee_vnd
            accepted_policy_version d) (\<lambda>(fee_policy, eligibility).
        res_bind (ensure_driver_resources rt driver_id d) (\<lambda>(tag, d1).
        res_bind (covers_fee (fst fee_policy) eligibility) (\<lambda>_.
        res_bind (guard (identity_usable (vt_card_id tag) (rt_now rt) d1)
            (http 409 ''reservation_identity_unavailable'')) (\<lambda>_.
        res_bind (add_reservation (new_reservation rt driver_id request_id (point, connector, station)
            (vt_card_id tag)
            (request_digest rt connector_id arrival_at accepted_fee_vnd accepted_policy_version)
            fee_policy) d1) (\<lambda>(r, d2).
        res_bind (add_command request_id request_id ReserveNow (rt_now rt) d2) (\<lambda>d3.
        res_bind (ghi_nhat_ky (Some driver_id) ''reservation.requested'' ''reservation''
            (str_uuid request_id)
            [(''connector'', JStr (str_uuid (cn_id connector))),
             (''expires_at'', JStr (rt_isoformat rt (r_expires_at r)))]
            (Some (fst evidence)) (Some (snd evidence)) (event r ''requested'' (rt_now rt) [] d3)) (\<lambda>d4.
          Inr (r, d4))))))))))"

section \<open>Release\<close>

text \<open>The charger may hold the connector already: it is told to let go.\<close>

definition send_cancel :: "runtime \<Rightarrow> string \<Rightarrow> reservation \<times> db \<Rightarrow> exn + reservation \<times> db" where
  "send_cancel rt reason = (\<lambda>(r, d).
    res_bind (add_command (rt_new_command rt) (r_id r) CancelReservation (rt_now rt) d) (\<lambda>d1.
      Inr (r\<lparr>r_status := (if reason = ''expired'' then RExpiryReleasePending else RCancelPending)\<rparr>, d1)))"

text \<open>A ReserveNow that never left is dropped instead.\<close>

definition release_command ::
  "runtime \<Rightarrow> string \<Rightarrow> reservation_command option \<Rightarrow> reservation \<times> db \<Rightarrow> exn + reservation \<times> db" where
  "release_command rt reason reserve = (\<lambda>(r, d).
    case reserve of
      None \<Rightarrow> send_cancel rt reason (r, d)
    | Some c \<Rightarrow>
        if rk_status c = CQueued \<and> rk_attempts c = 0
        then Inr (r\<lparr>r_status := (if reason = ''expired'' then RExpired else RCancelled),
                   r_outcome := Some ''not_sent''\<rparr>,
               update_command (rk_id c) (\<lambda>k. k\<lparr>rk_status := CSuppressed\<rparr>) d)
        else send_cancel rt reason (r, d))"

definition release_exempt :: "runtime \<Rightarrow> string \<Rightarrow> reservation \<Rightarrow> bool" where
  "release_exempt rt reason r \<longleftrightarrow> reason = ''station_unavailable''
     \<or> reason = ''driver_cancel'' \<and> rt_now rt < r_expires_at r"

definition request_release ::
  "runtime \<Rightarrow> string \<Rightarrow> uuid option \<Rightarrow> reservation \<times> db \<Rightarrow> exn + reservation \<times> db" where
  "request_release rt reason request_id = (\<lambda>(r, d).
    if \<not> is_hold r then Inr (r, d)
    else if r_cancel_requested_at r \<noteq> None then Inr (r, d)
    else
      let now = rt_now rt; reserve = reserve_command (r_id r) d;
          r1 = r\<lparr>r_cancel_requested_at := Some now, r_cancel_reason := Some reason,
                r_cancel_request_id := request_id, r_no_show_exempt := release_exempt rt reason r\<rparr>
      in res_bind (if r_no_show_exempt r1 \<and> r_fee_decision r1 = FPending
                   then decide FWaived reason now (r1, d) else Inr (r1, d)) (\<lambda>(r2, d2).
         res_bind (release_command rt reason reserve (r2\<lparr>r_updated_at := now\<rparr>, d2)) (\<lambda>(r3, d3).
           Inr (r3, event r3 ''release_requested'' now [(''reason'', JStr reason)] d3))))"

definition cancel_reservation ::
  "runtime \<Rightarrow> uuid \<Rightarrow> uuid \<Rightarrow> uuid \<Rightarrow> evidence \<Rightarrow> db \<Rightarrow> exn + reservation \<times> db" where
  "cancel_reservation rt driver_id reservation_id request_id evidence d =
    (case get_reservation reservation_id d of
       None \<Rightarrow> Inl (http 404 ''resource_not_found'')
     | Some r \<Rightarrow>
         if r_driver_id r \<noteq> driver_id then Inl (http 403 ''permission_denied'')
         else
           res_bind (lock_target (r_connector_id r) d) (\<lambda>_.
             if r_cancel_request_id r = Some request_id \<and> r_cancel_reason r = Some ''driver_cancel''
             then Inr (r, d)
             else if request_id \<in> rk_id ` set (reservation_commands d)
               \<or> Some request_id \<in> r_cancel_request_id ` set (reservations d)
             then Inl (http 409 ''reservation_request_conflict'')
             else if r_status r = RConsumed then Inl (http 409 ''reservation_consumed'')
             else if r_status r \<in> {RCancelPending, RExpiryReleasePending} then Inr (r, d)
             else if r_expires_at r \<le> rt_now rt then Inl (http 409 ''reservation_expired'')
             else if r_status r \<notin> {RActive, RUncertain} then Inl (http 409 ''reservation_not_cancellable'')
             else
               res_bind (request_release rt ''driver_cancel'' (Some request_id) (r, d)) (\<lambda>(r1, d1).
               res_bind (ghi_nhat_ky (Some driver_id) ''reservation.cancel_requested'' ''reservation''
                   (str_uuid (r_id r1)) [(''request_id'', JStr (str_uuid request_id))]
                   (Some (fst evidence)) (Some (snd evidence)) (put_reservation r1 d1)) (\<lambda>d2.
                 Inr (r1, d2)))))"

section \<open>Starting on a held connector\<close>

definition connector_hold :: "uuid \<Rightarrow> db \<Rightarrow> reservation option" where
  "connector_hold connector_id d =
    find (\<lambda>r. r_connector_id r = connector_id \<and> is_hold r) (reservations d)"

definition admissible :: "reservation \<Rightarrow> uuid \<Rightarrow> instant \<Rightarrow> bool" where
  "admissible r driver_id now \<longleftrightarrow> r_driver_id r = driver_id
    \<and> r_status r \<in> {RPending, RUncertain, RActive} \<and> r_cancel_requested_at r = None
    \<and> now < r_expires_at r"

definition authorize_allowed :: "uuid \<Rightarrow> charging_card \<Rightarrow> instant \<Rightarrow> db \<Rightarrow> bool" where
  "authorize_allowed point_id id_card now d =
    (let rows = filter (\<lambda>r. r_charge_point_id r = point_id \<and> is_hold r) (reservations d) in
     if rows = [] then True
     else if list_ex (\<lambda>r. r_card_id r = cc_id id_card \<and> admissible r (cc_driver_id id_card) now) rows then True
     else list_ex (\<lambda>c. cn_charge_point_id c = point_id \<and> cn_archived_at c = None
            \<and> cn_id c \<notin> r_connector_id ` set rows
            \<and> cn_status c \<in> {''Available'', ''Preparing''}) (connectors d))"

definition holds_connector :: "uuid \<Rightarrow> db \<Rightarrow> bool" where
  "holds_connector connector_id d \<longleftrightarrow>
    list_ex (\<lambda>r. r_connector_id r = connector_id \<and> is_hold r) (reservations d)"

text \<open>The driver's own time is inside the hold, from thirty seconds before it was made.\<close>

definition source_in_hold :: "reservation \<Rightarrow> instant \<Rightarrow> bool" where
  "source_in_hold r source_time \<longleftrightarrow>
    r_created_at r - 30 * SECOND_US \<le> source_time \<and> source_time < r_expires_at r"

definition holder :: "reservation \<Rightarrow> charging_card option \<Rightarrow> bool" where
  "holder r id_card = (case id_card of None \<Rightarrow> False
     | Some c \<Rightarrow> r_card_id r = cc_id c \<and> r_driver_id r = cc_driver_id c)"

definition start_on_hold ::
  "runtime \<Rightarrow> charging_card option \<Rightarrow> int option \<Rightarrow> instant \<Rightarrow> instant \<Rightarrow> string option
   \<Rightarrow> reservation \<Rightarrow> db \<Rightarrow> exn + (bool \<times> reservation option) \<times> db" where
  "start_on_hold rt id_card ocpp_id source_time now message_id hold d =
    (if \<not> holder hold id_card \<or> ocpp_id \<noteq> Some (r_ocpp_id hold) then Inr ((False, Some hold), d)
     else
       let timely = (source_in_hold hold source_time \<and> source_time \<le> now + 30 * SECOND_US
             \<and> now \<le> r_expires_at hold + 30 * SECOND_US)
       in if source_in_hold hold source_time \<and> r_expires_at hold + 30 * SECOND_US < now
            \<and> \<not> r_no_show_exempt hold
          then res_bind (mark_late_start rt source_time now message_id (hold, d)) (\<lambda>(r1, d1).
            Inr ((False, Some r1), put_reservation r1 d1))
          else
            let state_ok = (r_status hold \<in> {RPending, RUncertain, RActive}
              \<or> r_status hold \<in> {RExpiryReleasePending, RExpired} \<and> r_cancel_reason hold = Some ''expired'')
            in Inr ((timely \<and> state_ok, Some hold), d))"

definition validate_start ::
  "runtime \<Rightarrow> uuid \<Rightarrow> charging_card option \<Rightarrow> int option \<Rightarrow> instant \<Rightarrow> instant \<Rightarrow> string option \<Rightarrow> db
   \<Rightarrow> exn + (bool \<times> reservation option) \<times> db" where
  "validate_start rt connector_id id_card ocpp_id source_time now message_id d =
    (let hold = connector_hold connector_id d;
         previous = (case ocpp_id of
             None \<Rightarrow> None
           | Some i \<Rightarrow>
               if (case hold of None \<Rightarrow> True | Some h \<Rightarrow> r_ocpp_id h \<noteq> i)
               then find (\<lambda>r. r_ocpp_id r = i \<and> r_connector_id r = connector_id) (reservations d)
               else None);
         claimed = (case previous of None \<Rightarrow> False
           | Some p \<Rightarrow> holder p id_card \<and> source_in_hold p source_time \<and> r_status p \<noteq> RConsumed
               \<and> \<not> r_no_show_exempt p)
     in case (previous, claimed) of
          (Some p, True) \<Rightarrow>
            if r_expires_at p + 30 * SECOND_US < now \<or> hold \<noteq> None
            then res_bind (mark_late_start rt source_time now message_id (p, d)) (\<lambda>(r1, d1).
              Inr ((False, Some r1), put_reservation r1 d1))
            else if r_status p = RExpired \<and> r_cancel_reason p = Some ''expired''
            then start_on_hold rt id_card ocpp_id source_time now message_id p d
            else Inr ((ocpp_id = None, None), d)
        | _ \<Rightarrow>
            (case hold of
               None \<Rightarrow> Inr ((ocpp_id = None, None), d)
             | Some h \<Rightarrow> start_on_hold rt id_card ocpp_id source_time now message_id h d))"

definition consume :: "instant \<Rightarrow> int \<Rightarrow> reservation \<times> db \<Rightarrow> exn + reservation \<times> db" where
  "consume now session_id = (\<lambda>(r, d).
    let r1 = r\<lparr>r_status := RConsumed, r_session_id := Some session_id, r_updated_at := now,
              r_outcome := Some ''StartTransaction''\<rparr>
    in res_bind (if r_fee_decision r1 = FPending then decide FWaived ''consumed'' now (r1, d)
                 else Inr (r1, d)) (\<lambda>(r2, d2).
         Inr (r2, event r2 ''consumed'' now [(''session_id'', JInt session_id)] d2)))"

end
