(* ===== verification/Reservation_Fees.thy ===== *)
theory Reservation_Fees
  imports Reservations
begin

text \<open>
  src/src/modules/reservations/fees.py: the no-show fee.  Thirty seconds after a hold expired the
  worker settles its fee once: waived, charged to the driver's wallet, or left to a person.  One
  reservation is one transaction (\<open>fee_one\<close>); \<open>fee_cycle\<close> runs the due ones, each with its own
  clock reading and draws, and an exception leaves that reservation as it was.
\<close>

definition socket_key :: "charge_point \<Rightarrow> string" where
  "socket_key point = map casefold_char (strip (cp_code point))"

definition expiry_eligible :: "runtime \<Rightarrow> charge_point \<Rightarrow> station \<Rightarrow> reservation \<Rightarrow> db \<Rightarrow> bool" where
  "expiry_eligible rt point station r d \<longleftrightarrow>
    (case r_activated_at r of None \<Rightarrow> False | Some t \<Rightarrow> t < r_expires_at r)
    \<and> st_status station = ''active'' \<and> live point (rt_now rt)
    \<and> capability_status (get_capability (cp_id point) d) point = Supported
    \<and> (case cp_last_boot_at point of None \<Rightarrow> False | Some boot \<Rightarrow> boot \<le> r_created_at r)
    \<and> cp_error_code point \<in> {None, Some ''NoError''}
    \<and> cp_raw_ocpp_status point \<noteq> Some ''Faulted''
    \<and> (case row_of cn_id (r_connector_id r) (connectors d) of None \<Rightarrow> False
       | Some c \<Rightarrow> cn_status c \<notin> {''Faulted'', ''Unavailable''})
    \<and> rt_connected rt (socket_key point)"

definition observe_expiry ::
  "runtime \<Rightarrow> charge_point \<Rightarrow> station \<Rightarrow> db \<Rightarrow> reservation \<Rightarrow> reservation" where
  "observe_expiry rt point station d r =
    (if r_fee_decision r \<noteq> FPending \<or> rt_now rt < r_expires_at r then r
     else
       let eligible = expiry_eligible rt point station r d in
       if r_expiry_fee_eligible r = None then r\<lparr>r_expiry_fee_eligible := Some eligible\<rparr>
       else if \<not> eligible then r\<lparr>r_expiry_fee_eligible := Some False\<rparr>
       else r)"

text \<open>The wallet pays: the branch of a verified no-show.\<close>

definition charge_fee :: "instant \<Rightarrow> reservation \<times> db \<Rightarrow> exn + reservation \<times> db" where
  "charge_fee now = (\<lambda>(r, d).
    case row_of w_driver_id (r_driver_id r) (wallets d) of
      None \<Rightarrow> decide FReview ''wallet_unavailable'' now (r, d)
    | Some wallet \<Rightarrow>
        if w_status wallet \<noteq> WActive then decide FReview ''wallet_unavailable'' now (r, d)
        else
          res_bind (ghi_so_cai id (w_id wallet) ReservationFee (- r_fee_vnd r) ''reservation''
              (str_uuid (r_id r)) None d) (\<lambda>(entry, d1).
            decide FCharged ''no_show'' now (r\<lparr>r_fee_ledger_id := Some (wl_id entry)\<rparr>, d1)))"

definition settle_fee ::
  "runtime \<Rightarrow> charge_point \<Rightarrow> reservation \<times> db \<Rightarrow> exn + reservation \<times> db" where
  "settle_fee rt point = (\<lambda>(r, d).
    let now = rt_now rt in
    if r_status r = RConsumed \<or> r_session_id r \<noteq> None then decide FWaived ''consumed'' now (r, d)
    else if r_no_show_exempt r
      \<or> r_cancel_reason r = Some ''driver_cancel''
        \<and> (case r_cancel_requested_at r of None \<Rightarrow> False | Some t \<Rightarrow> t < r_expires_at r)
    then decide FWaived ''cancelled_before_expiry'' now (r, d)
    else if r_status r = RRejected \<or> r_outcome r = Some ''not_sent''
    then decide FWaived ''never_reserved'' now (r, d)
    else if r_fee_vnd r = 0
    then res_bind (request_release rt ''expired'' None (r, d)) (decide FWaived ''zero_fee'' now)
    else if r_expiry_fee_eligible r \<noteq> Some True
      \<or> (case cp_last_seen_at point of None \<Rightarrow> True | Some seen \<Rightarrow> seen < r_expires_at r)
    then res_bind (request_release rt ''expired'' None (r, d))
           (decide FReview ''reservation_not_verified_at_expiry'' now)
    else res_bind (request_release rt ''expired'' None (r, d)) (charge_fee now))"

definition fee_one :: "runtime \<Rightarrow> uuid \<Rightarrow> db \<Rightarrow> exn + db" where
  "fee_one rt reservation_id d =
    (case get_reservation reservation_id d of
       None \<Rightarrow> Inr d
     | Some r \<Rightarrow>
         res_bind (lock_target (r_connector_id r) d) (\<lambda>(point, _, station).
           if r_fee_decision r \<noteq> FPending \<or> rt_now rt < r_expires_at r + 30 * SECOND_US then Inr d
           else
             res_bind (settle_fee rt point (observe_expiry rt point station d r, d)) (\<lambda>(r1, d1).
               Inr (put_reservation r1 d1))))"

definition due_fees :: "instant \<Rightarrow> db \<Rightarrow> uuid list" where
  "due_fees now d = take 100 (map r_id (sort_key r_expires_at (filter (\<lambda>r. r_fee_decision r = FPending
     \<and> r_expires_at r \<le> now - 30 * SECOND_US) (reservations d))))"

definition fee_step :: "(uuid \<Rightarrow> runtime) \<Rightarrow> uuid \<Rightarrow> db \<Rightarrow> db" where
  "fee_step runtimes reservation_id d =
    (case fee_one (runtimes reservation_id) reservation_id d of Inl _ \<Rightarrow> d | Inr d1 \<Rightarrow> d1)"

definition fee_cycle :: "instant \<Rightarrow> (uuid \<Rightarrow> runtime) \<Rightarrow> db \<Rightarrow> db" where
  "fee_cycle now runtimes d = fold (fee_step runtimes) (due_fees now d) d"

end
