(* ===== verification/Reservation_Worker.thy ===== *)
theory Reservation_Worker
  imports Reservation_Fees
begin

text \<open>
  src/src/modules/reservations/worker.py: the loop that sends ReserveNow and CancelReservation to
  the chargers and turns their answers, and the time that passes, into the state of the holds.
  A call to a charger lies between two transactions; other transactions commit in the meantime,
  so each half is a definition of its own (\<open>probe_begin\<close> and \<open>probe_end\<close>, \<open>claim\<close> and
  \<open>deliver\<close>) and the properties are about every interleaving of them.
\<close>

section \<open>The wire\<close>

datatype wire_action = WGetConfiguration | WReserveNow | WCancelReservation

text \<open>A reply frame of some kind with its payload, no reply in time, or a lost socket.\<close>

datatype wire_reply = WireReply int "(string \<times> json) list" | WireTimeout | WireLost

definition wire_allowed :: "wire_action \<Rightarrow> string list" where
  "wire_allowed action = (if action = WCancelReservation then [''Accepted'', ''Rejected'']
     else [''Accepted'', ''Occupied'', ''Rejected'', ''Unavailable'', ''Faulted''])"

definition wire :: "wire_action \<Rightarrow> wire_reply \<Rightarrow> string \<times> (string \<times> json) list" where
  "wire action reply =
    (case reply of
       WireTimeout \<Rightarrow> (''Timeout'', [])
     | WireLost \<Rightarrow> (''Disconnected'', [])
     | WireReply kind payload \<Rightarrow>
         if kind \<noteq> 3 then (''ProtocolError'', [])
         else if action = WGetConfiguration then (''Accepted'', payload)
         else if fst ` set payload \<noteq> {''status''} then (''ProtocolError'', [])
         else case map_of payload ''status'' of
           Some (JStr status) \<Rightarrow>
             if status \<in> set (wire_allowed action) then (status, []) else (''ProtocolError'', [])
         | _ \<Rightarrow> (''ProtocolError'', []))"

section \<open>Capability probes\<close>

definition put_capability :: "reservation_capability \<Rightarrow> db \<Rightarrow> db" where
  "put_capability cap d = d\<lparr>capabilities :=
     update_row rc_charge_point_id (rc_charge_point_id cap) (\<lambda>_. cap) (capabilities d)\<rparr>"

text \<open>The result is the lease, when the probe goes out, and the boot it is for.\<close>

definition probe_begin :: "runtime \<Rightarrow> uuid \<Rightarrow> db \<Rightarrow> instant option option \<times> db" where
  "probe_begin rt point_id d =
    (case (row_of cp_id point_id (charge_points d), get_capability point_id d) of
       (Some point, Some cap) \<Rightarrow>
         let now = rt_now rt in
         if \<not> live point now \<or> now < rc_next_attempt_at cap then (None, d)
         else if rc_boot_at cap = cp_last_boot_at point \<and> rc_checked_at cap \<noteq> None then (None, d)
         else if (case rc_locked_until cap of None \<Rightarrow> False | Some t \<Rightarrow> now < t) then (None, d)
         else if \<not> rt_connected rt (socket_key point) then (None, d)
         else (Some (cp_last_boot_at point),
           put_capability (cap\<lparr>rc_lease_token := Some (rt_lease rt),
             rc_locked_until := Some (now + 60 * SECOND_US), rc_boot_at := cp_last_boot_at point,
             rc_checked_at := None, rc_supported := False\<rparr>) d)
     | _ \<Rightarrow> (None, d))"

fun split_on :: "char \<Rightarrow> string \<Rightarrow> string list" where
  "split_on sep [] = [[]]"
| "split_on sep (c # s) =
    (if c = sep then [] # split_on sep s
     else case split_on sep s of [] \<Rightarrow> [[c]] | item # rest \<Rightarrow> (c # item) # rest)"

definition profile_values :: "(string \<times> json) list \<Rightarrow> json list option" where
  "profile_values payload =
    (case map_of payload ''configurationKey'' of Some (JList values) \<Rightarrow> Some values | _ \<Rightarrow> None)"

definition names_reservation :: "json \<Rightarrow> bool" where
  "names_reservation entry =
    (case entry of
       JObj members \<Rightarrow>
         map_of members ''key'' = Some (JStr ''SupportedFeatureProfiles'')
         \<and> (case map_of members ''value'' of
              Some (JStr value) \<Rightarrow> ''Reservation'' \<in> set (map strip (split_on (CHR '','') value))
            | _ \<Rightarrow> False)
     | _ \<Rightarrow> False)"

definition probe_end ::
  "runtime \<Rightarrow> uuid \<Rightarrow> uuid \<Rightarrow> instant option \<Rightarrow> wire_reply \<Rightarrow> db \<Rightarrow> db" where
  "probe_end rt point_id lease boot reply d =
    (let (outcome, payload) = wire WGetConfiguration reply; values = profile_values payload in
     case (row_of cp_id point_id (charge_points d), get_capability point_id d) of
       (Some point, Some cap) \<Rightarrow>
         if rc_lease_token cap \<noteq> Some lease \<or> cp_last_boot_at point \<noteq> boot then d
         else
           let now = rt_now rt; cap1 = cap\<lparr>rc_lease_token := None, rc_locked_until := None\<rparr> in
           (case (outcome = ''Accepted'', values) of
              (True, Some entries) \<Rightarrow>
                let supported = list_ex names_reservation entries in
                put_capability (cap1\<lparr>rc_checked_at := Some now, rc_supported := supported,
                  rc_outcome := (if supported then ''supported'' else ''unsupported'')\<rparr>) d
            | _ \<Rightarrow> put_capability (cap1\<lparr>rc_outcome := outcome,
                rc_next_attempt_at := now + 30 * SECOND_US\<rparr>) d)
     | _ \<Rightarrow> d)"

section \<open>Commands\<close>

datatype command_payload =
    ReservePayload int int string instant
  | CancelPayload int

record delivery =
  dl_command_id :: uuid
  dl_reservation_id :: uuid
  dl_token :: uuid
  dl_action :: command_action
  dl_payload :: command_payload

definition get_command :: "uuid \<Rightarrow> db \<Rightarrow> reservation_command option" where
  "get_command command_id d = row_of rk_id command_id (reservation_commands d)"

definition lease_command :: "runtime \<Rightarrow> reservation_command \<Rightarrow> reservation_command" where
  "lease_command rt c = c\<lparr>rk_status := CSending, rk_attempts := rk_attempts c + 1,
     rk_lease_token := Some (rt_lease rt),
     rk_locked_until := Some (rt_now rt + (60 + 2 * rt_command_timeout_s rt) * SECOND_US)\<rparr>"

text \<open>A command that will not be sent: its row is closed and the hold with it.\<close>

definition refuse_command :: "reservation_command \<Rightarrow> string \<Rightarrow> db \<Rightarrow> db" where
  "refuse_command c outcome d =
    update_command (rk_id c) (\<lambda>k. k\<lparr>rk_status := CDone, rk_outcome := Some outcome\<rparr>) d"

definition reservation_supported :: "charge_point \<Rightarrow> db \<Rightarrow> bool" where
  "reservation_supported point d =
    (case get_capability (cp_id point) d of
       None \<Rightarrow> False
     | Some cap \<Rightarrow> rc_supported cap \<and> rc_checked_at cap \<noteq> None \<and> rc_boot_at cap = cp_last_boot_at point)"

definition holder_tag :: "reservation \<Rightarrow> db \<Rightarrow> driver_virtual_tag option" where
  "holder_tag r d =
    (case row_of vt_driver_id (r_driver_id r) (virtual_tags d) of
       None \<Rightarrow> None
     | Some tag \<Rightarrow> if vt_card_id tag \<noteq> r_card_id r then None else Some tag)"

definition claim_reserve ::
  "runtime \<Rightarrow> charge_point \<times> connector \<times> station \<Rightarrow> reservation \<Rightarrow> reservation_command \<Rightarrow> db
   \<Rightarrow> exn + command_payload option \<times> db" where
  "claim_reserve rt = (\<lambda>(point, connector, station) r c d.
    let now = rt_now rt in
    if st_status station \<noteq> ''active'' \<or> r_expires_at r \<le> now \<or> r_cancel_requested_at r \<noteq> None
    then res_bind (request_release rt
           (if st_status station \<noteq> ''active'' then ''station_unavailable'' else ''expired'') None (r, d))
           (\<lambda>(r1, d1). Inr (None, put_reservation r1 d1))
    else if \<not> reservation_supported point d
    then Inr (None, put_reservation (r\<lparr>r_status := RRejected,
            r_outcome := Some ''capability_changed'', r_updated_at := now\<rparr>)
          (event r ''rejected'' now [(''outcome'', JStr ''capability_changed'')]
            (refuse_command c ''capability_changed'' d)))
    else case holder_tag r d of
      None \<Rightarrow> Inr (None, put_reservation (r\<lparr>r_status := RRejected,
            r_outcome := Some ''identity_changed''\<rparr>) (refuse_command c ''identity_changed'' d))
    | Some tag \<Rightarrow> Inr (Some (ReservePayload (cn_connector_number connector) (r_ocpp_id r)
            (vt_id_tag tag) (r_expires_at r)), d))"

definition claim_cancel :: "reservation \<Rightarrow> db \<Rightarrow> command_payload option" where
  "claim_cancel r d =
    (case reserve_command (r_id r) d of
       Some reserve \<Rightarrow> if rk_status reserve = CSending then None else Some (CancelPayload (r_ocpp_id r))
     | None \<Rightarrow> Some (CancelPayload (r_ocpp_id r)))"

definition claim_payload ::
  "runtime \<Rightarrow> charge_point \<times> connector \<times> station \<Rightarrow> reservation \<Rightarrow> reservation_command \<Rightarrow> db
   \<Rightarrow> exn + command_payload option \<times> db" where
  "claim_payload rt target r c d =
    (if rk_action c = ReserveNow then claim_reserve rt target r c d else Inr (claim_cancel r d, d))"

definition claim :: "runtime \<Rightarrow> uuid \<Rightarrow> db \<Rightarrow> exn + delivery option \<times> db" where
  "claim rt command_id d =
    (case get_command command_id d of
       None \<Rightarrow> Inr (None, d)
     | Some c \<Rightarrow>
         (case get_reservation (rk_reservation_id c) d of
            None \<Rightarrow> Inr (None, d)
          | Some r \<Rightarrow>
              res_bind (lock_target (r_connector_id r) d) (\<lambda>(point, connector, station).
                let now = rt_now rt in
                if rk_status c \<noteq> CQueued \<or> now < rk_next_attempt_at c then Inr (None, d)
                else if \<not> is_hold r
                then Inr (None, update_command command_id (\<lambda>k. k\<lparr>rk_status := CSuppressed\<rparr>) d)
                else if \<not> rt_connected rt (socket_key point) \<or> \<not> live point now then Inr (None, d)
                else
                  res_bind (claim_payload rt (point, connector, station) r c d) (\<lambda>(payload, d1).
                    case payload of
                      None \<Rightarrow> Inr (None, d1)
                    | Some p \<Rightarrow>
                        Inr (Some \<lparr>dl_command_id = command_id, dl_reservation_id = r_id r,
                            dl_token = rt_lease rt, dl_action = rk_action c, dl_payload = p\<rparr>,
                          update_command command_id (lease_command rt) d1)))))"

definition wire_of :: "command_action \<Rightarrow> wire_action" where
  "wire_of action = (if action = ReserveNow then WReserveNow else WCancelReservation)"

text \<open>\<open>min(300, 15 * 2 ** min(attempts - 1, 4))\<close> seconds; a sent command has \<open>attempts\<close> at least 1.\<close>

definition backoff_us :: "nat \<Rightarrow> int" where
  "backoff_us attempts = (if attempts = 0 then 7500000
     else min 300 (15 * 2 ^ min (attempts - 1) 4) * SECOND_US)"

definition reserve_outcome :: "instant \<Rightarrow> string \<Rightarrow> reservation \<Rightarrow> reservation" where
  "reserve_outcome now outcome r =
    (let r1 = (if outcome \<in> {''Occupied'', ''Rejected'', ''Unavailable'', ''Faulted''}
               then r\<lparr>r_status := RRejected\<rparr>
               else if r_cancel_requested_at r = None
               then r\<lparr>r_status := (if outcome = ''Accepted'' then RActive else RUncertain)\<rparr>
               else r);
         r2 = (if outcome = ''Accepted'' \<and> r_activated_at r1 = None
               then r1\<lparr>r_activated_at := Some now\<rparr> else r1)
     in r2\<lparr>r_outcome := Some outcome, r_updated_at := now\<rparr>)"

definition deliver_reserve :: "instant \<Rightarrow> string \<Rightarrow> reservation \<Rightarrow> reservation_command \<Rightarrow> db \<Rightarrow> db" where
  "deliver_reserve now outcome r c d =
    (let definitive = outcome \<in> {''Accepted'', ''Occupied'', ''Rejected'', ''Unavailable'', ''Faulted''};
         d1 = update_command (rk_id c) (\<lambda>k. k\<lparr>rk_outcome := Some outcome, rk_locked_until := None,
                rk_lease_token := None, rk_status := (if definitive then CDone else CUncertain)\<rparr>) d
     in if \<not> is_hold r then d1
        else let r1 = reserve_outcome now outcome r
             in put_reservation r1 (event r1 ''reserve_outcome'' now [(''outcome'', JStr outcome)] d1))"

definition deliver_cancel :: "instant \<Rightarrow> string \<Rightarrow> reservation \<Rightarrow> reservation_command \<Rightarrow> db \<Rightarrow> db" where
  "deliver_cancel now outcome r c d =
    (if outcome = ''Accepted''
     then
       let d1 = update_command (rk_id c) (\<lambda>k. k\<lparr>rk_outcome := Some outcome, rk_locked_until := None,
                rk_lease_token := None, rk_status := CDone\<rparr>) d
       in if \<not> is_hold r then d1
          else let r1 = r\<lparr>r_status := (if r_cancel_reason r = Some ''expired'' then RExpired else RCancelled),
                         r_outcome := Some outcome, r_updated_at := now\<rparr>
               in put_reservation r1 (event r1 ''release_confirmed'' now [] d1)
     else
       let d1 = update_command (rk_id c) (\<lambda>k. k\<lparr>rk_outcome := Some outcome, rk_locked_until := None,
                rk_lease_token := None, rk_status := CQueued,
                rk_next_attempt_at := now + backoff_us (rk_attempts k)\<rparr>) d
       in if \<not> is_hold r then d1
          else put_reservation (r\<lparr>r_outcome := Some outcome, r_updated_at := now\<rparr>) d1)"

text \<open>The second half of a delivery, with the reply of the charger.\<close>

definition deliver :: "runtime \<Rightarrow> delivery \<Rightarrow> wire_reply \<Rightarrow> db \<Rightarrow> exn + db" where
  "deliver rt dl reply d =
    (let outcome = fst (wire (wire_of (dl_action dl)) reply) in
     case get_reservation (dl_reservation_id dl) d of
       None \<Rightarrow> Inr d
     | Some r \<Rightarrow>
         res_bind (lock_target (r_connector_id r) d) (\<lambda>_.
           case get_command (dl_command_id dl) d of
             None \<Rightarrow> Inl AssertionError
           | Some c \<Rightarrow>
               if rk_lease_token c \<noteq> Some (dl_token dl) then Inr d
               else if dl_action dl = ReserveNow
               then Inr (deliver_reserve (rt_now rt) outcome r c d)
               else Inr (deliver_cancel (rt_now rt) outcome r c d)))"

section \<open>Reconciliation\<close>

definition note_reboot :: "instant \<Rightarrow> charge_point \<Rightarrow> reservation \<times> db \<Rightarrow> reservation \<times> db" where
  "note_reboot now point = (\<lambda>(r, d).
    if (case cp_last_boot_at point of None \<Rightarrow> False | Some boot \<Rightarrow> r_created_at r < boot)
      \<and> r_status r = RActive
    then let r1 = r\<lparr>r_status := RUncertain, r_outcome := Some ''charger_reboot'', r_updated_at := now\<rparr>
         in (r1, event r1 ''uncertain'' now [(''outcome'', JStr ''charger_reboot'')] d)
    else (r, d))"

definition expire_lease :: "instant \<Rightarrow> uuid \<Rightarrow> reservation \<times> db \<Rightarrow> reservation \<times> db" where
  "expire_lease now command_id = (\<lambda>(r, d).
    case get_command command_id d of
      None \<Rightarrow> (r, d)
    | Some c \<Rightarrow>
        if rk_status c = CSending
          \<and> (case rk_locked_until c of None \<Rightarrow> False | Some t \<Rightarrow> t \<le> now)
        then
          let d1 = update_command command_id (\<lambda>k. k\<lparr>rk_lease_token := None, rk_locked_until := None,
                rk_outcome := Some ''lease_expired'',
                rk_status := (if rk_action k = ReserveNow then CUncertain else CQueued),
                rk_next_attempt_at := now\<rparr>) d
          in if rk_action c = ReserveNow \<and> r_status r = RPending
             then let r1 = r\<lparr>r_status := RUncertain, r_outcome := Some ''lease_expired'',
                            r_updated_at := now\<rparr>
                  in (r1, event r1 ''uncertain'' now [] d1)
             else (r, d1)
        else (r, d))"

definition release_evidence ::
  "instant \<Rightarrow> charge_point \<Rightarrow> connector \<Rightarrow> reservation \<Rightarrow> bool" where
  "release_evidence now point connector r \<longleftrightarrow>
    r_expires_at r + 30 * SECOND_US \<le> now \<and> live point now
    \<and> cn_status connector = ''Available'' \<and> cn_raw_ocpp_status connector = Some ''Available''
    \<and> (case cn_last_status_notification_at connector of None \<Rightarrow> False
       | Some t \<Rightarrow> r_expires_at r \<le> t \<and> t \<le> now + 30 * SECOND_US)
    \<and> r_expires_at r \<le> cn_status_updated_at connector"

definition suppress_queued :: "uuid \<Rightarrow> db \<Rightarrow> db" where
  "suppress_queued command_id d =
    update_command command_id (\<lambda>k. if rk_status k = CQueued then k\<lparr>rk_status := CSuppressed\<rparr> else k) d"

definition observe_release ::
  "instant \<Rightarrow> charge_point \<Rightarrow> connector \<Rightarrow> uuid list \<Rightarrow> reservation \<times> db \<Rightarrow> reservation \<times> db" where
  "observe_release now point connector commands = (\<lambda>(r, d).
    if release_evidence now point connector r \<and> \<not> connector_occupied (cn_id connector) d
    then let r1 = r\<lparr>r_status := (if r_no_show_exempt r then RCancelled else RExpired),
                   r_outcome := Some ''expiry_observed'', r_updated_at := now\<rparr>
         in (r1, event r1 ''expiry_observed'' now [] (fold suppress_queued commands d))
    else (r, d))"

definition release_due :: "runtime \<Rightarrow> station \<Rightarrow> reservation \<times> db \<Rightarrow> exn + reservation \<times> db" where
  "release_due rt station = (\<lambda>(r, d).
    if st_status station \<noteq> ''active'' then request_release rt ''station_unavailable'' None (r, d)
    else if r_expires_at r \<le> rt_now rt then request_release rt ''expired'' None (r, d)
    else Inr (r, d))"

definition reconcile :: "runtime \<Rightarrow> uuid \<Rightarrow> db \<Rightarrow> exn + db" where
  "reconcile rt reservation_id d =
    (case get_reservation reservation_id d of
       None \<Rightarrow> Inr d
     | Some r \<Rightarrow>
         res_bind (lock_target (r_connector_id r) d) (\<lambda>(point, connector, station).
           if \<not> is_hold r then Inr d
           else
             let now = rt_now rt;
                 commands = map rk_id (filter (\<lambda>c. rk_reservation_id c = reservation_id)
                   (reservation_commands d))
             in res_bind (release_due rt station (fold (expire_lease now) commands
                    (note_reboot now point (observe_expiry rt point station d r, d)))) (\<lambda>s.
                  Inr (write_back (observe_release now point connector commands s)))))"

section \<open>The cycle\<close>

text \<open>
  What a cycle works on: the chargers to probe, the holds to reconcile and the commands to send
  (\<open>online\<close> are the chargers with an accepted boot in this process).
\<close>

definition due_probes :: "instant \<Rightarrow> (uuid \<Rightarrow> bool) \<Rightarrow> db \<Rightarrow> uuid list" where
  "due_probes now online d = take 50 (map rc_charge_point_id (filter (\<lambda>cap.
     online (rc_charge_point_id cap) \<and> rc_next_attempt_at cap \<le> now
     \<and> (case row_of cp_id (rc_charge_point_id cap) (charge_points d) of None \<Rightarrow> False
        | Some point \<Rightarrow> rc_checked_at cap = None \<or> rc_boot_at cap \<noteq> cp_last_boot_at point))
     (capabilities d)))"

definition held_ids :: "db \<Rightarrow> uuid list" where
  "held_ids d = map r_id (filter is_hold (reservations d))"

definition due_commands :: "instant \<Rightarrow> (uuid \<Rightarrow> bool) \<Rightarrow> db \<Rightarrow> uuid list" where
  "due_commands now online d = take 50 (map rk_id (sort_key rk_created_at (filter (\<lambda>c.
     rk_status c = CQueued \<and> rk_next_attempt_at c \<le> now
     \<and> (case get_reservation (rk_reservation_id c) d of None \<Rightarrow> False
        | Some r \<Rightarrow> online (r_charge_point_id r))) (reservation_commands d))))"

definition reconcile_held :: "(uuid \<Rightarrow> runtime) \<Rightarrow> uuid \<Rightarrow> db \<Rightarrow> exn + db" where
  "reconcile_held runtimes reservation_id d =
    (case reconcile (runtimes reservation_id) reservation_id d of
       Inl (HTTPException _ _) \<Rightarrow> Inr d
     | result \<Rightarrow> result)"

text \<open>
  The commands of a cycle are claimed one after the other, each in its transaction; an exception
  leaves the loop, and what was claimed before stays claimed.
\<close>

fun claim_all :: "(uuid \<Rightarrow> runtime) \<Rightarrow> uuid list \<Rightarrow> db \<Rightarrow> (exn + delivery list) \<times> db" where
  "claim_all runtimes [] d = (Inr [], d)"
| "claim_all runtimes (command_id # rest) d =
    (case claim (runtimes command_id) command_id d of
       Inl e \<Rightarrow> (Inl e, d)
     | Inr (dl, d1) \<Rightarrow>
         (case claim_all runtimes rest d1 of
            (Inl e, d2) \<Rightarrow> (Inl e, d2)
          | (Inr dls, d2) \<Rightarrow> (Inr (case dl of None \<Rightarrow> dls | Some x \<Rightarrow> x # dls), d2)))"

end
