(* ===== verification/Reservation_Turns.thy ===== *)
theory Reservation_Turns
  imports Reservation_Worker
begin

text \<open>
  What every operation on a locked reservation row guarantees.  A turn takes the row and the
  database to the row and the database after the operation: it keeps the columns that never
  change, never takes back a released hold, touches only the commands of its reservation, and
  posts to the ledger only the fee of its reservation.  Turns compose, and a row that is written
  back after a turn keeps the invariant of the whole module.
\<close>

section \<open>The invariant\<close>

text \<open>A ReserveNow is sent at most once, and a lease lies on exactly the commands in flight.\<close>

definition command_ok :: "reservation_command \<Rightarrow> bool" where
  "command_ok c \<longleftrightarrow>
    (rk_action c = ReserveNow \<longrightarrow> rk_attempts c \<le> 1 \<and> (rk_status c = CQueued \<longrightarrow> rk_attempts c = 0))
    \<and> (rk_lease_token c \<noteq> None \<longleftrightarrow> rk_status c = CSending)
    \<and> (rk_status c = CSending \<longrightarrow> 0 < rk_attempts c)"

definition command_key :: "reservation_command \<Rightarrow> uuid \<times> command_action" where
  "command_key c = (rk_reservation_id c, rk_action c)"

definition commands_ok :: "db \<Rightarrow> bool" where
  "commands_ok d \<longleftrightarrow> distinct (map rk_id (reservation_commands d))
    \<and> distinct (map command_key (reservation_commands d))
    \<and> (\<forall>c\<in>set (reservation_commands d). command_ok c \<and> rk_reservation_id c \<in> r_id ` set (reservations d))"

definition has_command :: "uuid \<Rightarrow> command_action \<Rightarrow> command_status set \<Rightarrow> db \<Rightarrow> bool" where
  "has_command reservation_id action statuses d \<longleftrightarrow> (\<exists>c\<in>set (reservation_commands d).
     rk_reservation_id c = reservation_id \<and> rk_action c = action \<and> rk_status c \<in> statuses)"

definition fee_entry :: "reservation \<Rightarrow> db \<Rightarrow> wallet_ledger \<Rightarrow> bool" where
  "fee_entry r d e \<longleftrightarrow> wl_entry_type e = ReservationFee \<and> wl_reference_id e = str_uuid (r_id r)
     \<and> wl_amount_vnd e = - r_fee_vnd r
     \<and> (\<exists>w. row_of w_id (wl_wallet_id e) (wallets d) = Some w \<and> w_driver_id w = r_driver_id r)"

definition fee_ok :: "reservation \<Rightarrow> db \<Rightarrow> bool" where
  "fee_ok r d \<longleftrightarrow>
    (r_fee_decision r \<in> {FPending, FWaived, FLegacyExempt} \<longrightarrow> r_fee_ledger_id r = None)
    \<and> (r_fee_decision r = FCharged \<longrightarrow> r_fee_ledger_id r \<noteq> None)
    \<and> (\<forall>i. r_fee_ledger_id r = Some i \<longrightarrow> (\<exists>e\<in>set (ledger d). wl_id e = i \<and> fee_entry r d e))
    \<and> (\<forall>e\<in>set (ledger d). wl_entry_type e = ReservationFee \<and> wl_reference_id e = str_uuid (r_id r)
         \<longrightarrow> r_fee_ledger_id r = Some (wl_id e))
    \<and> (r_status r = RConsumed \<longrightarrow> r_fee_decision r \<noteq> FPending)"

text \<open>No hold waits for nothing: a pending hold or release has its command queued or in flight.\<close>

definition progress_ok :: "reservation \<Rightarrow> db \<Rightarrow> bool" where
  "progress_ok r d \<longleftrightarrow>
    (r_status r = RPending \<longrightarrow> has_command (r_id r) ReserveNow {CQueued, CSending} d)
    \<and> (is_hold r \<and> r_cancel_requested_at r \<noteq> None \<longrightarrow> r_status r \<in> {RCancelPending, RExpiryReleasePending})
    \<and> (r_status r \<in> {RCancelPending, RExpiryReleasePending} \<longrightarrow>
         has_command (r_id r) CancelReservation {CQueued, CSending} d)
    \<and> (has_command (r_id r) CancelReservation UNIV d \<longrightarrow> r_cancel_requested_at r \<noteq> None)
    \<and> (r_status r = RConsumed \<longleftrightarrow> r_session_id r \<noteq> None)"

definition row_ok :: "reservation \<Rightarrow> db \<Rightarrow> bool" where
  "row_ok r d \<longleftrightarrow> fee_ok r d \<and> progress_ok r d"

definition one_hold :: "(reservation \<Rightarrow> uuid) \<Rightarrow> reservation list \<Rightarrow> bool" where
  "one_hold key rows \<longleftrightarrow> (\<forall>r\<in>set rows. \<forall>s\<in>set rows. is_hold r \<and> is_hold s \<and> key r = key s \<longrightarrow> r = s)"

definition reservation_inv :: "db \<Rightarrow> bool" where
  "reservation_inv d \<longleftrightarrow> distinct (map r_id (reservations d))
    \<and> one_hold r_connector_id (reservations d) \<and> one_hold r_driver_id (reservations d)
    \<and> distinct (map r_ocpp_id (reservations d)) \<and> (\<forall>r\<in>set (reservations d). r_ocpp_id r < ocpp_seq d)
    \<and> commands_ok d \<and> (\<forall>r\<in>set (reservations d). row_ok r d)
    \<and> (\<forall>e\<in>set (ledger d). wl_entry_type e = ReservationFee \<longrightarrow>
         (\<exists>r\<in>set (reservations d). wl_reference_id e = str_uuid (r_id r)))"

section \<open>Turns\<close>

definition evolves :: "reservation \<Rightarrow> reservation \<Rightarrow> bool" where
  "evolves r r' \<longleftrightarrow> r_id r' = r_id r \<and> r_ocpp_id r' = r_ocpp_id r \<and> r_driver_id r' = r_driver_id r
    \<and> r_station_id r' = r_station_id r \<and> r_charge_point_id r' = r_charge_point_id r
    \<and> r_connector_id r' = r_connector_id r \<and> r_card_id r' = r_card_id r
    \<and> r_request_hash r' = r_request_hash r \<and> r_created_at r' = r_created_at r
    \<and> r_expires_at r' = r_expires_at r \<and> r_fee_vnd r' = r_fee_vnd r
    \<and> r_fee_policy_version r' = r_fee_policy_version r \<and> (is_hold r' \<longrightarrow> is_hold r)
    \<and> (r_status r = RConsumed \<longrightarrow> r_status r' = RConsumed)"

definition others :: "uuid \<Rightarrow> db \<Rightarrow> reservation_command list" where
  "others reservation_id d = filter (\<lambda>c. rk_reservation_id c \<noteq> reservation_id) (reservation_commands d)"

definition posts :: "uuid \<Rightarrow> db \<Rightarrow> db \<Rightarrow> bool" where
  "posts reservation_id d d' \<longleftrightarrow> (wallet_inv d \<longrightarrow> money_step d d')
    \<and> (\<exists>rows. ledger d' = ledger d @ rows
       \<and> (\<forall>e\<in>set rows. wl_entry_type e = ReservationFee \<longrightarrow> wl_reference_id e = str_uuid reservation_id))"

text \<open>Commands are never deleted, and keep their identity; attempts are only added.\<close>

definition commands_grow :: "db \<Rightarrow> db \<Rightarrow> bool" where
  "commands_grow d d' \<longleftrightarrow> (\<forall>c\<in>set (reservation_commands d). \<exists>c'\<in>set (reservation_commands d').
     rk_id c' = rk_id c \<and> command_key c' = command_key c \<and> rk_attempts c \<le> rk_attempts c')"

definition turn_ok :: "reservation \<Rightarrow> db \<Rightarrow> bool" where
  "turn_ok r d \<longleftrightarrow> r_id r \<in> r_id ` set (reservations d) \<and> commands_ok d \<and> row_ok r d \<and> wallet_inv d"

definition turn :: "reservation \<times> db \<Rightarrow> reservation \<times> db \<Rightarrow> bool" where
  "turn s s' \<longleftrightarrow> (case (s, s') of ((r, d), (r', d')) \<Rightarrow>
     evolves r r' \<and> reservations d' = reservations d \<and> ocpp_seq d' = ocpp_seq d
     \<and> posts (r_id r) d d' \<and> commands_grow d d'
     \<and> (turn_ok r d \<longrightarrow> turn_ok r' d' \<and> others (r_id r) d' = others (r_id r) d))"

lemma evolves_refl [simp]: "evolves r r"
  by (simp add: evolves_def)

lemma evolves_trans: "evolves r s \<Longrightarrow> evolves s t \<Longrightarrow> evolves r t"
  by (simp add: evolves_def)

lemma posts_refl [simp]: "posts i d d"
  by (simp add: posts_def)

lemma posts_trans:
  assumes "posts i d d1" and "posts i d1 d2"
  shows "posts i d d2"
proof -
  obtain xs where xs: "ledger d1 = ledger d @ xs"
    "\<forall>e\<in>set xs. wl_entry_type e = ReservationFee \<longrightarrow> wl_reference_id e = str_uuid i"
    using assms(1) unfolding posts_def by blast
  obtain ys where ys: "ledger d2 = ledger d1 @ ys"
    "\<forall>e\<in>set ys. wl_entry_type e = ReservationFee \<longrightarrow> wl_reference_id e = str_uuid i"
    using assms(2) unfolding posts_def by blast
  have "ledger d2 = ledger d @ (xs @ ys)"
    "\<forall>e\<in>set (xs @ ys). wl_entry_type e = ReservationFee \<longrightarrow> wl_reference_id e = str_uuid i"
    using xs ys by auto
  moreover have "money_step d d2" if "wallet_inv d"
    using assms that money_step_trans money_step_inv unfolding posts_def by blast
  ultimately show ?thesis unfolding posts_def by blast
qed

lemma commands_grow_same [intro]:
  "reservation_commands d' = reservation_commands d \<Longrightarrow> commands_grow d d'"
  by (auto simp: commands_grow_def)

lemma commands_grow_trans: "commands_grow d d1 \<Longrightarrow> commands_grow d1 d2 \<Longrightarrow> commands_grow d d2"
  unfolding commands_grow_def by (metis order_trans)

lemma turn_refl [simp]: "turn s s"
  by (cases s) (simp add: turn_def commands_grow_same)

lemma turn_trans:
  assumes "turn s t" and "turn t u"
  shows "turn s u"
proof -
  obtain r d r1 d1 r2 d2 where [simp]: "s = (r, d)" "t = (r1, d1)" "u = (r2, d2)"
    by (cases s; cases t; cases u) blast
  have "r_id r1 = r_id r" using assms(1) by (simp add: turn_def evolves_def)
  then show ?thesis
    using assms evolves_trans posts_trans commands_grow_trans by (auto simp: turn_def)
qed

lemma turn_id: "turn (r, d) (r', d') \<Longrightarrow> r_id r' = r_id r"
  by (simp add: turn_def evolves_def)

text \<open>Tables a turn's side effects never matter for.\<close>

lemma money_step_events:
  "money_step d (d\<lparr>reservation_events := es, audit_logs := ls, reservation_commands := cs\<rparr>)" if "wallet_inv d"
  using that wallet_inv_cong [of "d\<lparr>reservation_events := es, audit_logs := ls, reservation_commands := cs\<rparr>" d]
  by (auto simp: money_step_def append_step_def)

lemma posts_events:
  "posts i d (d\<lparr>reservation_events := es, audit_logs := ls, reservation_commands := cs\<rparr>)"
  using money_step_events by (simp add: posts_def)

lemma fee_ok_cong:
  assumes "ledger d' = ledger d" and "wallets d' = wallets d"
  shows "fee_ok r d' = fee_ok r d"
  unfolding fee_ok_def fee_entry_def assms ..

lemma fee_entry_keeps: "fee_entry r d e \<Longrightarrow> keeps_drivers d d' \<Longrightarrow> fee_entry r d' e"
  unfolding fee_entry_def keeps_drivers_def by metis

lemma has_command_cong:
  "reservation_commands d' = reservation_commands d \<Longrightarrow> has_command i a ss d' = has_command i a ss d"
  by (simp add: has_command_def)

lemma progress_ok_cong:
  assumes "reservation_commands d' = reservation_commands d"
  shows "progress_ok r d' = progress_ok r d"
  unfolding progress_ok_def has_command_def assms ..

lemma commands_ok_cong:
  assumes "reservation_commands d' = reservation_commands d" and "reservations d' = reservations d"
  shows "commands_ok d' = commands_ok d"
  unfolding commands_ok_def assms ..

section \<open>Writing a row back\<close>

lemma put_reservation_tables [simp]:
  "reservation_commands (put_reservation r d) = reservation_commands d"
  "ledger (put_reservation r d) = ledger d" "wallets (put_reservation r d) = wallets d"
  "ledger_seq (put_reservation r d) = ledger_seq d" "ocpp_seq (put_reservation r d) = ocpp_seq d"
  "reservation_events (put_reservation r d) = reservation_events d"
  by (simp_all add: put_reservation_def)

lemma get_reservationD:
  "get_reservation i d = Some r \<Longrightarrow> r \<in> set (reservations d) \<and> r_id r = i"
  unfolding get_reservation_def by (rule row_of_SomeD)

lemma put_rows:
  assumes "distinct (map r_id rows)" and "r \<in> set rows" and "r_id r' = r_id r"
  shows "set (update_row r_id (r_id r) (\<lambda>_. r') rows) = insert r' (set rows - {r})"
    and "map r_id (update_row r_id (r_id r) (\<lambda>_. r') rows) = map r_id rows"
proof -
  have "x = r" if "x \<in> set rows" "r_id x = r_id r" for x
    using unique_row [OF assms(1) that(1) assms(2) that(2)] .
  then show "set (update_row r_id (r_id r) (\<lambda>_. r') rows) = insert r' (set rows - {r})"
    using assms(2) by (auto simp: set_update_row)
  show "map r_id (update_row r_id (r_id r) (\<lambda>_. r') rows) = map r_id rows"
    using assms(3) by (simp add: update_row_def)
qed

lemma one_hold_put:
  assumes "one_hold key rows" and "r \<in> set rows" and "key r' = key r" and "is_hold r' \<Longrightarrow> is_hold r"
    and "set ys = insert r' (set rows - {r})"
  shows "one_hold key ys"
  using assms unfolding one_hold_def by auto

lemma others_has_command:
  assumes "others i d' = others i d" and "j \<noteq> i"
  shows "has_command j a ss d' = has_command j a ss d"
proof -
  have "has_command j a ss x \<longleftrightarrow> (\<exists>c\<in>set (others i x). rk_reservation_id c = j \<and> rk_action c = a
      \<and> rk_status c \<in> ss)" for x
    using assms(2) by (auto simp: has_command_def others_def)
  then show ?thesis using assms(1) by simp
qed

lemma row_ok_frame:
  assumes rows: "ledger d' = ledger d @ rows" "keeps_drivers d d'"
    and foreign: "\<forall>e\<in>set rows. wl_entry_type e = ReservationFee \<longrightarrow> wl_reference_id e \<noteq> str_uuid (r_id s)"
    and commands: "\<And>a ss. has_command (r_id s) a ss d' = has_command (r_id s) a ss d" and ok: "row_ok s d"
  shows "row_ok s d'"
proof -
  have fee: "fee_ok s d" and progress: "progress_ok s d" using ok by (auto simp: row_ok_def)
  have same: "e \<in> set (ledger d') \<and> wl_entry_type e = ReservationFee \<and> wl_reference_id e = str_uuid (r_id s)
      \<longleftrightarrow> e \<in> set (ledger d) \<and> wl_entry_type e = ReservationFee \<and> wl_reference_id e = str_uuid (r_id s)" for e
    using rows(1) foreign by auto
  have "fee_ok s d'"
  proof -
    have "\<exists>e\<in>set (ledger d'). wl_id e = k \<and> fee_entry s d' e" if k: "r_fee_ledger_id s = Some k" for k
    proof -
      obtain e where "e \<in> set (ledger d)" "wl_id e = k" "fee_entry s d e"
        using fee k unfolding fee_ok_def by blast
      then show ?thesis using rows(1) fee_entry_keeps [OF _ rows(2)] by auto
    qed
    moreover have "r_fee_ledger_id s = Some (wl_id e)" if "e \<in> set (ledger d')"
        "wl_entry_type e = ReservationFee \<and> wl_reference_id e = str_uuid (r_id s)" for e
      using fee that same [of e] unfolding fee_ok_def by blast
    ultimately show ?thesis using fee unfolding fee_ok_def by blast
  qed
  moreover have "progress_ok s d'" using progress unfolding progress_ok_def commands .
  ultimately show ?thesis by (simp add: row_ok_def)
qed

lemma row_ok_other:
  assumes posts: "posts i d d'" and "wallet_inv d" and "others i d' = others i d"
    and s: "r_id s \<noteq> i" and ok: "row_ok s d"
  shows "row_ok s d'"
proof -
  obtain rows where rows: "ledger d' = ledger d @ rows" "keeps_drivers d d'"
      "\<forall>e\<in>set rows. wl_entry_type e = ReservationFee \<longrightarrow> wl_reference_id e = str_uuid i"
    using posts assms(2) unfolding posts_def money_step_def append_step_def by blast
  then show ?thesis
    using row_ok_frame [OF rows(1,2) _ others_has_command [OF assms(3) s] ok] s str_uuid_inject by metis
qed

lemma turn_writes_back:
  assumes inv: "reservation_inv d" and winv: "wallet_inv d" and r: "r \<in> set (reservations d)"
    and turn: "turn (r, d) (r', d')"
  shows "reservation_inv (put_reservation r' d')" and "wallet_inv (put_reservation r' d')"
proof -
  have i: "distinct (map r_id (reservations d))" "one_hold r_connector_id (reservations d)"
      "one_hold r_driver_id (reservations d)" "distinct (map r_ocpp_id (reservations d))"
      "\<forall>x\<in>set (reservations d). r_ocpp_id x < ocpp_seq d" "commands_ok d"
      "\<forall>x\<in>set (reservations d). row_ok x d"
      "\<forall>e\<in>set (ledger d). wl_entry_type e = ReservationFee \<longrightarrow>
         (\<exists>x\<in>set (reservations d). wl_reference_id e = str_uuid (r_id x))"
    using inv unfolding reservation_inv_def by blast+
  have t: "evolves r r'" "reservations d' = reservations d" "ocpp_seq d' = ocpp_seq d"
      "posts (r_id r) d d'" "turn_ok r d \<Longrightarrow> turn_ok r' d' \<and> others (r_id r) d' = others (r_id r) d"
    using turn by (simp_all add: turn_def)
  have ids: "r_id r' = r_id r" "r_ocpp_id r' = r_ocpp_id r" using t(1) by (simp_all add: evolves_def)
  have ok: "turn_ok r' d'" and rest: "others (r_id r) d' = others (r_id r) d"
    using t(5) i(6,7) r winv by (simp_all add: turn_ok_def)
  let ?rows = "update_row r_id (r_id r) (\<lambda>_. r') (reservations d)"
  have put: "reservations (put_reservation r' d') = ?rows" by (simp add: put_reservation_def t(2) ids)
  have set_rows: "set ?rows = insert r' (set (reservations d) - {r})"
    and map_rows: "map r_id ?rows = map r_id (reservations d)"
    using put_rows [OF i(1) r ids(1)] by blast+
  have ids_rows: "r_id ` set ?rows = r_id ` set (reservations d)" using map_rows by (metis list.set_map)
  have "one_hold r_connector_id ?rows" "one_hold r_driver_id ?rows"
    using one_hold_put [OF i(2) r _ _ set_rows] one_hold_put [OF i(3) r _ _ set_rows] t(1) by (simp_all add: evolves_def)
  moreover have "map r_ocpp_id ?rows = map r_ocpp_id (reservations d)"
  proof -
    have "r_ocpp_id (if r_id x = r_id r then r' else x) = r_ocpp_id x" if "x \<in> set (reservations d)" for x
      using unique_row [OF i(1) that r] ids(2) by auto
    then show ?thesis by (simp add: update_row_def)
  qed
  moreover have "row_ok x (put_reservation r' d')" if "x \<in> set ?rows" for x
  proof -
    have "row_ok x d'"
    proof (cases "x = r'")
      case False
      then have "x \<in> set (reservations d)" "x \<noteq> r" using that set_rows by auto
      then have "r_id x \<noteq> r_id r" using unique_row [OF i(1) _ r, of x] by blast
      then show ?thesis using row_ok_other [OF t(4) winv rest] i(7) \<open>x \<in> set (reservations d)\<close> by blast
    qed (use ok in \<open>simp add: turn_ok_def\<close>)
    then show ?thesis
      using fee_ok_cong [of "put_reservation r' d'" d' x] progress_ok_cong [of "put_reservation r' d'" d' x]
      by (simp add: row_ok_def)
  qed
  moreover have "commands_ok (put_reservation r' d')"
    using ok ids_rows t(2) by (simp add: turn_ok_def commands_ok_def put)
  moreover have "\<exists>x\<in>set ?rows. wl_reference_id e = str_uuid (r_id x)"
    if "e \<in> set (ledger d')" "wl_entry_type e = ReservationFee" for e
  proof -
    have "\<exists>x\<in>set (reservations d). wl_reference_id e = str_uuid (r_id x)"
    proof -
      obtain rows where rows: "ledger d' = ledger d @ rows"
          "\<forall>e\<in>set rows. wl_entry_type e = ReservationFee \<longrightarrow> wl_reference_id e = str_uuid (r_id r)"
        using t(4) unfolding posts_def by blast
      from that(1) rows(1) have "e \<in> set (ledger d) \<or> e \<in> set rows" by simp
      then show ?thesis using i(8) rows(2) that(2) r by blast
    qed
    then obtain x where x: "x \<in> set (reservations d)" "wl_reference_id e = str_uuid (r_id x)" by blast
    then have "r_id x \<in> r_id ` set ?rows" using ids_rows by blast
    then show ?thesis using x(2) by auto
  qed
  moreover have "\<forall>x\<in>set ?rows. r_ocpp_id x < ocpp_seq d" using i(5) set_rows r ids(2) by auto
  ultimately show "reservation_inv (put_reservation r' d')"
    using i(1,4) map_rows by (simp add: reservation_inv_def put t(3))
  show "wallet_inv (put_reservation r' d')"
    using ok wallet_inv_cong [of "put_reservation r' d'" d'] by (simp add: turn_ok_def)
qed

section \<open>Introducing turns\<close>

lemma turnI:
  assumes "evolves r r'" and d': "d' = d\<lparr>reservation_events := es, audit_logs := ls, reservation_commands := cs\<rparr>"
    and rest: "turn_ok r d \<Longrightarrow> others (r_id r) (d\<lparr>reservation_commands := cs\<rparr>) = others (r_id r) d"
    and grow: "commands_grow d (d\<lparr>reservation_commands := cs\<rparr>)"
    and ok: "turn_ok r d \<Longrightarrow> commands_ok (d\<lparr>reservation_commands := cs\<rparr>)"
      "turn_ok r d \<Longrightarrow> fee_ok r' d" "turn_ok r d \<Longrightarrow> progress_ok r' (d\<lparr>reservation_commands := cs\<rparr>)"
  shows "turn (r, d) (r', d')"
proof -
  have "turn_ok r' d' \<and> others (r_id r) d' = others (r_id r) d" if t: "turn_ok r d"
  proof -
    have "wallet_inv d'" "commands_ok d'" "fee_ok r' d'" "progress_ok r' d'"
      using t ok [OF t] wallet_inv_cong [of d' d] fee_ok_cong [of d' d r']
        progress_ok_cong [of d' "d\<lparr>reservation_commands := cs\<rparr>" r']
        commands_ok_cong [of d' "d\<lparr>reservation_commands := cs\<rparr>"]
      by (simp_all add: d' turn_ok_def)
    then show ?thesis
      using t assms(1) rest [OF t] by (simp add: turn_ok_def row_ok_def evolves_def d' others_def)
  qed
  then show ?thesis
    using assms(1) posts_events [where i = "r_id r" and d = d and es = es and ls = ls and cs = cs] grow
    by (simp add: turn_def d' commands_grow_def)
qed

lemma turnI_quiet:
  assumes "evolves r r'" and d': "d' = d\<lparr>reservation_events := es, audit_logs := ls\<rparr>"
    and "fee_ok r d \<Longrightarrow> fee_ok r' d" and "progress_ok r d \<Longrightarrow> progress_ok r' d"
  shows "turn (r, d) (r', d')"
proof (rule turnI [where es = es and ls = ls and cs = "reservation_commands d"])
  show "d' = d\<lparr>reservation_events := es, audit_logs := ls, reservation_commands := reservation_commands d\<rparr>"
    by (simp add: d')
qed (use assms in \<open>auto simp: others_def turn_ok_def row_ok_def\<close>)

lemma event_fields:
  "event r a now ds d = d\<lparr>reservation_events := reservation_events d @
     [\<lparr>rv_reservation_id = r_id r, rv_action = a, rv_occurred_at = now, rv_details = ds\<rparr>]\<rparr>"
  by (simp add: event_def)

text \<open>A step that only adds events and audit rows.\<close>

definition noted :: "db \<Rightarrow> db \<Rightarrow> bool" where
  "noted d d' \<longleftrightarrow> (\<exists>es ls. d' = d\<lparr>reservation_events := es, audit_logs := ls\<rparr>)"

lemma notedI: "d' = d\<lparr>reservation_events := es, audit_logs := ls\<rparr> \<Longrightarrow> noted d d'"
  unfolding noted_def by blast

lemma notedE:
  assumes "noted d d'"
  obtains es ls where "d' = d\<lparr>reservation_events := es, audit_logs := ls\<rparr>"
  using assms unfolding noted_def by blast

lemma noted_refl [simp, intro]: "noted d d"
  by (rule notedI [where es = "reservation_events d" and ls = "audit_logs d"]) simp

lemma noted_trans:
  assumes "noted d d1" and "noted d1 d2"
  shows "noted d d2"
proof -
  from assms obtain es ls es' ls' where "d1 = d\<lparr>reservation_events := es, audit_logs := ls\<rparr>"
    "d2 = d1\<lparr>reservation_events := es', audit_logs := ls'\<rparr>" by (elim notedE)
  then show ?thesis by (intro notedI [where es = es' and ls = ls']) simp
qed

lemma noted_event: "noted d (event r a now ds d)"
  by (rule notedI [where ls = "audit_logs d"]) (simp add: event_fields)

lemma noted_audit: "ghi_nhat_ky a ac ot oi data p rs d = Inr d' \<Longrightarrow> noted d d'"
proof -
  assume "ghi_nhat_ky a ac ot oi data p rs d = Inr d'"
  then obtain row where "d' = d\<lparr>audit_logs := audit_logs d @ [row]\<rparr>" using ghi_nhat_ky_frame by blast
  then show "noted d d'"
    by (intro notedI [where es = "reservation_events d" and ls = "audit_logs d @ [row]"]) simp
qed

section \<open>Fee decisions\<close>

lemma decide_effect:
  assumes "decide decision reason now (r, d) = Inr (r', d')"
  obtains t es ls where
    "r' = r\<lparr>r_fee_decision := decision, r_fee_reason := Some reason, r_fee_decided_at := t\<rparr>"
    "d' = d\<lparr>reservation_events := es, audit_logs := ls\<rparr>"
proof (cases "r_fee_decision r = decision \<and> r_fee_reason r = Some reason")
  case True
  then have "r' = r\<lparr>r_fee_decision := decision, r_fee_reason := Some reason,
      r_fee_decided_at := r_fee_decided_at r\<rparr>"
    "d' = d\<lparr>reservation_events := reservation_events d, audit_logs := audit_logs d\<rparr>"
    using assms by (auto simp: decide_def)
  then show ?thesis using that by blast
next
  case False
  then show ?thesis
    using assms that by (auto simp: decide_def Let_def event_fields dest!: ghi_nhat_ky_frame)
qed

lemma fee_ok_decided:
  assumes "fee_ok r d" and "decision \<noteq> FPending"
    and "decision \<in> {FWaived, FLegacyExempt} \<Longrightarrow> r_fee_ledger_id r = None"
    and "decision = FCharged \<Longrightarrow> r_fee_ledger_id r \<noteq> None"
    and same: "r_id r' = r_id r" "r_fee_vnd r' = r_fee_vnd r" "r_driver_id r' = r_driver_id r"
      "r_fee_ledger_id r' = r_fee_ledger_id r" "r_fee_decision r' = decision"
  shows "fee_ok r' d"
  using assms(1-4) unfolding fee_ok_def fee_entry_def same by blast

lemma fee_ok_same:
  assumes "fee_ok r d" and same: "r_id r' = r_id r" "r_fee_vnd r' = r_fee_vnd r" "r_driver_id r' = r_driver_id r"
      "r_fee_ledger_id r' = r_fee_ledger_id r" "r_fee_decision r' = r_fee_decision r"
    and "r_status r' = RConsumed \<Longrightarrow> r_status r = RConsumed"
  shows "fee_ok r' d"
  using assms(1,7) unfolding fee_ok_def fee_entry_def same by blast

lemma progress_ok_same:
  assumes "progress_ok r d" and same: "r_id r' = r_id r" "r_status r' = r_status r"
      "r_cancel_requested_at r' = r_cancel_requested_at r" "r_session_id r' = r_session_id r"
  shows "progress_ok r' d"
  using assms(1) unfolding progress_ok_def is_hold_def same .

lemma decide_turn:
  assumes run: "decide decision reason now (r, d) = Inr (r', d')" and "decision \<noteq> FPending"
    and "decision \<in> {FWaived, FLegacyExempt} \<Longrightarrow> r_fee_decision r = FPending"
    and "decision = FCharged \<Longrightarrow> r_fee_ledger_id r \<noteq> None"
  shows "turn (r, d) (r', d')"
  using run
proof (rule decide_effect)
  fix t es ls
  assume r': "r' = r\<lparr>r_fee_decision := decision, r_fee_reason := Some reason, r_fee_decided_at := t\<rparr>"
    and d': "d' = d\<lparr>reservation_events := es, audit_logs := ls\<rparr>"
  show ?thesis
  proof (rule turnI_quiet [OF _ d'])
    show "evolves r r'" by (simp add: r' evolves_def is_hold_def)
    show "progress_ok r' d" if "progress_ok r d" using progress_ok_same [OF that, of r'] by (simp add: r')
    show "fee_ok r' d" if fee: "fee_ok r d"
    proof (rule fee_ok_decided [OF fee assms(2) _ assms(4)])
      show "r_fee_ledger_id r = None" if "decision \<in> {FWaived, FLegacyExempt}"
        using fee assms(3) [OF that] unfolding fee_ok_def by blast
    qed (simp_all add: r')
  qed
qed

lemma mark_late_start_turn:
  assumes "mark_late_start rt source now message (r, d) = Inr (r', d')"
  shows "turn (r, d) (r', d')"
proof -
  obtain r1 d1 es ls where "r1 = r \<and> d1 = d \<or>
      decide FReview ''late_start_after_fee_window'' now (r, d) = Inr (r1, d1)"
    and [simp]: "r' = r1" "d' = d1\<lparr>reservation_events := es, audit_logs := ls\<rparr>"
    using assms by (auto simp: mark_late_start_def Let_def event_fields split: if_splits dest!: ghi_nhat_ky_frame)
  then have "turn (r, d) (r1, d1)" using decide_turn [of FReview] by auto
  moreover have "turn (r1, d1) (r', d')" by (rule turnI_quiet [where es = es and ls = ls]) simp_all
  ultimately show ?thesis by (rule turn_trans)
qed

section \<open>Commands of the reservation\<close>

definition command_step :: "(reservation_command \<Rightarrow> reservation_command) \<Rightarrow> bool" where
  "command_step f \<longleftrightarrow> (\<forall>k. rk_id (f k) = rk_id k \<and> rk_reservation_id (f k) = rk_reservation_id k
     \<and> rk_action (f k) = rk_action k \<and> rk_attempts k \<le> rk_attempts (f k))"

lemma commands_grow_update: "command_step f \<Longrightarrow> commands_grow d (update_command i f d)"
  unfolding commands_grow_def command_step_def update_command_def update_row_def
  by (auto simp: command_key_def)

lemma commands_ok_update:
  assumes ok: "commands_ok d" and f: "command_step f"
    and c: "\<And>k. k \<in> set (reservation_commands d) \<Longrightarrow> rk_id k = i \<Longrightarrow> command_ok (f k)"
  shows "commands_ok (update_command i f d)"
proof -
  have maps: "map rk_id (update_row rk_id i f xs) = map rk_id xs"
      "map command_key (update_row rk_id i f xs) = map command_key xs" for xs
    using f by (auto simp: update_row_def command_step_def command_key_def)
  have "command_ok k \<and> rk_reservation_id k \<in> r_id ` set (reservations d)"
    if "k \<in> set (update_row rk_id i f (reservation_commands d))" for k
    using that ok c f unfolding commands_ok_def command_step_def set_update_row by fastforce
  then show ?thesis
    using ok by (simp add: commands_ok_def update_command_def maps)
qed

lemma others_update:
  assumes "\<And>k. k \<in> set (reservation_commands d) \<Longrightarrow> rk_id k = i \<Longrightarrow> rk_reservation_id k = j"
    and "command_step f"
  shows "others j (update_command i f d) = others j d"
proof -
  have "filter (\<lambda>c. rk_reservation_id c \<noteq> j) (update_row rk_id i f xs) =
      filter (\<lambda>c. rk_reservation_id c \<noteq> j) xs"
    if "\<And>k. k \<in> set xs \<Longrightarrow> rk_id k = i \<Longrightarrow> rk_reservation_id k = j" for xs
    using that assms(2) by (induction xs) (auto simp: update_row_def command_step_def)
  then show ?thesis using assms(1) by (simp add: others_def update_command_def)
qed

lemma has_command_update:
  assumes "has_command j a ss d" and "command_step f"
    and "\<And>k. k \<in> set (reservation_commands d) \<Longrightarrow> rk_id k = i \<Longrightarrow> command_key k = (j, a) \<Longrightarrow>
      rk_status k \<in> ss \<Longrightarrow> rk_status (f k) \<in> ss"
  shows "has_command j a ss (update_command i f d)"
proof -
  obtain c where c: "c \<in> set (reservation_commands d)" "command_key c = (j, a)" "rk_status c \<in> ss"
    using assms(1) by (auto simp: has_command_def command_key_def)
  let ?c = "if rk_id c = i then f c else c"
  have "?c \<in> set (reservation_commands (update_command i f d))"
    using c(1) by (auto simp: update_command_def update_row_def)
  moreover have "command_key ?c = (j, a)" "rk_status ?c \<in> ss"
    using c assms(2,3) by (auto simp: command_step_def command_key_def)
  ultimately show ?thesis unfolding has_command_def command_key_def by blast
qed

lemma has_any_update:
  assumes "command_step f"
  shows "has_command j a UNIV (update_command i f d) \<longleftrightarrow> has_command j a UNIV d"
proof -
  have any: "has_command j a UNIV x \<longleftrightarrow> (j, a) \<in> set (map command_key (reservation_commands x))" for x
    by (force simp: has_command_def command_key_def)
  have "map command_key (update_row rk_id i f xs) = map command_key xs" for xs
    using assms by (auto simp: update_row_def command_step_def command_key_def)
  then show ?thesis unfolding any by (simp add: update_command_def del: set_map)
qed

lemma get_command_unique:
  assumes "commands_ok d" and "get_command i d = Some c" and "k \<in> set (reservation_commands d)" and "rk_id k = i"
  shows "k = c"
  using assms unique_row [of rk_id "reservation_commands d" k c] row_of_SomeD [of rk_id i _ c]
  by (auto simp: get_command_def commands_ok_def)

lemma update_command_tables [simp]:
  "reservation_commands (update_command i f d) = update_row rk_id i f (reservation_commands d)"
  "ledger (update_command i f d) = ledger d" "wallets (update_command i f d) = wallets d"
  "reservations (update_command i f d) = reservations d"
  by (simp_all add: update_command_def)

text \<open>A turn that changes one command of the reservation, and its row.\<close>

lemma turnI_command:
  assumes "evolves r r'"
    and d': "d' = (update_command i f d)\<lparr>reservation_events := es, audit_logs := ls\<rparr>"
    and c: "\<And>k. turn_ok r d \<Longrightarrow> k \<in> set (reservation_commands d) \<Longrightarrow> rk_id k = i \<Longrightarrow>
      rk_reservation_id k = r_id r \<and> command_ok (f k)"
    and f: "command_step f"
    and ok: "turn_ok r d \<Longrightarrow> fee_ok r' d" "turn_ok r d \<Longrightarrow> progress_ok r' (update_command i f d)"
  shows "turn (r, d) (r', d')"
proof (rule turnI [where es = es and ls = ls and cs = "update_row rk_id i f (reservation_commands d)", OF assms(1)])
  let ?d = "d\<lparr>reservation_commands := update_row rk_id i f (reservation_commands d)\<rparr>"
  have d: "?d = update_command i f d" by (simp add: update_command_def)
  show "d' = d\<lparr>reservation_events := es, audit_logs := ls,
      reservation_commands := update_row rk_id i f (reservation_commands d)\<rparr>"
    by (simp add: d' update_command_def)
  show "commands_grow d ?d" unfolding d by (rule commands_grow_update [OF f])
  assume t: "turn_ok r d"
  show "others (r_id r) ?d = others (r_id r) d" unfolding d using others_update [OF _ f] c [OF t] by blast
  show "commands_ok ?d" unfolding d
    using commands_ok_update [OF _ f] c [OF t] t by (simp add: turn_ok_def)
  show "progress_ok r' ?d" unfolding d by (rule ok(2) [OF t])
  show "fee_ok r' d" by (rule ok(1) [OF t])
qed

end
