(* ===== verification/Reservation_Laws.thy ===== *)
theory Reservation_Laws
  imports Reservation_Turns
begin

text \<open>
  The operations on a reservation are turns: releasing, consuming, settling the fee, sending and
  answering commands, reconciling.  Booking adds a row and keeps the invariant too.
\<close>

section \<open>Release\<close>

lemma reserve_commandD:
  "reserve_command i d = Some c \<Longrightarrow> c \<in> set (reservation_commands d) \<and> rk_reservation_id c = i \<and> rk_action c = ReserveNow"
  unfolding reserve_command_def by (metis (mono_tags, lifting) find_Some_iff_set)

text \<open>The row after the request, before its command is chosen.\<close>

definition releasing :: "runtime \<Rightarrow> string \<Rightarrow> uuid option \<Rightarrow> reservation \<Rightarrow> reservation \<Rightarrow> bool" where
  "releasing rt reason request r r' \<longleftrightarrow> (\<exists>fd fr ft.
     (fd = r_fee_decision r \<or> release_exempt rt reason r \<and> r_fee_decision r = FPending \<and> fd = FWaived)
     \<and> r' = r\<lparr>r_cancel_requested_at := Some (rt_now rt), r_cancel_reason := Some reason,
         r_cancel_request_id := request, r_no_show_exempt := release_exempt rt reason r,
         r_fee_decision := fd, r_fee_reason := fr, r_fee_decided_at := ft, r_updated_at := rt_now rt\<rparr>)"

definition cancel_command :: "runtime \<Rightarrow> uuid \<Rightarrow> reservation_command" where
  "cancel_command rt reservation_id = \<lparr>rk_id = rt_new_command rt, rk_reservation_id = reservation_id,
     rk_action = CancelReservation, rk_status = CQueued, rk_attempts = 0, rk_created_at = rt_now rt,
     rk_next_attempt_at = rt_now rt, rk_locked_until = None, rk_lease_token = None, rk_outcome = None\<rparr>"

lemma release_command_cases:
  assumes "release_command rt reason reserve (r, d) = Inr (r', d')"
  obtains (unsent) c where "reserve = Some c" "rk_status c = CQueued"
      "r' = r\<lparr>r_status := (if reason = ''expired'' then RExpired else RCancelled), r_outcome := Some ''not_sent''\<rparr>"
      "d' = update_command (rk_id c) (\<lambda>k. k\<lparr>rk_status := CSuppressed\<rparr>) d"
  | (sent) "r' = r\<lparr>r_status := (if reason = ''expired'' then RExpiryReleasePending else RCancelPending)\<rparr>"
      "rt_new_command rt \<notin> rk_id ` set (reservation_commands d)"
      "d' = d\<lparr>reservation_commands := reservation_commands d @ [cancel_command rt (r_id r)]\<rparr>"
  using assms
  by (auto simp: release_command_def send_cancel_def add_command_def cancel_command_def split: option.splits if_splits)

lemma request_release_cases:
  assumes "request_release rt reason request (r, d) = Inr (r', d')"
  obtains (kept) "\<not> is_hold r \<or> r_cancel_requested_at r \<noteq> None" "r' = r" "d' = d"
  | (released) r2 es ls d2 es' where "is_hold r" "r_cancel_requested_at r = None" "releasing rt reason request r r2"
      "release_command rt reason (reserve_command (r_id r) d) (r2, d\<lparr>reservation_events := es, audit_logs := ls\<rparr>) = Inr (r', d2)"
      "d' = d2\<lparr>reservation_events := es'\<rparr>"
proof (cases "\<not> is_hold r \<or> r_cancel_requested_at r \<noteq> None")
  case True
  with assms kept show ?thesis by (auto simp: request_release_def split: if_splits)
next
  case False
  let ?r1 = "r\<lparr>r_cancel_requested_at := Some (rt_now rt), r_cancel_reason := Some reason,
      r_cancel_request_id := request, r_no_show_exempt := release_exempt rt reason r\<rparr>"
  obtain r1 d1 d2 where
    step: "(if release_exempt rt reason r \<and> r_fee_decision r = FPending
        then decide FWaived reason (rt_now rt) (?r1, d) else Inr (?r1, d)) = Inr (r1, d1)"
    and rest: "release_command rt reason (reserve_command (r_id r) d) (r1\<lparr>r_updated_at := rt_now rt\<rparr>, d1) = Inr (r', d2)"
    and d': "d' = event r' ''release_requested'' (rt_now rt) [(''reason'', JStr reason)] d2"
    using assms False by (auto simp: request_release_def Let_def)
  have "\<exists>fd fr ft es ls. (fd = r_fee_decision r \<or> release_exempt rt reason r \<and> r_fee_decision r = FPending \<and> fd = FWaived)
      \<and> r1 = ?r1\<lparr>r_fee_decision := fd, r_fee_reason := fr, r_fee_decided_at := ft\<rparr>
      \<and> d1 = d\<lparr>reservation_events := es, audit_logs := ls\<rparr>"
  proof (cases "release_exempt rt reason r \<and> r_fee_decision r = FPending")
    case True
    with step have "decide FWaived reason (rt_now rt) (?r1, d) = Inr (r1, d1)" by simp
    then show ?thesis using True by (elim decide_effect) blast
  next
    case no: False
    with step have "r1 = ?r1\<lparr>r_fee_decision := r_fee_decision r, r_fee_reason := r_fee_reason r,
        r_fee_decided_at := r_fee_decided_at r\<rparr>"
      "d1 = d\<lparr>reservation_events := reservation_events d, audit_logs := audit_logs d\<rparr>" by auto
    then show ?thesis by blast
  qed
  then obtain fd fr ft es ls where "fd = r_fee_decision r \<or> release_exempt rt reason r \<and> r_fee_decision r = FPending \<and> fd = FWaived"
      "r1 = ?r1\<lparr>r_fee_decision := fd, r_fee_reason := fr, r_fee_decided_at := ft\<rparr>"
      and d1: "d1 = d\<lparr>reservation_events := es, audit_logs := ls\<rparr>" by blast
  then have "releasing rt reason request r (r1\<lparr>r_updated_at := rt_now rt\<rparr>)"
    unfolding releasing_def by (intro exI [of _ fd] exI [of _ fr] exI [of _ ft]) simp
  with False rest d' show ?thesis unfolding d1 event_fields by (intro released) blast+
qed

lemma releasing_fields:
  assumes "releasing rt reason request r r'"
  shows "r_id r' = r_id r" "r_fee_vnd r' = r_fee_vnd r" "r_driver_id r' = r_driver_id r"
    "r_fee_ledger_id r' = r_fee_ledger_id r" "r_session_id r' = r_session_id r" "r_status r' = r_status r"
    "r_cancel_requested_at r' = Some (rt_now rt)" "r_cancel_reason r' = Some reason"
    "r_no_show_exempt r' = release_exempt rt reason r" "evolves r r'"
    "r_fee_decision r' = r_fee_decision r \<or> r_fee_decision r = FPending \<and> r_fee_decision r' = FWaived"
    "\<not> release_exempt rt reason r \<Longrightarrow> r_fee_decision r' = r_fee_decision r"
  using assms by (auto simp: releasing_def evolves_def is_hold_def)

lemma releasing_fee_ok:
  assumes "releasing rt reason request r r2" and "fee_ok r d"
    and same: "r_id r' = r_id r2" "r_fee_vnd r' = r_fee_vnd r2" "r_driver_id r' = r_driver_id r2"
      "r_fee_ledger_id r' = r_fee_ledger_id r2" "r_fee_decision r' = r_fee_decision r2" "r_status r' \<noteq> RConsumed"
  shows "fee_ok r' d"
proof -
  note rel = releasing_fields [OF assms(1)]
  from rel(11) show ?thesis
  proof
    assume "r_fee_decision r2 = r_fee_decision r"
    then show ?thesis using fee_ok_same [OF assms(2), of r'] rel same by simp
  next
    assume w: "r_fee_decision r = FPending \<and> r_fee_decision r2 = FWaived"
    then have "r_fee_ledger_id r = None" using assms(2) unfolding fee_ok_def by blast
    then show ?thesis using fee_ok_decided [OF assms(2), of FWaived r'] w rel same by simp
  qed
qed

lemma hold_not_consumed: "is_hold r \<Longrightarrow> r_status r \<noteq> RConsumed"
  by (auto simp: is_hold_def)

lemma not_sent_consumed: "is_hold r \<Longrightarrow> progress_ok r d \<Longrightarrow> r_session_id r = None"
  unfolding progress_ok_def is_hold_def by auto

lemma cancel_command_ok [simp]: "command_ok (cancel_command rt i)" "rk_id (cancel_command rt i) = rt_new_command rt"
    "command_key (cancel_command rt i) = (i, CancelReservation)" "rk_status (cancel_command rt i) = CQueued"
  by (simp_all add: cancel_command_def command_ok_def command_key_def)

lemma add_cancel_ok:
  assumes "commands_ok d" and "r_id r \<in> r_id ` set (reservations d)" and "progress_ok r d"
    and "r_cancel_requested_at r = None" and "rt_new_command rt \<notin> rk_id ` set (reservation_commands d)"
  shows "commands_ok (d\<lparr>reservation_commands := reservation_commands d @ [cancel_command rt (r_id r)]\<rparr>)"
proof -
  have "\<not> has_command (r_id r) CancelReservation UNIV d"
    using assms(3,4) unfolding progress_ok_def by blast
  then have "command_key c \<noteq> (r_id r, CancelReservation)" if "c \<in> set (reservation_commands d)" for c
    using that by (auto simp: has_command_def command_key_def)
  then have "(r_id r, CancelReservation) \<notin> command_key ` set (reservation_commands d)" by (metis imageE)
  moreover have "rk_reservation_id (cancel_command rt (r_id r)) = r_id r" by (simp add: cancel_command_def)
  ultimately show ?thesis using assms(1,2,5) by (auto simp: commands_ok_def)
qed

lemma request_release_turn:
  assumes "request_release rt reason request (r, d) = Inr (r', d')"
  shows "turn (r, d) (r', d')"
  using assms
proof (cases rule: request_release_cases)
  case (released r2 es ls d2 es')
  note rel = releasing_fields [OF released(3)]
  from released(4) show ?thesis
  proof (cases rule: release_command_cases)
    case (unsent c)
    have r': "r' = r2\<lparr>r_status := (if reason = ''expired'' then RExpired else RCancelled), r_outcome := Some ''not_sent''\<rparr>"
      and c: "c \<in> set (reservation_commands d)" "rk_reservation_id c = r_id r" "rk_action c = ReserveNow"
      using unsent(3) reserve_commandD [OF unsent(1)] by simp_all
    show ?thesis
    proof (rule turnI_command [where i = "rk_id c" and f = "\<lambda>k. k\<lparr>rk_status := CSuppressed\<rparr>" and es = es' and ls = ls])
      show "evolves r r'" using rel(10) released(1) hold_not_consumed by (simp add: r' evolves_def)
      show "d' = (update_command (rk_id c) (\<lambda>k. k\<lparr>rk_status := CSuppressed\<rparr>) d)\<lparr>reservation_events := es', audit_logs := ls\<rparr>"
        using released(5) unsent(4) by (simp add: update_command_def)
      show "command_step (\<lambda>k. k\<lparr>rk_status := CSuppressed\<rparr>)" by (simp add: command_step_def)
      assume t: "turn_ok r d"
      have ok: "commands_ok d" "progress_ok r d" "fee_ok r d" using t by (simp_all add: turn_ok_def row_ok_def)
      have k: "k = c" if "k \<in> set (reservation_commands d)" "rk_id k = rk_id c" for k
        using unique_row [of rk_id, OF _ that(1) c(1) that(2)] ok(1) by (simp add: commands_ok_def)
      have "command_ok c" using ok(1) c(1) by (simp add: commands_ok_def)
      then show "rk_reservation_id k = r_id r \<and> command_ok (k\<lparr>rk_status := CSuppressed\<rparr>)"
        if "k \<in> set (reservation_commands d)" "rk_id k = rk_id c" for k
        using k [OF that] c unsent(2) by (auto simp: command_ok_def)
      show "fee_ok r' d" using releasing_fee_ok [OF released(3) ok(3)] by (simp add: r')
      show "progress_ok r' (update_command (rk_id c) (\<lambda>k. k\<lparr>rk_status := CSuppressed\<rparr>) d)"
        using not_sent_consumed [OF released(1) ok(2)] rel by (simp add: progress_ok_def r' is_hold_def)
    qed
  next
    case sent
    have r': "r' = r2\<lparr>r_status := (if reason = ''expired'' then RExpiryReleasePending else RCancelPending)\<rparr>"
      by (rule sent(1))
    show ?thesis
    proof (rule turnI [where es = es' and ls = ls and cs = "reservation_commands d @ [cancel_command rt (r_id r)]"])
      show "evolves r r'" using rel(10) released(1) by (auto simp: r' evolves_def is_hold_def)
      show "d' = d\<lparr>reservation_events := es', audit_logs := ls,
          reservation_commands := reservation_commands d @ [cancel_command rt (r_id r)]\<rparr>"
        using released(5) sent(3) rel(1) by simp
      let ?d = "d\<lparr>reservation_commands := reservation_commands d @ [cancel_command rt (r_id r)]\<rparr>"
      show "commands_grow d ?d" by (auto simp: commands_grow_def)
      assume t: "turn_ok r d"
      have ok: "commands_ok d" "progress_ok r d" "fee_ok r d" "r_id r \<in> r_id ` set (reservations d)"
        using t by (simp_all add: turn_ok_def row_ok_def)
      show "others (r_id r) ?d = others (r_id r) d" by (simp add: others_def cancel_command_def)
      show "commands_ok ?d" using add_cancel_ok [OF ok(1,4,2) released(2)] sent(2) by simp
      show "fee_ok r' d" using releasing_fee_ok [OF released(3) ok(3)] by (simp add: r')
      have "has_command (r_id r) CancelReservation {CQueued, CSending} ?d"
        by (simp add: has_command_def cancel_command_def)
      then show "progress_ok r' ?d"
        using not_sent_consumed [OF released(1) ok(2)] rel by (simp add: progress_ok_def r' is_hold_def)
    qed
  qed
qed simp

section \<open>Starting\<close>

lemma consume_turn:
  assumes "consume now session_id (r, d) = Inr (r', d')"
    and "r_status r \<noteq> RConsumed" and "is_hold r \<or> r_status r = RExpired"
  shows "turn (r, d) (r', d')"
proof -
  let ?r1 = "r\<lparr>r_status := RConsumed, r_session_id := Some session_id, r_updated_at := now,
      r_outcome := Some ''StartTransaction''\<rparr>"
  have "\<exists>fd fr ft es ls. r' = ?r1\<lparr>r_fee_decision := fd, r_fee_reason := fr, r_fee_decided_at := ft\<rparr>
      \<and> (r_fee_decision r = FPending \<and> fd = FWaived \<or> fd = r_fee_decision r \<and> fd \<noteq> FPending)
      \<and> d' = d\<lparr>reservation_events := es, audit_logs := ls\<rparr>"
  proof (cases "r_fee_decision r = FPending")
    case True
    with assms(1) obtain d1 where run: "decide FWaived ''consumed'' now (?r1, d) = Inr (r', d1)"
      and d': "d' = event r' ''consumed'' now [(''session_id'', JInt session_id)] d1"
      by (auto simp: consume_def Let_def)
    from run obtain t es ls where
      r': "r' = ?r1\<lparr>r_fee_decision := FWaived, r_fee_reason := Some ''consumed'', r_fee_decided_at := t\<rparr>"
      and "d1 = d\<lparr>reservation_events := es, audit_logs := ls\<rparr>" by (rule decide_effect)
    then have "noted d d'" using d' noted_trans [OF notedI noted_event] by blast
    with True r' show ?thesis unfolding noted_def by blast
  next
    case False
    with assms(1) have "r' = ?r1\<lparr>r_fee_decision := r_fee_decision r, r_fee_reason := r_fee_reason r,
        r_fee_decided_at := r_fee_decided_at r\<rparr>"
      and "d' = event ?r1 ''consumed'' now [(''session_id'', JInt session_id)] d"
      by (auto simp: consume_def Let_def)
    with False show ?thesis
      by (intro exI [of _ "r_fee_decision r"] exI [of _ "r_fee_reason r"] exI [of _ "r_fee_decided_at r"])
        (auto simp: event_fields intro!: exI [of _ "audit_logs d"])
  qed
  then obtain fd fr ft es ls where r': "r' = ?r1\<lparr>r_fee_decision := fd, r_fee_reason := fr, r_fee_decided_at := ft\<rparr>"
    and fd: "r_fee_decision r = FPending \<and> fd = FWaived \<or> fd = r_fee_decision r \<and> fd \<noteq> FPending"
    and d': "d' = d\<lparr>reservation_events := es, audit_logs := ls\<rparr>" by blast
  show ?thesis
  proof (rule turnI_quiet [OF _ d'])
    show "evolves r r'" using assms(3) by (auto simp: r' evolves_def is_hold_def)
    show "fee_ok r' d" if ok: "fee_ok r d"
    proof (rule fee_ok_decided [OF ok, of fd])
      show "fd \<noteq> FPending" using fd by auto
      show "r_fee_ledger_id r = None" if "fd \<in> {FWaived, FLegacyExempt}"
        using that fd ok unfolding fee_ok_def by auto
      show "r_fee_ledger_id r \<noteq> None" if "fd = FCharged"
        using that fd ok unfolding fee_ok_def by auto
    qed (simp_all add: r')
    show "progress_ok r' d" if "progress_ok r d"
      using that by (simp add: r' progress_ok_def is_hold_def)
  qed
qed

section \<open>Fees\<close>

lemma request_release_expired:
  assumes "request_release rt ''expired'' request (r, d) = Inr (r', d')"
  shows "r_fee_decision r' = r_fee_decision r" and "r_fee_vnd r' = r_fee_vnd r"
    and "r_driver_id r' = r_driver_id r" and "ledger d' = ledger d"
  using assms
  by (cases rule: request_release_cases; simp; auto elim!: release_command_cases
      dest: releasing_fields simp: release_exempt_def)+

lemma observe_expiry_fields [simp]:
  "r_fee_decision (observe_expiry rt point station d r) = r_fee_decision r"
  "r_status (observe_expiry rt point station d r) = r_status r"
  "r_id (observe_expiry rt point station d r) = r_id r"
  "r_expires_at (observe_expiry rt point station d r) = r_expires_at r"
  "r_fee_vnd (observe_expiry rt point station d r) = r_fee_vnd r"
  "r_driver_id (observe_expiry rt point station d r) = r_driver_id r"
  "r_fee_ledger_id (observe_expiry rt point station d r) = r_fee_ledger_id r"
  "r_cancel_requested_at (observe_expiry rt point station d r) = r_cancel_requested_at r"
  "r_session_id (observe_expiry rt point station d r) = r_session_id r"
  "r_created_at (observe_expiry rt point station d r) = r_created_at r"
  by (simp_all add: observe_expiry_def Let_def)

lemma observe_expiry_turn: "turn (r, d) (observe_expiry rt point station d0 r, d)"
proof (rule turnI_quiet)
  let ?r = "observe_expiry rt point station d0 r"
  show "d = d\<lparr>reservation_events := reservation_events d, audit_logs := audit_logs d\<rparr>" by simp
  show "evolves r ?r" by (simp add: observe_expiry_def Let_def evolves_def is_hold_def)
  show "fee_ok r d \<Longrightarrow> fee_ok ?r d" using fee_ok_same [of r d ?r] by simp
  show "progress_ok r d \<Longrightarrow> progress_ok ?r d" using progress_ok_same [of r d ?r] by simp
qed

lemma pending_no_fee:
  assumes "fee_ok r d" and "r_fee_decision r = FPending"
  shows "r_fee_ledger_id r = None" and "find_entry ReservationFee (str_uuid (r_id r)) (ledger d) = None"
proof -
  show none: "r_fee_ledger_id r = None" using assms unfolding fee_ok_def by blast
  show "find_entry ReservationFee (str_uuid (r_id r)) (ledger d) = None"
    using assms(1) none find_entry_SomeD [of ReservationFee "str_uuid (r_id r)" "ledger d"]
    unfolding fee_ok_def entry_key_def by (metis Pair_inject option.distinct(1) option.exhaust)
qed

lemma strip_reservation: "strip ''reservation'' = ''reservation''"
  by code_simp

text \<open>The wallet of the driver pays, and the posting is the only fee of this reservation.\<close>

lemma charged_turn:
  assumes w: "row_of w_driver_id (r_driver_id r) (wallets d) = Some w" and pending: "r_fee_decision r = FPending"
    and post: "ghi_so_cai id (w_id w) ReservationFee (- r_fee_vnd r) ''reservation'' (str_uuid (r_id r)) None d = Inr (entry, d1)"
    and decided: "decide FCharged ''no_show'' now (r\<lparr>r_fee_ledger_id := Some (wl_id entry)\<rparr>, d1) = Inr (r', d')"
  shows "turn (r, d) (r', d')"
proof -
  obtain t es ls where r': "r' = r\<lparr>r_fee_ledger_id := Some (wl_id entry), r_fee_decision := FCharged,
      r_fee_reason := Some ''no_show'', r_fee_decided_at := t\<rparr>"
    and d': "d' = d1\<lparr>reservation_events := es, audit_logs := ls\<rparr>"
    using decided by (rule decide_effect) simp
  have money: "money_step d d1" if "wallet_inv d"
    using ghi_so_cai_money [where env = id, OF that _ post] that by (simp add: rely_refl strip_reservation)
  have shape: "d1 = d \<or> d1 = posted_db (w_id w) (w_balance_vnd x + - r_fee_vnd r) entry d
      \<and> wl_entry_type entry = ReservationFee \<and> wl_reference_id entry = str_uuid (r_id r)
      \<and> wl_amount_vnd entry = - r_fee_vnd r \<and> wl_wallet_id entry = w_id w"
    if "row_of w_id (w_id w) (wallets d) = Some x" for x
    using post that by (cases rule: ghi_so_cai_cases) (auto simp: posted_row_def)
  have same: "reservations d1 = reservations d" "ocpp_seq d1 = ocpp_seq d" "reservation_commands d1 = reservation_commands d"
    using post by (cases rule: ghi_so_cai_cases; simp add: posted_db_def)+
  have posts: "posts (r_id r) d d'"
  proof -
    have "\<exists>rows. ledger d1 = ledger d @ rows \<and> (\<forall>e\<in>set rows. wl_entry_type e = ReservationFee \<longrightarrow>
        wl_reference_id e = str_uuid (r_id r))"
      using post by (cases rule: ghi_so_cai_cases) (auto simp: posted_db_def posted_row_def)
    then have "posts (r_id r) d d1" using money by (simp add: posts_def)
    moreover have "posts (r_id r) d1 d'"
      using posts_events [where i = "r_id r" and d = d1 and es = es and ls = ls and cs = "reservation_commands d1"]
      by (simp add: d')
    ultimately show ?thesis by (rule posts_trans)
  qed
  have "turn_ok r' d' \<and> others (r_id r) d' = others (r_id r) d" if t: "turn_ok r d"
  proof -
    have ok: "wallet_inv d" "commands_ok d" "fee_ok r d" "progress_ok r d" "r_id r \<in> r_id ` set (reservations d)"
      using t by (simp_all add: turn_ok_def row_ok_def)
    note none = pending_no_fee [OF ok(3) pending]
    have found: "find_entry ReservationFee (str_uuid (r_id r)) (ledger d1) = Some entry"
      "wl_wallet_id entry = w_id w" "wl_amount_vnd entry = - r_fee_vnd r"
      using ghi_so_cai_found [OF post] by simp_all
    have e: "entry \<in> set (ledger d1)" "entry_key entry = (ReservationFee, str_uuid (r_id r))"
      using find_entry_SomeD [OF found(1)] by simp_all
    have winv: "wallet_inv d1" by (rule money_step_inv [OF money [OF ok(1)]])
    have keeps: "keeps_drivers d d1" using money [OF ok(1)] unfolding money_step_def append_step_def by blast
    have "row_of w_id (w_id w) (wallets d) = Some w"
      using row_of_SomeD [OF w] row_of_unique [of w_id "wallets d" w] ok(1) by (simp add: wallet_inv_def)
    then obtain w' where w': "row_of w_id (w_id w) (wallets d1) = Some w'" "w_driver_id w' = r_driver_id r"
      using keeps row_of_SomeD [OF w] unfolding keeps_drivers_def by metis
    have fee: "fee_entry r' d1 entry"
      using e(2) found w' by (simp add: fee_entry_def r' entry_key_def)
    have uniq: "x = entry" if "x \<in> set (ledger d1)" "entry_key x = (ReservationFee, str_uuid (r_id r))" for x
      using unique_row [of entry_key "ledger d1" x entry] winv e that by (simp add: wallet_inv_def)
    have "fee_ok r' d1"
      unfolding fee_ok_def
    proof (intro conjI allI ballI impI)
      show "\<exists>x\<in>set (ledger d1). wl_id x = i \<and> fee_entry r' d1 x" if "r_fee_ledger_id r' = Some i" for i
        using that e(1) fee by (intro bexI [of _ entry]) (simp_all add: r')
      show "r_fee_ledger_id r' = Some (wl_id x)" if "x \<in> set (ledger d1)"
        "wl_entry_type x = ReservationFee \<and> wl_reference_id x = str_uuid (r_id r')" for x
        using uniq [OF that(1)] that(2) by (simp add: r' entry_key_def)
    qed (simp_all add: r')
    moreover have "progress_ok r' d1"
      using progress_ok_same [OF ok(4), of r'] progress_ok_cong [OF same(3), of r'] by (simp add: r')
    moreover have "commands_ok d1" using ok(2) commands_ok_cong [OF same(3,1)] by simp
    ultimately show ?thesis
      using winv ok(5) same fee_ok_cong [of d' d1 r'] progress_ok_cong [of d' d1 r'] commands_ok_cong [of d' d1]
        wallet_inv_cong [of d' d1]
      by (simp add: turn_ok_def row_ok_def d' others_def) (simp add: r')
  qed
  moreover have "evolves r r'" by (simp add: r' evolves_def is_hold_def)
  ultimately show ?thesis using posts same commands_grow_same [of d' d] by (simp add: turn_def d')
qed

lemma charge_fee_turn:
  assumes "charge_fee now (r, d) = Inr (r', d')" and "r_fee_decision r = FPending"
  shows "turn (r, d) (r', d')"
  using assms decide_turn [of FReview] charged_turn [OF _ assms(2)]
  by (auto simp: charge_fee_def split: option.splits if_splits)

lemma settle_fee_turn:
  assumes run: "settle_fee rt point (r, d) = Inr (r', d')" and pending: "r_fee_decision r = FPending"
  shows "turn (r, d) (r', d')"
proof -
  have waive: "turn (x, e) (r', d')" if "decide dec reason now (x, e) = Inr (r', d')" "dec \<in> {FWaived, FReview}"
      "r_fee_decision x = FPending" for dec reason now x e
    using decide_turn [OF that(1)] that(2,3) by auto
  consider dec reason now where "decide dec reason now (r, d) = Inr (r', d')" "dec \<in> {FWaived, FReview}"
    | r1 d1 dec reason now where "request_release rt ''expired'' None (r, d) = Inr (r1, d1)"
        "decide dec reason now (r1, d1) = Inr (r', d')" "dec \<in> {FWaived, FReview}"
    | r1 d1 where "request_release rt ''expired'' None (r, d) = Inr (r1, d1)"
        "charge_fee (rt_now rt) (r1, d1) = Inr (r', d')"
    using run by (auto simp: settle_fee_def Let_def split: if_splits)
  then show ?thesis
  proof cases
    case 1
    then show ?thesis using waive pending by blast
  next
    case 2
    then show ?thesis
      using turn_trans [OF request_release_turn waive] request_release_expired(1) [OF 2(1)] pending by metis
  next
    case 3
    then show ?thesis
      using turn_trans [OF request_release_turn charge_fee_turn] request_release_expired(1) [OF 3(1)] pending by metis
  qed
qed

end
