(* ===== verification/Reservation_Delivery.thy ===== *)
theory Reservation_Delivery
  imports Reservation_Laws
begin

text \<open>
  The worker's transactions keep the invariant: claiming and answering commands, reconciling a
  hold, settling fees.  Each is one turn on its reservation, written back.
\<close>

section \<open>Transactions on one row\<close>

definition row_step :: "db \<Rightarrow> db \<Rightarrow> bool" where
  "row_step d d' \<longleftrightarrow> d' = d \<or> (\<exists>r r' d1. r \<in> set (reservations d) \<and> turn (r, d) (r', d1)
     \<and> d' = put_reservation r' d1)"

lemma row_step_inv:
  assumes "row_step d d'" and "reservation_inv d" and "wallet_inv d"
  shows "reservation_inv d'" and "wallet_inv d'"
  using assms turn_writes_back [OF assms(2,3)] unfolding row_step_def by blast+

lemma row_stepI:
  "r \<in> set (reservations d) \<Longrightarrow> turn (r, d) (r', d1) \<Longrightarrow> d' = put_reservation r' d1 \<Longrightarrow> row_step d d'"
  unfolding row_step_def by blast

lemma put_same:
  assumes "distinct (map r_id (reservations d))" and "r \<in> set (reservations d)" and "reservations d' = reservations d"
  shows "put_reservation r d' = d'"
proof -
  have "update_row r_id (r_id r) (\<lambda>_. r) (reservations d) = reservations d"
    using unique_row [OF assms(1) _ assms(2)] unfolding update_row_def by (intro map_idI) auto
  then show ?thesis by (simp add: put_reservation_def assms(3))
qed

lemma row_step_keep:
  assumes "reservation_inv d" and "r \<in> set (reservations d)" and "turn (r, d) (r, d')"
  shows "row_step d d'"
  using put_same [of d r d'] assms row_stepI [OF assms(2,3), of d']
  by (simp add: reservation_inv_def turn_def)

section \<open>Turns of the worker\<close>

definition owns :: "reservation \<Rightarrow> db \<Rightarrow> uuid \<Rightarrow> bool" where
  "owns r d i \<longleftrightarrow> (\<forall>k\<in>set (reservation_commands d). rk_id k = i \<longrightarrow> rk_reservation_id k = r_id r)"

lemma progress_released:
  assumes "progress_ok r d" and "is_hold r" and "\<not> is_hold r'" and "r_status r' \<noteq> RConsumed" and "r_id r' = r_id r"
    and "r_cancel_requested_at r' = r_cancel_requested_at r" and "r_session_id r' = r_session_id r"
  shows "progress_ok r' d"
  using assms not_sent_consumed [OF assms(2,1)] unfolding progress_ok_def is_hold_def by auto

lemma progress_update:
  assumes "progress_ok r d" and f: "command_step f"
    and keep: "\<And>k. k \<in> set (reservation_commands d) \<Longrightarrow> rk_id k = i \<Longrightarrow> rk_status k \<in> {CQueued, CSending} \<Longrightarrow>
      rk_status (f k) \<in> {CQueued, CSending} \<or> rk_action k = ReserveNow \<and> r_status r \<noteq> RPending
        \<or> rk_action k = CancelReservation \<and> r_status r \<notin> {RCancelPending, RExpiryReleasePending}"
  shows "progress_ok r (update_command i f d)"
proof -
  have "has_command (r_id r) ReserveNow {CQueued, CSending} (update_command i f d)" if pending: "r_status r = RPending"
  proof (rule has_command_update [OF _ f])
    show "has_command (r_id r) ReserveNow {CQueued, CSending} d"
      using assms(1) pending unfolding progress_ok_def by blast
    show "rk_status (f k) \<in> {CQueued, CSending}" if "k \<in> set (reservation_commands d)" "rk_id k = i"
      "command_key k = (r_id r, ReserveNow)" "rk_status k \<in> {CQueued, CSending}" for k
      using keep [OF that(1,2,4)] that(3) pending by (auto simp: command_key_def)
  qed
  moreover have "has_command (r_id r) CancelReservation {CQueued, CSending} (update_command i f d)"
    if pending: "r_status r \<in> {RCancelPending, RExpiryReleasePending}"
  proof (rule has_command_update [OF _ f])
    show "has_command (r_id r) CancelReservation {CQueued, CSending} d"
      using assms(1) pending unfolding progress_ok_def by blast
    show "rk_status (f k) \<in> {CQueued, CSending}" if "k \<in> set (reservation_commands d)" "rk_id k = i"
      "command_key k = (r_id r, CancelReservation)" "rk_status k \<in> {CQueued, CSending}" for k
      using keep [OF that(1,2,4)] that(3) pending by (auto simp: command_key_def)
  qed
  ultimately show ?thesis
    using assms(1) unfolding progress_ok_def has_any_update [OF f] by blast
qed

text \<open>One command of the reservation changes, its row does not.\<close>

lemma command_turn:
  assumes owns: "owns r d i" and f: "command_step f" and noted: "noted (update_command i f d) d'"
    and c: "\<And>k. turn_ok r d \<Longrightarrow> k \<in> set (reservation_commands d) \<Longrightarrow> rk_id k = i \<Longrightarrow> command_ok k \<Longrightarrow> command_ok (f k)"
    and keep: "\<And>k. turn_ok r d \<Longrightarrow> k \<in> set (reservation_commands d) \<Longrightarrow> rk_id k = i \<Longrightarrow> rk_status k \<in> {CQueued, CSending} \<Longrightarrow>
      rk_status (f k) \<in> {CQueued, CSending} \<or> rk_action k = ReserveNow \<and> r_status r \<noteq> RPending
        \<or> rk_action k = CancelReservation \<and> r_status r \<notin> {RCancelPending, RExpiryReleasePending}"
  shows "turn (r, d) (r, d')"
proof -
  from noted obtain es ls where d': "d' = (update_command i f d)\<lparr>reservation_events := es, audit_logs := ls\<rparr>"
    by (rule notedE)
  show ?thesis
  proof (rule turnI_command [OF _ d' _ f])
    show "rk_reservation_id k = r_id r \<and> command_ok (f k)"
      if "turn_ok r d" "k \<in> set (reservation_commands d)" "rk_id k = i" for k
      using owns c [OF that] that by (auto simp: owns_def turn_ok_def commands_ok_def)
    show "progress_ok r (update_command i f d)" if "turn_ok r d"
      using progress_update [OF _ f keep [OF that]] that by (simp add: turn_ok_def row_ok_def)
  qed (simp_all add: turn_ok_def row_ok_def)
qed

text \<open>The row leaves the holds, or changes in columns that carry no promise.\<close>

lemma row_turn:
  assumes "evolves r r'" and "noted d d'" and "r_fee_ledger_id r' = r_fee_ledger_id r"
    and "r_fee_decision r' = r_fee_decision r" and "r_status r' = RConsumed \<Longrightarrow> r_status r = RConsumed"
    and "progress_ok r d \<Longrightarrow> progress_ok r' d"
  shows "turn (r, d) (r', d')"
proof -
  from assms(2) obtain es ls where "d' = d\<lparr>reservation_events := es, audit_logs := ls\<rparr>" by (rule notedE)
  then show ?thesis
    using assms fee_ok_same [of r d r'] by (intro turnI_quiet [of r r']) (auto simp: evolves_def)
qed

section \<open>Claiming\<close>

lemma get_commandD: "get_command i d = Some c \<Longrightarrow> c \<in> set (reservation_commands d) \<and> rk_id c = i"
  unfolding get_command_def by (rule row_of_SomeD)

lemma inv_commands: "reservation_inv d \<Longrightarrow> commands_ok d"
  by (simp add: reservation_inv_def)

lemma owns_command:
  assumes "reservation_inv d" and "get_command i d = Some c" and "rk_reservation_id c = r_id r"
  shows "owns r d i"
  using get_command_unique [OF inv_commands [OF assms(1)] assms(2)] assms(3) by (auto simp: owns_def)

lemma lease_ok: "command_ok c \<Longrightarrow> rk_status c = CQueued \<Longrightarrow> command_ok (lease_command rt c)"
  by (auto simp: command_ok_def lease_command_def)

lemma lease_step: "command_step (lease_command rt)"
  by (simp add: command_step_def lease_command_def)

lemma refused_turn:
  assumes inv: "reservation_inv d" and c: "get_command (rk_id c) d = Some c" "rk_reservation_id c = r_id r"
      "rk_status c = CQueued"
    and hold: "is_hold r" and r': "r' = r\<lparr>r_status := RRejected, r_outcome := oc, r_updated_at := u\<rparr>"
    and noted: "noted (refuse_command c reason d) d'"
  shows "turn (r, d) (r', d')"
proof (rule turn_trans)
  show "turn (r, d) (r', d)"
    by (rule row_turn; use hold in \<open>auto simp: r' evolves_def is_hold_def elim!: progress_released\<close>)
  have owns: "owns r' d (rk_id c)" using owns_command [OF inv c(1,2)] by (simp add: owns_def r')
  show "turn (r', d) (r', d')"
  proof (rule command_turn [OF owns])
    show "command_step (\<lambda>k. k\<lparr>rk_status := CDone, rk_outcome := Some reason\<rparr>)" by (simp add: command_step_def)
    show "noted (update_command (rk_id c) (\<lambda>k. k\<lparr>rk_status := CDone, rk_outcome := Some reason\<rparr>) d) d'"
      using noted by (simp add: refuse_command_def)
    fix k assume k: "k \<in> set (reservation_commands d)" "rk_id k = rk_id c"
    have "k = c" using get_command_unique [OF inv_commands [OF inv] c(1) k] .
    then show "command_ok k \<Longrightarrow> command_ok (k\<lparr>rk_status := CDone, rk_outcome := Some reason\<rparr>)"
      using c(3) by (auto simp: command_ok_def)
    show "rk_status (k\<lparr>rk_status := CDone, rk_outcome := Some reason\<rparr>) \<in> {CQueued, CSending}
      \<or> rk_action k = ReserveNow \<and> r_status r' \<noteq> RPending
      \<or> rk_action k = CancelReservation \<and> r_status r' \<notin> {RCancelPending, RExpiryReleasePending}"
      by (cases "rk_action k") (simp_all add: r')
  qed
qed

lemma claim_reserve_step:
  assumes inv: "reservation_inv d" and c: "get_command (rk_id c) d = Some c" "rk_reservation_id c = r_id r"
      "rk_status c = CQueued"
    and r: "r \<in> set (reservations d)" and hold: "is_hold r"
    and run: "claim_reserve rt target r c d = Inr (payload, d')"
  shows "row_step d d'" and "payload \<noteq> None \<Longrightarrow> d' = d"
proof -
  obtain point connector station where target: "target = (point, connector, station)" by (cases target) auto
  consider "d' = d" | r1 d1 reason where "request_release rt reason None (r, d) = Inr (r1, d1)"
        "d' = put_reservation r1 d1" "payload = None"
    | oc u reason d1 where "d' = put_reservation (r\<lparr>r_status := RRejected, r_outcome := oc, r_updated_at := u\<rparr>) d1"
        "noted (refuse_command c reason d) d1" "payload = None"
  proof (cases "st_status station \<noteq> ''active'' \<or> r_expires_at r \<le> rt_now rt \<or> r_cancel_requested_at r \<noteq> None")
    case True
    with run that(2) show ?thesis by (auto simp: claim_reserve_def target Let_def)
  next
    case usable: False
    show ?thesis
    proof (cases "reservation_supported point d")
      case False
      with run usable that(3) [OF _ noted_event] show ?thesis by (auto simp: claim_reserve_def target Let_def)
    next
      case True
      show ?thesis
      proof (cases "holder_tag r d")
        case None
        with run usable True have "payload = None"
          "d' = put_reservation (r\<lparr>r_status := RRejected, r_outcome := Some ''identity_changed'',
             r_updated_at := r_updated_at r\<rparr>) (refuse_command c ''identity_changed'' d)"
          by (simp_all add: claim_reserve_def target)
        with that(3) [OF _ noted_refl] show ?thesis by blast
      next
        case (Some tag)
        with run usable True that(1) show ?thesis by (simp add: claim_reserve_def target)
      qed
    qed
  qed
  note cases = this
  show "row_step d d'"
    using cases
  proof cases
    case 1
    then show ?thesis by (simp add: row_step_def)
  next
    case 2
    then show ?thesis using row_stepI [OF r request_release_turn] by blast
  next
    case 3
    then show ?thesis using row_stepI [OF r refused_turn [OF inv c hold refl]] by blast
  qed
  show "payload \<noteq> None \<Longrightarrow> d' = d" using cases by cases auto
qed

text \<open>A command in the hands of the worker is still the command that was claimed.\<close>

definition delivery_ok :: "delivery \<Rightarrow> db \<Rightarrow> bool" where
  "delivery_ok dl d \<longleftrightarrow> (\<exists>c. get_command (dl_command_id dl) d = Some c
     \<and> rk_reservation_id c = dl_reservation_id dl \<and> rk_action c = dl_action dl)"

lemma update_turn:
  assumes inv: "reservation_inv d" and c: "get_command i d = Some c" "rk_reservation_id c = r_id r"
    and f: "command_step f" and ok: "command_ok c \<Longrightarrow> command_ok (f c)" and noted: "noted (update_command i f d) d'"
    and keep: "rk_status (f c) \<in> {CQueued, CSending} \<or> rk_status c \<notin> {CQueued, CSending}
      \<or> rk_action c = ReserveNow \<and> r_status r \<noteq> RPending
      \<or> rk_action c = CancelReservation \<and> r_status r \<notin> {RCancelPending, RExpiryReleasePending}"
  shows "turn (r, d) (r, d')"
proof (rule command_turn [OF owns_command [OF inv c] f noted])
  fix k assume "k \<in> set (reservation_commands d)" "rk_id k = i"
  from get_command_unique [OF inv_commands [OF inv] c(1) this] have "k = c" .
  then show "command_ok k \<Longrightarrow> command_ok (f k)" using ok by simp
  show "rk_status k \<in> {CQueued, CSending} \<Longrightarrow> rk_status (f k) \<in> {CQueued, CSending}
      \<or> rk_action k = ReserveNow \<and> r_status r \<noteq> RPending
      \<or> rk_action k = CancelReservation \<and> r_status r \<notin> {RCancelPending, RExpiryReleasePending}"
    using keep \<open>k = c\<close> by blast
qed

lemma claim_cases:
  assumes "claim rt i d = Inr (dl, d')"
  obtains (idle) "dl = None" "d' = d"
  | (suppressed) c r where "get_command i d = Some c" "get_reservation (rk_reservation_id c) d = Some r"
      "rk_status c = CQueued" "\<not> is_hold r" "dl = None" "d' = update_command i (\<lambda>k. k\<lparr>rk_status := CSuppressed\<rparr>) d"
  | (refused) c r target where "get_command i d = Some c" "get_reservation (rk_reservation_id c) d = Some r"
      "rk_status c = CQueued" "is_hold r" "claim_payload rt target r c d = Inr (None, d')" "dl = None"
  | (sent) c r target p d1 where "get_command i d = Some c" "get_reservation (rk_reservation_id c) d = Some r"
      "rk_status c = CQueued" "is_hold r" "claim_payload rt target r c d = Inr (Some p, d1)"
      "dl = Some \<lparr>dl_command_id = i, dl_reservation_id = r_id r, dl_token = rt_lease rt,
         dl_action = rk_action c, dl_payload = p\<rparr>" "d' = update_command i (lease_command rt) d1"
proof (cases "get_command i d")
  case None
  with assms idle show ?thesis by (simp add: claim_def)
next
  case c: (Some c)
  show ?thesis
  proof (cases "get_reservation (rk_reservation_id c) d")
    case None
    with assms c idle show ?thesis by (simp add: claim_def)
  next
    case r: (Some r)
    obtain point connector station where target: "lock_target (r_connector_id r) d = Inr (point, connector, station)"
      using assms by (auto simp: claim_def c r)
    consider "rk_status c \<noteq> CQueued \<or> rt_now rt < rk_next_attempt_at c
          \<or> is_hold r \<and> (\<not> rt_connected rt (socket_key point) \<or> \<not> live point (rt_now rt))"
      | "rk_status c = CQueued" "\<not> rt_now rt < rk_next_attempt_at c" "\<not> is_hold r"
      | "rk_status c = CQueued" "\<not> rt_now rt < rk_next_attempt_at c" "is_hold r"
        "rt_connected rt (socket_key point)" "live point (rt_now rt)" by blast
    then show ?thesis
    proof cases
      case 1
      then have "claim rt i d = Inr (None, d) \<or> \<not> is_hold r \<and> rk_status c = CQueued
          \<and> claim rt i d = Inr (None, update_command i (\<lambda>k. k\<lparr>rk_status := CSuppressed\<rparr>) d)"
        by (auto simp: claim_def c r target Let_def)
      with assms idle suppressed [OF c r] show ?thesis by auto
    next
      case 2
      with assms suppressed [OF c r] show ?thesis by (simp add: claim_def c r target)
    next
      case 3
      obtain payload d1 where p: "claim_payload rt (point, connector, station) r c d = Inr (payload, d1)"
        using assms 3 by (auto simp: claim_def c r target)
      show ?thesis
        using assms 3 p refused [OF c r 3(1,3)] sent [OF c r 3(1,3)]
        by (cases payload) (auto simp: claim_def c r target)
    qed
  qed
qed

lemma claim_payload_step:
  assumes inv: "reservation_inv d" and c: "get_command i d = Some c" and r: "get_reservation (rk_reservation_id c) d = Some r"
    and "rk_status c = CQueued" and "is_hold r" and run: "claim_payload rt target r c d = Inr (payload, d')"
  shows "row_step d d'" and "payload \<noteq> None \<Longrightarrow> d' = d"
proof -
  have cid: "get_command (rk_id c) d = Some c" and rid: "r \<in> set (reservations d)" "rk_reservation_id c = r_id r"
    using get_commandD [OF c] c get_reservationD [OF r] by auto
  show "row_step d d'" and "payload \<noteq> None \<Longrightarrow> d' = d"
    using run claim_reserve_step [OF inv cid rid(2) assms(4) rid(1) assms(5), of rt target payload d']
    by (auto simp: claim_payload_def row_step_def split: if_splits)
qed

lemma lease_turn:
  assumes "reservation_inv d" and "get_command i d = Some c" and "rk_reservation_id c = r_id r" and "rk_status c = CQueued"
  shows "turn (r, d) (r, update_command i (lease_command rt) d)"
  by (rule update_turn [OF assms(1-3) lease_step lease_ok [OF _ assms(4)] noted_refl]) (simp_all add: lease_command_def)

lemma claim_step:
  assumes inv: "reservation_inv d" and run: "claim rt i d = Inr (dl, d')"
  shows "row_step d d'"
  using run
proof (cases rule: claim_cases)
  case idle
  then show ?thesis by (simp add: row_step_def)
next
  case (suppressed c r)
  note r = get_reservationD [OF suppressed(2)]
  have "turn (r, d) (r, d')" unfolding suppressed(6)
    by (rule update_turn [OF inv suppressed(1)]; use suppressed(3,4) r in \<open>cases "rk_action c";
      auto simp: command_step_def command_ok_def is_hold_def\<close>)
  then show ?thesis using row_step_keep [OF inv] r by blast
next
  case (refused c r target)
  then show ?thesis using claim_payload_step [OF inv] by blast
next
  case (sent c r target p d1)
  note r = get_reservationD [OF sent(2)]
  have "d1 = d" using claim_payload_step(2) [OF inv sent(1-5)] by simp
  then show ?thesis using row_step_keep [OF inv _ lease_turn [OF inv sent(1) _ sent(3)]] r sent(7) by auto
qed

section \<open>Answers\<close>

lemma reserve_outcome_fields [simp]:
  "r_fee_ledger_id (reserve_outcome now oc r) = r_fee_ledger_id r"
  "r_fee_decision (reserve_outcome now oc r) = r_fee_decision r"
  "r_id (reserve_outcome now oc r) = r_id r"
  "r_cancel_requested_at (reserve_outcome now oc r) = r_cancel_requested_at r"
  "r_session_id (reserve_outcome now oc r) = r_session_id r"
  by (simp_all add: reserve_outcome_def Let_def)

lemma reserve_outcome_status:
  "r_status (reserve_outcome now oc r) = (if oc \<in> {''Occupied'', ''Rejected'', ''Unavailable'', ''Faulted''} then RRejected
     else if r_cancel_requested_at r = None then if oc = ''Accepted'' then RActive else RUncertain
     else r_status r)"
  by (simp add: reserve_outcome_def Let_def)

lemma progress_reserved:
  assumes "progress_ok r d" and "is_hold r"
  shows "progress_ok (reserve_outcome now oc r) d"
  using assms not_sent_consumed [OF assms(2,1)]
  unfolding progress_ok_def is_hold_def reserve_outcome_status reserve_outcome_fields
  by (auto split: if_splits)

lemma reserve_outcome_turn:
  assumes "is_hold r"
  shows "turn (r, d) (reserve_outcome now oc r, d)"
proof (rule row_turn)
  have "r_status (reserve_outcome now oc r) \<noteq> RConsumed"
    using hold_not_consumed [OF assms] by (simp add: reserve_outcome_status)
  then show "r_status (reserve_outcome now oc r) = RConsumed \<Longrightarrow> r_status r = RConsumed" by simp
  show "evolves r (reserve_outcome now oc r)"
    using assms hold_not_consumed [OF assms] by (simp add: evolves_def reserve_outcome_def Let_def)
  show "progress_ok r d \<Longrightarrow> progress_ok (reserve_outcome now oc r) d" by (rule progress_reserved [OF _ assms])
qed simp_all

lemma reserved_not_pending:
  assumes "progress_ok r d" and "is_hold r"
  shows "r_status (reserve_outcome now oc r) \<noteq> RPending"
  using assms unfolding progress_ok_def reserve_outcome_status by auto

text \<open>A command is answered: its row changes, and the reservation with it.\<close>

lemma answer_step:
  assumes inv: "reservation_inv d" and r: "r \<in> set (reservations d)"
    and c: "get_command (rk_id c) d = Some c" "rk_reservation_id c = r_id r"
    and f: "command_step f" "command_ok c \<Longrightarrow> command_ok (f c)"
    and turn: "turn (r, d) (r', d)" and noted: "noted (update_command (rk_id c) f d) d'"
    and keep: "rk_status (f c) \<in> {CQueued, CSending}
      \<or> rk_action c = ReserveNow \<and> r_status r' \<noteq> RPending
      \<or> rk_action c = CancelReservation \<and> r_status r' \<notin> {RCancelPending, RExpiryReleasePending}"
  shows "row_step d (put_reservation r' d')"
proof -
  have "turn (r', d) (r', d')"
    using update_turn [OF inv c(1) _ f noted, of r'] keep c(2) turn_id [OF turn] by auto
  from row_stepI [OF r turn_trans [OF turn this] refl] show ?thesis .
qed

lemma answer_step_keep:
  assumes "reservation_inv d" and "r \<in> set (reservations d)"
    and "get_command (rk_id c) d = Some c" "rk_reservation_id c = r_id r"
    and "command_step f" "command_ok c \<Longrightarrow> command_ok (f c)" and "\<not> is_hold r"
  shows "row_step d (update_command (rk_id c) f d)"
proof -
  have "rk_action c = ReserveNow \<and> r_status r \<noteq> RPending
      \<or> rk_action c = CancelReservation \<and> r_status r \<notin> {RCancelPending, RExpiryReleasePending}"
    using assms(7) by (cases "rk_action c") (auto simp: is_hold_def)
  then have "row_step d (put_reservation r (update_command (rk_id c) f d))"
    using answer_step [OF assms(1-6) turn_refl noted_refl] by blast
  then show ?thesis using put_same [of d r] assms(1,2) by (simp add: reservation_inv_def)
qed

lemma deliver_reserve_step:
  assumes inv: "reservation_inv d" and r: "r \<in> set (reservations d)"
    and c: "get_command (rk_id c) d = Some c" "rk_reservation_id c = r_id r" and act: "rk_action c = ReserveNow"
  shows "row_step d (deliver_reserve now oc r c d)"
proof -
  have f: "command_step f" "command_ok c \<Longrightarrow> command_ok (f c)"
    if "f = (\<lambda>k. k\<lparr>rk_outcome := Some oc, rk_locked_until := None, rk_lease_token := None,
        rk_status := (if oc \<in> {''Accepted'', ''Occupied'', ''Rejected'', ''Unavailable'', ''Faulted''} then CDone else CUncertain)\<rparr>)"
    for f unfolding that by (simp_all add: command_step_def command_ok_def)
  have rok: "progress_ok r d" using inv r by (auto simp: reservation_inv_def row_ok_def)
  show ?thesis
  proof (cases "is_hold r")
    case False
    then show ?thesis
      unfolding deliver_reserve_def Let_def using answer_step_keep [OF inv r c f [OF refl]] by simp
  next
    case hold: True
    show ?thesis
      unfolding deliver_reserve_def Let_def if_not_P [OF not_not [THEN iffD2, OF hold]]
      by (rule answer_step [OF inv r c f [OF refl] reserve_outcome_turn [OF hold] noted_event])
        (simp_all add: act reserved_not_pending [OF rok hold])
  qed
qed

lemma deliver_cancel_step:
  assumes inv: "reservation_inv d" and r: "r \<in> set (reservations d)"
    and c: "get_command (rk_id c) d = Some c" "rk_reservation_id c = r_id r" and act: "rk_action c = CancelReservation"
  shows "row_step d (deliver_cancel now oc r c d)"
proof -
  have "command_step (\<lambda>k. k\<lparr>rk_outcome := Some oc, rk_locked_until := None, rk_lease_token := None, rk_status := CDone\<rparr>)"
      "command_ok c \<Longrightarrow> command_ok (c\<lparr>rk_outcome := Some oc, rk_locked_until := None, rk_lease_token := None, rk_status := CDone\<rparr>)"
      "command_step (\<lambda>k. k\<lparr>rk_outcome := Some oc, rk_locked_until := None, rk_lease_token := None,
        rk_status := CQueued, rk_next_attempt_at := now + backoff_us (rk_attempts k)\<rparr>)"
      "command_ok c \<Longrightarrow> command_ok (c\<lparr>rk_outcome := Some oc, rk_locked_until := None, rk_lease_token := None,
        rk_status := CQueued, rk_next_attempt_at := now + backoff_us (rk_attempts c)\<rparr>)"
    by (simp_all add: command_step_def command_ok_def act)
  note f = this
  have confirmed: "turn (r, d) (r\<lparr>r_status := (if r_cancel_reason r = Some ''expired'' then RExpired else RCancelled),
      r_outcome := Some oc, r_updated_at := now\<rparr>, d)" if hold: "is_hold r"
    by (rule row_turn) (use hold hold_not_consumed [OF hold] in
      \<open>auto simp: evolves_def is_hold_def elim!: progress_released split: if_splits\<close>)
  have noted: "turn (r, d) (r\<lparr>r_outcome := Some oc, r_updated_at := now\<rparr>, d)"
    by (rule row_turn) (auto simp: evolves_def is_hold_def elim!: progress_ok_same)
  show ?thesis
  proof (cases "is_hold r")
    case False
    then show ?thesis
      unfolding deliver_cancel_def Let_def
      using answer_step_keep [OF inv r c f(1,2)] answer_step_keep [OF inv r c f(3,4)]
      by (cases "oc = ''Accepted''") simp_all
  next
    case hold: True
    show ?thesis
    proof (cases "oc = ''Accepted''")
      case True
      have "row_step d (put_reservation (r\<lparr>r_status := (if r_cancel_reason r = Some ''expired'' then RExpired else RCancelled),
          r_outcome := Some oc, r_updated_at := now\<rparr>) (event (r\<lparr>r_status := (if r_cancel_reason r = Some ''expired''
          then RExpired else RCancelled), r_outcome := Some oc, r_updated_at := now\<rparr>) ''release_confirmed'' now []
          (update_command (rk_id c) (\<lambda>k. k\<lparr>rk_outcome := Some oc, rk_locked_until := None,
                rk_lease_token := None, rk_status := CDone\<rparr>) d)))"
        by (rule answer_step [OF inv r c f(1,2) confirmed [OF hold] noted_event]) (simp_all add: act)
      with True hold show ?thesis by (simp add: deliver_cancel_def Let_def)
    next
      case False
      have "row_step d (put_reservation (r\<lparr>r_outcome := Some oc, r_updated_at := now\<rparr>)
          (update_command (rk_id c) (\<lambda>k. k\<lparr>rk_outcome := Some oc, rk_locked_until := None, rk_lease_token := None,
             rk_status := CQueued, rk_next_attempt_at := now + backoff_us (rk_attempts k)\<rparr>) d))"
        by (rule answer_step [OF inv r c f(3,4) noted noted_refl]) simp_all
      with False hold show ?thesis by (simp add: deliver_cancel_def Let_def)
    qed
  qed
qed

lemma deliver_step:
  assumes inv: "reservation_inv d" and dl: "delivery_ok dl d" and run: "deliver rt dl reply d = Inr d'"
  shows "row_step d d'"
proof (cases "d' = d")
  case True
  then show ?thesis by (simp add: row_step_def)
next
  case changed: False
  define oc where "oc = fst (wire (wire_of (dl_action dl)) reply)"
  obtain r c where r: "get_reservation (dl_reservation_id dl) d = Some r" and c: "get_command (dl_command_id dl) d = Some c"
    and d': "d' = (if dl_action dl = ReserveNow then deliver_reserve (rt_now rt) oc r c d
        else deliver_cancel (rt_now rt) oc r c d)"
    using run changed by (auto simp: deliver_def Let_def oc_def split: option.splits if_splits)
  have rm: "r \<in> set (reservations d)" "r_id r = dl_reservation_id dl" using get_reservationD [OF r] by auto
  have "rk_reservation_id c = r_id r" "rk_action c = dl_action dl" "get_command (rk_id c) d = Some c"
    using dl c rm(2) get_commandD [OF c] by (auto simp: delivery_ok_def)
  then show ?thesis
    using d' deliver_reserve_step [OF inv rm(1)] deliver_cancel_step [OF inv rm(1)] by (cases "dl_action dl") auto
qed

end
