(* ===== verification/Reservation_Steps.thy ===== *)
theory Reservation_Steps
  imports Reservation_Delivery
begin

text \<open>
  Reconciliation, fees, cancellation, starts and bookings keep the invariant, and with it the
  reachable states of the whole module.
\<close>

section \<open>Reconciliation\<close>

definition owns_all :: "uuid list \<Rightarrow> reservation \<times> db \<Rightarrow> bool" where
  "owns_all ids s \<longleftrightarrow> (\<forall>i\<in>set ids. owns (fst s) (snd s) i)"

lemma owns_all_update:
  assumes "owns_all ids (r, d)" and "r_id r' = r_id r" and "command_step f"
    and "reservation_commands d' = update_row rk_id i f (reservation_commands d)"
  shows "owns_all ids (r', d')"
  using assms by (fastforce simp: owns_all_def owns_def command_step_def set_update_row)

lemma owns_all_same:
  "owns_all ids (r, d) \<Longrightarrow> r_id r' = r_id r \<Longrightarrow> reservation_commands d' = reservation_commands d \<Longrightarrow> owns_all ids (r', d')"
  by (simp add: owns_all_def owns_def)

lemma fold_turn:
  assumes "\<And>i s. i \<in> set xs \<Longrightarrow> P s \<Longrightarrow> turn s (f i s) \<and> P (f i s)" and "P s"
  shows "turn s (fold f xs s) \<and> P (fold f xs s)"
  using assms
proof (induction xs arbitrary: s)
  case (Cons x xs)
  then have "turn s (f x s)" "turn (f x s) (fold f xs (f x s)) \<and> P (fold f xs (f x s))" by simp_all
  then show ?case using turn_trans by auto
qed simp

lemma note_reboot_turn: "turn (r, d) (note_reboot now point (r, d))"
proof (cases "r_status r = RActive \<and> (case cp_last_boot_at point of None \<Rightarrow> False | Some boot \<Rightarrow> r_created_at r < boot)")
  case True
  let ?r = "r\<lparr>r_status := RUncertain, r_outcome := Some ''charger_reboot'', r_updated_at := now\<rparr>"
  have "note_reboot now point (r, d) = (?r, event ?r ''uncertain'' now [(''outcome'', JStr ''charger_reboot'')] d)"
    using True by (simp add: note_reboot_def Let_def)
  moreover have "turn (r, d) (?r, event ?r ''uncertain'' now [(''outcome'', JStr ''charger_reboot'')] d)"
    by (rule row_turn [OF _ noted_event])
      (use True in \<open>auto simp: evolves_def is_hold_def progress_ok_def\<close>)
  ultimately show ?thesis by simp
next
  case False
  then have "note_reboot now point (r, d) = (r, d)" by (auto simp: note_reboot_def)
  then show ?thesis by simp
qed

lemma note_reboot_fields:
  assumes "note_reboot now point (r, d) = (r', d')"
  shows "r_id r' = r_id r" "reservation_commands d' = reservation_commands d" "r_status r \<noteq> RConsumed \<Longrightarrow> r_status r' \<noteq> RConsumed"
  using assms by (auto simp: note_reboot_def Let_def event_fields split: if_splits)

abbreviation lapsed :: "instant \<Rightarrow> reservation_command \<Rightarrow> reservation_command" where
  "lapsed now k \<equiv> k\<lparr>rk_lease_token := None, rk_locked_until := None, rk_outcome := Some ''lease_expired'',
     rk_status := (if rk_action k = ReserveNow then CUncertain else CQueued), rk_next_attempt_at := now\<rparr>"

lemma lapsed_step: "command_step (\<lambda>k. lapsed now k)"
  by (simp add: command_step_def)

lemma expire_lease_cases:
  obtains (kept) "expire_lease now i (r, d) = (r, d)"
  | (lapsed) c where "get_command i d = Some c" "rk_action c \<noteq> ReserveNow \<or> r_status r \<noteq> RPending"
      "expire_lease now i (r, d) = (r, update_command i (\<lambda>k. lapsed now k) d)"
  | (uncertain) r1 where "r_status r = RPending"
      "r1 = r\<lparr>r_status := RUncertain, r_outcome := Some ''lease_expired'', r_updated_at := now\<rparr>"
      "expire_lease now i (r, d) = (r1, event r1 ''uncertain'' now [] (update_command i (\<lambda>k. lapsed now k) d))"
proof (cases "get_command i d")
  case None
  with kept show ?thesis by (simp add: expire_lease_def)
next
  case (Some c)
  let ?due = "rk_status c = CSending \<and> (case rk_locked_until c of None \<Rightarrow> False | Some t \<Rightarrow> t \<le> now)"
  consider "\<not> ?due" | "?due" "rk_action c = ReserveNow" "r_status r = RPending"
    | "?due" "rk_action c \<noteq> ReserveNow \<or> r_status r \<noteq> RPending" by blast
  then show ?thesis
  proof cases
    case 1
    with Some kept show ?thesis by (auto simp: expire_lease_def)
  next
    case 2
    then have "expire_lease now i (r, d) = (r\<lparr>r_status := RUncertain, r_outcome := Some ''lease_expired'', r_updated_at := now\<rparr>,
      event (r\<lparr>r_status := RUncertain, r_outcome := Some ''lease_expired'', r_updated_at := now\<rparr>) ''uncertain'' now []
        (update_command i (\<lambda>k. lapsed now k) d))"
      using Some by (simp add: expire_lease_def Let_def)
    with 2(3) uncertain show ?thesis by blast
  next
    case 3
    then have "expire_lease now i (r, d) = (r, update_command i (\<lambda>k. lapsed now k) d)"
      using Some by (auto simp: expire_lease_def)
    with 3(2) Some lapsed show ?thesis by blast
  qed
qed

lemma lapsed_turn:
  assumes "owns r d i" and "noted (update_command i (\<lambda>k. lapsed now k) d) d'"
    and "r_status r \<noteq> RPending \<or> (\<exists>c. get_command i d = Some c \<and> rk_action c \<noteq> ReserveNow)"
  shows "turn (r, d) (r, d')"
proof (rule command_turn [OF assms(1) lapsed_step assms(2)])
  fix k assume t: "turn_ok r d" and k: "k \<in> set (reservation_commands d)" "rk_id k = i"
  show "command_ok k \<Longrightarrow> command_ok (lapsed now k)" by (simp add: command_ok_def)
  have "rk_action k \<noteq> ReserveNow \<or> r_status r \<noteq> RPending"
    using assms(3) get_command_unique [OF _ _ k] t by (auto simp: turn_ok_def)
  then show "rk_status (lapsed now k) \<in> {CQueued, CSending} \<or> rk_action k = ReserveNow \<and> r_status r \<noteq> RPending
      \<or> rk_action k = CancelReservation \<and> r_status r \<notin> {RCancelPending, RExpiryReleasePending}" by auto
qed

lemma expire_lease_turn:
  assumes owns: "owns_all ids (r, d)" and i: "i \<in> set ids"
    and open_row: "r_status r \<noteq> RConsumed"
  shows "turn (r, d) (expire_lease now i (r, d)) \<and> owns_all ids (expire_lease now i (r, d))
    \<and> r_status (fst (expire_lease now i (r, d))) \<noteq> RConsumed"
proof (cases rule: expire_lease_cases [of now i r d])
  case kept
  then show ?thesis using owns open_row by simp
next
  case (lapsed c)
  have "turn (r, d) (r, update_command i (\<lambda>k. lapsed now k) d)"
    using lapsed_turn [OF _ noted_refl] owns i lapsed(1,2) by (auto simp: owns_all_def)
  then show ?thesis
    unfolding lapsed(3) using owns_all_update [OF owns refl lapsed_step] open_row by simp
next
  case (uncertain r1)
  have same: "r_id r1 = r_id r" by (simp add: uncertain(2))
  let ?d = "event r1 ''uncertain'' now [] (update_command i (\<lambda>k. lapsed now k) d)"
  have first: "turn (r, d) (r1, d)"
    by (rule row_turn) (use uncertain(1) in \<open>auto simp: uncertain(2) evolves_def is_hold_def progress_ok_def\<close>)
  have "owns r1 d i" using owns i by (simp add: owns_all_def owns_def same)
  then have second: "turn (r1, d) (r1, ?d)"
    by (rule lapsed_turn [OF _ noted_event]) (simp add: uncertain(2))
  have "owns_all ids (r1, ?d)"
    by (rule owns_all_update [OF owns same lapsed_step]) (simp add: event_fields)
  then show ?thesis
    unfolding uncertain(3) using turn_trans [OF first second] by (simp add: uncertain(2))
qed

lemma suppress_step: "command_step (\<lambda>k. if rk_status k = CQueued then k\<lparr>rk_status := CSuppressed\<rparr> else k)"
  by (simp add: command_step_def)

lemma suppress_turn:
  assumes owns: "owns_all ids (r, d)" and i: "i \<in> set ids" and r: "\<not> is_hold r"
  shows "turn (r, d) (r, suppress_queued i d) \<and> owns_all ids (r, suppress_queued i d)"
proof
  show "turn (r, d) (r, suppress_queued i d)"
    unfolding suppress_queued_def
  proof (rule command_turn [OF _ suppress_step noted_refl])
    show "owns r d i" using owns i by (simp add: owns_all_def)
    fix k
    show "command_ok k \<Longrightarrow> command_ok (if rk_status k = CQueued then k\<lparr>rk_status := CSuppressed\<rparr> else k)"
      by (auto simp: command_ok_def)
    show "rk_status (if rk_status k = CQueued then k\<lparr>rk_status := CSuppressed\<rparr> else k) \<in> {CQueued, CSending}
      \<or> rk_action k = ReserveNow \<and> r_status r \<noteq> RPending
      \<or> rk_action k = CancelReservation \<and> r_status r \<notin> {RCancelPending, RExpiryReleasePending}"
      using r by (cases "rk_action k") (auto simp: is_hold_def)
  qed
  show "owns_all ids (r, suppress_queued i d)"
    unfolding suppress_queued_def using owns_all_update [OF owns refl suppress_step] by simp
qed

lemma fold_suppress:
  assumes "owns_all ids (r, d)" and "\<not> is_hold r"
  shows "turn (r, d) (r, fold suppress_queued ids d)"
proof -
  have "turn (r, d) (r, fold suppress_queued xs d)" if "set xs \<subseteq> set ids" "owns_all ids (r, d)" for xs d
    using that
  proof (induction xs arbitrary: d)
    case (Cons x xs)
    then have "turn (r, d) (r, suppress_queued x d)" "owns_all ids (r, suppress_queued x d)"
      using suppress_turn [OF Cons.prems(2) _ assms(2)] by auto
    then show ?case using turn_trans Cons by auto
  qed simp
  then show ?thesis using assms(1) by blast
qed

lemma request_release_owns:
  assumes "request_release rt reason request (r, d) = Inr (r', d')" and "owns_all ids (r, d)"
  shows "owns_all ids (r', d')"
  using assms(1)
proof (cases rule: request_release_cases)
  case kept
  then show ?thesis using assms(2) by simp
next
  case (released r2 es ls d2 es')
  have id: "r_id r2 = r_id r" by (rule releasing_fields [OF released(3)])
  from released(4) show ?thesis
  proof (cases rule: release_command_cases)
    case (unsent c)
    have "command_step (\<lambda>k. k\<lparr>rk_status := CSuppressed\<rparr>)" by (simp add: command_step_def)
    from owns_all_update [OF assms(2) _ this, of r' d' "rk_id c"] show ?thesis
      using unsent(3,4) released(5) id by (simp add: update_command_def)
  next
    case sent
    then show ?thesis using assms(2) released(5) id by (auto simp: owns_all_def owns_def cancel_command_def)
  qed
qed

lemma released_row_turn:
  assumes "r_status r \<noteq> RConsumed"
    and r': "r' = r\<lparr>r_status := (if r_no_show_exempt r then RCancelled else RExpired), r_outcome := oc, r_updated_at := u\<rparr>"
  shows "turn (r, d) (r', d)"
proof (rule row_turn)
  show "evolves r r'" using assms(1) by (simp add: r' evolves_def is_hold_def)
  show "progress_ok r d \<Longrightarrow> progress_ok r' d"
    using assms(1) unfolding progress_ok_def is_hold_def r' by auto
qed (auto simp: r' split: if_splits)

lemma observe_release_turn:
  assumes "owns_all ids (r, d)" and "r_status r \<noteq> RConsumed"
  shows "turn (r, d) (observe_release now point connector ids (r, d))"
proof (cases "release_evidence now point connector r \<and> \<not> connector_occupied (cn_id connector) d")
  case True
  define r' where "r' = r\<lparr>r_status := (if r_no_show_exempt r then RCancelled else RExpired),
      r_outcome := Some ''expiry_observed'', r_updated_at := now\<rparr>"
  have out: "observe_release now point connector ids (r, d) =
      (r', event r' ''expiry_observed'' now [] (fold suppress_queued ids d))"
    using True by (simp add: observe_release_def r'_def Let_def)
  have "owns_all ids (r', d)" by (rule owns_all_same [OF assms(1)]) (simp_all add: r'_def)
  then have "turn (r', d) (r', fold suppress_queued ids d)"
    by (rule fold_suppress) (simp add: r'_def is_hold_def)
  moreover have "turn (r', x) (r', event r' ''expiry_observed'' now [] x)" for x
    by (rule row_turn [OF _ noted_event]) simp_all
  ultimately show ?thesis
    unfolding out using turn_trans released_row_turn [OF assms(2) r'_def] by blast
qed (auto simp: observe_release_def)

lemma request_release_not_consumed:
  assumes "request_release rt reason request (r, d) = Inr (r', d')" and "r_status r \<noteq> RConsumed"
  shows "r_status r' \<noteq> RConsumed"
  using assms(1)
  by (cases rule: request_release_cases) (use assms(2) in \<open>auto elim!: release_command_cases split: if_splits\<close>)

lemma release_due_turn:
  assumes "release_due rt station (r, d) = Inr (r', d')"
  shows "turn (r, d) (r', d')" and "owns_all ids (r, d) \<Longrightarrow> owns_all ids (r', d')"
    and "r_status r \<noteq> RConsumed \<Longrightarrow> r_status r' \<noteq> RConsumed"
  using assms request_release_turn request_release_owns request_release_not_consumed
  by (auto simp: release_due_def split: if_splits)

text \<open>The first part of a reconciliation: evidence, reboot, and leases that ran out.\<close>

lemma expire_leases_turn:
  assumes owns: "owns_all ids (r, d)" and open_row: "r_status r \<noteq> RConsumed"
    and fold: "fold (expire_lease now) ids (note_reboot now point (r, d)) = (r', d')"
  shows "turn (r, d) (r', d')" and "owns_all ids (r', d')" and "r_status r' \<noteq> RConsumed"
proof -
  let ?P = "\<lambda>s. owns_all ids s \<and> r_status (fst s) \<noteq> RConsumed"
  obtain ra da where reboot: "note_reboot now point (r, d) = (ra, da)" by fastforce
  have start: "?P (ra, da)"
    using note_reboot_fields [OF reboot] owns_all_same [OF owns] open_row by simp
  have "turn s (expire_lease now i s) \<and> ?P (expire_lease now i s)" if "i \<in> set ids" "?P s" for i s
    using expire_lease_turn [of ids "fst s" "snd s" i now] that by simp
  from fold_turn [of ids ?P "expire_lease now", OF this start] fold reboot
  have "turn (ra, da) (r', d')" "?P (r', d')" by simp_all
  moreover have "turn (r, d) (ra, da)" using note_reboot_turn [of r d now point] reboot by simp
  ultimately show "turn (r, d) (r', d')" "owns_all ids (r', d')" "r_status r' \<noteq> RConsumed"
    using turn_trans by auto
qed

lemma owns_all_initial:
  assumes "reservation_inv d" and "r_id r = i"
  shows "owns_all (map rk_id (filter (\<lambda>c. rk_reservation_id c = i) (reservation_commands d))) (r, d)"
proof -
  have "rk_reservation_id k = i" if "k \<in> set (reservation_commands d)" "c \<in> set (reservation_commands d)"
      "rk_reservation_id c = i" "rk_id k = rk_id c" for k c
    using unique_row [of rk_id "reservation_commands d" k c] that inv_commands [OF assms(1)] by (auto simp: commands_ok_def)
  then show ?thesis using assms(2) by (auto simp: owns_all_def owns_def)
qed

lemma reconcile_step:
  assumes inv: "reservation_inv d" and run: "reconcile rt i d = Inr d'"
  shows "row_step d d'"
proof (cases "d' = d")
  case True
  then show ?thesis by (simp add: row_step_def)
next
  case changed: False
  then obtain r where r: "get_reservation i d = Some r" using run by (auto simp: reconcile_def split: option.splits)
  have rm: "r \<in> set (reservations d)" "r_id r = i" using get_reservationD [OF r] by auto
  obtain point connector station where target: "lock_target (r_connector_id r) d = Inr (point, connector, station)"
    using run by (auto simp: reconcile_def r)
  define ids where "ids = map rk_id (filter (\<lambda>c. rk_reservation_id c = i) (reservation_commands d))"
  let ?r0 = "observe_expiry rt point station d r"
  have hold: "is_hold r" using run changed by (auto simp: reconcile_def r target split: if_splits)
  obtain r1 d1 where leases: "fold (expire_lease (rt_now rt)) ids (note_reboot (rt_now rt) point (?r0, d)) = (r1, d1)"
    by fastforce
  obtain r2 d2 where due: "release_due rt station (r1, d1) = Inr (r2, d2)"
    and d': "d' = write_back (observe_release (rt_now rt) point connector ids (r2, d2))"
    using run hold leases by (auto simp: reconcile_def r target Let_def ids_def [symmetric])
  have "owns_all ids (?r0, d)" unfolding ids_def by (rule owns_all_initial [OF inv]) (simp add: rm(2))
  note first = expire_leases_turn [OF this _ leases]
  have "r_status ?r0 \<noteq> RConsumed" using hold_not_consumed [OF hold] by simp
  note first = first [OF this]
  note second = release_due_turn [OF due]
  obtain r3 d3 where out: "observe_release (rt_now rt) point connector ids (r2, d2) = (r3, d3)" by fastforce
  have "turn (r2, d2) (r3, d3)" using observe_release_turn [of ids r2 d2] second(2,3) first(2,3) out by metis
  then have "turn (r, d) (r3, d3)"
    using turn_trans [OF observe_expiry_turn turn_trans [OF first(1) turn_trans [OF second(1)]]] by blast
  from row_stepI [OF rm(1) this] show ?thesis by (simp add: d' write_back_def out)
qed

section \<open>Fees and cancellations\<close>

lemma fee_one_step:
  assumes "fee_one rt i d = Inr d'"
  shows "row_step d d'"
proof (cases "d' = d")
  case True
  then show ?thesis by (simp add: row_step_def)
next
  case changed: False
  then obtain r where r: "get_reservation i d = Some r" using assms by (auto simp: fee_one_def split: option.splits)
  have rm: "r \<in> set (reservations d)" using get_reservationD [OF r] by auto
  obtain point connector station r1 d1 where "r_fee_decision r = FPending"
    "settle_fee rt point (observe_expiry rt point station d r, d) = Inr (r1, d1)" and d': "d' = put_reservation r1 d1"
    using assms changed by (auto simp: fee_one_def r split: if_splits)
  then have "turn (r, d) (r1, d1)" using turn_trans [OF observe_expiry_turn settle_fee_turn] by simp
  from row_stepI [OF rm this d'] show ?thesis .
qed

lemma put_noted:
  assumes "noted (put_reservation r d) d'"
  shows "\<exists>d1. d' = put_reservation r d1 \<and> noted d d1"
proof -
  from assms obtain es ls where "d' = (put_reservation r d)\<lparr>reservation_events := es, audit_logs := ls\<rparr>"
    by (rule notedE)
  then have "d' = put_reservation r (d\<lparr>reservation_events := es, audit_logs := ls\<rparr>)"
    by (simp add: put_reservation_def)
  then show ?thesis using notedI [OF refl] by blast
qed

lemma cancel_reservation_step:
  assumes "cancel_reservation rt driver i request evidence d = Inr (r', d')"
  shows "row_step d d'"
proof (cases "d' = d")
  case True
  then show ?thesis by (simp add: row_step_def)
next
  case changed: False
  then obtain r where r: "get_reservation i d = Some r" using assms by (auto simp: cancel_reservation_def split: option.splits)
  have rm: "r \<in> set (reservations d)" using get_reservationD [OF r] by auto
  obtain d1 where rel: "request_release rt ''driver_cancel'' (Some request) (r, d) = Inr (r', d1)"
    and "noted (put_reservation r' d1) d'"
    using assms changed by (auto simp: cancel_reservation_def r split: if_splits dest!: noted_audit)
  then obtain d2 where d': "d' = put_reservation r' d2" "noted d1 d2" using put_noted by blast
  have "turn (r', d1) (r', d2)" by (rule row_turn [OF _ d'(2)]) simp_all
  from row_stepI [OF rm turn_trans [OF request_release_turn [OF rel] this] d'(1)] show ?thesis .
qed

section \<open>Starts\<close>

lemma connector_holdD:
  "connector_hold cid d = Some r \<Longrightarrow> r \<in> set (reservations d) \<and> r_connector_id r = cid \<and> is_hold r"
  unfolding connector_hold_def by (metis (mono_tags, lifting) find_Some_iff_set)

lemma late_start_step:
  assumes "r \<in> set (reservations d)" and "mark_late_start rt source now message (r, d) = Inr (r1, d1)"
  shows "row_step d (put_reservation r1 d1)"
  by (rule row_stepI [OF assms(1) mark_late_start_turn [OF assms(2)] refl])

definition admitted :: "uuid \<Rightarrow> charging_card option \<Rightarrow> int option \<Rightarrow> instant \<Rightarrow> instant \<Rightarrow> db \<Rightarrow> reservation \<Rightarrow> bool" where
  "admitted cid id_card ocpp_id source now d r \<longleftrightarrow> r \<in> set (reservations d) \<and> r_connector_id r = cid
    \<and> holder r id_card \<and> ocpp_id = Some (r_ocpp_id r) \<and> source_in_hold r source
    \<and> now \<le> r_expires_at r + 30 * SECOND_US
    \<and> (r_status r \<in> {RPending, RUncertain, RActive}
       \<or> r_status r \<in> {RExpiryReleasePending, RExpired} \<and> r_cancel_reason r = Some ''expired'')"

lemma start_on_hold_cases:
  assumes "start_on_hold rt id_card ocpp_id source now message r d = Inr ((ok, found), d')"
    and r: "r \<in> set (reservations d)" and "r_connector_id r = cid"
  shows "row_step d d'" and "ok \<Longrightarrow> d' = d \<and> found = Some r \<and> admitted cid id_card ocpp_id source now d r"
    and "found \<noteq> None"
proof -
  consider "d' = d" | r1 d1 where "mark_late_start rt source now message (r, d) = Inr (r1, d1)"
      "d' = put_reservation r1 d1"
    using assms(1) by (auto simp: start_on_hold_def Let_def split: if_splits)
  then show "row_step d d'" by cases (simp add: row_step_def, use late_start_step [OF r] in blast)
  show "ok \<Longrightarrow> d' = d \<and> found = Some r \<and> admitted cid id_card ocpp_id source now d r"
    using assms by (auto simp: start_on_hold_def Let_def admitted_def split: if_splits)
  show "found \<noteq> None"
    using assms(1) by (auto simp: start_on_hold_def Let_def split: if_splits)
qed

lemma validate_start_cases:
  assumes "validate_start rt cid id_card ocpp_id source now message d = Inr ((ok, found), d')"
  obtains (free) "ok = (ocpp_id = None)" "found = None" "connector_hold cid d = None" "d' = d"
  | (late) r r1 d1 where "r \<in> set (reservations d)" "mark_late_start rt source now message (r, d) = Inr (r1, d1)"
      "d' = put_reservation r1 d1" "\<not> ok"
  | (held) r where "r \<in> set (reservations d)" "r_connector_id r = cid"
      "start_on_hold rt id_card ocpp_id source now message r d = Inr ((ok, found), d')"
proof -
  define hold where "hold = connector_hold cid d"
  define previous where "previous = (case ocpp_id of None \<Rightarrow> None
      | Some i \<Rightarrow> if (case hold of None \<Rightarrow> True | Some h \<Rightarrow> r_ocpp_id h \<noteq> i)
          then find (\<lambda>r. r_ocpp_id r = i \<and> r_connector_id r = cid) (reservations d) else None)"
  define claimed where "claimed = (case previous of None \<Rightarrow> False | Some p \<Rightarrow> holder p id_card \<and> source_in_hold p source
      \<and> r_status p \<noteq> RConsumed \<and> \<not> r_no_show_exempt p)"
  have prev: "p \<in> set (reservations d)" "r_connector_id p = cid" if "previous = Some p" for p
    using that by (auto simp: previous_def split: option.splits if_splits dest!: find_Some_iff_set)
  have run: "(case (previous, claimed) of
          (Some p, True) \<Rightarrow>
            if r_expires_at p + 30 * SECOND_US < now \<or> hold \<noteq> None
            then res_bind (mark_late_start rt source now message (p, d)) (\<lambda>(r1, d1).
              Inr ((False, Some r1), put_reservation r1 d1))
            else if r_status p = RExpired \<and> r_cancel_reason p = Some ''expired''
            then start_on_hold rt id_card ocpp_id source now message p d
            else Inr ((ocpp_id = None, None), d)
        | _ \<Rightarrow>
            (case hold of
               None \<Rightarrow> Inr ((ocpp_id = None, None), d)
             | Some h \<Rightarrow> start_on_hold rt id_card ocpp_id source now message h d)) = Inr ((ok, found), d')"
    using assms unfolding validate_start_def Let_def hold_def previous_def claimed_def .
  show ?thesis
  proof (cases "previous \<noteq> None \<and> claimed")
    case True
    then obtain p where p: "previous = Some p" "claimed" by auto
    consider "r_expires_at p + 30 * SECOND_US < now \<or> hold \<noteq> None"
      | "hold = None" "\<not> r_expires_at p + 30 * SECOND_US < now" "r_status p = RExpired \<and> r_cancel_reason p = Some ''expired''"
      | "hold = None" "\<not> r_expires_at p + 30 * SECOND_US < now" "\<not> (r_status p = RExpired \<and> r_cancel_reason p = Some ''expired'')"
      by blast
    then show ?thesis
    proof cases
      case 1
      then obtain r1 d1 where "mark_late_start rt source now message (p, d) = Inr (r1, d1)"
        "d' = put_reservation r1 d1" "\<not> ok" using run p by auto
      with late [OF prev(1) [OF p(1)]] show ?thesis by blast
    next
      case 2
      with run p held [OF prev [OF p(1)]] show ?thesis by simp
    next
      case 3
      with run p free show ?thesis by (auto simp: hold_def split: if_splits)
    qed
  next
    case False
    then have rest: "(case hold of None \<Rightarrow> Inr ((ocpp_id = None, None), d)
        | Some h \<Rightarrow> start_on_hold rt id_card ocpp_id source now message h d) = Inr ((ok, found), d')"
      using run by (cases previous; cases claimed) simp_all
    show ?thesis
    proof (cases hold)
      case None
      with rest have "Inr ((ocpp_id = None, None), d) = (Inr ((ok, found), d') :: exn + _)" by simp
      then have "ok = (ocpp_id = None)" "found = None" "d' = d" by blast+
      with free None show ?thesis unfolding hold_def by blast
    next
      case (Some h)
      with rest have "start_on_hold rt id_card ocpp_id source now message h d = Inr ((ok, found), d')" by simp
      with held connector_holdD Some show ?thesis unfolding hold_def by blast
    qed
  qed
qed

lemma validate_start_step:
  assumes "validate_start rt cid id_card ocpp_id source now message d = Inr ((ok, found), d')"
  shows "row_step d d'"
    and "ok \<Longrightarrow> d' = d \<and> (case found of None \<Rightarrow> connector_hold cid d = None \<and> ocpp_id = None
      | Some r \<Rightarrow> admitted cid id_card ocpp_id source now d r)"
proof -
  from assms show "row_step d d'"
  proof (cases rule: validate_start_cases)
    case free
    then show ?thesis by (simp add: row_step_def)
  next
    case (late r r1 d1)
    then show ?thesis using late_start_step by blast
  next
    case (held r)
    then show ?thesis using start_on_hold_cases(1) by blast
  qed
  show "ok \<Longrightarrow> d' = d \<and> (case found of None \<Rightarrow> connector_hold cid d = None \<and> ocpp_id = None
      | Some r \<Rightarrow> admitted cid id_card ocpp_id source now d r)"
    using assms
  proof (cases rule: validate_start_cases)
    case (held r)
    then show "ok \<Longrightarrow> ?thesis" using start_on_hold_cases(2) [OF held(3,1,2)] by auto
  qed auto
qed

lemma admitted_consume:
  assumes "admitted cid id_card ocpp_id source now d r" and "consume at_time sid (r, d) = Inr (r', d')"
  shows "row_step d (put_reservation r' d')"
proof -
  have "r \<in> set (reservations d)" "r_status r \<noteq> RConsumed" "is_hold r \<or> r_status r = RExpired"
    using assms(1) by (auto simp: admitted_def is_hold_def)
  then show ?thesis using row_stepI [OF _ consume_turn [OF assms(2)]] by blast
qed

section \<open>Bookings\<close>

lemma lock_target_ids:
  assumes "lock_target cid d = Inr (point, connector, station)"
  shows "cn_id connector = cid"
  using assms row_of_SomeD [of cn_id cid "connectors d"]
  by (auto simp: lock_target_def split: option.splits if_splits)

lemma bookable_target_free:
  assumes "bookable_target rt cid arrival d = Inr (point, connector, station)"
  shows "cn_id connector = cid" and "r \<in> set (reservations d) \<Longrightarrow> r_connector_id r = cid \<Longrightarrow> \<not> is_hold r"
    and "arrival = None" and "st_status station = ''active''" and "live point (rt_now rt)"
    and "\<not> connector_occupied cid d"
  using assms lock_target_ids [of cid d]
  by (auto simp: bookable_target_def Let_def list_ex_iff split: if_splits)

lemma bookable_driver_free:
  assumes "bookable_driver rt driver sid afee aver d = Inr (fee_policy, el)"
  shows "r \<in> set (reservations d) \<Longrightarrow> r_driver_id r = driver \<Longrightarrow> \<not> is_hold r" and "fee_policy = quote sid d"
    and "0 < fst (quote sid d) \<Longrightarrow> afee = Some (fst (quote sid d)) \<and> aver = Some (snd (quote sid d))"
  using assms by (auto simp: bookable_driver_def list_ex_iff Let_def split: if_splits prod.splits)

lemma ensure_driver_resources_frame:
  assumes "ensure_driver_resources rt driver d = Inr (tag, d')" and "wallet_inv d"
  shows "money_step d d'" and "ledger d' = ledger d" and "reservations d' = reservations d"
    and "reservation_commands d' = reservation_commands d" and "ocpp_seq d' = ocpp_seq d"
proof -
  obtain w d1 where e: "ensure_driver_wallet (rt_new_wallet rt) driver d = Inr (w, d1)"
    and d': "d' = d1 \<or> (\<exists>cs ts. d' = d1\<lparr>charging_cards := cs, virtual_tags := ts\<rparr>)"
    using assms(1) by (auto simp: ensure_driver_resources_def Let_def split: option.splits if_splits)
  have d1: "d1 = d \<or> d1 = d\<lparr>wallets := wallets d @ [w]\<rparr>"
    using e by (auto simp: ensure_driver_wallet_def Let_def split: option.splits if_splits)
  show "ledger d' = ledger d" "reservations d' = reservations d"
    "reservation_commands d' = reservation_commands d" "ocpp_seq d' = ocpp_seq d"
    using d1 d' by auto
  have m: "money_step d d1" by (rule ensure_driver_wallet_money [OF assms(2) e])
  have "money_step d1 d'"
    using d' money_step_inv [OF m] wallet_inv_cong [of d' d1] by (auto simp: money_step_def append_step_def)
  with m show "money_step d d'" by (rule money_step_trans)
qed

definition fresh_reservation :: "reservation \<Rightarrow> db \<Rightarrow> bool" where
  "fresh_reservation r d \<longleftrightarrow> r_id r \<notin> r_id ` set (reservations d) \<and> r_id r \<notin> rk_id ` set (reservation_commands d)
    \<and> r_ocpp_id r = ocpp_seq d \<and> r_status r = RPending \<and> r_fee_decision r = FPending \<and> r_fee_ledger_id r = None
    \<and> r_cancel_requested_at r = None \<and> r_session_id r = None
    \<and> (\<forall>s\<in>set (reservations d). r_connector_id s = r_connector_id r \<or> r_driver_id s = r_driver_id r \<longrightarrow> \<not> is_hold s)"

lemma create_reservation_cases:
  assumes run: "create_reservation rt driver request cid arrival ev afee aver d = Inr (r, d')" and winv: "wallet_inv d"
  obtains (replayed) "d' = d" "get_reservation request d = Some r" "r_driver_id r = driver"
  | (booked) c where "fresh_reservation r d" "reservations d' = reservations d @ [r]" "ocpp_seq d' = ocpp_seq d + 1"
      "reservation_commands d' = reservation_commands d @ [c]" "rk_id c = request" "rk_reservation_id c = r_id r" "rk_action c = ReserveNow"
      "rk_status c = CQueued" "rk_attempts c = 0" "rk_lease_token c = None" "ledger d' = ledger d" "money_step d d'"
      "r_id r = request" "r_driver_id r = driver" "r_connector_id r = cid" "r_created_at r = rt_now rt"
      "r_expires_at r = rt_now rt + 15 * MINUTE_US" "(r_fee_vnd r, r_fee_policy_version r) = quote (r_station_id r) d"
      "0 < r_fee_vnd r \<Longrightarrow> afee = Some (r_fee_vnd r) \<and> aver = Some (r_fee_policy_version r)"
      "r_request_hash r = request_digest rt cid arrival afee aver"
proof -
  obtain previous where p: "replayed_booking rt driver request cid arrival afee aver d = Inr previous"
    using run by (auto simp: create_reservation_def)
  show ?thesis
  proof (cases previous)
    case (Some r0)
    then show ?thesis
      using replayed run p by (auto simp: create_reservation_def replayed_booking_def Let_def split: option.splits if_splits)
  next
    case None
    have fresh: "get_reservation request d = None" "request \<notin> rk_id ` set (reservation_commands d)"
      using p None by (auto simp: replayed_booking_def Let_def split: option.splits if_splits)
    obtain point connector station fee_policy el tag d1 d2 d3 where
      t: "bookable_target rt cid arrival d = Inr (point, connector, station)"
      and b: "bookable_driver rt driver (st_id station) afee aver d = Inr (fee_policy, el)"
      and e: "ensure_driver_resources rt driver d = Inr (tag, d1)"
      and a: "add_reservation (new_reservation rt driver request (point, connector, station) (vt_card_id tag)
            (request_digest rt cid arrival afee aver) fee_policy) d1 = Inr (r, d2)"
      and c: "add_command request request ReserveNow (rt_now rt) d2 = Inr d3"
      and n: "noted (event r ''requested'' (rt_now rt) [] d3) d'"
      using run p None by (auto simp: create_reservation_def dest!: noted_audit)
    note f = ensure_driver_resources_frame [OF e winv]
    obtain fee version where fee: "fee_policy = (fee, version)" by (cases fee_policy)
    have r: "r = (new_reservation rt driver request (point, connector, station) (vt_card_id tag)
            (request_digest rt cid arrival afee aver) fee_policy)\<lparr>r_ocpp_id := ocpp_seq d1\<rparr>"
      and d2: "d2 = d1\<lparr>reservations := reservations d1 @ [r], ocpp_seq := ocpp_seq d1 + 1\<rparr>"
      using a by (auto simp: add_reservation_def Let_def split: if_splits)
    have rf: "r_id r = request" "r_driver_id r = driver" "r_connector_id r = cid" "r_created_at r = rt_now rt"
      "r_expires_at r = rt_now rt + 15 * MINUTE_US" "r_station_id r = st_id station" "r_fee_vnd r = fee"
      "r_fee_policy_version r = version" "r_status r = RPending" "r_fee_decision r = FPending" "r_fee_ledger_id r = None"
      "r_cancel_requested_at r = None" "r_session_id r = None" "r_ocpp_id r = ocpp_seq d"
      "r_request_hash r = request_digest rt cid arrival afee aver"
      using bookable_target_free(1) [OF t] f(5) by (simp_all add: r new_reservation_def fee)
    have new: "fresh_reservation r d"
      using fresh bookable_target_free(2) [OF t] bookable_driver_free(1) [OF b] rf
      by (auto simp: fresh_reservation_def get_reservation_def row_of_None_iff)
    obtain k where d3: "d3 = d2\<lparr>reservation_commands := reservation_commands d2 @ [k]\<rparr>"
      and k: "rk_id k = request" "rk_reservation_id k = request" "rk_action k = ReserveNow" "rk_status k = CQueued"
        "rk_attempts k = 0" "rk_lease_token k = None"
      using c by (auto simp: add_command_def split: if_splits)
    obtain es ls where d': "d' = d3\<lparr>reservation_events := es, audit_logs := ls\<rparr>"
      using noted_trans [OF noted_event n] by (rule notedE)
    have d1d': "money_step d1 d'"
      using money_step_inv [OF f(1)] wallet_inv_cong [of d' d1]
      by (auto simp: money_step_def append_step_def d' d3 d2)
    have "reservations d' = reservations d @ [r]" "ocpp_seq d' = ocpp_seq d + 1" "ledger d' = ledger d"
      "reservation_commands d' = reservation_commands d @ [k]" using f by (simp_all add: d' d3 d2)
    moreover have "(r_fee_vnd r, r_fee_policy_version r) = quote (r_station_id r) d"
      "0 < r_fee_vnd r \<Longrightarrow> afee = Some (r_fee_vnd r) \<and> aver = Some (r_fee_policy_version r)"
    proof -
      have q: "quote (st_id station) d = (fee, version)" using bookable_driver_free(2) [OF b] fee by simp
      show "(r_fee_vnd r, r_fee_policy_version r) = quote (r_station_id r) d" using q rf(6-8) by simp
      show "0 < r_fee_vnd r \<Longrightarrow> afee = Some (r_fee_vnd r) \<and> aver = Some (r_fee_policy_version r)"
        using bookable_driver_free(3) [OF b] q rf(7,8) by simp
    qed
    ultimately show ?thesis
      using booked [of k] new k rf money_step_trans [OF f(1) d1d'] by simp
  qed
qed

lemma one_hold_add:
  assumes "one_hold key rows" and "\<forall>s\<in>set rows. key s = key r \<longrightarrow> \<not> is_hold s"
  shows "one_hold key (rows @ [r])"
  using assms unfolding one_hold_def by auto

lemma has_command_add:
  assumes "reservation_commands d' = reservation_commands d @ [c]" and "j \<noteq> rk_reservation_id c"
  shows "has_command j a ss d' = has_command j a ss d"
  using assms by (auto simp: has_command_def)

lemma create_reservation_inv:
  assumes inv: "reservation_inv d" and winv: "wallet_inv d"
    and run: "create_reservation rt driver request cid arrival ev afee aver d = Inr (r, d')"
  shows "reservation_inv d'" and "money_step d d'" and "commands_grow d d'"
proof -
  have i: "distinct (map r_id (reservations d))" "one_hold r_connector_id (reservations d)"
      "one_hold r_driver_id (reservations d)" "distinct (map r_ocpp_id (reservations d))"
      "\<forall>x\<in>set (reservations d). r_ocpp_id x < ocpp_seq d" "commands_ok d"
      "\<forall>x\<in>set (reservations d). row_ok x d"
      "\<forall>e\<in>set (ledger d). wl_entry_type e = ReservationFee \<longrightarrow>
         (\<exists>x\<in>set (reservations d). wl_reference_id e = str_uuid (r_id x))"
    using inv unfolding reservation_inv_def by blast+
  have "reservation_inv d' \<and> money_step d d' \<and> commands_grow d d'"
    using run winv
  proof (cases rule: create_reservation_cases)
    case replayed
    then show ?thesis using inv winv commands_grow_same by simp
  next
    case (booked c)
    have rid: "r_id r \<notin> r_id ` set (reservations d)" and req: "rk_id c \<notin> rk_id ` set (reservation_commands d)"
      using booked(1,5,13) by (simp_all add: fresh_reservation_def)
    have rf: "r_status r = RPending" "r_fee_decision r = FPending" "r_fee_ledger_id r = None"
      "r_cancel_requested_at r = None" "r_session_id r = None" "r_ocpp_id r = ocpp_seq d"
      using booked(1) by (simp_all add: fresh_reservation_def)
    have keeps: "keeps_drivers d d'" using booked(12) unfolding money_step_def append_step_def by blast
    have old: "row_ok x d'" if x: "x \<in> set (reservations d)" for x
    proof (rule row_ok_other [of "r_id r" d d'])
      show "posts (r_id r) d d'" using booked(11,12) by (simp add: posts_def)
      show "others (r_id r) d' = others (r_id r) d" using booked(4,6) by (simp add: others_def)
      show "r_id x \<noteq> r_id r" using rid x by (metis image_eqI)
      show "row_ok x d" using i(7) x by blast
    qed (rule winv)
    have owner: "rk_reservation_id k \<noteq> r_id r" if "k \<in> set (reservation_commands d)" for k
      using i(6) that rid unfolding commands_ok_def by metis
    have new: "row_ok r d'"
    proof -
      have "wl_reference_id e \<noteq> str_uuid (r_id r)" if e: "e \<in> set (ledger d')" "wl_entry_type e = ReservationFee" for e
      proof -
        obtain x where x: "x \<in> set (reservations d)" "wl_reference_id e = str_uuid (r_id x)"
          using i(8) e booked(11) by auto
        then have "r_id x \<noteq> r_id r" using rid by (metis image_eqI)
        then show ?thesis using x(2) str_uuid_inject by metis
      qed
      then have "fee_ok r d'" using rf unfolding fee_ok_def by auto
      moreover have "has_command (r_id r) ReserveNow {CQueued, CSending} d'"
        using booked(4,6-8) by (simp add: has_command_def)
      moreover have "\<not> has_command (r_id r) CancelReservation UNIV d'"
        using booked(4,7) owner by (auto simp: has_command_def)
      ultimately show ?thesis using rf unfolding row_ok_def progress_ok_def by simp
    qed
    have "commands_ok d'"
    proof -
      have "command_key c \<notin> command_key ` set (reservation_commands d)"
        using owner booked(6) unfolding command_key_def image_iff by (metis prod.inject)
      moreover have "command_ok c" using booked(7-10) by (simp add: command_ok_def)
      ultimately show ?thesis using i(6) req booked(2,4,6) by (auto simp: commands_ok_def)
    qed
    moreover have "one_hold r_connector_id (reservations d')" "one_hold r_driver_id (reservations d')"
      using one_hold_add [OF i(2), of r] one_hold_add [OF i(3), of r] booked(1,2) by (simp_all add: fresh_reservation_def)
    moreover have "\<forall>x\<in>set (reservations d'). row_ok x d'" using old new booked(2) by simp
    moreover have "\<forall>x\<in>set (reservations d'). r_ocpp_id x < ocpp_seq d'"
      using i(5) rf(6) booked(2,3) by fastforce
    moreover have "distinct (map r_ocpp_id (reservations d'))" using i(4,5) rf(6) booked(2) by fastforce
    moreover have "\<forall>e\<in>set (ledger d'). wl_entry_type e = ReservationFee \<longrightarrow>
         (\<exists>x\<in>set (reservations d'). wl_reference_id e = str_uuid (r_id x))"
      using i(8) booked(2,11) by fastforce
    ultimately have "reservation_inv d'"
      using i(1) rid booked(2) unfolding reservation_inv_def by simp
    moreover have "commands_grow d d'" using booked(4) by (auto simp: commands_grow_def)
    ultimately show ?thesis using booked(12) by simp
  qed
  then show "reservation_inv d'" "money_step d d'" "commands_grow d d'" by blast+
qed

end
