(* ===== verification/Reservation_System.thy ===== *)
theory Reservation_System
  imports Reservation_Steps
begin

text \<open>
  The reservations as a system: drivers book and cancel, chargers start, the fee worker and the
  command worker run, and the rest of the program commits transactions of its own, in any order.
  A state is the database and the commands that have left for a charger; a reply may arrive at any
  time after its command left, more than once or never.
\<close>

section \<open>Bystanders\<close>

text \<open>
  What the reservations rely on when other parts of the program commit: the reservation tables stay
  as they are, wallets stay with their drivers, and no ledger row is posted as a reservation fee.
\<close>

definition bystander_step :: "db \<Rightarrow> db \<Rightarrow> bool" where
  "bystander_step d d' \<longleftrightarrow> reservations d' = reservations d \<and> reservation_commands d' = reservation_commands d
    \<and> ocpp_seq d' = ocpp_seq d \<and> wallet_inv d' \<and> keeps_drivers d d'
    \<and> (\<exists>rows. ledger d' = ledger d @ rows \<and> (\<forall>e\<in>set rows. wl_entry_type e \<noteq> ReservationFee))"

lemma bystander_step_inv:
  assumes "reservation_inv d" and step: "bystander_step d d'"
  shows "reservation_inv d'" and "wallet_inv d'"
proof -
  from step show "wallet_inv d'" by (simp add: bystander_step_def)
  obtain rows where s: "reservations d' = reservations d" "reservation_commands d' = reservation_commands d"
      "ocpp_seq d' = ocpp_seq d" "keeps_drivers d d'" "ledger d' = ledger d @ rows"
      "\<forall>e\<in>set rows. wl_entry_type e \<noteq> ReservationFee"
    using step unfolding bystander_step_def by blast
  have "row_ok x d'" if "row_ok x d" for x
    using row_ok_frame [OF s(5,4) _ has_command_cong [OF s(2)] that] s(6) by blast
  moreover have "e \<in> set (ledger d') \<and> wl_entry_type e = ReservationFee
      \<longrightarrow> e \<in> set (ledger d)" for e using s(5,6) by auto
  ultimately show "reservation_inv d'"
    using assms(1) commands_ok_cong [OF s(2,1)] unfolding reservation_inv_def s(1,3) by metis
qed

lemma bystander_frame:
  assumes "wallet_inv d" and "reservations d' = reservations d" and "reservation_commands d' = reservation_commands d"
    and "ocpp_seq d' = ocpp_seq d" and "wallets d' = wallets d" and "ledger d' = ledger d" and "ledger_seq d' = ledger_seq d"
  shows "bystander_step d d'"
  using assms wallet_inv_cong [of d' d] unfolding bystander_step_def by auto

text \<open>The contract of a service that is a bystander, and what it means to run any number of its requests.\<close>

locale bystander =
  fixes serve :: "'a \<Rightarrow> db \<Rightarrow> exn + 'r \<times> db"
  assumes serve_step: "wallet_inv d \<Longrightarrow> serve a d = Inr (r, d') \<Longrightarrow> bystander_step d d'"
begin

lemma serve_keeps_reservations:
  assumes "reservation_inv d" and "wallet_inv d"
    and "res_fold (\<lambda>a d. res_bind (serve a d) (\<lambda>(r, d'). Inr d')) requests d = Inr d'"
  shows "reservation_inv d' \<and> wallet_inv d' \<and> reservations d' = reservations d"
  using assms
proof (induction requests arbitrary: d)
  case (Cons a requests)
  then obtain r d1 where d1: "serve a d = Inr (r, d1)"
    and rest: "res_fold (\<lambda>a d. res_bind (serve a d) (\<lambda>(r, d'). Inr d')) requests d1 = Inr d'" by auto
  have step: "bystander_step d d1" by (rule serve_step [OF Cons.prems(2) d1])
  then show ?case
    using Cons.IH [OF bystander_step_inv [OF Cons.prems(1) step] rest] by (simp add: bystander_step_def)
qed simp

end

lemma update_policy_bystander:
  assumes "wallet_inv d" and "update_policy sid fee expected actor ev d = Inr (q, d')"
  shows "bystander_step d d'"
proof (cases "d' = d")
  case True
  then show ?thesis using bystander_frame assms(1) by simp
next
  case False
  then obtain ps where "noted (d\<lparr>policies := ps\<rparr>) d'"
    using assms(2) by (auto simp: update_policy_def Let_def split: if_splits option.splits prod.splits dest!: noted_audit)
  then obtain es ls where "d' = d\<lparr>policies := ps, reservation_events := es, audit_logs := ls\<rparr>" by (auto elim: notedE)
  then show ?thesis using bystander_frame [OF assms(1)] by simp
qed

lemma probe_capability_bystander:
  assumes "wallet_inv d" and "probe_capability rt cid d = Inr (state, d')"
  shows "bystander_step d d'"
proof -
  obtain cs where "d' = d\<lparr>capabilities := cs\<rparr>"
    using assms(2) by (auto simp: probe_capability_def Let_def split: if_splits option.splits)
  then show ?thesis using bystander_frame [OF assms(1)] by simp
qed

lemma probe_bystander:
  assumes "wallet_inv d"
  shows "bystander_step d (snd (probe_begin rt point d))" and "bystander_step d (probe_end rt point lease boot reply d)"
  by (rule bystander_frame [OF assms];
    simp add: probe_begin_def probe_end_def put_capability_def Let_def split: prod.splits option.splits bool.splits)+

interpretation fee_policy: bystander "\<lambda>(sid, fee, expected, actor, ev). update_policy sid fee expected actor ev"
  by unfold_locales (auto intro: update_policy_bystander)

interpretation capability_probe: bystander "\<lambda>(rt, cid). probe_capability rt cid"
  by unfold_locales (auto intro: probe_capability_bystander)

text \<open>Postings of every other kind, the debits of charging sessions among them.\<close>

lemma ghi_so_cai_bystander:
  assumes inv: "wallet_inv d" and run: "ghi_so_cai id wid et amt rty ri actor d = Inr (row, d')"
    and et: "et \<noteq> ReservationFee"
  shows "bystander_step d d'"
proof -
  have winv: "wallet_inv d'" using ghi_so_cai_inv [OF inv _ run] rely_refl [OF inv] by simp
  from run show ?thesis
  proof (cases rule: ghi_so_cai_cases)
    case (posted w)
    then show ?thesis
      using winv et keeps_drivers_posted [of d wid "w_balance_vnd w + amt" row]
      by (auto simp: bystander_step_def posted_db_def posted_row_def)
  qed (use bystander_frame inv in auto)
qed

lemma bystander_trans: "bystander_step d d1 \<Longrightarrow> bystander_step d1 d2 \<Longrightarrow> bystander_step d d2"
  unfolding bystander_step_def by (auto intro: keeps_drivers_trans)

lemma debit_wallet_bystander:
  assumes "wallet_inv d" and "debit_wallet new_id wid driver d = Inr (w, d')"
  shows "bystander_step d d'"
  using debit_wallet_inv [OF assms] assms
  by (auto simp: bystander_step_def debit_wallet_def ensure_driver_wallet_def Let_def
      keeps_drivers_def row_of_append split: if_splits option.splits)

lemma tru_vi_bystander:
  assumes "wallet_inv d" and "tru_vi new_id (Some bill) None wid actor d = Inr (res, d')"
  shows "bystander_step d d'"
  using assms(2)
proof (cases rule: tru_vi_cases)
  case zero
  then show ?thesis using bystander_frame [OF assms(1)] by simp
next
  case (debited w d1 row)
  have "bystander_step d d1" by (rule debit_wallet_bystander [OF assms(1) debited(2)])
  moreover have "bystander_step d1 d'"
    using ghi_so_cai_bystander [OF debit_wallet_inv(1) [OF assms(1) debited(2)] debited(3)] by simp
  ultimately show ?thesis by (rule bystander_trans)
qed

interpretation session_debit: bystander "\<lambda>(new_id, bill, wid, actor). tru_vi new_id (Some bill) None wid actor"
  by unfold_locales (auto intro: tru_vi_bystander)

section \<open>The system\<close>

type_synonym system = "db \<times> delivery list"

inductive reservation_step :: "system \<Rightarrow> system \<Rightarrow> bool" where
  policy: "update_policy sid fee expected actor ev d = Inr (q, d') \<Longrightarrow> reservation_step (d, sent) (d', sent)"
| ask_probe: "probe_capability rt cid d = Inr (state, d') \<Longrightarrow> reservation_step (d, sent) (d', sent)"
| probe_sent: "probe_begin rt point d = (lease, d') \<Longrightarrow> reservation_step (d, sent) (d', sent)"
| probe_answered: "probe_end rt point token boot reply d = d' \<Longrightarrow> reservation_step (d, sent) (d', sent)"
| book: "create_reservation rt driver request cid arrival ev afee aver d = Inr (r, d')
    \<Longrightarrow> reservation_step (d, sent) (d', sent)"
| cancel: "cancel_reservation rt driver i request ev d = Inr (r, d') \<Longrightarrow> reservation_step (d, sent) (d', sent)"
| refused_start: "validate_start rt cid tag ocpp_id source now message d = Inr ((ok, found), d')
    \<Longrightarrow> reservation_step (d, sent) (d', sent)"
| start: "validate_start rt cid tag ocpp_id source now message d = Inr ((True, Some r), d1)
    \<Longrightarrow> consume at_time session_id (r, d1) = Inr (r', d2)
    \<Longrightarrow> reservation_step (d, sent) (put_reservation r' d2, sent)"
| fee: "fee_one rt i d = Inr d' \<Longrightarrow> reservation_step (d, sent) (d', sent)"
| reconciled: "reconcile rt i d = Inr d' \<Longrightarrow> reservation_step (d, sent) (d', sent)"
| claimed: "claim rt i d = Inr (dl, d')
    \<Longrightarrow> reservation_step (d, sent) (d', sent @ (case dl of None \<Rightarrow> [] | Some x \<Rightarrow> [x]))"
| answered: "dl \<in> set sent \<Longrightarrow> deliver rt dl reply d = Inr d' \<Longrightarrow> reservation_step (d, sent) (d', sent)"
| bystanders: "bystander_step d d' \<Longrightarrow> reservation_step (d, sent) (d', sent)"

abbreviation reservation_run :: "system \<Rightarrow> system \<Rightarrow> bool" where
  "reservation_run \<equiv> reservation_step\<^sup>*\<^sup>*"

text \<open>The database before the first booking.\<close>

definition no_reservations :: "db \<Rightarrow> bool" where
  "no_reservations d \<longleftrightarrow> reservations d = [] \<and> reservation_commands d = []
    \<and> list_all (\<lambda>e. wl_entry_type e \<noteq> ReservationFee) (ledger d)"

text \<open>Every step changes one row, books, or is a bystander.\<close>

definition rows_kept :: "db \<Rightarrow> db \<Rightarrow> bool" where
  "rows_kept d d' \<longleftrightarrow> (\<forall>r\<in>set (reservations d). \<exists>r'\<in>set (reservations d'). evolves r r')"

definition grows :: "db \<Rightarrow> db \<Rightarrow> bool" where
  "grows d d' \<longleftrightarrow> rows_kept d d' \<and> commands_grow d d'"

lemma grows_trans: "grows d d1 \<Longrightarrow> grows d1 d2 \<Longrightarrow> grows d d2"
  unfolding grows_def rows_kept_def using evolves_trans commands_grow_trans by meson

lemma grows_refl [simp]: "grows d d"
  unfolding grows_def rows_kept_def using commands_grow_same evolves_refl by blast

lemma row_step_grows:
  assumes "row_step d d'" and "reservation_inv d"
  shows "grows d d'"
proof (cases "d' = d")
  case False
  then obtain r r' d1 where r: "r \<in> set (reservations d)" and t: "turn (r, d) (r', d1)"
    and d': "d' = put_reservation r' d1" using assms(1) unfolding row_step_def by blast
  have e: "evolves r r'" "reservations d1 = reservations d" "commands_grow d d1" and id: "r_id r' = r_id r"
    using t by (simp_all add: turn_def evolves_def)
  have "set (reservations d') = insert r' (set (reservations d) - {r})"
    using put_rows(1) [OF _ r id] assms(2) by (simp add: d' put_reservation_def e(2) id reservation_inv_def)
  then have "rows_kept d d'" using e(1) evolves_refl unfolding rows_kept_def by blast
  moreover have "commands_grow d d'" using e(3) by (simp add: commands_grow_def d')
  ultimately show ?thesis by (simp add: grows_def)
qed simp

lemma bystander_grows: "bystander_step d d' \<Longrightarrow> grows d d'"
  unfolding grows_def rows_kept_def bystander_step_def using commands_grow_same evolves_refl by metis

lemma create_reservation_grows:
  assumes "reservation_inv d" and "wallet_inv d"
    and "create_reservation rt driver request cid arrival ev afee aver d = Inr (r, d')"
  shows "grows d d'"
proof -
  from assms(3,2) have "set (reservations d) \<subseteq> set (reservations d')"
    by (cases rule: create_reservation_cases) auto
  then have "rows_kept d d'" using evolves_refl unfolding rows_kept_def by blast
  then show ?thesis using create_reservation_inv(3) [OF assms] by (simp add: grows_def)
qed

text \<open>A delivery that has left belongs to a command that has been attempted.\<close>

definition sent_ok :: "delivery list \<Rightarrow> db \<Rightarrow> bool" where
  "sent_ok sent d \<longleftrightarrow> (\<forall>dl\<in>set sent. \<exists>c\<in>set (reservation_commands d). rk_id c = dl_command_id dl
       \<and> command_key c = (dl_reservation_id dl, dl_action dl) \<and> 0 < rk_attempts c)
     \<and> distinct (map dl_reservation_id (filter (\<lambda>dl. dl_action dl = ReserveNow) sent))"

definition system_inv :: "system \<Rightarrow> bool" where
  "system_inv = (\<lambda>(d, sent). reservation_inv d \<and> wallet_inv d \<and> sent_ok sent d)"

lemma sent_ok_grows:
  assumes "sent_ok sent d" and "commands_grow d d'"
  shows "sent_ok sent d'"
proof -
  have "\<exists>c\<in>set (reservation_commands d'). rk_id c = dl_command_id dl
       \<and> command_key c = (dl_reservation_id dl, dl_action dl) \<and> 0 < rk_attempts c" if "dl \<in> set sent" for dl
    using assms that unfolding sent_ok_def commands_grow_def by (metis order.strict_trans2)
  then show ?thesis using assms(1) by (simp add: sent_ok_def)
qed

lemma sent_delivery_ok:
  assumes "sent_ok sent d" and "reservation_inv d" and "dl \<in> set sent"
  shows "delivery_ok dl d"
proof -
  obtain c where c: "c \<in> set (reservation_commands d)" "rk_id c = dl_command_id dl"
    "command_key c = (dl_reservation_id dl, dl_action dl)"
    using assms(1,3) unfolding sent_ok_def by blast
  have "get_command (rk_id c) d = Some c" unfolding get_command_def
    by (rule row_of_unique) (use inv_commands [OF assms(2)] c(1) in \<open>simp_all add: commands_ok_def\<close>)
  then show ?thesis using c by (simp add: delivery_ok_def command_key_def)
qed

lemma claim_sent_ok:
  assumes inv: "reservation_inv d" and sent: "sent_ok sent d" and run: "claim rt i d = Inr (Some dl, d')"
  shows "sent_ok (sent @ [dl]) d'"
  using run
proof (cases rule: claim_cases)
  case (sent c r target p d1)
  note c = get_commandD [OF sent(1)] and r = get_reservationD [OF sent(2)]
  have d1: "d1 = d" using claim_payload_step(2) [OF inv sent(1-5)] by simp
  have new: "lease_command rt c \<in> set (reservation_commands d')"
    using c by (auto simp: sent(7) d1 update_command_def set_update_row)
  have ok: "command_ok c" "distinct (map command_key (reservation_commands d))"
    using inv_commands [OF inv] c by (simp_all add: commands_ok_def)
  have fresh: "dl_reservation_id x \<noteq> r_id r" if x: "x \<in> set sent" "dl_action x = ReserveNow" and a: "rk_action c = ReserveNow"
    for x
  proof
    assume same: "dl_reservation_id x = r_id r"
    obtain k where k: "k \<in> set (reservation_commands d)" "command_key k = (dl_reservation_id x, dl_action x)"
      "0 < rk_attempts k" using assms(2) x(1) unfolding sent_ok_def by blast
    have "command_key k = command_key c" using k(2) same x(2) a r by (simp add: command_key_def)
    then have "k = c" using ok(2) k(1) c by (metis inj_on_contraD distinct_map)
    then show False using k(3) ok(1) a sent(3) by (simp add: command_ok_def)
  qed
  have "sent_ok sent d'"
    by (rule sent_ok_grows [OF assms(2)])
      (use row_step_grows [OF claim_step [OF inv run] inv] in \<open>simp add: grows_def\<close>)
  moreover have "rk_id (lease_command rt c) = dl_command_id dl
       \<and> command_key (lease_command rt c) = (dl_reservation_id dl, dl_action dl) \<and> 0 < rk_attempts (lease_command rt c)"
    using c r sent(6) by (simp add: lease_command_def command_key_def)
  moreover have "rk_action c = ReserveNow \<Longrightarrow>
      r_id r \<notin> dl_reservation_id ` set (filter (\<lambda>dl. dl_action dl = ReserveNow) sent)" using fresh by fastforce
  ultimately show ?thesis using new sent(6) unfolding sent_ok_def by auto
qed auto

lemma reservation_step_effect:
  assumes "reservation_step (d, sent) (d', sent')" and inv: "system_inv (d, sent)"
  shows "system_inv (d', sent') \<and> grows d d'"
proof -
  have i: "reservation_inv d" "wallet_inv d" "sent_ok sent d" using inv by (simp_all add: system_inv_def)
  have by_row: "system_inv (d', sent) \<and> grows d d'" if "row_step d d'" for d'
    using that row_step_inv [OF that i(1,2)] row_step_grows [OF that i(1)] sent_ok_grows [OF i(3)]
    by (simp add: system_inv_def grows_def)
  have by_bystander: "system_inv (d', sent) \<and> grows d d'" if "bystander_step d d'" for d'
    using that bystander_step_inv [OF i(1) that] bystander_grows [OF that] sent_ok_grows [OF i(3)]
    by (simp add: system_inv_def grows_def)
  from assms(1) show ?thesis
  proof (cases rule: reservation_step.cases)
    case (book rt driver request cid arrival ev afee aver r)
    then show ?thesis
      using create_reservation_inv [OF i(1,2) book(2)] create_reservation_grows [OF i(1,2) book(2)]
        money_step_inv sent_ok_grows [OF i(3)] by (auto simp: system_inv_def)
  next
    case (start rt cid tag ocpp_id source now message r d1 at_time session_id r' d2)
    have "d1 = d" "admitted cid tag ocpp_id source now d r" using validate_start_step(2) [OF start(3)] by auto
    then show ?thesis using by_row admitted_consume start by blast
  next
    case (claimed rt i dl)
    then show ?thesis
      using by_row [OF claim_step [OF i(1) claimed(2)]] claim_sent_ok [OF i(1,3)] by (cases dl) (auto simp: system_inv_def)
  next
    case (answered dl rt reply)
    then show ?thesis using by_row deliver_step [OF i(1) sent_delivery_ok [OF i(3,1)]] by blast
  next
    case policy
    then show ?thesis using by_bystander update_policy_bystander [OF i(2)] by blast
  next
    case ask_probe
    then show ?thesis using by_bystander probe_capability_bystander [OF i(2)] by blast
  next
    case (probe_sent rt point lease)
    then show ?thesis using by_bystander probe_bystander(1) [OF i(2), of rt point] by simp
  next
    case probe_answered
    then show ?thesis using by_bystander probe_bystander(2) [OF i(2)] by blast
  next
    case cancel
    then show ?thesis using by_row cancel_reservation_step by blast
  next
    case refused_start
    then show ?thesis using by_row validate_start_step(1) by blast
  next
    case fee
    then show ?thesis using by_row fee_one_step by blast
  next
    case reconciled
    then show ?thesis using by_row reconcile_step [OF i(1)] by blast
  next
    case bystanders
    then show ?thesis using by_bystander by blast
  qed
qed

lemma reservation_run_effect:
  assumes "reservation_run s s'" and "system_inv s"
  shows "system_inv s' \<and> grows (fst s) (fst s')"
  using assms
proof (induction rule: rtranclp_induct)
  case (step t u)
  then show ?case
    using reservation_step_effect [of "fst t" "snd t" "fst u" "snd u"] grows_trans by auto
qed simp

lemma initial_system: "no_reservations d \<Longrightarrow> wallet_inv d \<Longrightarrow> system_inv (d, [])"
  by (auto simp: no_reservations_def system_inv_def sent_ok_def reservation_inv_def one_hold_def commands_ok_def list_all_iff)

lemma reachable_system:
  assumes "reservation_run (d0, []) (d, sent)" and "no_reservations d0" and "wallet_inv d0"
  shows "reservation_inv d" and "wallet_inv d" and "sent_ok sent d"
  using reservation_run_effect [OF assms(1) initial_system [OF assms(2,3)]] by (simp_all add: system_inv_def)

end
