(* ===== verification/Reservation_Properties.thy ===== *)
theory Reservation_Properties
  imports Reservation_System
begin

text \<open>What holds of the reservations in every reachable state, and one run in full.\<close>

section \<open>A run\<close>

text \<open>
  A driver books a connector for 90 dong, the charger accepts, nobody comes, and the fee is
  charged thirty seconds after the hold expired.
\<close>

definition book_time :: instant where
  "book_time = 10 * DAY_US + 60 * MINUTE_US"

definition fee_time :: instant where
  "fee_time = book_time + 15 * MINUTE_US + 30 * SECOND_US"

definition example_runtime :: "instant \<Rightarrow> runtime" where
  "example_runtime now = \<lparr>rt_now = now, rt_utcnow = now, rt_sha256 = id, rt_isoformat = (\<lambda>_. ''t''),
     rt_zones = vn_zones, rt_clock = noon_clock, rt_wallet_reserve_vnd = 0, rt_charging_minimum_kwh = 1,
     rt_connected = (\<lambda>_. True), rt_new_wallet = 61, rt_new_card = 62, rt_new_command = 63, rt_lease = 64,
     rt_token = ''TAG00001'', rt_command_timeout_s = 30\<rparr>"

definition seen_at :: "instant \<Rightarrow> db \<Rightarrow> db" where
  "seen_at now d = d\<lparr>charge_points := [example_point\<lparr>cp_last_seen_at := Some now\<rparr>]\<rparr>"

definition desk :: db where
  "desk = seen_at book_time (example_db\<lparr>sessions := [], users := [\<lparr>u_id = 1, u_status = ''active''\<rparr>],
     user_roles := [(1, ''driver'')], policies := [\<lparr>rp_station_id = 3, rp_fee_vnd = 90, rp_version = 1\<rparr>],
     capabilities := [\<lparr>rc_charge_point_id = 11, rc_boot_at = Some 0, rc_supported = True,
       rc_checked_at = Some 0, rc_next_attempt_at = 0, rc_lease_token = None, rc_locked_until = None,
       rc_outcome = ''supported''\<rparr>]\<rparr>)"

definition result_db :: "exn + 'a \<times> db \<Rightarrow> db" where
  "result_db x = (case x of Inl _ \<Rightarrow> empty_db | Inr (_, d) \<Rightarrow> d)"

definition book_desk :: "exn + reservation \<times> db" where
  "book_desk = create_reservation (example_runtime book_time) 1 41 12 None (''p'', []) (Some 90) (Some 1) desk"

definition claim_desk :: "exn + delivery option \<times> db" where
  "claim_desk = claim (example_runtime book_time) 41 (result_db book_desk)"

definition reserve_delivery :: delivery where
  "reserve_delivery = \<lparr>dl_command_id = 41, dl_reservation_id = 41, dl_token = 64, dl_action = ReserveNow,
     dl_payload = ReservePayload 1 1 ''TAG00001'' (book_time + 15 * MINUTE_US)\<rparr>"

definition accept_desk :: "exn + db" where
  "accept_desk = deliver (example_runtime book_time) reserve_delivery (WireReply 3 [(''status'', JStr ''Accepted'')])
     (result_db claim_desk)"

definition held_desk :: db where
  "held_desk = (case accept_desk of Inl _ \<Rightarrow> empty_db | Inr d \<Rightarrow> seen_at fee_time d)"

definition fee_desk :: "exn + db" where
  "fee_desk = fee_one (example_runtime fee_time) 41 held_desk"

lemma desk_runs:
  "\<not> isl book_desk" "map_sum id fst claim_desk = Inr (Some reserve_delivery)" "\<not> isl accept_desk"
  by code_simp+

lemma fee_desk_rows:
  "case fee_desk of Inl _ \<Rightarrow> False | Inr d \<Rightarrow> map r_status (reservations d) = [RExpiryReleasePending]
     \<and> map r_fee_decision (reservations d) = [FCharged] \<and> map r_cancel_requested_at (reservations d) \<noteq> [None]
     \<and> map wl_amount_vnd (ledger d) = [200000, - 90]"
  by code_simp

lemma result_Inr: "\<not> isl x \<Longrightarrow> \<exists>a. x = Inr (a, result_db x)"
  by (cases x) (auto simp: result_db_def)

lemma result_fst: "map_sum id fst x = Inr a \<Longrightarrow> x = Inr (a, result_db x)"
  by (cases x) (auto simp: result_db_def)

lemma case_result: "(case x of Inl _ \<Rightarrow> False | Inr d \<Rightarrow> P d) \<Longrightarrow> \<exists>d. x = Inr d \<and> P d"
  by (cases x) auto

lemma desk_start: "no_reservations desk" "wallet_inv desk"
proof -
  show "no_reservations desk"
    by (simp add: no_reservations_def desk_def seen_at_def example_db_def topped_up_def one_wallet_def empty_db_def)
  have "wallet_inv example_db" by (rule closure_invD(1) [OF example_inv])
  then show "wallet_inv desk" using wallet_inv_cong [of desk example_db] by (simp add: desk_def seen_at_def)
qed

lemma seen_bystander: "wallet_inv d \<Longrightarrow> bystander_step d (seen_at now d)"
  by (rule bystander_frame) (simp_all add: seen_at_def)

lemma book_step: "reservation_step (desk, []) (result_db book_desk, [])"
  using result_Inr [OF desk_runs(1)] reservation_step.book unfolding book_desk_def by metis

lemma accept_run: "\<exists>d. accept_desk = Inr d \<and> reservation_run (result_db book_desk, []) (d, [reserve_delivery])"
proof -
  have "claim_desk = Inr (Some reserve_delivery, result_db claim_desk)" by (rule result_fst [OF desk_runs(2)])
  then have first: "reservation_step (result_db book_desk, []) (result_db claim_desk, [reserve_delivery])"
    using reservation_step.claimed [where dl = "Some reserve_delivery" and sent = "[]"] unfolding claim_desk_def by fastforce
  obtain d where d: "accept_desk = Inr d" using desk_runs(3) by (metis isl_def sum.exhaust)
  then have "reservation_step (result_db claim_desk, [reserve_delivery]) (d, [reserve_delivery])"
    unfolding accept_desk_def by (intro reservation_step.answered) simp_all
  with first d show ?thesis by (meson converse_rtranclp_into_rtranclp rtranclp.rtrancl_refl)
qed

lemma booked_run: "reservation_run (result_db book_desk, []) s \<Longrightarrow> reservation_run (desk, []) s"
  using book_step by (rule converse_rtranclp_into_rtranclp)

lemma held_run: "reservation_run (result_db book_desk, []) (held_desk, [reserve_delivery])"
proof -
  obtain d where d: "accept_desk = Inr d" and run: "reservation_run (result_db book_desk, []) (d, [reserve_delivery])"
    using accept_run by blast
  have "reservation_step (d, [reserve_delivery]) (seen_at fee_time d, [reserve_delivery])"
    by (intro reservation_step.bystanders seen_bystander reachable_system(2) [OF booked_run [OF run] desk_start])
  moreover have "held_desk = seen_at fee_time d" unfolding held_desk_def d by simp
  ultimately show ?thesis using run by (metis rtranclp.rtrancl_into_rtrancl)
qed

lemma fee_run_booked: "\<exists>d. fee_desk = Inr d \<and> reservation_run (result_db book_desk, []) (d, [reserve_delivery])"
proof -
  obtain d where d: "fee_desk = Inr d" using case_result [OF fee_desk_rows] by blast
  then have "reservation_step (held_desk, [reserve_delivery]) (d, [reserve_delivery])"
    unfolding fee_desk_def by (rule reservation_step.fee)
  with d held_run show ?thesis by (metis rtranclp.rtrancl_into_rtrancl)
qed

lemmas held_reached = booked_run [OF held_run]

lemma fee_run: "\<exists>d. fee_desk = Inr d \<and> reservation_run (desk, []) (d, [reserve_delivery])"
  using fee_run_booked booked_run by blast

section \<open>Holds\<close>

text \<open>
  C6: in every state the system reaches from a database without reservations, a connector has at
  most one live hold and a driver has at most one.  The two unique indexes of the table never
  have to refuse a row.
\<close>

theorem holds_exclusive:
  assumes "reservation_run (d0, []) (d, sent)" and "no_reservations d0" and "wallet_inv d0"
  shows "one_hold r_connector_id (reservations d) \<and> one_hold r_driver_id (reservations d)"
  using reachable_system(1) [OF assms] unfolding reservation_inv_def by blast

theorem holds_exclusive_witness:
  "one_hold r_connector_id (reservations held_desk) \<and> one_hold r_driver_id (reservations held_desk)"
  by (rule holds_exclusive [OF held_reached desk_start])

text \<open>
  C8: a ReserveNow leaves for the charger at most once per reservation, whatever fails, times out
  or is repeated: among all the commands that ever left, no two reserve the same hold.
\<close>

theorem reserve_now_sent_once:
  assumes "reservation_run (d0, []) (d, sent)" and "no_reservations d0" and "wallet_inv d0"
  shows "distinct (map dl_reservation_id (filter (\<lambda>dl. dl_action dl = ReserveNow) sent))"
  using reachable_system(3) [OF assms] unfolding sent_ok_def by blast

theorem reserve_now_sent_once_witness:
  "distinct (map dl_reservation_id (filter (\<lambda>dl. dl_action dl = ReserveNow) [reserve_delivery]))"
  by (rule reserve_now_sent_once [OF held_reached desk_start])

text \<open>
  C12: no hold waits for nothing.  In every reachable state a pending hold has its ReserveNow
  queued or in flight, a hold whose release was requested has a CancelReservation queued or in
  flight, a CancelReservation exists only after such a request, and a reservation has a session
  exactly when it is consumed.
\<close>

theorem holds_make_progress:
  assumes "reservation_run (d0, []) (d, sent)" and "no_reservations d0" and "wallet_inv d0"
    and "r \<in> set (reservations d)"
  shows "(r_status r = RPending \<longrightarrow> has_command (r_id r) ReserveNow {CQueued, CSending} d)
    \<and> (is_hold r \<and> r_cancel_requested_at r \<noteq> None \<longrightarrow> has_command (r_id r) CancelReservation {CQueued, CSending} d)
    \<and> (has_command (r_id r) CancelReservation UNIV d \<longrightarrow> r_cancel_requested_at r \<noteq> None)
    \<and> (r_status r = RConsumed \<longleftrightarrow> r_session_id r \<noteq> None)"
proof -
  have "row_ok r d" using reachable_system(1) [OF assms(1-3)] assms(4) unfolding reservation_inv_def by blast
  then show ?thesis unfolding row_ok_def progress_ok_def by blast
qed

theorem holds_make_progress_witness:
  "\<exists>r d. fee_desk = Inr d \<and> reservations d = [r] \<and> has_command (r_id r) CancelReservation {CQueued, CSending} d"
proof -
  obtain d where d: "fee_desk = Inr d" and run: "reservation_run (desk, []) (d, [reserve_delivery])"
    using fee_run by blast
  obtain r where r: "reservations d = [r]" "r_status r = RExpiryReleasePending" "r_cancel_requested_at r \<noteq> None"
    using fee_desk_rows by (auto simp: d)
  then show ?thesis using holds_make_progress [OF run desk_start, of r] d by (auto simp: is_hold_def)
qed

section \<open>Fees\<close>

definition fee_rows :: "reservation \<Rightarrow> db \<Rightarrow> wallet_ledger list" where
  "fee_rows r d = filter (\<lambda>e. wl_entry_type e = ReservationFee \<and> wl_reference_id e = str_uuid (r_id r)) (ledger d)"

lemma same_id_single:
  assumes "distinct (map f xs)" and "\<And>x. x \<in> set xs \<Longrightarrow> f x = c"
  shows "length xs \<le> 1"
proof (cases xs)
  case (Cons y ys)
  show ?thesis
  proof (cases ys)
    case (Cons z zs)
    then show ?thesis using assms \<open>xs = y # ys\<close> by simp
  qed (simp add: \<open>xs = y # ys\<close>)
qed simp

text \<open>
  C7: the no-show fee is charged at most once, and correctly.  In every reachable state a
  reservation has at most one fee row in the ledger; it takes the amount fixed at the booking from
  a wallet of the reservation's driver; there is none while the fee is undecided, waived or exempt,
  exactly one when it is decided as charged, and every fee row belongs to a reservation.
\<close>

theorem no_show_fee_once:
  assumes "reservation_run (d0, []) (d, sent)" and "no_reservations d0" and "wallet_inv d0"
  shows "(\<forall>r\<in>set (reservations d). length (fee_rows r d) \<le> 1
      \<and> (\<forall>e\<in>set (fee_rows r d). wl_amount_vnd e = - r_fee_vnd r
           \<and> (\<exists>w. row_of w_id (wl_wallet_id e) (wallets d) = Some w \<and> w_driver_id w = r_driver_id r))
      \<and> (r_fee_decision r \<in> {FPending, FWaived, FLegacyExempt} \<longrightarrow> fee_rows r d = [])
      \<and> (r_fee_decision r = FCharged \<longrightarrow> length (fee_rows r d) = 1))
    \<and> (\<forall>e\<in>set (ledger d). wl_entry_type e = ReservationFee \<longrightarrow> (\<exists>r\<in>set (reservations d). e \<in> set (fee_rows r d)))"
proof -
  note inv = reachable_system(1,2) [OF assms]
  have keys: "distinct (map entry_key (ledger d))" using inv(2) by (simp add: wallet_inv_def)
  have row: "length (fee_rows r d) \<le> 1" "\<forall>e\<in>set (fee_rows r d). fee_entry r d e"
      "r_fee_decision r \<in> {FPending, FWaived, FLegacyExempt} \<Longrightarrow> fee_rows r d = []"
      "r_fee_decision r = FCharged \<Longrightarrow> length (fee_rows r d) = 1" if r: "r \<in> set (reservations d)" for r
  proof -
    have ok: "fee_ok r d" using inv(1) r unfolding reservation_inv_def row_ok_def by blast
    have named: "r_fee_ledger_id r = Some (wl_id e)" if "e \<in> set (fee_rows r d)" for e
      using ok that unfolding fee_ok_def fee_rows_def by auto
    have key: "entry_key e = (ReservationFee, str_uuid (r_id r))" if "e \<in> set (fee_rows r d)" for e
      using that by (simp add: fee_rows_def entry_key_def)
    have "distinct (map entry_key (fee_rows r d))" unfolding fee_rows_def by (rule distinct_map_filter [OF keys])
    then show le: "length (fee_rows r d) \<le> 1" using key by (rule same_id_single)
    show entries: "\<forall>e\<in>set (fee_rows r d). fee_entry r d e"
    proof
      fix e assume e: "e \<in> set (fee_rows r d)"
      then obtain x where x: "x \<in> set (ledger d)" "fee_entry r d x"
        using ok named unfolding fee_ok_def by blast
      have "entry_key x = entry_key e" using x(2) key [OF e] by (simp add: fee_entry_def entry_key_def)
      moreover have "e \<in> set (ledger d)" using e by (simp add: fee_rows_def)
      ultimately show "fee_entry r d e" using unique_row [OF keys x(1)] x(2) by metis
    qed
    show "r_fee_decision r \<in> {FPending, FWaived, FLegacyExempt} \<Longrightarrow> fee_rows r d = []"
      using ok named unfolding fee_ok_def by (metis list.set_intros(1) neq_Nil_conv option.distinct(1))
    show "length (fee_rows r d) = 1" if "r_fee_decision r = FCharged"
    proof -
      obtain i e where "r_fee_ledger_id r = Some i" "e \<in> set (ledger d)" "fee_entry r d e"
        using ok \<open>r_fee_decision r = FCharged\<close> unfolding fee_ok_def by (metis option.exhaust)
      then have "e \<in> set (fee_rows r d)" by (simp add: fee_rows_def fee_entry_def)
      then show ?thesis using le by (metis One_nat_def le_Suc_eq le_zero_eq length_0_conv length_pos_if_in_set less_numeral_extra(3))
    qed
  qed
  moreover have "\<exists>r\<in>set (reservations d). e \<in> set (fee_rows r d)"
    if "e \<in> set (ledger d)" "wl_entry_type e = ReservationFee" for e
    using inv(1) that unfolding reservation_inv_def fee_rows_def by auto
  ultimately show ?thesis unfolding fee_entry_def by blast
qed

theorem no_show_fee_once_witness:
  "\<exists>r d. fee_desk = Inr d \<and> reservations d = [r] \<and> length (fee_rows r d) = 1"
proof -
  obtain d where d: "fee_desk = Inr d" and run: "reservation_run (desk, []) (d, [reserve_delivery])"
    using fee_run by blast
  obtain r where r: "reservations d = [r]" "r_fee_decision r = FCharged" using fee_desk_rows by (auto simp: d)
  then have "length (fee_rows r d) = 1" using no_show_fee_once [OF run desk_start] by simp
  then show ?thesis using d r by blast
qed

text \<open>What the fee worker requires before it takes money.\<close>

lemma decide_ledger: "decide dec reason now (r, d) = Inr (r', d') \<Longrightarrow> ledger d' = ledger d"
  by (erule decide_effect) simp

lemma charge_fee_ledger:
  assumes "charge_fee now (r, d) = Inr (r', d')" and "wallet_inv d" and "ledger d' \<noteq> ledger d"
  shows "\<exists>e. ledger d' = ledger d @ [e] \<and> wl_entry_type e = ReservationFee \<and> wl_amount_vnd e = - r_fee_vnd r"
proof -
  obtain w :: wallet and entry d1 where post: "ghi_so_cai id (w_id w) ReservationFee (- r_fee_vnd r) ''reservation''
      (str_uuid (r_id r)) None d = Inr (entry, d1)"
    and decided: "decide FCharged ''no_show'' now (r\<lparr>r_fee_ledger_id := Some (wl_id entry)\<rparr>, d1) = Inr (r', d')"
    using assms(1,3) by (auto simp: charge_fee_def split: option.splits if_splits dest: decide_ledger)
  note same = decide_ledger [OF decided]
  from post show ?thesis
    by (cases rule: ghi_so_cai_cases) (use assms(3) same in \<open>auto simp: posted_db_def posted_row_def\<close>)
qed

lemma fee_one_charges:
  assumes run: "fee_one rt i d = Inr d'" and "wallet_inv d" and changed: "ledger d' \<noteq> ledger d"
  obtains r e where "get_reservation i d = Some r" "r_fee_decision r = FPending"
    "r_expires_at r + 30 * SECOND_US \<le> rt_now rt" "r_status r \<noteq> RConsumed" "r_session_id r = None"
    "r_fee_vnd r \<noteq> 0" "\<not> r_no_show_exempt r" "r_status r \<noteq> RRejected" "r_outcome r \<noteq> Some ''not_sent''"
    "ledger d' = ledger d @ [e]" "wl_entry_type e = ReservationFee" "wl_amount_vnd e = - r_fee_vnd r"
proof -
  obtain r where r: "get_reservation i d = Some r"
    using run changed by (auto simp: fee_one_def split: option.splits)
  obtain point station r1 d1 where due: "r_fee_decision r = FPending" "r_expires_at r + 30 * SECOND_US \<le> rt_now rt"
    and settle: "settle_fee rt point (observe_expiry rt point station d r, d) = Inr (r1, d1)"
    and d': "d' = put_reservation r1 d1"
    using run changed by (auto simp: fee_one_def r split: if_splits)
  let ?r0 = "observe_expiry rt point station d r"
  have keep: "r_no_show_exempt ?r0 = r_no_show_exempt r" "r_outcome ?r0 = r_outcome r"
    by (simp_all add: observe_expiry_def Let_def)
  obtain r2 d2 where rel: "request_release rt ''expired'' None (?r0, d) = Inr (r2, d2)"
    and charge: "charge_fee (rt_now rt) (r2, d2) = Inr (r1, d1)"
    and conds: "r_status ?r0 \<noteq> RConsumed" "r_session_id ?r0 = None" "r_fee_vnd ?r0 \<noteq> 0"
      "\<not> r_no_show_exempt ?r0" "r_status ?r0 \<noteq> RRejected" "r_outcome ?r0 \<noteq> Some ''not_sent''"
    using settle changed decide_ledger request_release_expired(4)
    by (auto simp: settle_fee_def Let_def d' split: if_splits)
  note same = request_release_expired [OF rel]
  have "wallet_inv d2"
    using request_release_turn [OF rel] assms(2) money_step_inv by (auto simp: turn_def posts_def)
  from charge_fee_ledger [OF charge this] obtain e where "ledger d1 = ledger d2 @ [e]"
      "wl_entry_type e = ReservationFee" "wl_amount_vnd e = - r_fee_vnd r2"
    using changed same(4) by (auto simp: d')
  then show ?thesis
    using that [OF r due] conds same keep by (simp add: d')
qed


text \<open>The driver of the example arrives when the fee has just been charged, and still starts.\<close>

definition late_tag :: charging_card where
  "late_tag = \<lparr>cc_id = 62, cc_tag_hash = ''TAG00001'', cc_tag_tail = ''0001'', cc_driver_id = 1, cc_issuer_id = 1,
     cc_status = ''active'', cc_expires_at = None\<rparr>"

definition late_start :: "exn + (bool \<times> reservation option) \<times> db" where
  "late_start = (case fee_desk of Inl e \<Rightarrow> Inl e | Inr d \<Rightarrow>
     validate_start (example_runtime fee_time) 12 (Some late_tag) (Some 1) book_time fee_time None d)"


section \<open>Bookings\<close>

lemma get_reservation_member:
  "reservation_inv d \<Longrightarrow> r \<in> set (reservations d) \<Longrightarrow> get_reservation (r_id r) d = Some r"
  unfolding get_reservation_def by (rule row_of_unique) (simp_all add: reservation_inv_def)

lemma booking_repeats:
  assumes "get_reservation request d = Some r" and "r_driver_id r = driver"
    and "r_request_hash r = request_digest rt cid arrival afee aver"
  shows "create_reservation rt driver request cid arrival ev afee aver d = Inr (r, d)"
  using assms by (simp add: create_reservation_def replayed_booking_def Let_def)

lemma request_digest_cong:
  "rt_sha256 rt' = rt_sha256 rt \<Longrightarrow> rt_isoformat rt' = rt_isoformat rt \<Longrightarrow>
    request_digest rt' cid arrival afee aver = request_digest rt cid arrival afee aver"
  by (cases arrival) (simp_all add: request_digest_def canonical_arrival_def)

text \<open>
  C11: a booking is made once and on the terms in force.  A new booking holds the connector for
  fifteen minutes at the fee and policy version of the station, which the driver accepted unless the
  fee is zero, and moves no money; whatever happens afterwards, the same request returns the same
  reservation with its terms and changes nothing.
\<close>

theorem booking_once:
  assumes "reservation_run (d0, []) (d, sent)" and "no_reservations d0" and "wallet_inv d0"
    and "get_reservation request d = None"
    and book: "create_reservation rt driver request cid arrival ev afee aver d = Inr (r, d1)"
    and later: "reservation_run (d1, sent) (d2, sent2)"
    and same: "rt_sha256 rt2 = rt_sha256 rt" "rt_isoformat rt2 = rt_isoformat rt"
  shows "r_id r = request \<and> r_driver_id r = driver \<and> r_connector_id r = cid
    \<and> r_expires_at r = rt_now rt + 15 * MINUTE_US \<and> (r_fee_vnd r, r_fee_policy_version r) = quote (r_station_id r) d
    \<and> (0 < r_fee_vnd r \<longrightarrow> afee = Some (r_fee_vnd r) \<and> aver = Some (r_fee_policy_version r))
    \<and> ledger d1 = ledger d
    \<and> (\<exists>r2. create_reservation rt2 driver request cid arrival ev2 afee aver d2 = Inr (r2, d2) \<and> evolves r r2)"
  using book reachable_system(2) [OF assms(1-3)]
proof (cases rule: create_reservation_cases)
  case replayed
  with assms(4) show ?thesis by simp
next
  case (booked c)
  have "system_inv (d, sent)" using reachable_system [OF assms(1-3)] by (simp add: system_inv_def)
  from reservation_step_effect [OF reservation_step.book [OF book] this]
  have "system_inv (d1, sent)" by blast
  from reservation_run_effect [OF later this] have inv: "reservation_inv d2" and kept: "rows_kept d1 d2"
    by (simp_all add: system_inv_def grows_def)
  obtain r2 where r2: "r2 \<in> set (reservations d2)" "evolves r r2"
    using kept booked(2) unfolding rows_kept_def by auto
  then have fields: "r_id r2 = request" "r_driver_id r2 = driver" "r_request_hash r2 = request_digest rt2 cid arrival afee aver"
    using booked(13,14,20) request_digest_cong [OF same] by (simp_all add: evolves_def)
  have "create_reservation rt2 driver request cid arrival ev2 afee aver d2 = Inr (r2, d2)"
    by (rule booking_repeats [OF _ fields(2,3)]) (use get_reservation_member [OF inv r2(1)] fields(1) in simp)
  then show ?thesis using booked(11,13-19) r2(2) by blast
qed

theorem booking_once_witness:
  "\<exists>r d r2 d2. book_desk = Inr (r, d) \<and> r_expires_at r = book_time + 15 * MINUTE_US \<and> fee_desk = Inr d2
    \<and> create_reservation (example_runtime fee_time) 1 41 12 None (''p'', []) (Some 90) (Some 1) d2 = Inr (r2, d2)"
proof -
  obtain r where r: "book_desk = Inr (r, result_db book_desk)" using result_Inr [OF desk_runs(1)] by blast
  obtain d2 where d2: "fee_desk = Inr d2" and run: "reservation_run (result_db book_desk, []) (d2, [reserve_delivery])"
    using fee_run_booked by blast
  have none: "get_reservation 41 desk = None" by code_simp
  have "rt_now (example_runtime book_time) = book_time" "rt_sha256 (example_runtime fee_time) = rt_sha256 (example_runtime book_time)"
    "rt_isoformat (example_runtime fee_time) = rt_isoformat (example_runtime book_time)"
    by (simp_all add: example_runtime_def)
  then show ?thesis
    using booking_once [OF rtranclp.rtrancl_refl desk_start none r [unfolded book_desk_def] run [unfolded book_desk_def]] r d2
    unfolding book_desk_def by metis
qed

section \<open>Expired holds\<close>

lemma expired_release_total:
  assumes "rt_new_command rt \<notin> rk_id ` set (reservation_commands d)"
  shows "\<exists>r' d'. request_release rt ''expired'' None (r, d) = Inr (r', d')
    \<and> (\<not> is_hold r' \<or> r_cancel_requested_at r' \<noteq> None)"
  using assms
  by (auto simp: request_release_def release_exempt_def release_command_def send_cancel_def add_command_def Let_def
      is_hold_def split: option.splits if_splits)

lemma expire_leases_ids:
  "map rk_id (reservation_commands (snd (fold (expire_lease now) ids s))) = map rk_id (reservation_commands (snd s))"
proof (induction ids arbitrary: s)
  case (Cons i ids)
  have "map rk_id (reservation_commands (snd (expire_lease now i s))) = map rk_id (reservation_commands (snd s))"
    by (cases s) (simp add: expire_lease_def Let_def event_fields map_key_update_row split: option.splits if_splits)
  with Cons show ?case by simp
qed simp

lemma note_reboot_ids: "reservation_commands (snd (note_reboot now point (r, d))) = reservation_commands d"
  by (simp add: note_reboot_def Let_def event_fields)

lemma observe_release_ends:
  assumes "observe_release now point connector ids (r, d) = (r', d')" and "\<not> is_hold r \<or> r_cancel_requested_at r \<noteq> None"
  shows "\<not> is_hold r' \<or> r_cancel_requested_at r' \<noteq> None"
  using assms by (auto simp: observe_release_def Let_def is_hold_def split: if_splits)

lemma reconcile_expired_total:
  assumes inv: "reservation_inv d" and r: "get_reservation i d = Some r"
    and target: "lock_target (r_connector_id r) d = Inr (point, connector, station)"
    and active: "st_status station = ''active''" and due: "r_expires_at r \<le> rt_now rt" and hold: "is_hold r"
    and fresh: "rt_new_command rt \<notin> rk_id ` set (reservation_commands d)"
  shows "\<exists>r' d1. reconcile rt i d = Inr (put_reservation r' d1) \<and> r_id r' = i \<and> reservations d1 = reservations d
    \<and> (\<not> is_hold r' \<or> r_cancel_requested_at r' \<noteq> None)"
proof -
  have rid: "r_id r = i" using get_reservationD [OF r] by simp
  define ids where "ids = map rk_id (filter (\<lambda>c. rk_reservation_id c = i) (reservation_commands d))"
  let ?r0 = "observe_expiry rt point station d r"
  obtain r1 d1 where leases: "fold (expire_lease (rt_now rt)) ids (note_reboot (rt_now rt) point (?r0, d)) = (r1, d1)"
    by fastforce
  have "owns_all ids (?r0, d)" unfolding ids_def by (rule owns_all_initial [OF inv]) (simp add: rid)
  note first = expire_leases_turn [OF this _ leases]
  have "r_status ?r0 \<noteq> RConsumed" using hold_not_consumed [OF hold] by simp
  note first = first [OF this]
  have expires: "r_expires_at r1 = r_expires_at r" using first(1) by (simp add: turn_def evolves_def)
  have "map rk_id (reservation_commands d1) = map rk_id (reservation_commands d)"
    using expire_leases_ids [of "rt_now rt" ids "note_reboot (rt_now rt) point (?r0, d)"] leases by (simp add: note_reboot_ids)
  then have "rt_new_command rt \<notin> rk_id ` set (reservation_commands d1)" using fresh by (metis list.set_map)
  from expired_release_total [OF this] obtain r2 d2 where rel: "request_release rt ''expired'' None (r1, d1) = Inr (r2, d2)"
    and requested: "\<not> is_hold r2 \<or> r_cancel_requested_at r2 \<noteq> None" by blast
  then have due_run: "release_due rt station (r1, d1) = Inr (r2, d2)" using active due expires by (simp add: release_due_def)
  obtain r3 d3 where out: "observe_release (rt_now rt) point connector ids (r2, d2) = (r3, d3)" by fastforce
  have "turn (r2, d2) (r3, d3)"
    using observe_release_turn [of ids r2 d2] release_due_turn(2,3) [OF due_run] first(2,3) out by metis
  then have "turn (r, d) (r3, d3)"
    using turn_trans [OF observe_expiry_turn turn_trans [OF first(1) turn_trans [OF release_due_turn(1) [OF due_run]]]] by blast
  then have "r_id r3 = i" "reservations d3 = reservations d" using rid by (simp_all add: turn_def evolves_def)
  moreover have "reconcile rt i d = Inr (put_reservation r3 d3)"
    by (simp add: reconcile_def r target hold Let_def leases due_run out write_back_def flip: ids_def)
  ultimately show ?thesis using observe_release_ends [OF out requested] by blast
qed



end
