(* ===== verification/Meter_Units.thy ===== *)
theory Meter_Units
  imports Audit_Log
begin

text \<open>
  src/src/modules/charging/payloads.py and meter_units.py: the meter values of a charger, and their
  conversion to canonical units.  A value arrives as a text that Python's \<open>Decimal\<close> reads; the model
  has its grammar and the arithmetic context (28 digits, half even, exponents up to 999999).
\<close>

section \<open>Payloads\<close>

record sample_payload =
  smp_value :: string
  smp_measurand :: string
  smp_unit :: "string option"
  smp_phase :: string
  smp_location :: string
  smp_format :: string

record meter_block =
  mb_timestamp :: instant
  mb_sampledValue :: "sample_payload list"

section \<open>Decimal\<close>

definition digits_value :: "string \<Rightarrow> int" where
  "digits_value s = foldl (\<lambda>acc c. acc * 10 + int (char_digit c)) 0 s"

definition is_digit :: "char \<Rightarrow> bool" where
  "is_digit c \<longleftrightarrow> c \<in> set ''0123456789''"

function ndigits :: "int \<Rightarrow> int" where
  "ndigits c = (if c < 10 then 1 else 1 + ndigits (c div 10))"
  by pat_completeness auto
termination by (relation "measure nat") auto

declare ndigits.simps [simp del]

text \<open>A finite number is a signed coefficient and an exponent; the rest is infinities and NaNs.\<close>

datatype decimal_number = Finite int int | Special

definition sign_of :: "string \<Rightarrow> int \<times> string" where
  "sign_of s = (case s of [] \<Rightarrow> (1, [])
     | c # rest \<Rightarrow> if c = CHR ''-'' then (- 1, rest) else if c = CHR ''+'' then (1, rest) else (1, s))"

definition exponent_of :: "string \<Rightarrow> int option" where
  "exponent_of s = (case s of
       [] \<Rightarrow> Some 0
     | c # rest \<Rightarrow>
         (let (sign, digits) = sign_of rest in
          if c \<in> {CHR ''e'', CHR ''E''} \<and> digits \<noteq> [] \<and> list_all is_digit digits
          then Some (sign * digits_value digits) else None))"

definition special_text :: "string \<Rightarrow> bool" where
  "special_text s \<longleftrightarrow> (let t = map casefold_char s in t \<in> {''inf'', ''infinity''}
     \<or> take 3 t = ''nan'' \<and> list_all is_digit (drop 3 t)
     \<or> take 4 t = ''snan'' \<and> list_all is_digit (drop 4 t))"

definition decimal_of_text :: "string \<Rightarrow> decimal_number option" where
  "decimal_of_text text =
    (let (sign, s) = sign_of (filter (\<lambda>c. c \<noteq> CHR ''_'') (strip text));
         whole = takeWhile is_digit s; rest = dropWhile is_digit s;
         fraction = (case rest of [] \<Rightarrow> [] | c # r \<Rightarrow> if c = CHR ''.'' then takeWhile is_digit r else []);
         tail = (case rest of [] \<Rightarrow> [] | c # r \<Rightarrow> if c = CHR ''.'' then dropWhile is_digit r else rest)
     in if whole @ fraction = [] then (if special_text s then Some Special else None)
        else case exponent_of tail of
          None \<Rightarrow> None
        | Some e \<Rightarrow>
            let c = digits_value (whole @ fraction); e1 = e - int (length fraction)
            in if e1 + ndigits c - 1 > 999999999999999999 \<or> e1 < - 1999999999999999997 then None
               else Some (Finite (sign * c) e1))"

definition half_even_div :: "int \<Rightarrow> int \<Rightarrow> int" where
  "half_even_div a b = (let q = a div b; r = a mod b in
     if 2 * r < b then q else if 2 * r > b then q + 1 else if even q then q else q + 1)"

definition to_precision :: "int \<times> int \<Rightarrow> int \<times> int" where
  "to_precision = (\<lambda>(c, e). let n = ndigits \<bar>c\<bar> in
     if n \<le> 28 then (c, e) else (half_even_div c (10 ^ nat (n - 28)), e + (n - 28)))"

definition decimal_value :: "int \<times> int \<Rightarrow> decimal" where
  "decimal_value = (\<lambda>(c, e). if 0 \<le> e then of_int (c * 10 ^ nat e) else of_int c / of_int (10 ^ nat (- e)))"

text \<open>The product in the default context: too large is an exception of its own, not an invalid operation.\<close>

definition decimal_mul :: "decimal_number \<Rightarrow> int \<Rightarrow> exn + decimal option" where
  "decimal_mul x factor =
    (case x of
       Special \<Rightarrow> Inr None
     | Finite c e \<Rightarrow>
         let (c1, e1) = to_precision (c * factor, e) in
         if c1 \<noteq> 0 \<and> e1 + ndigits \<bar>c1\<bar> - 1 > 999999 then Inl DecimalOverflow
         else Inr (Some (decimal_value (c1, e1))))"

definition quantize6 :: "decimal \<Rightarrow> decimal" where
  "quantize6 v = (let (n, m) = quotient_of (v * 1000000) in of_int (half_even_div n m) / 1000000)"

section \<open>Units\<close>

definition UNITS :: "(string \<times> string \<times> (string \<times> int) list) list" where
  "UNITS = [
     (''Energy.Active.Import.Register'', ''Wh'', [(''Wh'', 1), (''kWh'', 1000)]),
     (''Power.Active.Import'', ''W'', [(''W'', 1), (''kW'', 1000)]),
     (''Power.Offered'', ''W'', [(''W'', 1), (''kW'', 1000)]),
     (''Current.Import'', ''A'', [(''A'', 1)]),
     (''Voltage'', ''V'', [(''V'', 1)]),
     (''SoC'', ''Percent'', [(''Percent'', 1)]),
     (''Frequency'', ''Hertz'', [(''Hertz'', 1)]),
     (''Temperature'', ''Celsius'', [(''Celsius'', 1), (''Celcius'', 1)])]"

definition sample_factor :: "sample_payload \<Rightarrow> (string \<times> int) option" where
  "sample_factor sample =
    (case map_of UNITS (smp_measurand sample) of
       None \<Rightarrow> None
     | Some (unit, conversions) \<Rightarrow>
         if smp_format sample \<noteq> ''Raw'' then None
         else map_option (\<lambda>factor. (unit, factor))
           (map_of conversions (case smp_unit sample of None \<Rightarrow> unit | Some u \<Rightarrow> if u = [] then unit else u)))"

definition numeric_sample :: "sample_payload \<Rightarrow> exn + (decimal \<times> string) option" where
  "numeric_sample sample =
    (case sample_factor sample of
       None \<Rightarrow> Inr None
     | Some (unit, factor) \<Rightarrow>
         (case decimal_of_text (smp_value sample) of
            None \<Rightarrow> Inr None
          | Some x \<Rightarrow>
              res_bind (decimal_mul x factor) (\<lambda>product.
                case product of
                  None \<Rightarrow> Inr None
                | Some v \<Rightarrow> if \<bar>v\<bar> \<ge> 10 ^ 18 then Inr None else Inr (Some (quantize6 v, unit)))))"

lemma half_even_div_near:
  assumes "0 < b"
  shows "\<bar>2 * (a - half_even_div a b * b)\<bar> \<le> b"
proof -
  define q r where "q = a div b" and "r = a mod b"
  have a: "a = q * b + r" and r: "0 \<le> r" "r < b" using assms by (simp_all add: q_def r_def)
  have "half_even_div a b = q \<and> 2 * r \<le> b \<or> half_even_div a b = q + 1 \<and> b \<le> 2 * r"
    by (auto simp: half_even_div_def Let_def q_def r_def)
  then show ?thesis using r by (auto simp: a algebra_simps)
qed

lemma quantize6_near: "\<bar>v - quantize6 v\<bar> \<le> 1 / 2000000"
proof -
  obtain n m where q: "quotient_of (v * 1000000) = (n, m)" by fastforce
  have m: "0 < (of_int m :: rat)" using quotient_of_denom_pos [OF q] by simp
  define k :: rat where "k = of_int (half_even_div n m)"
  have v: "of_int n = v * 1000000 * of_int m" using quotient_of_div [OF q] m by (simp add: field_simps)
  have "\<bar>of_int (2 * (n - half_even_div n m * m)) :: rat\<bar> \<le> of_int m"
    using half_even_div_near [of m n] m by (simp only: of_int_abs [symmetric] of_int_le_iff of_int_0_less_iff)
  then have "\<bar>2 * (v * 1000000 - k) * of_int m\<bar> \<le> of_int m"
    by (simp add: v k_def algebra_simps)
  then have "\<bar>2 * (v * 1000000 - k)\<bar> * of_int m \<le> 1 * of_int m" using m by (simp add: abs_mult)
  then have "\<bar>2 * (v * 1000000 - k)\<bar> \<le> 1" using m by (simp only: mult_le_cancel_right_pos)
  then have "2 * (v * 1000000 - k) \<le> 1 \<and> - 1 \<le> 2 * (v * 1000000 - k)" by linarith
  moreover have "quantize6 v = k / 1000000" by (simp add: quantize6_def q k_def)
  ultimately have "v - quantize6 v \<le> 1 / 2000000" "- (v - quantize6 v) \<le> 1 / 2000000" by simp_all
  then show ?thesis by (rule abs_leI)
qed


definition largest_sample :: sample_payload where
  "largest_sample = \<lparr>smp_value = ''999999999999999999.9999999'', smp_measurand = ''Energy.Active.Import.Register'',
     smp_unit = None, smp_phase = '''', smp_location = ''Outlet'', smp_format = ''Raw''\<rparr>"

text \<open>The bound is reached: one more digit than the column for the value has.\<close>

lemma largest_sample_value: "numeric_sample largest_sample = Inr (Some (10 ^ 18, ''Wh''))"
  by code_simp


lemma huge_sample_raises: "numeric_sample (largest_sample\<lparr>smp_value := ''1e1000000''\<rparr>) = Inl DecimalOverflow"
  by code_simp

end
