(* ===== verification/Occupation.thy ===== *)
theory Occupation
  imports Meter_Units Reservation_System
begin

text \<open>
  src/src/modules/charging/occupation.py and recovery.py, and the observations of
  src/src/modules/ocpp/monitoring.py: what statuses, silence and reconnections of a charger mean for
  its sessions.  A mutation that works on a locked session row takes and returns the pair of the row
  and the database; the enclosing transaction writes it back with \<open>put_session\<close>.
\<close>

record charging_env =
  ce_rt :: runtime
  ce_available_confirms_unplug :: bool
  ce_abnormal_offline_seconds :: int
  ce_retention_days :: int
  ce_decimal_text :: "decimal \<Rightarrow> string"

definition review :: "string \<Rightarrow> charging_session \<Rightarrow> charging_session" where
  "review reason c = (if reason \<in> set (cs_review_reasons c) then c
     else c\<lparr>cs_review_reasons := cs_review_reasons c @ [reason]\<rparr>)"

definition flag :: "string \<Rightarrow> charging_session \<Rightarrow> charging_session" where
  "flag reason c = (if reason \<in> set (cs_review_reasons c) then c
     else c\<lparr>cs_review_reasons := cs_review_reasons c @ [reason]\<rparr>)"

definition get_session :: "int \<Rightarrow> db \<Rightarrow> charging_session option" where
  "get_session session_id d = row_of cs_id session_id (sessions d)"

definition put_session :: "charging_session \<Rightarrow> db \<Rightarrow> db" where
  "put_session c d = d\<lparr>sessions := update_row cs_id (cs_id c) (\<lambda>_. c) (sessions d)\<rparr>"

definition add_session_event ::
  "charging_session \<Rightarrow> string \<Rightarrow> uuid option \<Rightarrow> (string \<times> json) list \<Rightarrow> db \<Rightarrow> db" where
  "add_session_event c action actor details d = d\<lparr>session_events := session_events d @
     [\<lparr>se_session_id = cs_id c, se_action = action, se_actor_id = actor, se_details = details\<rparr>]\<rparr>"

text \<open>\<open>ORDER BY id DESC LIMIT 1\<close>.\<close>

definition newest_by :: "('a \<Rightarrow> int) \<Rightarrow> 'a list \<Rightarrow> 'a option" where
  "newest_by key rows = foldl (\<lambda>best x. case best of None \<Rightarrow> Some x
     | Some b \<Rightarrow> if key b < key x then Some x else best) None rows"

section \<open>Occupation\<close>

definition session_intervals :: "int \<Rightarrow> db \<Rightarrow> occupation_interval list" where
  "session_intervals session_id d = filter (\<lambda>i. oi_session_id i = session_id) (occupation_intervals d)"

definition current_interval :: "charging_session \<Rightarrow> db \<Rightarrow> occupation_interval option" where
  "current_interval c d = newest_by oi_id (session_intervals (cs_id c) d)"

definition put_interval :: "occupation_interval \<Rightarrow> db \<Rightarrow> db" where
  "put_interval i d =
    d\<lparr>occupation_intervals := update_row oi_id (oi_id i) (\<lambda>_. i) (occupation_intervals d)\<rparr>"

text \<open>
  The unique index on open intervals and the check on their times are not part of the writes: that
  they never have to refuse a row is a theorem.
\<close>

definition add_interval :: "charging_session \<Rightarrow> instant \<Rightarrow> bool \<Rightarrow> db \<Rightarrow> db" where
  "add_interval c stamp confirmed d =
    d\<lparr>occupation_intervals := occupation_intervals d @ [\<lparr>oi_id = interval_seq d, oi_session_id = cs_id c,
       oi_started_at = stamp, oi_ended_at = None, oi_confirmed = confirmed, oi_end_reason = None\<rparr>],
      interval_seq := interval_seq d + 1\<rparr>"

definition release ::
  "charging_env \<Rightarrow> instant \<Rightarrow> occupation_interval option \<Rightarrow> string \<Rightarrow> charging_session \<times> db
   \<Rightarrow> charging_session \<times> db" where
  "release env stamp interval source = (\<lambda>(c, d).
    if cs_connector_released_at c \<noteq> None then (c, d)
    else if stamp < cs_started_at c
      \<or> (case interval of None \<Rightarrow> False | Some i \<Rightarrow> stamp < oi_started_at i)
    then (flag ''occupation_invalid_release_time'' c, d)
    else
      let d1 = (case interval of
             None \<Rightarrow> d
           | Some i \<Rightarrow> if oi_ended_at i = None
               then put_interval (i\<lparr>oi_ended_at := Some stamp, oi_end_reason := Some ''released''\<rparr>) d else d)
      in (c\<lparr>cs_connector_released_at := Some stamp\<rparr>,
          add_session_event c ''connector_released'' None
            [(''timestamp'', JStr (rt_isoformat (ce_rt env) stamp)), (''source'', JStr source)] d1))"

definition occupied_status ::
  "charging_env \<Rightarrow> string \<Rightarrow> instant \<Rightarrow> charging_session \<times> db \<Rightarrow> charging_session \<times> db" where
  "occupied_status env status stamp = (\<lambda>(c, d).
    let interval = current_interval c d in
    if status \<in> {''SuspendedEV'', ''Finishing''}
    then
      let sure = (status = ''Finishing'' \<or> (case cs_ended_at c of None \<Rightarrow> False | Some t \<Rightarrow> t \<le> stamp)) in
      (case interval of
         Some i \<Rightarrow>
           if oi_ended_at i = None
           then (c, if sure then put_interval (i\<lparr>oi_confirmed := True\<rparr>) d else d)
           else (c\<lparr>cs_idle_since := Some stamp\<rparr>, add_interval c stamp sure d)
       | None \<Rightarrow> (c\<lparr>cs_idle_since := Some stamp\<rparr>, add_interval c stamp sure d))
    else if status = ''Charging''
    then
      if cs_ended_at c \<noteq> None then (flag ''occupation_charging_after_stop'' c, d)
      else (case interval of
          Some i \<Rightarrow> if oi_ended_at i = None
            then (c\<lparr>cs_idle_since := None\<rparr>, put_interval (i\<lparr>oi_ended_at := Some stamp,
                   oi_end_reason := Some ''resumed'', oi_confirmed := False\<rparr>) d)
            else (c, d)
        | None \<Rightarrow> (c, d))
    else if status = ''Available''
    then (if cs_release_detection c = ''available'' then release env stamp interval ''Available'' (c, d) else (c, d))
    else if (case interval of None \<Rightarrow> False | Some i \<Rightarrow> oi_ended_at i = None)
    then (flag ''occupation_interrupted_status'' c, d)
    else (c, d))"

definition note_status :: "charging_env \<Rightarrow> uuid \<Rightarrow> string \<Rightarrow> instant option \<Rightarrow> db \<Rightarrow> db" where
  "note_status env connector_id status stamp d =
    (case newest_by cs_id (filter (\<lambda>c. cs_connector_id c = connector_id) (sessions d)) of
       None \<Rightarrow> d
     | Some c \<Rightarrow>
         if cs_billing_lifecycle_version c = 0 \<or> list_ex (\<lambda>b. inv_session_id b = cs_id c) (invoices d) then d
         else (case stamp of
             None \<Rightarrow> put_session (flag ''occupation_missing_status_timestamp'' c) d
           | Some t \<Rightarrow>
               if t < cs_started_at c then d
               else if cs_connector_released_at c \<noteq> None
               then (if status \<in> {''Charging'', ''SuspendedEV'', ''Finishing''}
                     then put_session (flag ''occupation_status_after_release'' c) d else d)
               else
                 let (c1, d1) = occupied_status env status t (c, add_session_event c ''occupation_status'' None
                       [(''status'', JStr status), (''timestamp'', JStr (rt_isoformat (ce_rt env) t))] d)
                 in put_session c1 d1))"

definition note_stop :: "charging_env \<Rightarrow> charging_session \<times> db \<Rightarrow> exn + charging_session \<times> db" where
  "note_stop env = (\<lambda>(c, d).
    if cs_billing_lifecycle_version c = 0 then Inr (c, d)
    else case cs_ended_at c of
      None \<Rightarrow> Inl AssertionError
    | Some ended \<Rightarrow>
        let interval = current_interval c d;
            interval1 = map_option (\<lambda>i. if oi_end_reason i \<noteq> Some ''resumed'' then i\<lparr>oi_confirmed := True\<rparr> else i) interval;
            d1 = (case interval1 of None \<Rightarrow> d | Some i \<Rightarrow> put_interval i d)
        in Inr (if cs_stop_reason c = Some ''EVDisconnected''
                then release env ended interval1 ''EVDisconnected'' (c, d1) else (c, d1)))"

definition note_offline_gap :: "uuid \<Rightarrow> db \<Rightarrow> db" where
  "note_offline_gap charger_id d = d\<lparr>sessions := map (\<lambda>c.
     if cs_charge_point_id c = charger_id \<and> cs_billing_lifecycle_version c = 1
       \<and> cs_connector_released_at c = None \<and> (cs_idle_since c \<noteq> None \<or> cs_ended_at c \<noteq> None)
       \<and> \<not> list_ex (\<lambda>b. inv_session_id b = cs_id c) (invoices d)
     then flag ''occupation_offline_gap'' c else c) (sessions d)\<rparr>"

section \<open>Monitoring\<close>

definition stale_point :: "instant \<Rightarrow> charge_point \<Rightarrow> bool" where
  "stale_point now point = (case cp_last_seen_at point of None \<Rightarrow> True
     | Some seen \<Rightarrow> seen < now - cp_heartbeat_interval_seconds point * 2 * SECOND_US)"

definition forget_connectors :: "(connector \<Rightarrow> bool) \<Rightarrow> instant \<Rightarrow> db \<Rightarrow> db" where
  "forget_connectors which now d = d\<lparr>connectors := map (\<lambda>k. if which k \<and> cn_archived_at k = None
     then k\<lparr>cn_status := ''unknown'', cn_raw_ocpp_status := None, cn_status_updated_at := now\<rparr> else k) (connectors d)\<rparr>"

text \<open>A contact after a silence makes the last observations unknown.\<close>

definition note_contact :: "charge_point \<Rightarrow> instant \<Rightarrow> db \<Rightarrow> db" where
  "note_contact point now d =
    (if (case cp_last_seen_at point of None \<Rightarrow> True
         | Some seen \<Rightarrow> now - seen > 2 * cp_heartbeat_interval_seconds point * SECOND_US)
     then
       let d1 = forget_connectors (\<lambda>k. cn_charge_point_id k = cp_id point) now d
       in if cp_last_seen_at point \<noteq> None then note_offline_gap (cp_id point) d1 else d1
     else d)"

definition mark_seen :: "instant \<Rightarrow> uuid \<Rightarrow> db \<Rightarrow> db" where
  "mark_seen now charger_id d =
    (case row_of cp_id charger_id (charge_points d) of
       None \<Rightarrow> d
     | Some point \<Rightarrow>
         if cp_archived_at point \<noteq> None then d
         else note_contact point now (d\<lparr>charge_points := update_row cp_id charger_id
           (\<lambda>p. p\<lparr>cp_last_seen_at := Some now\<rparr>) (charge_points d)\<rparr>))"

definition lock_and_mark_seen :: "instant \<Rightarrow> uuid \<Rightarrow> db \<Rightarrow> charge_point option \<times> db" where
  "lock_and_mark_seen now charger_id d =
    (case row_of cp_id charger_id (charge_points d) of
       None \<Rightarrow> (None, d)
     | Some point \<Rightarrow>
         if cp_archived_at point \<noteq> None then (None, d)
         else (Some (point\<lparr>cp_last_seen_at := Some now\<rparr>),
           note_contact point now (d\<lparr>charge_points := update_row cp_id charger_id
             (\<lambda>p. p\<lparr>cp_last_seen_at := Some now\<rparr>) (charge_points d)\<rparr>)))"

definition expire_chargers :: "instant \<Rightarrow> (uuid \<Rightarrow> bool) \<Rightarrow> db \<Rightarrow> db" where
  "expire_chargers now busy d =
    (let stale = map cp_id (filter (\<lambda>p. stale_point now p \<and> cp_archived_at p = None \<and> \<not> busy (cp_id p)) (charge_points d));
         d1 = fold note_offline_gap stale d;
         d2 = forget_connectors (\<lambda>k. cn_charge_point_id k \<in> set stale \<and> cn_status k \<noteq> ''unknown'') now d1
     in d2\<lparr>charge_points := map (\<lambda>p. if cp_id p \<in> set stale \<and> stale_point now p \<and> cp_archived_at p = None
            \<and> cp_status p \<noteq> ''offline''
          then p\<lparr>cp_status := ''offline'', cp_status_updated_at := now\<rparr> else p) (charge_points d2)\<rparr>)"

record status_payload =
  sta_connectorId :: int
  sta_status :: string
  sta_errorCode :: string
  sta_vendorErrorCode :: "string option"
  sta_info :: "string option"
  sta_timestamp :: "instant option"

definition reported_connector :: "charge_point \<Rightarrow> status_payload \<Rightarrow> connector \<Rightarrow> bool" where
  "reported_connector charger status k \<longleftrightarrow> cn_charge_point_id k = cp_id charger
    \<and> cn_connector_number k = sta_connectorId status \<and> cn_archived_at k = None
    \<and> (case sta_timestamp status of None \<Rightarrow> True
       | Some t \<Rightarrow> (case cn_last_status_notification_at k of None \<Rightarrow> True | Some old \<Rightarrow> old < t))"

text \<open>The idle mark of sessions from before the occupation intervals.\<close>

definition legacy_idle :: "uuid \<Rightarrow> status_payload \<Rightarrow> db \<Rightarrow> db" where
  "legacy_idle connector_id status d =
    (case sta_timestamp status of
       None \<Rightarrow> d
     | Some t \<Rightarrow>
         if sta_status status \<notin> {''SuspendedEV'', ''Charging''} then d
         else d\<lparr>sessions := map (\<lambda>c.
           if cs_connector_id c = connector_id \<and> cs_ended_at c = None \<and> cs_started_at c \<le> t
             \<and> cs_billing_lifecycle_version c = 0
           then (if sta_status status = ''SuspendedEV''
                 then (if cs_idle_since c = None then c\<lparr>cs_idle_since := Some t\<rparr> else c)
                 else c\<lparr>cs_idle_since := None\<rparr>)
           else c) (sessions d)\<rparr>)"

definition report_status :: "charging_env \<Rightarrow> charge_point \<Rightarrow> status_payload \<Rightarrow> db \<Rightarrow> bool \<times> db" where
  "report_status env charger status d =
    (let now = rt_utcnow (ce_rt env) in
     if sta_connectorId status = 0
     then (False, d\<lparr>charge_points := update_row cp_id (cp_id charger) (\<lambda>p. p\<lparr>cp_raw_ocpp_status := Some (sta_status status),
         cp_error_code := Some (sta_errorCode status), cp_vendor_error_code := sta_vendorErrorCode status,
         cp_error_at := (if sta_errorCode status \<noteq> ''NoError'' then Some now else None),
         cp_status_updated_at := now\<rparr>) (charge_points d)\<rparr>)
     else case find (reported_connector charger status) (connectors d) of
       None \<Rightarrow> (False, d)
     | Some k \<Rightarrow>
         let d1 = d\<lparr>connectors := map (\<lambda>x. if reported_connector charger status x
               then x\<lparr>cn_status := sta_status status, cn_raw_ocpp_status := Some (sta_status status),
                      cn_status_updated_at := now, cn_last_status_notification_at :=
                        (if sta_timestamp status = None then cn_last_status_notification_at x else sta_timestamp status)\<rparr>
               else x) (connectors d)\<rparr>;
             d2 = legacy_idle (cn_id k) status (note_status env (cn_id k) (sta_status status) (sta_timestamp status) d1)
         in (True, if sta_errorCode status = ''NoError'' then d2
              else d2\<lparr>connector_errors := connector_errors d2 @ [\<lparr>ke_connector_id = cn_id k,
                ke_error_code = sta_errorCode status, ke_vendor_error_code = sta_vendorErrorCode status,
                ke_occurred_at = now, ke_details = sta_info status\<rparr>]\<rparr>))"

section \<open>Recovery\<close>

definition note_reconnection :: "charging_env \<Rightarrow> uuid \<Rightarrow> db \<Rightarrow> db" where
  "note_reconnection env charger_id d =
    (let open_here = (\<lambda>c. cs_charge_point_id c = charger_id \<and> cs_ended_at c = None) in
     fold (\<lambda>c d. add_session_event c ''reconnected'' None [] d) (filter open_here (sessions d))
       (d\<lparr>sessions := map (\<lambda>c. if open_here c then c\<lparr>cs_recovery_at := Some (rt_utcnow (ce_rt env))\<rparr> else c)
         (sessions d)\<rparr>))"

definition connector_numbered :: "uuid \<Rightarrow> int \<Rightarrow> db \<Rightarrow> bool" where
  "connector_numbered connector_id number d =
    (case row_of cn_id connector_id (connectors d) of None \<Rightarrow> False | Some k \<Rightarrow> cn_connector_number k = number)"

definition note_connector_status :: "uuid \<Rightarrow> int \<Rightarrow> string \<Rightarrow> db \<Rightarrow> db" where
  "note_connector_status charger_id number status d =
    (if number = 0 \<or> status \<notin> {''Available'', ''Charging''} then d
     else case find (\<lambda>c. cs_charge_point_id c = charger_id \<and> connector_numbered (cs_connector_id c) number d
         \<and> cs_ended_at c = None) (sessions d) of
       None \<Rightarrow> d
     | Some c \<Rightarrow>
         let flagged = ''available_with_open_session'' \<in> set (cs_review_reasons c) in
         if status = ''Available'' \<and> \<not> flagged
         then put_session (review ''available_with_open_session'' c)
           (add_session_event c ''available_with_open_session'' None [] d)
         else if status = ''Charging'' \<and> flagged
         then put_session (c\<lparr>cs_review_reasons := filter (\<lambda>r. r \<noteq> ''available_with_open_session'') (cs_review_reasons c)\<rparr>)
           (add_session_event c ''charging_resumed'' None [] d)
         else d)"

definition flag_abnormal :: "charging_env \<Rightarrow> charge_point \<Rightarrow> charging_session \<Rightarrow> db \<Rightarrow> db" where
  "flag_abnormal env point c d =
    (let now = rt_utcnow (ce_rt env);
         last_contact = max (case cp_last_seen_at point of None \<Rightarrow> cs_received_at c | Some t \<Rightarrow> t) (cs_received_at c);
         offline_at = last_contact + 2 * cp_heartbeat_interval_seconds point * SECOND_US
     in if now - offline_at < ce_abnormal_offline_seconds env * SECOND_US then d
        else put_session (review ''offline_timeout'' (c\<lparr>cs_abnormal_since := Some now\<rparr>))
          (add_session_event c ''offline_timeout'' None
            [(''offline_at'', JStr (rt_isoformat (ce_rt env) offline_at))] d))"

definition flag_abnormal_sessions :: "charging_env \<Rightarrow> (uuid \<Rightarrow> bool) \<Rightarrow> db \<Rightarrow> db" where
  "flag_abnormal_sessions env busy d =
    fold (\<lambda>point d. fold (flag_abnormal env point)
        (filter (\<lambda>c. cs_charge_point_id c = cp_id point \<and> cs_ended_at c = None \<and> cs_abnormal_since c = None) (sessions d)) d)
      (filter (\<lambda>p. stale_point (rt_utcnow (ce_rt env)) p \<and> \<not> busy (cp_id p)) (charge_points d)) d"

text \<open>The main energy register of a session, newest reading first.\<close>

definition is_register :: "meter_sample \<Rightarrow> bool" where
  "is_register m \<longleftrightarrow> ms_measurand m = ''Energy.Active.Import.Register'' \<and> ms_phase m = [] \<and> ms_location m = ''Outlet''"

definition latest_reading :: "int \<Rightarrow> (meter_sample \<Rightarrow> bool) \<Rightarrow> db \<Rightarrow> meter_sample option" where
  "latest_reading session_id which d = foldl (\<lambda>best m. case best of None \<Rightarrow> Some m
     | Some b \<Rightarrow> if ms_timestamp b < ms_timestamp m \<or> ms_timestamp b = ms_timestamp m \<and> ms_id b < ms_id m
         then Some m else best) None
     (filter (\<lambda>m. ms_session_id m = session_id \<and> is_register m \<and> which m) (meter_samples d))"

text \<open>\<open>NUMERIC(24, 6)\<close> rounds half away from zero.\<close>

definition numeric6 :: "decimal \<Rightarrow> decimal" where
  "numeric6 v = (let (n, m) = quotient_of (\<bar>v\<bar> * 1000000);
      k = of_int ((2 * n + m) div (2 * m)) / 1000000 in if v < 0 then - k else k)"

definition json_text :: "string option \<Rightarrow> json" where
  "json_text s = (case s of None \<Rightarrow> JNull | Some t \<Rightarrow> JStr t)"

text \<open>The row of a session that an operator closed on its last reading.\<close>

definition closed_row ::
  "instant \<Rightarrow> uuid \<Rightarrow> string \<Rightarrow> decimal \<Rightarrow> decimal \<Rightarrow> charging_session \<Rightarrow> charging_session" where
  "closed_row now actor_id reason meter_stop energy c =
    review ''manual_closure'' (c\<lparr>cs_meter_stop_wh := Some meter_stop,
      cs_energy_kwh := Some (numeric6 energy), cs_ended_at := Some now, cs_manual_closed_at := Some now,
      cs_closed_by := Some actor_id, cs_manual_close_reason := Some reason,
      cs_stop_reason := Some ''ManualClosure'', cs_abnormal_since := None,
      cs_review_reasons := filter (\<lambda>r. r \<notin> {''offline_timeout'', ''available_with_open_session''})
        (cs_review_reasons c)\<rparr>)"

definition manual_close ::
  "charging_env \<Rightarrow> uuid \<Rightarrow> string \<Rightarrow> evidence option \<Rightarrow> uuid \<Rightarrow> charging_session \<Rightarrow> db
   \<Rightarrow> exn + charging_session \<times> db" where
  "manual_close env actor_id reason authorization event_id c d =
    (if cs_ended_at c \<noteq> None \<or> cs_abnormal_since c = None then Inl (http 409 ''not_abnormal'')
     else case latest_reading (cs_id c) (\<lambda>_. True) d of
       None \<Rightarrow> Inl (http 409 ''no_final_reading'')
     | Some latest \<Rightarrow>
         if ms_value latest < cs_meter_start_wh c \<or> cs_meter_start_wh c < 0 then Inl (http 409 ''no_final_reading'')
         else
           let now = rt_utcnow (ce_rt env); energy = (ms_value latest - cs_meter_start_wh c) / 1000 in
           if ms_timestamp latest > now \<or> cs_started_at c > now then Inl (http 409 ''invalid_reading_time'')
           else
             let c1 = closed_row now actor_id reason (ms_value latest) energy c;
                 d1 = put_session c1 (add_session_event c ''manual_closure'' (Some actor_id)
                   [(''permission'', json_text (map_option fst authorization)),
                    (''actor_roles'', (case authorization of None \<Rightarrow> JNull | Some e \<Rightarrow> JList (map JStr (snd e)))),
                    (''reason'', JStr reason), (''meter_stop_wh'', JStr (ce_decimal_text env (ms_value latest))),
                    (''meter_at'', JStr (rt_isoformat (ce_rt env) (ms_timestamp latest))),
                    (''energy_kwh'', JStr (ce_decimal_text env energy))] d)
             in res_bind (ghi_nhat_ky (Some actor_id) ''charging.manual_close'' ''charging_session''
                    (str_int (cs_id c)) [(''event_id'', JStr (str_uuid event_id))] (map_option fst authorization)
                    (map_option snd authorization) d1) (\<lambda>d2. Inr (c1, d2)))"

end
