(* ===== verification/Charging.thy ===== *)
theory Charging
  imports Occupation
begin

text \<open>
  src/src/modules/charging/service.py with the parts it calls of driver.py, ocpp/configuration_gate.py
  and stations/repository.py: authorization, the start and stop of a session, and its meter values.
  The handlers run in the transaction and under the charger lock of the dispatcher.
\<close>

record frame =
  fr_action :: string
  fr_message_id :: string
  fr_payload :: "(string \<times> json) list"

section \<open>Authorization\<close>

definition tag_hash :: "runtime \<Rightarrow> string \<Rightarrow> string" where
  "tag_hash rt tag = rt_sha256 rt tag"

definition tag_tail :: "string \<Rightarrow> string" where
  "tag_tail tag = drop (length tag - 4) tag"

definition reset_pending :: "uuid \<Rightarrow> db \<Rightarrow> bool" where
  "reset_pending point_id d \<longleftrightarrow> list_ex (\<lambda>i. ci_charge_point_id i = point_id \<and> ci_reset_id i \<noteq> None
     \<and> ci_state i \<in> {''resetting'', ''reboot_required''}) (configuration_intents d)"

definition tag_owner :: "runtime \<Rightarrow> string \<Rightarrow> db \<Rightarrow> (charging_card \<times> user) option" where
  "tag_owner rt tag d =
    (case row_of cc_tag_hash (tag_hash rt tag) (charging_cards d) of
       None \<Rightarrow> None
     | Some c \<Rightarrow> map_option (\<lambda>u. (c, u)) (row_of u_id (cc_driver_id c) (users d)))"

definition active_station :: "uuid \<Rightarrow> db \<Rightarrow> bool" where
  "active_station station_id d =
    (case row_of st_id station_id (stations d) of None \<Rightarrow> False
     | Some station \<Rightarrow> st_archived_at station = None \<and> st_status station = ''active'')"

definition tag_status :: "runtime \<Rightarrow> (charging_card \<times> user) option \<Rightarrow> db \<Rightarrow> string" where
  "tag_status rt owner d =
    (case owner of
       None \<Rightarrow> ''Invalid''
     | Some (c, u) \<Rightarrow>
         if cc_status c \<noteq> ''active'' \<or> u_status u \<noteq> ''active'' \<or> \<not> has_role d (cc_driver_id c) ''driver''
         then ''Blocked''
         else if (case cc_expires_at c of None \<Rightarrow> False | Some t \<Rightarrow> t \<le> rt_utcnow rt) then ''Expired''
         else ''Accepted'')"

text \<open>Station, reservations and power may block an accepted tag.\<close>

definition admitted_status ::
  "runtime \<Rightarrow> charge_point \<Rightarrow> (charging_card \<times> user) option \<Rightarrow> bool \<Rightarrow> db \<Rightarrow> string" where
  "admitted_status rt charger owner reservation_context d =
    (if \<not> active_station (cp_station_id charger) d then ''Blocked''
     else if tag_status rt owner d \<noteq> ''Accepted'' then tag_status rt owner d
     else if \<not> reservation_context
       \<and> (case owner of None \<Rightarrow> True | Some (c, _) \<Rightarrow> \<not> authorize_allowed (cp_id charger) c (rt_utcnow rt) d)
     then ''Blocked''
     else if \<not> power_start_allowed (rt_zones rt) (rt_clock rt) (cp_station_id charger) (rt_utcnow rt) d then ''Blocked''
     else ''Accepted'')"

definition log_attempt :: "charge_point \<Rightarrow> string \<Rightarrow> string \<Rightarrow> db \<Rightarrow> db" where
  "log_attempt charger tag result d = d\<lparr>authorization_attempts := authorization_attempts d @
     [\<lparr>aa_charge_point_id = cp_id charger, aa_tag_tail = tag_tail tag, aa_result = result\<rparr>]\<rparr>"

definition authorize ::
  "runtime \<Rightarrow> charge_point \<Rightarrow> string \<Rightarrow> bool \<Rightarrow> db
   \<Rightarrow> exn + (string \<times> charging_card option \<times> charging_eligibility option) \<times> db" where
  "authorize rt charger tag reservation_context d =
    (if reset_pending (cp_id charger) d then Inr ((''Blocked'', None, None), d)
     else
       let owner = tag_owner rt tag d; id_card = map_option fst owner;
           result = admitted_status rt charger owner reservation_context d
       in case (result = ''Accepted'', id_card) of
            (False, _) \<Rightarrow> Inr ((result, id_card, None), log_attempt charger tag result d)
          | (True, None) \<Rightarrow> Inl RuntimeError
          | (True, Some c) \<Rightarrow>
              res_bind (du_so_du_de_sac (rt_zones rt) (rt_wallet_reserve_vnd rt) (rt_charging_minimum_kwh rt)
                  (cc_driver_id c) (cp_station_id charger) (rt_utcnow rt) d) (\<lambda>eligibility.
                if el_allowed eligibility then Inr ((result, id_card, None), log_attempt charger tag result d)
                else if el_reason eligibility = None then Inl RuntimeError
                else Inr ((''Blocked'', id_card, Some eligibility), log_attempt charger tag ''Blocked'' d)))"

definition pending :: "charge_point \<Rightarrow> frame \<Rightarrow> string \<Rightarrow> db \<Rightarrow> db" where
  "pending charger f reason d = d\<lparr>pending_messages := pending_messages d @
     [\<lparr>pm_charge_point_id = cp_id charger, pm_action = fr_action f, pm_message_id = fr_message_id f,
       pm_reason = reason, pm_payload = filter (\<lambda>(key, _). key \<noteq> ''idTag'') (fr_payload f)\<rparr>]\<rparr>"

section \<open>Meter values\<close>

type_synonym series = "string \<times> string \<times> string"
type_synonym point = "instant \<times> decimal"

definition register_series :: series where
  "register_series = (''Energy.Active.Import.Register'', '''', ''Outlet'')"

definition sample_series :: "meter_sample \<Rightarrow> series" where
  "sample_series m = (ms_measurand m, ms_phase m, ms_location m)"

text \<open>The stored points of every series of a session, and the newest of each.\<close>

definition history_of :: "int \<Rightarrow> db \<Rightarrow> series \<Rightarrow> point list" where
  "history_of session_id d key = map (\<lambda>m. (ms_timestamp m, ms_value m))
     (filter (\<lambda>m. ms_session_id m = session_id \<and> sample_series m = key) (meter_samples d))"

definition latest_of :: "int \<Rightarrow> db \<Rightarrow> series \<Rightarrow> point option" where
  "latest_of session_id d key = newest_by fst (history_of session_id d key)"

definition new_sample :: "charging_session \<Rightarrow> instant \<Rightarrow> series \<Rightarrow> decimal \<Rightarrow> string \<Rightarrow> meter_sample" where
  "new_sample c stamp = (\<lambda>(measurand, phase, location) value unit.
    \<lparr>ms_id = 0, ms_session_id = cs_id c, ms_timestamp = stamp, ms_measurand = measurand, ms_phase = phase,
     ms_location = location, ms_value = value, ms_unit = unit\<rparr>)"

type_synonym intake = "charging_session \<times> (series \<Rightarrow> point option) \<times> meter_sample list"

definition payload_series :: "sample_payload \<Rightarrow> series" where
  "payload_series sample = (smp_measurand sample, smp_phase sample, smp_location sample)"

text \<open>An ordinary report: points follow the newest one of their series.\<close>

definition take_point :: "instant \<Rightarrow> series \<Rightarrow> decimal \<Rightarrow> string \<Rightarrow> intake \<Rightarrow> intake" where
  "take_point stamp key value unit = (\<lambda>(c, latest, rows).
    let old = (case latest key of Some p \<Rightarrow> Some p
          | None \<Rightarrow> if key = register_series then Some (cs_started_at c, cs_meter_start_wh c) else None)
    in case old of
         Some (old_stamp, old_value) \<Rightarrow>
           if stamp < old_stamp then (c, latest, rows)
           else if stamp = old_stamp
           then (if value \<noteq> old_value then (review ''conflicting_meter_timestamp'' c, latest, rows) else (c, latest, rows))
           else
             let c1 = (if fst key = ''Energy.Active.Import.Register'' \<and> value < old_value
                       then review ''meter_regression'' c else c)
             in if stamp < cs_started_at c then (c1, latest, rows)
                else (c1, latest(key \<mapsto> (stamp, value)), rows @ [new_sample c stamp key value unit])
       | None \<Rightarrow>
           if stamp < cs_started_at c then (c, latest, rows)
           else (c, latest(key \<mapsto> (stamp, value)), rows @ [new_sample c stamp key value unit]))"

definition store_sample :: "instant \<Rightarrow> sample_payload \<Rightarrow> intake \<Rightarrow> exn + intake" where
  "store_sample stamp sample s =
    res_bind (numeric_sample sample) (\<lambda>numeric.
      case numeric of
        None \<Rightarrow> Inr s
      | Some (value, unit) \<Rightarrow> Inr (take_point stamp (payload_series sample) value unit s))"

text \<open>After a reconnection: buffered points may fill gaps before the newest one.\<close>

type_synonym recovery = "charging_session \<times> (series \<Rightarrow> point list) \<times> meter_sample list"

definition neighbours :: "charging_session \<Rightarrow> series \<Rightarrow> instant \<Rightarrow> point list \<Rightarrow> decimal option \<times> decimal option" where
  "neighbours c key stamp points =
    (let earlier = filter (\<lambda>p. fst p < stamp) points; later = filter (\<lambda>p. stamp < fst p) points in
     (case newest_by fst earlier of
        Some p \<Rightarrow> Some (snd p)
      | None \<Rightarrow> if key = register_series then Some (cs_meter_start_wh c) else None,
      map_option snd (newest_by (\<lambda>p. - fst p) later)))"

definition recover_point :: "instant \<Rightarrow> series \<Rightarrow> decimal \<Rightarrow> string \<Rightarrow> recovery \<Rightarrow> recovery" where
  "recover_point stamp key value unit = (\<lambda>(c, history, rows).
    case map_of (history key) stamp of
      Some old \<Rightarrow> ((if old \<noteq> value then review ''conflicting_meter_timestamp'' c else c), history, rows)
    | None \<Rightarrow>
        let (previous, following) = neighbours c key stamp (history key);
            c1 = (if fst key = ''Energy.Active.Import.Register''
                    \<and> ((case previous of None \<Rightarrow> False | Some v \<Rightarrow> value < v)
                       \<or> (case following of None \<Rightarrow> False | Some v \<Rightarrow> v < value))
                  then review ''meter_regression'' c else c)
        in (c1, history(key := history key @ [(stamp, value)]), rows @ [new_sample c stamp key value unit]))"

definition recover_sample :: "instant \<Rightarrow> sample_payload \<Rightarrow> recovery \<Rightarrow> exn + recovery" where
  "recover_sample stamp sample s =
    res_bind (numeric_sample sample) (\<lambda>numeric.
      case numeric of
        None \<Rightarrow> Inr s
      | Some (value, unit) \<Rightarrow> Inr (recover_point stamp (payload_series sample) value unit s))"

definition in_session :: "charging_session \<Rightarrow> instant \<Rightarrow> bool" where
  "in_session c stamp \<longleftrightarrow> cs_started_at c \<le> stamp
     \<and> (case cs_ended_at c of None \<Rightarrow> True | Some t \<Rightarrow> stamp \<le> t)"

text \<open>
  One multi-row INSERT; a value of \<open>10^18\<close> and more does not fit its column.  The unique constraint
  on the series and time of a sample is not part of it: that it never has to refuse a row is a
  theorem.
\<close>

definition insert_meter_rows :: "meter_sample list \<Rightarrow> db \<Rightarrow> exn + db" where
  "insert_meter_rows rows d =
    (if list_ex (\<lambda>m. \<bar>ms_value m\<bar> \<ge> 10 ^ 18) rows then Inl DatabaseError
     else Inr (d\<lparr>meter_samples := meter_samples d @ map (\<lambda>(i, m). m\<lparr>ms_id := i\<rparr>)
            (zip (map (\<lambda>k. sample_seq d + int k) [0..<length rows]) rows),
          sample_seq := sample_seq d + int (length rows)\<rparr>))"

definition store_recovery_samples ::
  "charging_session \<Rightarrow> meter_block list \<Rightarrow> db \<Rightarrow> exn + charging_session \<times> db" where
  "store_recovery_samples c blocks d =
    res_bind (res_fold (\<lambda>b s. if in_session c (mb_timestamp b)
        then res_fold (recover_sample (mb_timestamp b)) (mb_sampledValue b) s else Inr s)
      (sort_key mb_timestamp blocks) (c, history_of (cs_id c) d, [])) (\<lambda>(c1, _, rows).
    res_bind (insert_meter_rows rows d) (\<lambda>d1. Inr (c1, d1)))"

definition store_samples ::
  "bool \<Rightarrow> charging_session \<Rightarrow> meter_block list \<Rightarrow> db \<Rightarrow> exn + charging_session \<times> db" where
  "store_samples backfill c blocks d =
    (if backfill then store_recovery_samples c blocks d
     else
       res_bind (res_fold (\<lambda>b. res_fold (store_sample (mb_timestamp b)) (mb_sampledValue b)) blocks
           (c, latest_of (cs_id c) d, [])) (\<lambda>(c1, _, rows).
         if rows = [] then Inr (c1, d)
         else res_bind (insert_meter_rows rows d) (\<lambda>d1. Inr (c1, d1))))"

record meter_payload =
  mp_connectorId :: int
  mp_transactionId :: "int option"
  mp_meterValue :: "meter_block list"

definition metered_session :: "charge_point \<Rightarrow> meter_payload \<Rightarrow> db \<Rightarrow> charging_session option" where
  "metered_session charger payload d = find (\<lambda>c. cs_charge_point_id c = cp_id charger
     \<and> connector_numbered (cs_connector_id c) (mp_connectorId payload) d
     \<and> (case mp_transactionId payload of None \<Rightarrow> cs_ended_at c = None | Some i \<Rightarrow> cs_id c = i)) (sessions d)"

definition charging_meter_values :: "charge_point \<Rightarrow> frame \<Rightarrow> meter_payload \<Rightarrow> db \<Rightarrow> exn + db" where
  "charging_meter_values charger f payload d =
    (case metered_session charger payload d of
       None \<Rightarrow> Inr (pending charger f ''no_matching_open_session'' d)
     | Some c \<Rightarrow>
         if cs_manual_closed_at c \<noteq> None \<or> cs_ended_at c \<noteq> None \<and> cs_recovery_at c = None
         then Inr (pending charger f ''no_matching_open_session'' d)
         else
           res_bind (store_samples (mp_transactionId payload \<noteq> None \<and> cs_recovery_at c \<noteq> None) c
               (mp_meterValue payload) d) (\<lambda>(c1, d1).
             Inr (put_session c1 d1)))"

section \<open>Start requests of drivers\<close>

definition open_start :: "uuid \<Rightarrow> uuid \<Rightarrow> db \<Rightarrow> driver_start_request option" where
  "open_start driver_id connector_id d = newest_by dsr_created_at (filter (\<lambda>s. dsr_driver_id s = driver_id
     \<and> dsr_connector_id s = connector_id \<and> dsr_session_id s = None
     \<and> dsr_status s \<in> {''Pending'', ''Accepted'', ''StartNotConfirmed'', ''Timeout'', ''Disconnected''}) (start_requests d))"

definition settle_start ::
  "uuid \<Rightarrow> uuid \<Rightarrow> uuid \<Rightarrow> (driver_start_request \<Rightarrow> driver_start_request) \<Rightarrow> db \<Rightarrow> db" where
  "settle_start card_id driver_id connector_id f d =
    (case row_of vt_card_id card_id (virtual_tags d) of
       None \<Rightarrow> d
     | Some _ \<Rightarrow>
         (case open_start driver_id connector_id d of
            None \<Rightarrow> d
          | Some request \<Rightarrow> d\<lparr>start_requests := update_row dsr_id (dsr_id request) f (start_requests d)\<rparr>))"

definition reject_remote_start ::
  "runtime \<Rightarrow> connector \<Rightarrow> charging_card option \<Rightarrow> charging_eligibility \<Rightarrow> db \<Rightarrow> db" where
  "reject_remote_start rt connector id_card eligibility d =
    (case id_card of
       None \<Rightarrow> d
     | Some c \<Rightarrow> settle_start (cc_id c) (cc_driver_id c) (cn_id connector) (\<lambda>s. s\<lparr>dsr_status := ''Rejected'',
         dsr_rejection_reason := map_option (\<lambda>r. reason_text (Some r)) (el_reason eligibility),
         dsr_balance_vnd := el_balance_vnd eligibility,
         dsr_minimum_balance_vnd := el_minimum_balance_vnd eligibility, dsr_lease_until := rt_utcnow rt\<rparr>) d)"

definition reject_unavailable_start ::
  "runtime \<Rightarrow> connector \<Rightarrow> charging_card option \<Rightarrow> string \<Rightarrow> db \<Rightarrow> db" where
  "reject_unavailable_start rt connector id_card reason d =
    (case id_card of
       None \<Rightarrow> d
     | Some c \<Rightarrow> settle_start (cc_id c) (cc_driver_id c) (cn_id connector) (\<lambda>s. s\<lparr>dsr_status := ''Rejected'',
         dsr_rejection_reason := Some reason, dsr_lease_until := rt_utcnow rt\<rparr>) d)"

definition attach_remote_start ::
  "runtime \<Rightarrow> charging_session \<Rightarrow> charging_card option \<Rightarrow> db \<Rightarrow> db" where
  "attach_remote_start rt transaction id_card d =
    (case (id_card, cs_driver_id transaction) of
       (Some c, Some driver_id) \<Rightarrow>
         if cs_authorization_status transaction \<noteq> ''Accepted'' then d
         else settle_start (cc_id c) driver_id (cs_connector_id transaction) (\<lambda>s. s\<lparr>
           dsr_session_id := Some (cs_id transaction), dsr_status := ''Started'', dsr_lease_until := rt_utcnow rt\<rparr>) d
     | _ \<Rightarrow> d)"

section \<open>Starting a session\<close>

record start_payload =
  stp_idTag :: string
  stp_connectorId :: int
  stp_meterStart :: int
  stp_timestamp :: instant
  stp_reservationId :: "int option"

definition start_connector :: "charge_point \<Rightarrow> start_payload \<Rightarrow> db \<Rightarrow> connector option" where
  "start_connector charger payload d = find (\<lambda>k. cn_charge_point_id k = cp_id charger
     \<and> cn_connector_number k = stp_connectorId payload \<and> cn_archived_at k = None) (connectors d)"

definition previous_session :: "charge_point \<Rightarrow> start_payload \<Rightarrow> db \<Rightarrow> charging_session option" where
  "previous_session charger payload d = newest_by cs_id (filter (\<lambda>c. cs_charge_point_id c = cp_id charger
     \<and> (case row_of cn_id (cs_connector_id c) (connectors d) of None \<Rightarrow> False
        | Some k \<Rightarrow> cn_connector_number k = stp_connectorId payload \<and> cn_archived_at k = None)) (sessions d))"

definition open_session :: "uuid \<Rightarrow> db \<Rightarrow> charging_session option" where
  "open_session connector_id d =
    find (\<lambda>c. cs_connector_id c = connector_id \<and> cs_ended_at c = None) (sessions d)"

definition replace_open :: "runtime \<Rightarrow> charging_session \<Rightarrow> charging_session" where
  "replace_open rt old = (review ''replaced_open_session'' (old\<lparr>cs_ended_at := Some (rt_utcnow rt),
     cs_stop_reason := Some ''ReplacedByNewTransaction''\<rparr>))\<lparr>cs_abnormal_since := None\<rparr>"

text \<open>A session that ended without a confirmed release is marked; it may be the one just replaced.\<close>

definition flag_replaced :: "charging_session option \<Rightarrow> db \<Rightarrow> db" where
  "flag_replaced previous d =
    (case previous of
       None \<Rightarrow> d
     | Some p \<Rightarrow>
         (case get_session (cs_id p) d of
            None \<Rightarrow> d
          | Some c \<Rightarrow>
              if cs_billing_lifecycle_version c = 1 \<and> cs_ended_at c \<noteq> None \<and> cs_connector_released_at c = None
              then put_session (flag ''occupation_replaced_before_release'' c) d else d))"

definition new_session ::
  "charging_env \<Rightarrow> charge_point \<Rightarrow> connector \<Rightarrow> start_payload \<Rightarrow> string \<Rightarrow> charging_card option \<Rightarrow> bool \<Rightarrow> charging_session"
  where
  "new_session env charger connector payload result id_card replaced =
    (let c0 = \<lparr>cs_id = 0, cs_charge_point_id = cp_id charger, cs_connector_id = cn_id connector,
           cs_driver_id = map_option cc_driver_id id_card, cs_tag_tail = tag_tail (stp_idTag payload),
           cs_authorization_status = result, cs_started_at = stp_timestamp payload, cs_ended_at = None,
           cs_idle_since = None, cs_billing_lifecycle_version = 1,
           cs_release_detection = (if ce_available_confirms_unplug env then ''available'' else ''explicit''),
           cs_connector_released_at = None, cs_settlement_completed_at = None, cs_settlement_reason = None,
           cs_meter_start_wh = of_int (stp_meterStart payload), cs_meter_stop_wh = None, cs_energy_kwh = None,
           cs_stop_reason = None, cs_recovery_at = None, cs_abnormal_since = None, cs_manual_closed_at = None,
           cs_manual_close_reason = None, cs_closed_by = None, cs_review_reasons = [],
           cs_received_at = rt_now (ce_rt env)\<rparr>;
         c1 = (if result \<noteq> ''Accepted'' then review (''authorization_'' @ map casefold_char result) c0 else c0);
         c2 = (if stp_meterStart payload < 0 then review ''negative_start_meter'' c1 else c1)
     in if replaced then review ''replaced_open_session'' c2 else c2)"

text \<open>
  The identity column, never above \<open>2147483647\<close>; that the unique index on open sessions never has to
  refuse the row is a theorem.
\<close>

definition add_session :: "charging_session \<Rightarrow> db \<Rightarrow> exn + charging_session \<times> db" where
  "add_session c d =
    (if session_seq d > 2147483647 then Inl DatabaseError
     else let c1 = c\<lparr>cs_id := session_seq d\<rparr>
          in Inr (c1, d\<lparr>sessions := sessions d @ [c1], session_seq := session_seq d + 1\<rparr>))"

definition lock_charge_point_code_for_charging :: "uuid \<Rightarrow> instant \<Rightarrow> db \<Rightarrow> db" where
  "lock_charge_point_code_for_charging point_id now d = d\<lparr>charge_points := update_row cp_id point_id
     (\<lambda>p. if cp_code_locked_at p = None then p\<lparr>cp_code_locked_at := Some now\<rparr> else p) (charge_points d)\<rparr>"

definition open_transaction ::
  "charging_env \<Rightarrow> charge_point \<Rightarrow> connector \<Rightarrow> start_payload \<Rightarrow> charging_session option \<Rightarrow> string
   \<Rightarrow> charging_card option \<Rightarrow> reservation option \<Rightarrow> db \<Rightarrow> exn + (int \<times> string) \<times> db" where
  "open_transaction env charger connector payload previous result id_card reserved d =
    (let rt = ce_rt env; old = open_session (cn_id connector) d;
         d1 = flag_replaced previous (case old of None \<Rightarrow> d | Some c \<Rightarrow> put_session (replace_open rt c) d)
     in res_bind (add_session (new_session env charger connector payload result id_card (old \<noteq> None)) d1) (\<lambda>(c, d2).
        res_bind (case reserved of
             None \<Rightarrow> Inr d2
           | Some r \<Rightarrow> res_bind (consume (rt_utcnow rt) (cs_id c) (r, d2)) (\<lambda>s. Inr (write_back s))) (\<lambda>d3.
          let d4 = attach_remote_start rt c id_card
                (lock_charge_point_code_for_charging (cp_id charger) (rt_utcnow rt) d3);
              d5 = (if result = ''Accepted'' then note_power_start (cp_station_id charger) (cn_id connector) d4 else d4)
          in Inr ((cs_id c, result), d5))))"

definition refuse_start ::
  "runtime \<Rightarrow> charge_point \<Rightarrow> connector \<Rightarrow> frame \<Rightarrow> charging_card option \<Rightarrow> string \<Rightarrow> db \<Rightarrow> (int \<times> string) \<times> db" where
  "refuse_start rt charger connector f id_card reason d =
    ((0, ''Blocked''), pending charger f reason (reject_unavailable_start rt connector id_card reason d))"

definition start_transaction ::
  "charging_env \<Rightarrow> charge_point \<Rightarrow> frame \<Rightarrow> start_payload \<Rightarrow> db \<Rightarrow> exn + (int \<times> string) \<times> db" where
  "start_transaction env charger f payload d =
    (let rt = ce_rt env; previous = previous_session charger payload d in
     case start_connector charger payload d of
       None \<Rightarrow> Inl ValueError
     | Some connector \<Rightarrow>
         res_bind (authorize rt charger (stp_idTag payload) True d) (\<lambda>((result, id_card, wallet_failure), d1).
         res_bind (validate_start rt (cn_id connector) id_card (stp_reservationId payload) (stp_timestamp payload)
             (rt_now rt) (Some (fr_message_id f)) d1) (\<lambda>((allowed, reserved), d2).
           if \<not> allowed \<or> reserved \<noteq> None \<and> result \<noteq> ''Accepted'' \<and> wallet_failure = None
           then Inr (refuse_start rt charger connector f id_card ''reservation_unavailable'' d2)
           else if \<not> active_station (cp_station_id charger) d2
           then Inr (refuse_start rt charger connector f id_card ''station_unavailable'' d2)
           else if \<not> power_start_allowed (rt_zones rt) (rt_clock rt) (cp_station_id charger) (rt_utcnow rt) d2
           then Inr (refuse_start rt charger connector f id_card ''power_unavailable'' d2)
           else case wallet_failure of
             Some eligibility \<Rightarrow>
               Inr ((0, ''Blocked''), pending charger f (reason_text (el_reason eligibility))
                 (reject_remote_start rt connector id_card eligibility d2))
           | None \<Rightarrow> open_transaction env charger connector payload previous result id_card reserved d2)))"

section \<open>Stopping a session\<close>

record stop_payload =
  spp_transactionId :: int
  spp_meterStop :: int
  spp_timestamp :: instant
  spp_reason :: string
  spp_transactionData :: "meter_block list"

text \<open>What a stop message makes of the session row.\<close>

definition stopped_row :: "stop_payload \<Rightarrow> decimal option \<Rightarrow> charging_session \<Rightarrow> charging_session" where
  "stopped_row payload latest_meter c =
    (let meter_stop = of_int (spp_meterStop payload);
         c1 = (if (case latest_meter of None \<Rightarrow> False | Some v \<Rightarrow> meter_stop < v)
               then review ''stop_meter_below_latest'' c else c);
         c2 = c1\<lparr>cs_abnormal_since := None, cs_review_reasons := filter (\<lambda>r. r \<notin> {''offline_timeout'',
                ''available_with_open_session'', ''remote_stop_not_confirmed''}) (cs_review_reasons c1)\<rparr>;
         c3 = (if spp_timestamp payload < cs_started_at c2 then review ''stop_before_start'' c2 else c2)
     in if meter_stop < cs_meter_start_wh c3 \<or> meter_stop < 0 \<or> cs_meter_start_wh c3 < 0
        then (review ''stop_meter_below_start'' c3)\<lparr>cs_energy_kwh := None\<rparr>
        else if cs_started_at c3 \<le> spp_timestamp payload
        then c3\<lparr>cs_energy_kwh := Some ((meter_stop - cs_meter_start_wh c3) / 1000)\<rparr>
        else c3)"

definition stop_transaction ::
  "charging_env \<Rightarrow> charge_point \<Rightarrow> frame \<Rightarrow> stop_payload \<Rightarrow> db \<Rightarrow> exn + db" where
  "stop_transaction env charger f payload d =
    (case find (\<lambda>c. cs_id c = spp_transactionId payload \<and> cs_charge_point_id c = cp_id charger) (sessions d) of
       None \<Rightarrow> Inr (pending charger f ''unknown_transaction'' d)
     | Some c \<Rightarrow>
         if cs_ended_at c \<noteq> None then Inr (pending charger f ''already_closed_transaction'' d)
         else
           res_bind (store_samples (cs_recovery_at c \<noteq> None)
               (c\<lparr>cs_meter_stop_wh := Some (of_int (spp_meterStop payload)),
                  cs_ended_at := Some (spp_timestamp payload), cs_stop_reason := Some (spp_reason payload)\<rparr>)
               (spp_transactionData payload) d) (\<lambda>(c1, d1).
             let latest_meter = map_option ms_value (latest_reading (cs_id c) (\<lambda>m. ms_unit m = ''Wh''
                   \<and> cs_started_at c \<le> ms_timestamp m \<and> ms_timestamp m \<le> spp_timestamp payload) d1);
                 c2 = stopped_row payload latest_meter c1;
                 d2 = (if cs_abnormal_since c \<noteq> None \<or> cs_recovery_at c \<noteq> None
                       then add_session_event c ''late_stop'' None
                         [(''meter_stop_wh'', JStr (str_int (spp_meterStop payload))),
                          (''ended_at'', JStr (rt_isoformat (ce_rt env) (spp_timestamp payload)))] d1
                       else d1)
             in res_bind (note_stop env (c2, d2)) (\<lambda>(c3, d3).
                  notify_event (rt_zones (ce_rt env)) (ce_retention_days env) (rt_utcnow (ce_rt env)) c3 StopEvent
                    None None None (put_session c3 d3))))"

section \<open>The dispatcher's call\<close>

text \<open>The payload as the schema library parsed it; a null property is refused before.\<close>

datatype charging_message =
    AuthorizeMessage string
  | StartMessage start_payload
  | MeterMessage meter_payload
  | StopMessage stop_payload

definition id_tag_info :: "string \<Rightarrow> string \<times> json" where
  "id_tag_info status = (''idTagInfo'', JObj [(''status'', JStr status)])"

definition charging_call ::
  "charging_env \<Rightarrow> charge_point \<Rightarrow> frame \<Rightarrow> charging_message \<Rightarrow> db \<Rightarrow> exn + (string \<times> json) list \<times> db" where
  "charging_call env charger f message d =
    (if list_ex (\<lambda>(_, v). v = JNull) (fr_payload f) then Inl ValueError
     else case message of
       AuthorizeMessage tag \<Rightarrow>
         res_bind (authorize (ce_rt env) charger tag False d) (\<lambda>((result, _, _), d1). Inr ([id_tag_info result], d1))
     | StartMessage payload \<Rightarrow>
         res_bind (start_transaction env charger f payload d) (\<lambda>((transaction_id, status), d1).
           Inr ([(''transactionId'', JInt transaction_id), id_tag_info status], d1))
     | MeterMessage payload \<Rightarrow> res_bind (charging_meter_values charger f payload d) (\<lambda>d1. Inr ([], d1))
     | StopMessage payload \<Rightarrow> res_bind (stop_transaction env charger f payload d) (\<lambda>d1. Inr ([], d1)))"

end
