(* ===== verification/Charging_Rows.thy ===== *)
theory Charging_Rows
  imports Charging
begin

text \<open>
  The rows of the charging tables: what every operation keeps of a session row, and the invariant
  of sessions, occupation intervals and meter samples, with what keeps it when one of the three
  tables changes.
\<close>

section \<open>Newest rows\<close>

lemma newest_by_snoc:
  "newest_by key (rows @ [x]) = (case newest_by key rows of None \<Rightarrow> Some x
     | Some b \<Rightarrow> if key b < key x then Some x else Some b)"
  by (auto simp: newest_by_def split: option.splits)

lemma newest_by_None [simp]: "newest_by key rows = None \<longleftrightarrow> rows = []"
proof (induction rows rule: rev_induct)
  case Nil
  then show ?case by (simp add: newest_by_def)
next
  case (snoc x rows)
  then show ?case by (simp add: newest_by_snoc split: option.splits)
qed

lemma newest_by_Nil [simp]: "newest_by key [] = None"
  by simp

lemma newest_by_Some: "newest_by key rows = Some x \<Longrightarrow> x \<in> set rows \<and> (\<forall>y\<in>set rows. key y \<le> key x)"
proof (induction rows arbitrary: x rule: rev_induct)
  case Nil
  then show ?case by (simp add: newest_by_def)
next
  case (snoc y rows)
  then show ?case by (fastforce simp: newest_by_snoc split: option.splits if_splits)
qed

section \<open>Session rows\<close>

definition regression :: "charging_session \<Rightarrow> bool" where
  "regression c \<longleftrightarrow> ''meter_regression'' \<in> set (cs_review_reasons c)"

definition session_evolves :: "charging_session \<Rightarrow> charging_session \<Rightarrow> bool" where
  "session_evolves c c' \<longleftrightarrow> cs_id c' = cs_id c \<and> cs_charge_point_id c' = cs_charge_point_id c
    \<and> cs_connector_id c' = cs_connector_id c \<and> cs_driver_id c' = cs_driver_id c
    \<and> cs_started_at c' = cs_started_at c \<and> cs_meter_start_wh c' = cs_meter_start_wh c
    \<and> (cs_ended_at c \<noteq> None \<longrightarrow> cs_ended_at c' = cs_ended_at c)
    \<and> (cs_connector_released_at c' = cs_connector_released_at c
       \<or> (\<exists>t. cs_connector_released_at c' = Some t \<and> cs_started_at c \<le> t))
    \<and> (regression c \<longrightarrow> regression c')"

lemma session_evolves_refl [simp]: "session_evolves c c"
  by (simp add: session_evolves_def)

lemma session_evolves_trans: "session_evolves a b \<Longrightarrow> session_evolves b c \<Longrightarrow> session_evolves a c"
  unfolding session_evolves_def by metis

lemma review_fields [simp]:
  "cs_id (review x c) = cs_id c" "cs_charge_point_id (review x c) = cs_charge_point_id c"
  "cs_connector_id (review x c) = cs_connector_id c" "cs_driver_id (review x c) = cs_driver_id c"
  "cs_started_at (review x c) = cs_started_at c" "cs_meter_start_wh (review x c) = cs_meter_start_wh c"
  "cs_ended_at (review x c) = cs_ended_at c" "cs_connector_released_at (review x c) = cs_connector_released_at c"
  "cs_billing_lifecycle_version (review x c) = cs_billing_lifecycle_version c"
  "cs_stop_reason (review x c) = cs_stop_reason c" "cs_energy_kwh (review x c) = cs_energy_kwh c"
  "cs_meter_stop_wh (review x c) = cs_meter_stop_wh c" "set (cs_review_reasons (review x c)) = insert x (set (cs_review_reasons c))"
  by (auto simp: review_def)

lemma flag_review: "flag = review"
  by (intro ext) (simp add: flag_def review_def)

lemma review_evolves [simp]: "session_evolves c (review x c)"
  by (simp add: session_evolves_def regression_def)

lemma flag_evolves [simp]: "session_evolves c (flag x c)"
  by (simp add: flag_review)

definition rows_evolve :: "charging_session list \<Rightarrow> charging_session list \<Rightarrow> bool" where
  "rows_evolve = list_all2 session_evolves"

lemma rows_evolve_refl [simp]: "rows_evolve cs cs"
  by (simp add: rows_evolve_def list_all2_refl)

lemma rows_evolve_trans: "rows_evolve a b \<Longrightarrow> rows_evolve b c \<Longrightarrow> rows_evolve a c"
  unfolding rows_evolve_def by (rule list_all2_trans [of session_evolves session_evolves]) (auto intro: session_evolves_trans)

lemma rows_evolve_map: "(\<And>c. session_evolves c (f c)) \<Longrightarrow> rows_evolve cs (map f cs)"
  by (simp add: rows_evolve_def list_all2_map2 list_all2_refl)

lemma rows_evolveD:
  assumes "rows_evolve cs cs'" and "c' \<in> set cs'"
  obtains c where "c \<in> set cs" "session_evolves c c'"
  using assms unfolding rows_evolve_def by (metis in_set_conv_nth list_all2_conv_all_nth)

lemma rows_evolve_mem:
  assumes "rows_evolve cs cs'" and "c \<in> set cs"
  obtains c' where "c' \<in> set cs'" "session_evolves c c'"
  using assms unfolding rows_evolve_def by (metis in_set_conv_nth list_all2_conv_all_nth)

lemma rows_evolve_ids: "rows_evolve cs cs' \<Longrightarrow> map cs_id cs' = map cs_id cs"
  unfolding rows_evolve_def by (induction rule: list_all2_induct) (auto simp: session_evolves_def)

lemma put_session_evolves:
  assumes "distinct (map cs_id (sessions d))" and "c \<in> set (sessions d)" and "session_evolves c c'"
  shows "rows_evolve (sessions d) (sessions (put_session c' d))"
proof -
  have "session_evolves x (if cs_id x = cs_id c' then c' else x)" if "x \<in> set (sessions d)" for x
    using unique_row [OF assms(1) that assms(2)] assms(3) by (auto simp: session_evolves_def)
  then show ?thesis
    by (simp add: put_session_def update_row_def rows_evolve_def list_all2_map2 list_all2_same)
qed

lemma put_session_tables [simp]:
  "session_seq (put_session c d) = session_seq d" "occupation_intervals (put_session c d) = occupation_intervals d"
  "interval_seq (put_session c d) = interval_seq d" "meter_samples (put_session c d) = meter_samples d"
  "sample_seq (put_session c d) = sample_seq d" "connectors (put_session c d) = connectors d"
  by (simp_all add: put_session_def)

section \<open>The invariant\<close>

definition sessions_ok :: "db \<Rightarrow> bool" where
  "sessions_ok d \<longleftrightarrow> distinct (map cs_id (sessions d)) \<and> (\<forall>c\<in>set (sessions d). cs_id c < session_seq d)
    \<and> (\<forall>c\<in>set (sessions d). \<forall>c'\<in>set (sessions d). cs_ended_at c = None \<and> cs_ended_at c' = None
         \<and> cs_connector_id c = cs_connector_id c' \<longrightarrow> c = c')
    \<and> (\<forall>c\<in>set (sessions d). \<forall>t. cs_connector_released_at c = Some t \<longrightarrow> cs_started_at c \<le> t)"

text \<open>Statuses of a connector arrive in the order of their times, and an interval begins with one.\<close>

definition reported_by :: "db \<Rightarrow> int \<Rightarrow> instant \<Rightarrow> bool" where
  "reported_by d session_id stamp \<longleftrightarrow> (\<exists>c\<in>set (sessions d). cs_id c = session_id
     \<and> (\<exists>k\<in>set (connectors d). cn_id k = cs_connector_id c
          \<and> (\<exists>t. cn_last_status_notification_at k = Some t \<and> stamp \<le> t)))"

definition intervals_ok :: "db \<Rightarrow> bool" where
  "intervals_ok d \<longleftrightarrow> distinct (map oi_id (occupation_intervals d))
    \<and> (\<forall>i\<in>set (occupation_intervals d). oi_id i < interval_seq d
         \<and> (\<forall>t. oi_ended_at i = Some t \<longrightarrow> oi_started_at i \<le> t) \<and> reported_by d (oi_session_id i) (oi_started_at i))
    \<and> (\<forall>i\<in>set (occupation_intervals d). \<forall>j\<in>set (occupation_intervals d).
         oi_session_id i = oi_session_id j \<and> oi_id i < oi_id j \<longrightarrow> oi_ended_at i \<noteq> None)"

definition rising :: "decimal \<Rightarrow> point list \<Rightarrow> bool" where
  "rising first points \<longleftrightarrow> (\<forall>p\<in>set points. first \<le> snd p)
    \<and> (\<forall>p\<in>set points. \<forall>q\<in>set points. fst p \<le> fst q \<longrightarrow> snd p \<le> snd q)"

definition sample_key :: "meter_sample \<Rightarrow> int \<times> series \<times> instant" where
  "sample_key m = (ms_session_id m, sample_series m, ms_timestamp m)"

definition samples_ok :: "db \<Rightarrow> bool" where
  "samples_ok d \<longleftrightarrow> distinct (map sample_key (meter_samples d))
    \<and> (\<forall>m\<in>set (meter_samples d). ms_session_id m < session_seq d)
    \<and> (\<forall>c\<in>set (sessions d). \<not> regression c \<longrightarrow>
         rising (cs_meter_start_wh c) (history_of (cs_id c) d register_series))"

definition connectors_ok :: "db \<Rightarrow> bool" where
  "connectors_ok d \<longleftrightarrow> distinct (map cn_id (connectors d))"

definition charging_inv :: "db \<Rightarrow> bool" where
  "charging_inv d \<longleftrightarrow> connectors_ok d \<and> sessions_ok d \<and> intervals_ok d \<and> samples_ok d"

lemma charging_invD:
  assumes "charging_inv d"
  shows "connectors_ok d" "sessions_ok d" "intervals_ok d" "samples_ok d" "distinct (map cs_id (sessions d))"
  using assms by (simp_all add: charging_inv_def sessions_ok_def)

text \<open>Connector rows only move on to later notifications.\<close>

definition connector_forward :: "connector \<Rightarrow> connector \<Rightarrow> bool" where
  "connector_forward k k' \<longleftrightarrow> cn_id k' = cn_id k \<and> (\<forall>t. cn_last_status_notification_at k = Some t \<longrightarrow>
     (\<exists>t'. cn_last_status_notification_at k' = Some t' \<and> t \<le> t'))"

definition connectors_forward :: "db \<Rightarrow> db \<Rightarrow> bool" where
  "connectors_forward d d' \<longleftrightarrow> list_all2 connector_forward (connectors d) (connectors d')"

lemma connectors_forward_same [simp]: "connectors d' = connectors d \<Longrightarrow> connectors_forward d d'"
  by (simp add: connectors_forward_def connector_forward_def list_all2_refl)

lemma connectors_forward_ids: "connectors_forward d d' \<Longrightarrow> map cn_id (connectors d') = map cn_id (connectors d)"
  unfolding connectors_forward_def by (induction rule: list_all2_induct) (auto simp: connector_forward_def)

lemma sessions_ok_evolve:
  assumes "sessions_ok d" and "rows_evolve (sessions d) (sessions d')" and "session_seq d' = session_seq d"
  shows "sessions_ok d'"
proof -
  have ids: "map cs_id (sessions d') = map cs_id (sessions d)" by (rule rows_evolve_ids [OF assms(2)])
  have dist: "distinct (map cs_id (sessions d'))" using assms(1) ids by (simp add: sessions_ok_def)
  have "cs_id c < session_seq d'" if "c \<in> set (sessions d')" for c
    using that assms(1,3) ids by (metis in_set_conv_nth length_map nth_map nth_mem sessions_ok_def)
  moreover have "c = c'" if c: "c \<in> set (sessions d')" "c' \<in> set (sessions d')" "cs_ended_at c = None" "cs_ended_at c' = None"
    "cs_connector_id c = cs_connector_id c'" for c c'
  proof -
    obtain b b' where b: "b \<in> set (sessions d)" "session_evolves b c" and b': "b' \<in> set (sessions d)" "session_evolves b' c'"
      using rows_evolveD [OF assms(2) c(1)] rows_evolveD [OF assms(2) c(2)] by metis
    then have "cs_ended_at b = None" "cs_ended_at b' = None" "cs_connector_id b = cs_connector_id b'"
      using c(3-5) unfolding session_evolves_def by metis+
    then have "b = b'" using assms(1) b(1) b'(1) unfolding sessions_ok_def by blast
    then have "cs_id c = cs_id c'" using b(2) b'(2) by (simp add: session_evolves_def)
    then show ?thesis using unique_row [OF dist c(1,2)] by blast
  qed
  moreover have "cs_started_at c \<le> t" if "c \<in> set (sessions d')" "cs_connector_released_at c = Some t" for c t
    using rows_evolveD [OF assms(2) that(1)] that(2) assms(1) unfolding session_evolves_def sessions_ok_def
    by (metis option.inject)
  ultimately show ?thesis using dist by (auto simp: sessions_ok_def)
qed

lemma reported_by_evolve:
  assumes "reported_by d i t" and "rows_evolve (sessions d) (sessions d')" and "connectors_forward d d'"
  shows "reported_by d' i t"
proof -
  obtain c k s where c: "c \<in> set (sessions d)" "cs_id c = i" and k: "k \<in> set (connectors d)" "cn_id k = cs_connector_id c"
    and s: "cn_last_status_notification_at k = Some s" "t \<le> s"
    using assms(1) unfolding reported_by_def by blast
  obtain c' where c': "c' \<in> set (sessions d')" "session_evolves c c'" using rows_evolve_mem [OF assms(2) c(1)] .
  obtain k' where k': "k' \<in> set (connectors d')" "connector_forward k k'"
    using assms(3) k(1) unfolding connectors_forward_def by (metis in_set_conv_nth list_all2_conv_all_nth)
  obtain s' where "cn_last_status_notification_at k' = Some s'" "s \<le> s'"
    using k'(2) s(1) unfolding connector_forward_def by blast
  moreover have "cs_id c' = i" "cn_id k' = cs_connector_id c'"
    using c' k' c(2) k(2) by (simp_all add: session_evolves_def connector_forward_def)
  ultimately show ?thesis using c'(1) k'(1) s(2) unfolding reported_by_def by fastforce
qed

lemma intervals_ok_evolve:
  assumes "intervals_ok d" and "rows_evolve (sessions d) (sessions d')" and "connectors_forward d d'"
    and "occupation_intervals d' = occupation_intervals d" and "interval_seq d' = interval_seq d"
  shows "intervals_ok d'"
  using assms(1) reported_by_evolve [OF _ assms(2,3)] unfolding intervals_ok_def assms(4,5) by blast

lemma samples_ok_evolve:
  assumes "samples_ok d" and "rows_evolve (sessions d) (sessions d')" and "meter_samples d' = meter_samples d"
    and "session_seq d' = session_seq d"
  shows "samples_ok d'"
proof -
  have "history_of i d' key = history_of i d key" for i key by (simp add: history_of_def assms(3))
  then have "rising (cs_meter_start_wh c) (history_of (cs_id c) d' register_series)"
    if "c \<in> set (sessions d')" "\<not> regression c" for c
    using rows_evolveD [OF assms(2) that(1)] that(2) assms(1) unfolding session_evolves_def samples_ok_def by metis
  then show ?thesis using assms by (auto simp: samples_ok_def)
qed

text \<open>A transaction that leaves intervals and samples alone.\<close>

definition calm :: "db \<Rightarrow> db \<Rightarrow> bool" where
  "calm d d' \<longleftrightarrow> rows_evolve (sessions d) (sessions d') \<and> session_seq d' = session_seq d \<and> connectors_forward d d'
    \<and> occupation_intervals d' = occupation_intervals d \<and> interval_seq d' = interval_seq d
    \<and> meter_samples d' = meter_samples d \<and> sample_seq d' = sample_seq d"

lemma calm_inv: "charging_inv d \<Longrightarrow> calm d d' \<Longrightarrow> charging_inv d'"
  unfolding charging_inv_def calm_def connectors_ok_def
  using sessions_ok_evolve intervals_ok_evolve samples_ok_evolve connectors_forward_ids by metis

lemma calm_refl [simp]: "calm d d"
  by (simp add: calm_def)

lemma connectors_forward_trans:
  assumes "connectors_forward d d1" and "connectors_forward d1 d2"
  shows "connectors_forward d d2"
  unfolding connectors_forward_def
proof (rule list_all2_trans [of connector_forward connector_forward])
  show "connector_forward a c" if "connector_forward a b" "connector_forward b c" for a b c
    using that unfolding connector_forward_def by (metis order_trans)
qed (use assms in \<open>simp_all add: connectors_forward_def\<close>)

lemma calm_trans:
  assumes "calm d d1" and "calm d1 d2"
  shows "calm d d2"
  using assms rows_evolve_trans [of "sessions d"] connectors_forward_trans [of d d1 d2] by (auto simp: calm_def)

end
