(* ===== verification/Charging_Laws.thy ===== *)
theory Charging_Laws
  imports Charging_Rows
begin

text \<open>
  The operations of the charging component keep the invariant of its tables: statuses and stops move
  occupation intervals.
\<close>

section \<open>Occupation intervals\<close>

lemma intervals_ok_cong:
  assumes "occupation_intervals d' = occupation_intervals d" and "interval_seq d' = interval_seq d"
    and "sessions d' = sessions d" and "connectors d' = connectors d"
  shows "intervals_ok d' = intervals_ok d"
  unfolding intervals_ok_def reported_by_def assms ..

lemma put_interval_ok:
  assumes ok: "intervals_ok d" and i: "i \<in> set (occupation_intervals d)"
    and same: "oi_id i' = oi_id i" "oi_session_id i' = oi_session_id i" "oi_started_at i' = oi_started_at i"
    and ended: "oi_ended_at i' = oi_ended_at i \<or> (\<exists>t. oi_ended_at i' = Some t \<and> oi_started_at i \<le> t)"
  shows "intervals_ok (put_interval i' d)" and "i' \<in> set (occupation_intervals (put_interval i' d))"
proof -
  let ?d = "put_interval i' d"
  have dist: "distinct (map oi_id (occupation_intervals d))" using ok by (simp add: intervals_ok_def)
  have mem: "set (occupation_intervals ?d) = insert i' (set (occupation_intervals d) - {i})"
    using unique_row [OF dist _ i] i same(1) by (auto simp: put_interval_def set_update_row)
  show "i' \<in> set (occupation_intervals ?d)" using mem by simp
  have ids: "map oi_id (occupation_intervals ?d) = map oi_id (occupation_intervals d)"
    using same(1) by (auto simp: put_interval_def update_row_def)
  have row: "oi_id x < interval_seq d \<and> (\<forall>t. oi_ended_at x = Some t \<longrightarrow> oi_started_at x \<le> t)
      \<and> reported_by d (oi_session_id x) (oi_started_at x)" if "x \<in> set (occupation_intervals d)" for x
    using ok that unfolding intervals_ok_def by blast
  have closed: "oi_ended_at x \<noteq> None" if "x \<in> set (occupation_intervals d)" "y \<in> set (occupation_intervals d)"
      "oi_session_id x = oi_session_id y" "oi_id x < oi_id y" for x y
    using ok that unfolding intervals_ok_def by blast
  have "oi_ended_at x \<noteq> None" if xy: "x \<in> set (occupation_intervals ?d)" "y \<in> set (occupation_intervals ?d)"
      "oi_session_id x = oi_session_id y" "oi_id x < oi_id y" for x y
  proof -
    define x0 y0 where "x0 = (if x = i' then i else x)" and "y0 = (if y = i' then i else y)"
    have "x0 \<in> set (occupation_intervals d)" "y0 \<in> set (occupation_intervals d)"
      using xy(1,2) i by (auto simp: mem x0_def y0_def)
    moreover have "oi_session_id x0 = oi_session_id y0" "oi_id x0 < oi_id y0"
      using xy(3,4) same by (auto simp: x0_def y0_def)
    ultimately have "oi_ended_at x0 \<noteq> None" by (rule closed)
    then show ?thesis using ended by (auto simp: x0_def split: if_splits)
  qed
  moreover have "oi_id x < interval_seq ?d \<and> (\<forall>t. oi_ended_at x = Some t \<longrightarrow> oi_started_at x \<le> t)
      \<and> reported_by ?d (oi_session_id x) (oi_started_at x)" if "x \<in> set (occupation_intervals ?d)" for x
  proof -
    have "x = i' \<or> x \<in> set (occupation_intervals d)" using that mem by blast
    moreover have "reported_by ?d a b = reported_by d a b" for a b by (simp add: reported_by_def put_interval_def)
    moreover have "interval_seq ?d = interval_seq d" by (simp add: put_interval_def)
    ultimately show ?thesis using row [OF i] row [of x] same ended by auto
  qed
  ultimately show "intervals_ok ?d" using dist ids by (simp add: intervals_ok_def)
qed

lemma interval_closed:
  assumes "intervals_ok d" and "i \<in> set (occupation_intervals d)" and "j \<in> set (occupation_intervals d)"
    and "oi_session_id i = oi_session_id j" and "oi_id i < oi_id j"
  shows "oi_ended_at i \<noteq> None"
  using assms unfolding intervals_ok_def by blast

lemma add_interval_ok:
  assumes ok: "intervals_ok d" and "reported_by d (cs_id c) stamp"
    and closed: "\<forall>i\<in>set (session_intervals (cs_id c) d). oi_ended_at i \<noteq> None"
  shows "intervals_ok (add_interval c stamp sure d)"
proof -
  have seq: "oi_id i < interval_seq d" if "i \<in> set (occupation_intervals d)" for i
    using ok that unfolding intervals_ok_def by blast
  then have new: "oi_id i \<noteq> interval_seq d" "\<not> interval_seq d < oi_id i" "oi_id i < interval_seq d + 1"
    if "i \<in> set (occupation_intervals d)" for i using that by fastforce+
  have rep: "reported_by (add_interval c stamp sure d) a b = reported_by d a b" for a b
    by (simp add: reported_by_def add_interval_def)
  show ?thesis
    unfolding intervals_ok_def rep using ok assms(2) closed new
    by (auto simp: add_interval_def session_intervals_def intervals_ok_def)
qed

text \<open>An operation on a session row and its intervals.\<close>

definition tended :: "charging_session \<times> db \<Rightarrow> charging_session \<times> db \<Rightarrow> bool" where
  "tended s s' \<longleftrightarrow> session_evolves (fst s) (fst s') \<and> sessions (snd s') = sessions (snd s)
    \<and> session_seq (snd s') = session_seq (snd s) \<and> connectors (snd s') = connectors (snd s)
    \<and> meter_samples (snd s') = meter_samples (snd s) \<and> sample_seq (snd s') = sample_seq (snd s)
    \<and> (intervals_ok (snd s) \<longrightarrow> intervals_ok (snd s'))"

lemma tended_trans: "tended s t \<Longrightarrow> tended t u \<Longrightarrow> tended s u"
  unfolding tended_def using session_evolves_trans by metis

lemma tended_row: "session_evolves c c' \<Longrightarrow> tended (c, d) (c', d)"
  by (simp add: tended_def)

lemma tended_event: "session_evolves c c' \<Longrightarrow> tended (c, d) (c', add_session_event x a who ds d)"
  using intervals_ok_cong [of "add_session_event x a who ds d" d] by (simp add: tended_def add_session_event_def)

lemma tended_interval:
  assumes "i \<in> set (occupation_intervals d)" and "session_evolves c c'"
    and "oi_id i' = oi_id i" "oi_session_id i' = oi_session_id i" "oi_started_at i' = oi_started_at i"
    and "oi_ended_at i' = oi_ended_at i \<or> (\<exists>t. oi_ended_at i' = Some t \<and> oi_started_at i \<le> t)"
  shows "tended (c, d) (c', put_interval i' d)"
  using put_interval_ok(1) [OF _ assms(1,3-6)] assms(2) by (simp add: tended_def) (simp add: put_interval_def)

lemma current_interval_mem:
  "current_interval c d = Some i \<Longrightarrow> i \<in> set (occupation_intervals d) \<and> oi_session_id i = cs_id c"
  using newest_by_Some [of oi_id "session_intervals (cs_id c) d" i]
  by (auto simp: current_interval_def session_intervals_def)

lemma release_tended:
  assumes "\<And>i. interval = Some i \<Longrightarrow> i \<in> set (occupation_intervals d)"
  shows "tended (c, d) (release env stamp interval source (c, d))"
proof (cases "cs_connector_released_at c \<noteq> None \<or> stamp < cs_started_at c
      \<or> (case interval of None \<Rightarrow> False | Some i \<Rightarrow> stamp < oi_started_at i)")
  case True
  then show ?thesis by (auto simp: release_def tended_row)
next
  case False
  let ?c = "c\<lparr>cs_connector_released_at := Some stamp\<rparr>"
  have c: "session_evolves c ?c" using False by (auto simp: session_evolves_def regression_def)
  show ?thesis
  proof (cases interval)
    case None
    with False c show ?thesis by (simp add: release_def tended_event)
  next
    case (Some i)
    have "tended (c, d) (?c, put_interval (i\<lparr>oi_ended_at := Some stamp, oi_end_reason := Some ''released''\<rparr>) d)"
      by (rule tended_interval [OF assms [OF Some] c]) (use False Some in auto)
    moreover have "tended (?c, x) (?c, add_session_event c a who ds x)" for a who ds x by (simp add: tended_event)
    ultimately show ?thesis
      using False Some c tended_event [OF c] by (auto simp: release_def intro: tended_trans)
  qed
qed

lemma occupied_status_tended:
  assumes seen: "\<forall>i\<in>set (session_intervals (cs_id c) d). oi_started_at i \<le> stamp"
    and reported: "reported_by d (cs_id c) stamp"
  shows "tended (c, d) (occupied_status env status stamp (c, d))"
proof -
  let ?i = "current_interval c d"
  have mem: "i \<in> set (occupation_intervals d)" "oi_started_at i \<le> stamp" if "?i = Some i" for i
    using current_interval_mem [OF that] seen by (auto simp: session_intervals_def)
  have fresh: "tended (c, d) (c\<lparr>cs_idle_since := Some stamp\<rparr>, add_interval c stamp sure d)"
    if closed: "\<And>i. ?i = Some i \<Longrightarrow> oi_ended_at i \<noteq> None" for sure
  proof -
    have "oi_ended_at j \<noteq> None" if ok: "intervals_ok d" and j: "j \<in> set (session_intervals (cs_id c) d)" for j
    proof -
      obtain i where i: "?i = Some i" using j by (cases ?i) (auto simp: current_interval_def)
      then have "oi_id j \<le> oi_id i" "i \<in> set (session_intervals (cs_id c) d)"
        using j newest_by_Some [of oi_id "session_intervals (cs_id c) d" i] by (auto simp: current_interval_def)
      moreover have "j = i" if "oi_id j = oi_id i"
        using that unique_row [of oi_id "occupation_intervals d" j i] ok j calculation(2)
        by (simp add: intervals_ok_def session_intervals_def)
      moreover have "oi_ended_at j \<noteq> None" if "oi_id j < oi_id i"
        by (rule interval_closed [OF ok _ _ _ that]) (use j calculation(2) in \<open>auto simp: session_intervals_def\<close>)
      moreover have "oi_ended_at i \<noteq> None" by (rule closed [OF i])
      ultimately show ?thesis by fastforce
    qed
    then have "intervals_ok d \<Longrightarrow> intervals_ok (add_interval c stamp sure d)"
      using add_interval_ok [OF _ reported] by blast
    moreover have "session_evolves c (c\<lparr>cs_idle_since := Some stamp\<rparr>)" by (simp add: session_evolves_def regression_def)
    ultimately show ?thesis by (simp add: tended_def add_interval_def)
  qed
  have kept: "tended (c, d) (c', put_interval i' d)"
    if "?i = Some i" "session_evolves c c'" "oi_id i' = oi_id i" "oi_session_id i' = oi_session_id i"
      "oi_started_at i' = oi_started_at i" "oi_ended_at i' = oi_ended_at i \<or> oi_ended_at i' = Some stamp" for i i' c'
    using tended_interval [OF mem(1) [OF that(1)] that(2-5)] that(6) mem(2) [OF that(1)] by blast
  have idle: "session_evolves c (c\<lparr>cs_idle_since := t\<rparr>)" for t by (simp add: session_evolves_def regression_def)
  consider "status \<in> {''SuspendedEV'', ''Finishing''}" | "status = ''Charging''" | "status = ''Available''"
    | "status \<notin> {''SuspendedEV'', ''Finishing'', ''Charging'', ''Available''}" by blast
  then show ?thesis
  proof cases
    case 1
    then show ?thesis
      by (cases ?i) (auto simp: occupied_status_def Let_def tended_row intro!: kept fresh)
  next
    case 2
    then show ?thesis
      by (cases ?i) (auto simp: occupied_status_def Let_def idle intro!: kept tended_row)
  next
    case 3
    then show ?thesis
      using release_tended [OF mem(1)] by (auto simp: occupied_status_def Let_def tended_row)
  next
    case 4
    then show ?thesis by (auto simp: occupied_status_def Let_def tended_row)
  qed
qed

text \<open>The row is written back when the operation is done.\<close>

lemma tended_inv:
  assumes inv: "charging_inv d" and c: "c \<in> set (sessions d)" and t: "tended (c, d) (c', d')"
  shows "charging_inv (put_session c' d')"
proof -
  have eq: "sessions d' = sessions d" "session_seq d' = session_seq d" "connectors d' = connectors d"
    "meter_samples d' = meter_samples d" and ev: "session_evolves c c'"
    using t by (simp_all add: tended_def)
  have same: "sessions_ok d' = sessions_ok d" "samples_ok d' = samples_ok d" "connectors_ok d' = connectors_ok d"
    by (simp_all add: sessions_ok_def samples_ok_def connectors_ok_def history_of_def eq)
  have ok: "charging_inv d'" using inv t same by (simp add: charging_inv_def tended_def)
  have "c \<in> set (sessions d')" using c eq by simp
  then have "rows_evolve (sessions d') (sessions (put_session c' d'))"
    using ok ev put_session_evolves charging_invD(5) by blast
  then show ?thesis using calm_inv [OF ok] by (simp add: calm_def)
qed

lemma row_inv: "charging_inv d \<Longrightarrow> c \<in> set (sessions d) \<Longrightarrow> session_evolves c c' \<Longrightarrow> charging_inv (put_session c' d)"
  by (rule tended_inv [OF _ _ tended_row])

lemma interval_reported:
  assumes inv: "charging_inv d" and c: "c \<in> set (sessions d)" and k: "k \<in> set (connectors d)" "cn_id k = cs_connector_id c"
    "cn_last_status_notification_at k = Some t" and i: "i \<in> set (session_intervals (cs_id c) d)"
  shows "oi_started_at i \<le> t"
proof -
  have "reported_by d (cs_id c) (oi_started_at i)"
    using i charging_invD(3) [OF inv] unfolding intervals_ok_def session_intervals_def by auto
  then obtain c' k' s where c': "c' \<in> set (sessions d)" "cs_id c' = cs_id c"
    and k': "k' \<in> set (connectors d)" "cn_id k' = cs_connector_id c'"
    and s: "cn_last_status_notification_at k' = Some s" "oi_started_at i \<le> s"
    unfolding reported_by_def by blast
  have "c' = c" using unique_row [OF charging_invD(5) [OF inv] c'(1) c c'(2)] .
  moreover have "distinct (map cn_id (connectors d))" using charging_invD(1) [OF inv] by (simp add: connectors_ok_def)
  ultimately have "k' = k" using unique_row [of cn_id "connectors d" k' k] k k' by simp
  then show ?thesis using s k(3) by simp
qed

lemma note_status_inv:
  assumes inv: "charging_inv d"
    and k: "\<And>t. stamp = Some t \<Longrightarrow> \<exists>k\<in>set (connectors d). cn_id k = connector_id \<and> cn_last_status_notification_at k = Some t"
  shows "charging_inv (note_status env connector_id status stamp d)"
proof (cases "newest_by cs_id (filter (\<lambda>c. cs_connector_id c = connector_id) (sessions d))")
  case None
  then show ?thesis using inv by (simp add: note_status_def)
next
  case (Some c)
  have c: "c \<in> set (sessions d)" "cs_connector_id c = connector_id" using newest_by_Some [OF Some] by auto
  have flagged: "charging_inv (put_session (flag x c) d)" for x by (rule row_inv [OF inv c(1) flag_evolves])
  have "charging_inv (let (c1, d1) = occupied_status env status t (c, add_session_event c a who ds d) in put_session c1 d1)"
    if st: "stamp = Some t" for t a who ds
  proof -
    let ?d = "add_session_event c a who ds d"
    obtain k where k: "k \<in> set (connectors d)" "cn_id k = cs_connector_id c" "cn_last_status_notification_at k = Some t"
      using k [OF st] unfolding c(2) [symmetric] by blast
    have "reported_by ?d (cs_id c) t" using c(1) k by (auto simp: reported_by_def add_session_event_def)
    moreover have "\<forall>i\<in>set (session_intervals (cs_id c) ?d). oi_started_at i \<le> t"
      using interval_reported [OF inv c(1) k] by (simp add: session_intervals_def add_session_event_def)
    ultimately have "tended (c, ?d) (occupied_status env status t (c, ?d))" using occupied_status_tended by blast
    then have "tended (c, d) (occupied_status env status t (c, ?d))"
      by (rule tended_trans [OF tended_event [OF session_evolves_refl]])
    then show ?thesis using tended_inv [OF inv c(1)] by (auto split: prod.splits)
  qed
  then show ?thesis using inv flagged by (auto simp: note_status_def Some Let_def split: option.splits)
qed

lemma note_stop_tended:
  assumes "note_stop env (c, d) = Inr s'"
  shows "tended (c, d) s'"
proof (cases "cs_billing_lifecycle_version c = 0")
  case True
  then show ?thesis using assms by (auto simp: note_stop_def tended_row)
next
  case False
  then obtain ended where ended: "cs_ended_at c = Some ended" using assms by (auto simp: note_stop_def split: option.splits)
  show ?thesis
  proof (cases "current_interval c d")
    case None
    then show ?thesis
      using assms False ended release_tended [of None d c env ended] by (auto simp: note_stop_def tended_row split: if_splits)
  next
    case (Some i)
    define i' where "i' = (if oi_end_reason i \<noteq> Some ''resumed'' then i\<lparr>oi_confirmed := True\<rparr> else i)"
    have i: "i \<in> set (occupation_intervals d)" using current_interval_mem [OF Some] by simp
    have t: "tended (c, d) (c, put_interval i' d)" by (rule tended_interval [OF i]) (simp_all add: i'_def)
    have i': "i' \<in> set (occupation_intervals (put_interval i' d))"
      using i by (force simp: put_interval_def set_update_row i'_def)
    have "tended (c, put_interval i' d) (release env ended (Some i') ''EVDisconnected'' (c, put_interval i' d))"
      by (rule release_tended) (use i' in auto)
    then have "tended (c, d) (release env ended (Some i') ''EVDisconnected'' (c, put_interval i' d))"
      by (rule tended_trans [OF t])
    moreover have "s' = (if cs_stop_reason c = Some ''EVDisconnected''
        then release env ended (Some i') ''EVDisconnected'' (c, put_interval i' d) else (c, put_interval i' d))"
      using assms False ended
      by (cases "cs_stop_reason c = Some ''EVDisconnected''") (simp_all add: note_stop_def Let_def Some i'_def)
    ultimately show ?thesis using t by simp
  qed
qed

end
