(* ===== verification/Charging_Watch.thy ===== *)
theory Charging_Watch
  imports Charging_Laws
begin

text \<open>
  What monitoring and recovery do to the charging tables: the silence, contact, reconnection and
  status of a charger and the manual closing of a session keep their invariant.
\<close>

section \<open>Monitoring and recovery\<close>

lemma calm_rows:
  assumes "rows_evolve (sessions d) (sessions d')" and "session_seq d' = session_seq d" and "connectors d' = connectors d"
    and "occupation_intervals d' = occupation_intervals d" and "interval_seq d' = interval_seq d"
    and "meter_samples d' = meter_samples d" and "sample_seq d' = sample_seq d"
  shows "calm d d'"
  using assms by (simp add: calm_def)

lemma calm_map:
  "(\<And>c. session_evolves c (f c)) \<Longrightarrow> calm d (d\<lparr>sessions := map f (sessions d)\<rparr>)"
  by (rule calm_rows) (simp_all add: rows_evolve_map)

lemma calm_event [simp]: "calm d (add_session_event c a who ds d)"
  by (rule calm_rows) (simp_all add: add_session_event_def)

lemma calm_put:
  "charging_inv d \<Longrightarrow> c \<in> set (sessions d) \<Longrightarrow> session_evolves c c' \<Longrightarrow> calm d (put_session c' d)"
  using put_session_evolves charging_invD(5) by (intro calm_rows) auto

lemma calm_fold: "(\<And>x e. calm e (f x e)) \<Longrightarrow> calm d (fold f xs d)"
proof (induction xs arbitrary: d)
  case (Cons x xs)
  then show ?case using calm_trans [of d "f x d"] by simp
qed simp

lemma note_offline_gap_calm: "calm d (note_offline_gap p d)"
  unfolding note_offline_gap_def by (rule calm_map) simp

lemma calm_connectors:
  assumes "\<And>k. connector_forward k (f k)"
  shows "calm d (d\<lparr>connectors := map f (connectors d)\<rparr>)"
  using assms by (simp add: calm_def connectors_forward_def list_all2_map2 list_all2_refl)

lemma forget_connectors_calm: "calm d (forget_connectors which now d)"
  unfolding forget_connectors_def by (rule calm_connectors) (simp add: connector_forward_def)

lemma calm_points [simp]: "calm d (d\<lparr>charge_points := ps\<rparr>)"
  by (rule calm_rows) simp_all

lemma note_contact_calm: "calm d (note_contact point now d)"
  using calm_trans [OF forget_connectors_calm note_offline_gap_calm] forget_connectors_calm
  by (simp add: note_contact_def Let_def)

lemma mark_seen_calm: "calm d (mark_seen now p d)"
  using calm_trans [OF calm_points note_contact_calm] by (simp add: mark_seen_def split: option.split)

lemma lock_and_mark_seen_calm: "calm d (snd (lock_and_mark_seen now p d))"
  using calm_trans [OF calm_points note_contact_calm] by (simp add: lock_and_mark_seen_def split: option.split)

lemma expire_chargers_calm: "calm d (expire_chargers now busy d)"
proof -
  have "calm d (fold note_offline_gap xs d)" for xs by (rule calm_fold) (rule note_offline_gap_calm)
  then have "calm d (forget_connectors which now (fold note_offline_gap xs d))" for which xs
    using calm_trans forget_connectors_calm by blast
  then show ?thesis unfolding expire_chargers_def Let_def using calm_trans calm_points by blast
qed

lemma note_reconnection_calm: "calm d (note_reconnection env p d)"
proof -
  have "calm e (fold (\<lambda>c e. add_session_event c ''reconnected'' None [] e) cs e)" for cs e by (rule calm_fold) simp
  moreover have "calm d (d\<lparr>sessions := map (\<lambda>c. if cs_charge_point_id c = p \<and> cs_ended_at c = None
      then c\<lparr>cs_recovery_at := t\<rparr> else c) (sessions d)\<rparr>)" for t
    by (rule calm_map) (simp add: session_evolves_def regression_def)
  ultimately show ?thesis unfolding note_reconnection_def Let_def using calm_trans by blast
qed

lemma event_put_calm:
  assumes "charging_inv d" and "c \<in> set (sessions d)" and "session_evolves c c'"
  shows "calm d (put_session c' (add_session_event x a who ds d))"
proof (rule calm_trans [OF calm_event [of d x a who ds]], rule calm_put)
  show "charging_inv (add_session_event x a who ds d)" using assms(1) calm_event by (rule calm_inv)
  show "c \<in> set (sessions (add_session_event x a who ds d))" using assms(2) by (simp add: add_session_event_def)
qed (rule assms(3))

lemma note_connector_status_calm:
  assumes "charging_inv d"
  shows "calm d (note_connector_status p n status d)"
proof (cases "find (\<lambda>c. cs_charge_point_id c = p \<and> connector_numbered (cs_connector_id c) n d
    \<and> cs_ended_at c = None) (sessions d)")
  case (Some c)
  have "c \<in> set (sessions d)" using find_Some_iff_set [OF Some] by simp
  then have "calm d (put_session c' (add_session_event x a who ds d))" if "session_evolves c c'" for c' x a who ds
    using event_put_calm [OF assms _ that] by blast
  moreover have "session_evolves c
      (c\<lparr>cs_review_reasons := filter (\<lambda>r. r \<noteq> ''available_with_open_session'') (cs_review_reasons c)\<rparr>)"
    by (simp add: session_evolves_def regression_def)
  ultimately show ?thesis by (simp add: note_connector_status_def Let_def Some)
qed (simp add: note_connector_status_def Let_def)

lemma legacy_idle_calm: "calm d (legacy_idle k status d)"
proof -
  have "calm d (d\<lparr>sessions := map (\<lambda>c. if P c then (if s then (if cs_idle_since c = None then c\<lparr>cs_idle_since := Some t\<rparr> else c)
      else c\<lparr>cs_idle_since := None\<rparr>) else c) (sessions d)\<rparr>)" for P s t
    by (rule calm_map) (simp add: session_evolves_def regression_def)
  then show ?thesis by (simp add: legacy_idle_def split: option.split)
qed

lemma report_status_inv:
  assumes inv: "charging_inv d"
  shows "charging_inv (snd (report_status env charger status d))"
proof (cases "sta_connectorId status = 0 \<or> find (reported_connector charger status) (connectors d) = None")
  case True
  then show ?thesis using inv calm_inv [OF inv calm_points] by (auto simp: report_status_def Let_def)
next
  case False
  then obtain k where k: "find (reported_connector charger status) (connectors d) = Some k" by auto
  have nz: "(sta_connectorId status = 0) = False" using False by simp
  define mark where "mark = (\<lambda>x. if reported_connector charger status x
      then x\<lparr>cn_status := sta_status status, cn_raw_ocpp_status := Some (sta_status status),
        cn_status_updated_at := rt_utcnow (ce_rt env), cn_last_status_notification_at :=
          (if sta_timestamp status = None then cn_last_status_notification_at x else sta_timestamp status)\<rparr> else x)"
  define d1 where "d1 = d\<lparr>connectors := map mark (connectors d)\<rparr>"
  define d2 where "d2 = legacy_idle (cn_id k) status (note_status env (cn_id k) (sta_status status) (sta_timestamp status) d1)"
  have hit: "k \<in> set (connectors d)" "reported_connector charger status k"
    using find_Some_iff_set [OF k] by simp_all
  have "calm d d1" unfolding d1_def
    by (rule calm_connectors) (auto simp: mark_def connector_forward_def reported_connector_def split: option.splits)
  then have inv1: "charging_inv d1" using inv by (rule calm_inv [rotated])
  have "\<exists>x\<in>set (connectors d1). cn_id x = cn_id k \<and> cn_last_status_notification_at x = Some t"
    if "sta_timestamp status = Some t" for t
    using that hit by (intro bexI [of _ "mark k"]) (auto simp: d1_def mark_def)
  then have inv2: "charging_inv d2"
    unfolding d2_def using calm_inv [OF note_status_inv [OF inv1] legacy_idle_calm] by blast
  have "calm d2 (d2\<lparr>connector_errors := es\<rparr>)" for es by (rule calm_rows) simp_all
  then have "charging_inv (d2\<lparr>connector_errors := es\<rparr>)" for es using calm_inv [OF inv2] by blast
  moreover have "snd (report_status env charger status d) = (if sta_errorCode status = ''NoError'' then d2
      else d2\<lparr>connector_errors := connector_errors d2 @ [\<lparr>ke_connector_id = cn_id k, ke_error_code = sta_errorCode status,
        ke_vendor_error_code = sta_vendorErrorCode status, ke_occurred_at = rt_utcnow (ce_rt env), ke_details = sta_info status\<rparr>]\<rparr>)"
    unfolding report_status_def Let_def d2_def d1_def mark_def using nz k by (simp only: if_False option.case snd_conv)
  ultimately show ?thesis using inv2 by simp
qed

lemma calm_fold_inv: "(\<And>x e. charging_inv e \<Longrightarrow> calm e (f x e)) \<Longrightarrow> charging_inv d \<Longrightarrow> calm d (fold f xs d)"
proof (induction xs arbitrary: d)
  case (Cons x xs)
  then show ?case using calm_trans [of d "f x d"] calm_inv by simp
qed simp

lemma flag_abnormal_calm:
  assumes "charging_inv d" and "c \<in> set (sessions d)"
  shows "calm d (flag_abnormal env p c d)"
proof -
  have "session_evolves c (review r (c\<lparr>cs_abnormal_since := t\<rparr>))" for r t
    by (rule session_evolves_trans [OF _ review_evolves]) (simp add: session_evolves_def regression_def)
  then show ?thesis using event_put_calm [OF assms] by (simp add: flag_abnormal_def Let_def)
qed

lemma flag_abnormal_others:
  "x \<in> set (sessions d) \<Longrightarrow> cs_id x \<noteq> cs_id c \<Longrightarrow> x \<in> set (sessions (flag_abnormal env p c d))"
  by (force simp: flag_abnormal_def Let_def put_session_def add_session_event_def set_update_row)

lemma flag_abnormal_fold_calm:
  "charging_inv d \<Longrightarrow> set cs \<subseteq> set (sessions d) \<Longrightarrow> distinct (map cs_id cs) \<Longrightarrow> calm d (fold (flag_abnormal env p) cs d)"
proof (induction cs arbitrary: d)
  case (Cons c cs)
  have calm: "calm d (flag_abnormal env p c d)" using flag_abnormal_calm Cons.prems by simp
  have "set cs \<subseteq> set (sessions (flag_abnormal env p c d))"
    using Cons.prems(2,3) by (auto intro!: flag_abnormal_others simp: image_iff)
  then show ?case
    using Cons.IH [OF calm_inv [OF Cons.prems(1) calm]] Cons.prems(3) calm_trans [OF calm] by simp
qed simp

lemma flag_abnormal_sessions_calm:
  assumes "charging_inv d"
  shows "calm d (flag_abnormal_sessions env busy d)"
  unfolding flag_abnormal_sessions_def
proof (rule calm_fold_inv [OF _ assms], rule flag_abnormal_fold_calm)
  fix e :: db and P assume "charging_inv e"
  then show "distinct (map cs_id (filter P (sessions e)))" by (simp add: charging_invD(5) distinct_map_filter)
qed auto

lemma manual_close_calm:
  assumes inv: "charging_inv d" and c: "c \<in> set (sessions d)"
    and ok: "manual_close env actor_id reason authorization event_id c d = Inr (c1, d2)"
  shows "calm d d2"
proof -
  obtain latest where latest: "latest_reading (cs_id c) (\<lambda>_. True) d = Some latest"
    using ok by (auto simp: manual_close_def split: if_splits option.splits)
  have "cs_ended_at c = None" using ok by (auto simp: manual_close_def split: if_splits)
  then have "session_evolves c (closed_row now actor_id reason v e c)" for now v e
    unfolding closed_row_def by (intro session_evolves_trans [OF _ review_evolves]) (simp add: session_evolves_def regression_def)
  then have "calm d (put_session (closed_row now actor_id reason v e c) (add_session_event c a who ds d))" for now v e a who ds
    by (rule event_put_calm [OF inv c])
  moreover have "calm d1 d2" if "ghi_nhat_ky a x ot oi data p r d1 = Inr d2" for a x ot oi data p r d1
    using ghi_nhat_ky_frame [OF that] by (auto intro!: calm_rows)
  ultimately have closed: "calm d d2" if "ghi_nhat_ky a x ot oi data p r
      (put_session (closed_row now actor_id reason v e c) (add_session_event c a' who ds d)) = Inr d2"
    for a x ot oi data p r now v e a' who ds using that calm_trans by blast
  then show ?thesis
    using ok by (auto simp: manual_close_def latest Let_def split: if_splits dest!: closed)
qed

end
