(* ===== verification/Charging_Samples.thy ===== *)
theory Charging_Samples
  imports Charging_Watch
begin

text \<open>
  The samples of a report: whichever way they arrive, in order or filling gaps after a reconnection,
  a series of a session holds one point per instant, and the main energy register rises unless the
  session is marked with a regression.
\<close>

section \<open>The points of a series\<close>

definition series_points :: "int \<Rightarrow> meter_sample list \<Rightarrow> series \<Rightarrow> point list" where
  "series_points i ms key = map (\<lambda>m. (ms_timestamp m, ms_value m))
     (filter (\<lambda>m. ms_session_id m = i \<and> sample_series m = key) ms)"

lemma history_of_points: "history_of i d = series_points i (meter_samples d)"
  by (intro ext) (simp add: history_of_def series_points_def)

lemma series_points_append: "series_points i (xs @ ys) key = series_points i xs key @ series_points i ys key"
  by (simp add: series_points_def)

lemma new_sample_fields [simp]:
  "ms_session_id (new_sample c stamp key value unit) = cs_id c" "sample_series (new_sample c stamp key value unit) = key"
  "ms_timestamp (new_sample c stamp key value unit) = stamp" "ms_value (new_sample c stamp key value unit) = value"
  "sample_key (new_sample c stamp key value unit) = (cs_id c, key, stamp)"
  by (cases key; simp add: new_sample_def sample_series_def sample_key_def)+

lemma series_points_new: "series_points i [new_sample c stamp key value unit] key'
    = (if i = cs_id c \<and> key' = key then [(stamp, value)] else [])"
  by (auto simp: series_points_def)

lemma sample_key_points:
  "(i, key, stamp) \<in> sample_key ` set ms \<longleftrightarrow> stamp \<in> fst ` set (series_points i ms key)"
  by (auto simp: series_points_def sample_key_def image_iff)

lemma rising_snoc:
  assumes "rising first points" and "first \<le> v" and "stamp \<notin> fst ` set points"
    and "\<forall>p\<in>set points. fst p < stamp \<longrightarrow> snd p \<le> v" and "\<forall>p\<in>set points. stamp < fst p \<longrightarrow> v \<le> snd p"
  shows "rising first (points @ [(stamp, v)])"
proof -
  have "fst p < stamp" if "p \<in> set points" "fst p \<le> stamp" for p using that assms(3) by (metis image_eqI order_less_le)
  moreover have "stamp < fst p" if "p \<in> set points" "stamp \<le> fst p" for p using that assms(3) by (metis image_eqI order_less_le)
  ultimately show ?thesis using assms(1,2,4,5) by (auto simp: rising_def)
qed

section \<open>Collecting the rows of a report\<close>

definition collected :: "charging_session \<Rightarrow> db \<Rightarrow> charging_session \<Rightarrow> meter_sample list \<Rightarrow> bool" where
  "collected c d c' rows \<longleftrightarrow> session_evolves c c' \<and> (\<forall>m\<in>set rows. ms_session_id m = cs_id c)
    \<and> distinct (map sample_key (meter_samples d @ rows))
    \<and> (\<not> regression c' \<longrightarrow> rising (cs_meter_start_wh c) (series_points (cs_id c) (meter_samples d @ rows) register_series))"

lemma collected_row: "collected c d c' rows \<Longrightarrow> session_evolves c' c1 \<Longrightarrow> collected c d c1 rows"
  unfolding collected_def using session_evolves_trans session_evolves_def by blast

lemma collected_snoc:
  assumes col: "collected c d c' rows" and c1: "session_evolves c' c1"
    and new: "stamp \<notin> fst ` set (series_points (cs_id c) (meter_samples d @ rows) key)"
    and up: "key = register_series \<Longrightarrow> \<not> regression c1 \<Longrightarrow>
      rising (cs_meter_start_wh c) (series_points (cs_id c) (meter_samples d @ rows) key @ [(stamp, value)])"
  shows "collected c d c1 (rows @ [new_sample c' stamp key value unit])"
proof -
  have id: "cs_id c' = cs_id c" using col by (simp add: collected_def session_evolves_def)
  have "(cs_id c, key, stamp) \<notin> sample_key ` set (meter_samples d @ rows)" using new by (simp only: sample_key_points not_False_eq_True)
  then have "distinct (map sample_key (meter_samples d @ rows @ [new_sample c' stamp key value unit]))"
    using col id by (auto simp: collected_def)
  moreover have "rising (cs_meter_start_wh c)
      (series_points (cs_id c) (meter_samples d @ rows @ [new_sample c' stamp key value unit]) register_series)"
    if "\<not> regression c1"
  proof (cases "key = register_series")
    case True
    then show ?thesis using up [OF True that] id by (simp add: series_points_append series_points_new)
  next
    case False
    moreover have "\<not> regression c'" using that c1 by (auto simp: session_evolves_def)
    ultimately show ?thesis using col by (auto simp: collected_def series_points_append series_points_new)
  qed
  ultimately show ?thesis
    using col c1 id session_evolves_trans unfolding collected_def by auto
qed

section \<open>Points in order\<close>

definition taking :: "charging_session \<Rightarrow> db \<Rightarrow> intake \<Rightarrow> bool" where
  "taking c d = (\<lambda>(c', latest, rows). collected c d c' rows
    \<and> (\<forall>key. latest key = newest_by fst (series_points (cs_id c) (meter_samples d @ rows) key)))"

lemma taking_row: "taking c d (c', latest, rows) \<Longrightarrow> session_evolves c' c1 \<Longrightarrow> taking c d (c1, latest, rows)"
  by (simp add: taking_def) (blast intro: collected_row)

lemma taking_snoc:
  assumes t: "taking c d (c', latest, rows)" and c1: "session_evolves c' c1"
    and last: "\<And>p. latest key = Some p \<Longrightarrow> fst p < stamp"
    and up: "key = register_series \<Longrightarrow> \<not> regression c1 \<Longrightarrow>
      (case latest key of None \<Rightarrow> cs_meter_start_wh c | Some p \<Rightarrow> snd p) \<le> value"
  shows "taking c d (c1, latest(key \<mapsto> (stamp, value)), rows @ [new_sample c' stamp key value unit])"
proof -
  let ?points = "series_points (cs_id c) (meter_samples d @ rows)"
  have col: "collected c d c' rows" and latest: "latest k = newest_by fst (?points k)" for k
    using t unfolding taking_def prod.case by blast+
  have id: "cs_id c' = cs_id c" using col by (simp add: collected_def session_evolves_def)
  have before: "fst p < stamp" if p: "p \<in> set (?points key)" for p
  proof -
    obtain q where q: "newest_by fst (?points key) = Some q" using p by (cases "newest_by fst (?points key)") auto
    then have "fst q < stamp" using last [of q] latest [of key] by simp
    moreover have "fst p \<le> fst q" using newest_by_Some [OF q] p by blast
    ultimately show ?thesis by (rule order_le_less_trans [rotated])
  qed
  have rise: "rising (cs_meter_start_wh c) (?points key @ [(stamp, value)])" if k: "key = register_series" "\<not> regression c1"
  proof (rule rising_snoc)
    have "\<not> regression c'" using k(2) c1 by (auto simp: session_evolves_def)
    then show r: "rising (cs_meter_start_wh c) (?points key)" using col k(1) by (simp add: collected_def)
    show "stamp \<notin> fst ` set (?points key)" using before by fastforce
    show "\<forall>p\<in>set (?points key). stamp < fst p \<longrightarrow> value \<le> snd p" using before by fastforce
    have "cs_meter_start_wh c \<le> value \<and> (\<forall>p\<in>set (?points key). snd p \<le> value)"
    proof (cases "newest_by fst (?points key)")
      case None
      then show ?thesis using up [OF k] latest [of key] by simp
    next
      case (Some q)
      then have "snd q \<le> value" using up [OF k] latest [of key] by simp
      moreover have "cs_meter_start_wh c \<le> snd q" "\<forall>p\<in>set (?points key). snd p \<le> snd q"
        using newest_by_Some [OF Some] r by (auto simp: rising_def)
      ultimately show ?thesis by fastforce
    qed
    then show "cs_meter_start_wh c \<le> value" "\<forall>p\<in>set (?points key). fst p < stamp \<longrightarrow> snd p \<le> value" by auto
  qed
  have "collected c d c1 (rows @ [new_sample c' stamp key value unit])"
    by (rule collected_snoc [OF col c1 _ rise]) (use before in fastforce)+
  moreover have "(latest(key \<mapsto> (stamp, value))) k
      = newest_by fst (series_points (cs_id c) (meter_samples d @ rows @ [new_sample c' stamp key value unit]) k)" for k
    using before latest [of k] id newest_by_Some [of fst "?points key"]
    by (auto simp: series_points_append series_points_new newest_by_snoc simp flip: append_assoc split: option.split)
  ultimately show ?thesis by (simp add: taking_def)
qed

lemma take_point_taking:
  assumes t: "taking c d s"
  shows "taking c d (take_point stamp key value unit s)"
proof -
  obtain c' latest rows where s: "s = (c', latest, rows)" by (cases s) auto
  have t: "taking c d (c', latest, rows)" using t by (simp add: s)
  have same: "cs_started_at c' = cs_started_at c" "cs_meter_start_wh c' = cs_meter_start_wh c"
    using t by (simp_all add: taking_def collected_def session_evolves_def)
  have snoc: "taking c d (c1, latest(key \<mapsto> (stamp, value)), rows @ [new_sample c' stamp key value unit])"
    if "session_evolves c' c1" "\<And>p. latest key = Some p \<Longrightarrow> fst p < stamp" "key = register_series \<Longrightarrow> \<not> regression c1 \<Longrightarrow>
      (case latest key of None \<Rightarrow> cs_meter_start_wh c | Some p \<Rightarrow> snd p) \<le> value" for c1
    using taking_snoc [OF t that] by blast
  have reg: "fst register_series = ''Energy.Active.Import.Register''" by (simp add: register_series_def)
  have marked: "regression (review ''meter_regression'' c')" by (simp add: regression_def)
  show ?thesis
  proof (cases "latest key")
    case None
    show ?thesis
      using None snoc [of c'] snoc [of "review ''meter_regression'' c'"] taking_row [OF t] t marked same reg
      by (auto simp: s take_point_def Let_def)
  next
    case (Some p)
    obtain a b where p: "p = (a, b)" by (cases p)
    have snoc': "taking c d (c1, latest(key \<mapsto> (stamp, value)), rows @ [new_sample c' stamp key value unit])"
      if "session_evolves c' c1" "a < stamp" "key = register_series \<Longrightarrow> \<not> regression c1 \<Longrightarrow> b \<le> value" for c1
    proof (rule snoc [OF that(1)])
      show "(case latest key of None \<Rightarrow> cs_meter_start_wh c | Some p \<Rightarrow> snd p) \<le> value"
        if "key = register_series" "\<not> regression c1" using \<open>key = register_series \<Longrightarrow> \<not> regression c1 \<Longrightarrow> b \<le> value\<close> that
        unfolding Some p by simp
    qed (use that(2) Some p in simp)
    have low: "taking c d (review ''meter_regression'' c', latest(key \<mapsto> (stamp, value)), rows @ [new_sample c' stamp key value unit])"
      if "a < stamp" by (rule snoc') (use that marked in simp_all)
    have high: "taking c d (c', latest(key \<mapsto> (stamp, value)), rows @ [new_sample c' stamp key value unit])"
      if "a < stamp" "\<not> (fst key = ''Energy.Active.Import.Register'' \<and> value < b)" by (rule snoc') (use that reg in auto)
    show ?thesis
      using low high taking_row [OF t] t by (auto simp: s take_point_def Let_def Some p)
  qed
qed

section \<open>Points that fill gaps\<close>

definition recovering :: "charging_session \<Rightarrow> db \<Rightarrow> recovery \<Rightarrow> bool" where
  "recovering c d = (\<lambda>(c', history, rows). collected c d c' rows
    \<and> history = series_points (cs_id c) (meter_samples d @ rows))"

lemma neighbours_bound:
  assumes r: "rising first points" and start: "cs_meter_start_wh c = first"
    and n: "neighbours c register_series stamp points = (previous, following)"
    and low: "\<not> (case previous of None \<Rightarrow> False | Some v \<Rightarrow> value < v)"
    and high: "\<not> (case following of None \<Rightarrow> False | Some v \<Rightarrow> v < value)"
  shows "first \<le> value" "\<forall>p\<in>set points. fst p < stamp \<longrightarrow> snd p \<le> value" "\<forall>p\<in>set points. stamp < fst p \<longrightarrow> value \<le> snd p"
proof -
  let ?before = "filter (\<lambda>p. fst p < stamp) points" and ?after = "filter (\<lambda>p. stamp < fst p) points"
  have up: "first \<le> snd p" "fst p \<le> fst q \<Longrightarrow> snd p \<le> snd q" if "p \<in> set points" "q \<in> set points" for p q
    using r that by (auto simp: rising_def)
  have "first \<le> value \<and> (\<forall>p\<in>set ?before. snd p \<le> value)"
  proof (cases "newest_by fst ?before")
    case None
    then show ?thesis using n low start by (auto simp: neighbours_def Let_def)
  next
    case (Some q)
    have "snd q \<le> value" using Some n low by (auto simp: neighbours_def Let_def)
    moreover have q: "q \<in> set points" "\<forall>p\<in>set ?before. fst p \<le> fst q" using newest_by_Some [OF Some] by auto
    then have "first \<le> snd q" "\<forall>p\<in>set ?before. snd p \<le> snd q" using up [OF _ q(1)] by auto
    ultimately show ?thesis by fastforce
  qed
  then show "first \<le> value" "\<forall>p\<in>set points. fst p < stamp \<longrightarrow> snd p \<le> value" by auto
  show "\<forall>p\<in>set points. stamp < fst p \<longrightarrow> value \<le> snd p"
  proof (cases "newest_by (\<lambda>p. - fst p) ?after")
    case None
    then show ?thesis by (simp add: filter_empty_conv)
  next
    case (Some q)
    have "value \<le> snd q" using Some n high by (auto simp: neighbours_def Let_def)
    moreover have q: "q \<in> set points" "\<forall>p\<in>set ?after. fst q \<le> fst p" using newest_by_Some [OF Some] by auto
    then have "\<forall>p\<in>set ?after. snd q \<le> snd p" using up [OF q(1)] by auto
    ultimately show ?thesis by fastforce
  qed
qed

lemma recover_point_recovering:
  assumes rec: "recovering c d s"
  shows "recovering c d (recover_point stamp key value unit s)"
proof -
  obtain c' history rows where s: "s = (c', history, rows)" by (cases s) auto
  let ?points = "series_points (cs_id c) (meter_samples d @ rows)"
  have col: "collected c d c' rows" and h: "history = ?points" using rec by (simp_all add: s recovering_def)
  have same: "cs_id c' = cs_id c" "cs_meter_start_wh c' = cs_meter_start_wh c"
    using col by (simp_all add: collected_def session_evolves_def)
  show ?thesis
  proof (cases "map_of (history key) stamp")
    case (Some old)
    then show ?thesis using collected_row [OF col] col h by (simp add: s recover_point_def recovering_def)
  next
    case None
    obtain previous following where n: "neighbours c' key stamp (history key) = (previous, following)" by (cases "neighbours c' key stamp (history key)")
    define bad where "bad \<longleftrightarrow> fst key = ''Energy.Active.Import.Register'' \<and> ((case previous of None \<Rightarrow> False | Some v \<Rightarrow> value < v)
      \<or> (case following of None \<Rightarrow> False | Some v \<Rightarrow> v < value))"
    define c1 where "c1 = (if bad then review ''meter_regression'' c' else c')"
    have c1: "session_evolves c' c1" by (simp add: c1_def)
    have fresh: "stamp \<notin> fst ` set (?points key)" using None h by (simp add: map_of_eq_None_iff)
    have "rising (cs_meter_start_wh c) (?points key @ [(stamp, value)])" if k: "key = register_series" "\<not> regression c1"
    proof -
      have nb: "\<not> bad" using k(2) by (auto simp: c1_def regression_def)
      have "\<not> regression c'" using k(2) c1 by (auto simp: session_evolves_def)
      then have r: "rising (cs_meter_start_wh c) (?points key)" using col k(1) by (simp add: collected_def)
      have "fst key = ''Energy.Active.Import.Register''" using k(1) by (simp add: register_series_def)
      then have "\<not> (case previous of None \<Rightarrow> False | Some v \<Rightarrow> value < v)" "\<not> (case following of None \<Rightarrow> False | Some v \<Rightarrow> v < value)"
        using nb by (simp_all add: bad_def)
      then show ?thesis
        using neighbours_bound [OF r same(2)] n rising_snoc [OF r _ fresh] k(1) h by metis
    qed
    then have "collected c d c1 (rows @ [new_sample c' stamp key value unit])" by (rule collected_snoc [OF col c1 fresh])
    moreover have "recover_point stamp key value unit s
        = (c1, history(key := history key @ [(stamp, value)]), rows @ [new_sample c' stamp key value unit])"
      by (simp add: s recover_point_def None n c1_def bad_def)
    moreover have "history(key := history key @ [(stamp, value)])
        = series_points (cs_id c) (meter_samples d @ rows @ [new_sample c' stamp key value unit])"
      by (intro ext) (simp add: h same(1) series_points_append series_points_new)
    ultimately show ?thesis by (simp add: recovering_def)
  qed
qed

section \<open>Storing the rows\<close>

lemma res_fold_kept:
  assumes "\<And>x s s'. x \<in> set xs \<Longrightarrow> P s \<Longrightarrow> f x s = Inr s' \<Longrightarrow> P s'"
  shows "P s \<Longrightarrow> res_fold f xs s = Inr s' \<Longrightarrow> P s'"
  using assms by (induction xs arbitrary: s) auto

text \<open>An operation on a session row, its intervals and its samples.\<close>

definition worked :: "charging_session \<times> db \<Rightarrow> charging_session \<times> db \<Rightarrow> bool" where
  "worked s s' \<longleftrightarrow> session_evolves (fst s) (fst s') \<and> sessions (snd s') = sessions (snd s)
    \<and> session_seq (snd s') = session_seq (snd s) \<and> connectors (snd s') = connectors (snd s)
    \<and> (intervals_ok (snd s) \<longrightarrow> intervals_ok (snd s'))
    \<and> distinct (map sample_key (meter_samples (snd s')))
    \<and> (\<forall>m\<in>set (meter_samples (snd s')). ms_session_id m < session_seq (snd s))
    \<and> (\<forall>i. i \<noteq> cs_id (fst s) \<longrightarrow> history_of i (snd s') = history_of i (snd s))
    \<and> (\<not> regression (fst s') \<longrightarrow> rising (cs_meter_start_wh (fst s)) (history_of (cs_id (fst s)) (snd s') register_series))"

lemma worked_tended: "worked s t \<Longrightarrow> tended t u \<Longrightarrow> worked s u"
  unfolding worked_def tended_def history_of_points using session_evolves_trans by (auto simp: session_evolves_def)

lemma row_worked: "session_evolves c c0 \<Longrightarrow> worked (c0, d) t \<Longrightarrow> worked (c, d) t"
  unfolding worked_def using session_evolves_trans by (auto simp: session_evolves_def)

lemma worked_inv:
  assumes inv: "charging_inv d" and c: "c \<in> set (sessions d)" and w: "worked (c, d) (c', d')"
  shows "charging_inv (put_session c' d')"
proof -
  have eq: "sessions d' = sessions d" "session_seq d' = session_seq d" "connectors d' = connectors d" and ev: "session_evolves c c'"
    using w by (simp_all add: worked_def)
  have mem: "c \<in> set (sessions d')" and dist: "distinct (map cs_id (sessions d'))"
    using c eq charging_invD(5) [OF inv] by simp_all
  have rows: "rows_evolve (sessions d') (sessions (put_session c' d'))" using put_session_evolves [OF dist mem ev] .
  have ok: "connectors_ok d'" "sessions_ok d'" "intervals_ok d'"
    using inv w eq by (simp_all add: charging_inv_def worked_def connectors_ok_def sessions_ok_def)
  have "rising (cs_meter_start_wh x) (history_of (cs_id x) d' register_series)"
    if x: "x \<in> set (sessions (put_session c' d'))" "\<not> regression x" for x
  proof (cases "cs_id x = cs_id c")
    case True
    then have "x = c'" using x(1) ev by (auto simp: put_session_def set_update_row session_evolves_def)
    then show ?thesis using w x(2) ev by (auto simp: worked_def session_evolves_def)
  next
    case False
    then have "x \<in> set (sessions d)" using x(1) ev eq by (auto simp: put_session_def set_update_row session_evolves_def)
    then show ?thesis using False w x(2) charging_invD(4) [OF inv] by (auto simp: worked_def samples_ok_def)
  qed
  then have "samples_ok (put_session c' d')" using w by (auto simp: samples_ok_def worked_def history_of_def)
  then show ?thesis
    using sessions_ok_evolve [OF ok(2) rows] intervals_ok_evolve [OF ok(3) rows] ok(1)
    by (simp add: charging_inv_def connectors_ok_def)
qed

lemma insert_meter_rows_worked:
  assumes col: "collected c d c' rows" and inv: "samples_ok d" and c: "cs_id c < session_seq d"
    and ok: "insert_meter_rows rows d = Inr d'"
  shows "worked (c, d) (c', d')"
proof -
  define stored where "stored = map (\<lambda>(i, m). m\<lparr>ms_id := i\<rparr>) (zip (map (\<lambda>k. sample_seq d + int k) [0..<length rows]) rows)"
  have d': "d' = d\<lparr>meter_samples := meter_samples d @ stored, sample_seq := sample_seq d + int (length rows)\<rparr>"
    using ok by (simp add: insert_meter_rows_def stored_def split: if_splits)
  have field: "map f stored = map f rows" if "\<And>i m. f (m\<lparr>ms_id := i\<rparr>) = f m" for f :: "meter_sample \<Rightarrow> 'z"
    by (rule nth_equalityI) (simp_all add: stored_def that)
  have keys: "map sample_key stored = map sample_key rows" by (rule field) (simp add: sample_key_def sample_series_def)
  have "map (\<lambda>m. (ms_session_id m, sample_series m, ms_timestamp m, ms_value m)) stored
      = map (\<lambda>m. (ms_session_id m, sample_series m, ms_timestamp m, ms_value m)) rows"
    by (rule field) (simp add: sample_series_def)
  then have points: "series_points i stored = series_points i rows" for i
    by (intro ext) (induction stored rows rule: list_induct2', auto simp: series_points_def)
  have ids: "ms_session_id ` set stored = ms_session_id ` set rows"
    using arg_cong [OF field [of ms_session_id], of set] by simp
  have "distinct (map sample_key (meter_samples d'))" using col keys by (simp add: d' collected_def flip: set_map)
  moreover have "ms_session_id m < session_seq d" if "m \<in> set (meter_samples d')" for m
  proof -
    have "ms_session_id m \<in> ms_session_id ` set stored" if "m \<in> set stored" using that by blast
    then show ?thesis using that inv c col unfolding ids by (auto simp: d' samples_ok_def collected_def)
  qed
  moreover have "history_of i d' = history_of i d" if "i \<noteq> cs_id c" for i
    using that col by (intro ext) (auto simp: history_of_points d' series_points_append points,
      auto simp: series_points_def collected_def filter_empty_conv)
  moreover have "\<not> regression c' \<Longrightarrow> rising (cs_meter_start_wh c) (history_of (cs_id c) d' register_series)"
    using col by (simp add: collected_def history_of_points d' series_points_append points)
  moreover have "intervals_ok d' = intervals_ok d" by (rule intervals_ok_cong) (simp_all add: d')
  ultimately show ?thesis using col by (auto simp: worked_def collected_def) (simp_all add: d')
qed

lemma collected_start:
  assumes "samples_ok d" and "\<not> regression c \<Longrightarrow> rising (cs_meter_start_wh c) (history_of (cs_id c) d register_series)"
  shows "collected c d c []"
  using assms by (simp add: collected_def samples_ok_def history_of_points)

lemma recovery_kept:
  fixes blocks :: "meter_block list"
  assumes start: "collected c d c []"
    and fold: "res_fold (\<lambda>b s. if in_session c (mb_timestamp b)
        then res_fold (recover_sample (mb_timestamp b)) (mb_sampledValue b) s else Inr s)
      blocks (c, history_of (cs_id c) d, []) = Inr (c1, h, rows)"
  shows "collected c d c1 rows"
proof -
  have "recovering c d (c1, h, rows)"
  proof (rule res_fold_kept [OF _ _ fold])
    show "recovering c d (c, history_of (cs_id c) d, [])" using start by (simp add: recovering_def history_of_points)
    have one: "recovering c d s'" if "recovering c d s" "recover_sample t x s = Inr s'" for t x s s'
      using that by (auto simp: recover_sample_def split: option.splits intro!: recover_point_recovering)
    show "recovering c d s'" if "recovering c d s" "(if in_session c (mb_timestamp b)
        then res_fold (recover_sample (mb_timestamp b)) (mb_sampledValue b) s else Inr s) = Inr s'" for b :: meter_block and s s'
      using that res_fold_kept [of _ "recovering c d" "recover_sample (mb_timestamp b)" s s'] one by (auto split: if_splits)
  qed
  then show ?thesis by (simp add: recovering_def)
qed

lemma intake_kept:
  fixes blocks :: "meter_block list"
  assumes start: "collected c d c []"
    and fold: "res_fold (\<lambda>b. res_fold (store_sample (mb_timestamp b)) (mb_sampledValue b)) blocks
      (c, latest_of (cs_id c) d, []) = Inr (c1, h, rows)"
  shows "collected c d c1 rows"
proof -
  have "taking c d (c1, h, rows)"
  proof (rule res_fold_kept [OF _ _ fold])
    show "taking c d (c, latest_of (cs_id c) d, [])" using start by (simp add: taking_def latest_of_def history_of_points)
    have one: "taking c d s'" if "taking c d s" "store_sample t x s = Inr s'" for t x s s'
      using that by (auto simp: store_sample_def split: option.splits intro!: take_point_taking)
    show "taking c d s'" if "taking c d s" "res_fold (store_sample (mb_timestamp b)) (mb_sampledValue b) s = Inr s'"
      for b :: meter_block and s s'
      using that res_fold_kept [of _ "taking c d" "store_sample (mb_timestamp b)" s s'] one by auto
  qed
  then show ?thesis by (simp add: taking_def)
qed

lemma store_samples_worked:
  assumes inv: "samples_ok d" and c: "cs_id c < session_seq d"
    and r: "\<not> regression c \<Longrightarrow> rising (cs_meter_start_wh c) (history_of (cs_id c) d register_series)"
    and ok: "store_samples backfill c blocks d = Inr (c', d')"
  shows "worked (c, d) (c', d')"
proof -
  have start: "collected c d c []" using inv r by (rule collected_start)
  have stored: "worked (c, d) (c1, d1)" if "collected c d c1 rows" "insert_meter_rows rows d = Inr d1" for c1 rows d1
    by (rule insert_meter_rows_worked [OF that(1) inv c that(2)])
  have none: "worked (c, d) (c1, d)" if "collected c d c1 []" for c1
    using that inv by (auto simp: worked_def collected_def samples_ok_def history_of_points)
  show ?thesis
  proof (cases backfill)
    case True
    then show ?thesis
      using ok stored recovery_kept [OF start] by (fastforce simp: store_samples_def store_recovery_samples_def)
  next
    case False
    then show ?thesis
      using ok stored none intake_kept [OF start] by (fastforce simp: store_samples_def split: if_splits)
  qed
qed

end
