(* ===== verification/Charging_System.thy ===== *)
theory Charging_System
  imports Charging_Samples
begin

text \<open>
  The charging handlers as transactions: a start, a stop and a report of meter values keep the
  invariant of the charging tables, and so do runs that interleave them with monitoring, recovery
  and the rest of the program.
\<close>

section \<open>Neighbouring tables\<close>

lemma noted_calm: "noted d d' \<Longrightarrow> calm d d'"
  by (elim notedE) (auto intro!: calm_rows)

lemma put_reservation_calm: "calm d (put_reservation r d)"
  by (rule calm_rows) (simp_all add: put_reservation_def)

lemma decide_calm: "decide decision reason now (r, d) = Inr (r', d') \<Longrightarrow> calm d d'"
  by (erule decide_effect) (auto intro!: calm_rows)

lemma event_calm: "calm d (event r a now ds d)"
  by (rule noted_calm [OF noted_event])

lemma mark_late_start_calm:
  assumes "mark_late_start rt source now message (r, d) = Inr (r', d')"
  shows "calm d d'"
proof -
  have tail: "calm x d'" if "ghi_nhat_ky a b c e ds p q (event r1 s now ds' x) = Inr d'" for a b c e ds p q r1 s ds' x
    by (rule calm_trans [OF event_calm noted_calm [OF noted_audit [OF that]]])
  show ?thesis
    using assms by (auto simp: mark_late_start_def Let_def split: if_splits dest!: decide_calm tail intro: calm_trans)
qed

lemma validate_start_calm:
  assumes "validate_start rt cid id_card ocpp_id source now message d = Inr ((ok, found), d')"
  shows "calm d d'"
  using assms
proof (cases rule: validate_start_cases)
  case (late r r1 d1)
  then show ?thesis using mark_late_start_calm put_reservation_calm calm_trans by blast
next
  case (held r)
  then show ?thesis
    by (auto simp: start_on_hold_def Let_def split: if_splits dest!: mark_late_start_calm
        intro: calm_trans [OF _ put_reservation_calm])
qed simp

lemma consume_calm:
  assumes "consume now session_id (r, d) = Inr s"
  shows "calm d (write_back s)"
proof -
  have "calm x (put_reservation r2 (event r2 a now ds x))" for r2 a ds x
    by (rule calm_trans [OF event_calm put_reservation_calm])
  then show ?thesis
    using assms by (auto simp: consume_def write_back_def Let_def split: if_splits dest!: decide_calm intro: calm_trans)
qed

lemma authorize_calm:
  assumes "authorize rt charger tag ctx d = Inr (answer, d')"
  shows "calm d d'"
proof -
  have "calm d (log_attempt charger tag result d)" for result by (rule calm_rows) (simp_all add: log_attempt_def)
  then show ?thesis using assms by (auto simp: authorize_def Let_def split: if_splits option.splits bool.splits)
qed

lemma settle_start_calm: "calm d (settle_start a b e f d)"
  by (rule calm_rows) (simp_all add: settle_start_def split: option.split)

lemma remote_start_calm:
  "calm d (reject_remote_start rt k id_card eligibility d)" "calm d (reject_unavailable_start rt k id_card reason d)"
  "calm d (attach_remote_start rt c id_card d)"
  by (simp_all add: reject_remote_start_def reject_unavailable_start_def attach_remote_start_def settle_start_calm
      split: option.split)

lemma pending_calm: "calm d (pending charger f reason d)"
  by (rule calm_rows) (simp_all add: pending_def)

lemma note_power_start_calm: "calm d (note_power_start a b d)"
  by (rule calm_rows) (simp_all add: note_power_start_def Let_def split: option.split)

lemma refuse_start_calm: "calm d (snd (refuse_start rt charger k f id_card reason d))"
  unfolding refuse_start_def snd_conv using calm_trans remote_start_calm(2) pending_calm by blast

section \<open>Starting\<close>

definition no_open :: "uuid \<Rightarrow> db \<Rightarrow> bool" where
  "no_open cid d \<longleftrightarrow> (\<forall>c\<in>set (sessions d). cs_connector_id c = cid \<longrightarrow> cs_ended_at c \<noteq> None)"

lemma no_open_evolve:
  assumes "no_open cid d" and "rows_evolve (sessions d) (sessions d')"
  shows "no_open cid d'"
  unfolding no_open_def
proof (intro ballI impI)
  fix c' assume c': "c' \<in> set (sessions d')" "cs_connector_id c' = cid"
  obtain c where "c \<in> set (sessions d)" "session_evolves c c'" using rows_evolveD [OF assms(2) c'(1)] .
  then show "cs_ended_at c' \<noteq> None" using assms(1) c'(2) unfolding no_open_def session_evolves_def by metis
qed

lemma replace_open_evolves: "cs_ended_at old = None \<Longrightarrow> session_evolves old (replace_open rt old)"
  by (simp add: replace_open_def session_evolves_def regression_def)

lemma replaced_calm:
  assumes inv: "charging_inv d"
    and d1: "d1 = (case open_session cid d of None \<Rightarrow> d | Some c \<Rightarrow> put_session (replace_open rt c) d)"
  shows "calm d d1" and "no_open cid d1"
proof -
  have "calm d d1 \<and> no_open cid d1"
  proof (cases "open_session cid d")
    case None
    moreover have "d1 = d" using None d1 by simp
    ultimately show ?thesis by (auto simp: open_session_def no_open_def find_None_iff)
  next
    case (Some old)
    then have old: "old \<in> set (sessions d)" "cs_connector_id old = cid" "cs_ended_at old = None"
      using find_Some_iff_set [of _ "sessions d" old] by (auto simp: open_session_def)
    have d1: "d1 = put_session (replace_open rt old) d" using d1 Some by simp
    have calm: "calm d d1" unfolding d1 by (rule calm_put [OF inv old(1) replace_open_evolves [OF old(3)]])
    have "cs_ended_at c \<noteq> None" if c: "c \<in> set (sessions d1)" "cs_connector_id c = cid" for c
    proof
      assume none: "cs_ended_at c = None"
      then have "c \<in> set (sessions d)" "cs_id c \<noteq> cs_id old"
        using c(1) by (auto simp: d1 put_session_def set_update_row replace_open_def)
      then show False using charging_invD(2) [OF inv] old c(2) none unfolding sessions_ok_def by blast
    qed
    then show ?thesis using calm by (simp add: no_open_def)
  qed
  then show "calm d d1" "no_open cid d1" by blast+
qed

lemma flag_replaced_calm:
  assumes "charging_inv d"
  shows "calm d (flag_replaced previous d)"
  using calm_put [OF assms _ flag_evolves] row_of_SomeD [of cs_id _ "sessions d"]
  by (auto simp: flag_replaced_def get_session_def split: option.split)

lemma add_session_inv:
  assumes inv: "charging_inv d" and free: "no_open (cs_connector_id c) d" and c: "cs_connector_released_at c = None"
    and ok: "add_session c d = Inr (c1, d1)"
  shows "charging_inv d1"
proof -
  have c1: "c1 = c\<lparr>cs_id := session_seq d\<rparr>" and d1: "d1 = d\<lparr>sessions := sessions d @ [c1], session_seq := session_seq d + 1\<rparr>"
    using ok by (auto simp: add_session_def Let_def split: if_splits)
  have ids: "cs_id x < session_seq d" if "x \<in> set (sessions d)" for x
    using that charging_invD(2) [OF inv] unfolding sessions_ok_def by blast
  have "sessions_ok d1"
    using charging_invD(2) [OF inv] ids free c unfolding sessions_ok_def no_open_def d1 c1 by fastforce
  moreover have "reported_by d1 a b" if "reported_by d a b" for a b
    using that unfolding reported_by_def d1 by auto
  then have "intervals_ok d1" using charging_invD(3) [OF inv] unfolding intervals_ok_def d1 by auto
  moreover have "history_of (session_seq d) d1 key = []" for key
    using charging_invD(4) [OF inv] by (auto simp: samples_ok_def history_of_def d1 filter_empty_conv)
  then have "samples_ok d1"
    using charging_invD(4) [OF inv] by (auto simp: samples_ok_def history_of_def d1 c1 rising_def)
  ultimately show ?thesis using inv by (simp add: charging_inv_def connectors_ok_def d1)
qed

lemma new_session_fields [simp]:
  "cs_connector_id (new_session env charger k payload result id_card replaced) = cn_id k"
  "cs_connector_released_at (new_session env charger k payload result id_card replaced) = None"
  "cs_charge_point_id (new_session env charger k payload result id_card replaced) = cp_id charger"
  "cs_driver_id (new_session env charger k payload result id_card replaced) = map_option cc_driver_id id_card"
  "cs_started_at (new_session env charger k payload result id_card replaced) = stp_timestamp payload"
  "cs_ended_at (new_session env charger k payload result id_card replaced) = None"
  "cs_meter_start_wh (new_session env charger k payload result id_card replaced) = of_int (stp_meterStart payload)"
  by (simp_all add: new_session_def Let_def)

lemma lock_code_calm: "calm d (lock_charge_point_code_for_charging p now d)"
  by (simp add: lock_charge_point_code_for_charging_def)

lemma open_transaction_cases:
  assumes "open_transaction env charger k payload previous result id_card reserved d = Inr ((tid, status), d')"
  obtains d1 c d2 d3 where
    "d1 = flag_replaced previous (case open_session (cn_id k) d of None \<Rightarrow> d | Some c \<Rightarrow> put_session (replace_open (ce_rt env) c) d)"
    "add_session (new_session env charger k payload result id_card (open_session (cn_id k) d \<noteq> None)) d1 = Inr (c, d2)"
    "cs_id c = tid" "status = result"
    "case reserved of None \<Rightarrow> d3 = d2 | Some r \<Rightarrow> \<exists>s. consume (rt_utcnow (ce_rt env)) tid (r, d2) = Inr s \<and> d3 = write_back s"
    "d' = (if result = ''Accepted'' then note_power_start (cp_station_id charger) (cn_id k) else id)
       (attach_remote_start (ce_rt env) c id_card
         (lock_charge_point_code_for_charging (cp_id charger) (rt_utcnow (ce_rt env)) d3))"
proof -
  define rt old where "rt = ce_rt env" and "old = open_session (cn_id k) d"
  define d1 where "d1 = flag_replaced previous (case old of None \<Rightarrow> d | Some c \<Rightarrow> put_session (replace_open rt c) d)"
  define shut where "shut = (\<lambda>c. \<lambda>d3. (if result = ''Accepted'' then note_power_start (cp_station_id charger) (cn_id k) else id)
    (attach_remote_start rt c id_card (lock_charge_point_code_for_charging (cp_id charger) (rt_utcnow rt) d3)))"
  have run: "res_bind (add_session (new_session env charger k payload result id_card (old \<noteq> None)) d1) (\<lambda>(c, d2).
      res_bind (case reserved of None \<Rightarrow> Inr d2
        | Some r \<Rightarrow> res_bind (consume (rt_utcnow rt) (cs_id c) (r, d2)) (\<lambda>s. Inr (write_back s))) (\<lambda>d3.
        Inr ((cs_id c, result), shut c d3))) = Inr ((tid, status), d')"
    using assms unfolding open_transaction_def Let_def rt_def old_def d1_def shut_def if_distrib [of "\<lambda>f. f _"] id_apply
    by (simp only: if_distribR id_apply)
  obtain c d2 where c: "add_session (new_session env charger k payload result id_card (old \<noteq> None)) d1 = Inr (c, d2)"
    and rest: "res_bind (case reserved of None \<Rightarrow> Inr d2
        | Some r \<Rightarrow> res_bind (consume (rt_utcnow rt) (cs_id c) (r, d2)) (\<lambda>s. Inr (write_back s))) (\<lambda>d3.
        Inr ((cs_id c, result), shut c d3)) = Inr ((tid, status), d')"
    using run by (cases "add_session (new_session env charger k payload result id_card (old \<noteq> None)) d1")
      (simp_all only: res_bind_Inl res_bind_Inr split_paired_all prod.case sum.distinct)
  obtain d3 where d3: "(case reserved of None \<Rightarrow> Inr d2
        | Some r \<Rightarrow> res_bind (consume (rt_utcnow rt) (cs_id c) (r, d2)) (\<lambda>s. Inr (write_back s))) = Inr d3"
    "cs_id c = tid" "status = result" "d' = shut c d3" using rest by auto
  have "case reserved of None \<Rightarrow> d3 = d2 | Some r \<Rightarrow> \<exists>s. consume (rt_utcnow rt) tid (r, d2) = Inr s \<and> d3 = write_back s"
    using d3(1,2) by (cases reserved) auto
  then show ?thesis using that [OF _ _ d3(2,3)] c d3(4) unfolding d1_def old_def rt_def shut_def by blast
qed

lemma open_transaction_inv:
  assumes inv: "charging_inv d"
    and ok: "open_transaction env charger k payload previous result id_card reserved d = Inr ((tid, status), d')"
  shows "charging_inv d'"
  using ok
proof (cases rule: open_transaction_cases)
  case (1 d1 c d2 d3)
  define d0 where "d0 = (case open_session (cn_id k) d of None \<Rightarrow> d | Some c \<Rightarrow> put_session (replace_open (ce_rt env) c) d)"
  have d0: "calm d d0" "no_open (cn_id k) d0" using replaced_calm [OF inv d0_def] .
  have inv0: "charging_inv d0" by (rule calm_inv [OF inv d0(1)])
  have calm1: "calm d0 d1" unfolding 1(1) d0_def [symmetric] by (rule flag_replaced_calm [OF inv0])
  have "no_open (cn_id k) d1" using no_open_evolve [OF d0(2)] calm1 by (simp add: calm_def)
  then have inv2: "charging_inv d2" using add_session_inv [OF calm_inv [OF inv0 calm1] _ _ 1(2)] by simp
  have "calm d2 d3" using 1(5) consume_calm by (auto split: option.splits)
  moreover have "calm d3 d'"
  proof -
    let ?e = "attach_remote_start (ce_rt env) c id_card
      (lock_charge_point_code_for_charging (cp_id charger) (rt_utcnow (ce_rt env)) d3)"
    have e: "calm d3 ?e" by (rule calm_trans [OF lock_code_calm remote_start_calm(3)])
    then show ?thesis unfolding 1(6) using calm_trans [OF e note_power_start_calm] by simp
  qed
  ultimately show ?thesis using calm_inv inv2 by blast
qed

text \<open>The ways through \<open>start_transaction\<close>.\<close>

lemma start_transaction_cases:
  assumes "start_transaction env charger f payload d = Inr ((tid, status), d')"
  obtains k result id_card failure d1 allowed reserved d2 where
    "start_connector charger payload d = Some k"
    "authorize (ce_rt env) charger (stp_idTag payload) True d = Inr ((result, id_card, failure), d1)"
    "validate_start (ce_rt env) (cn_id k) id_card (stp_reservationId payload) (stp_timestamp payload)
       (rt_now (ce_rt env)) (Some (fr_message_id f)) d1 = Inr ((allowed, reserved), d2)"
    "(tid = 0 \<and> status = ''Blocked'' \<and> (\<exists>reason. d' = snd (refuse_start (ce_rt env) charger k f id_card reason d2)))
     \<or> (\<exists>e. failure = Some e \<and> tid = 0 \<and> status = ''Blocked''
          \<and> d' = pending charger f (reason_text (el_reason e)) (reject_remote_start (ce_rt env) k id_card e d2))
     \<or> (allowed \<and> failure = None \<and> (reserved \<noteq> None \<longrightarrow> result = ''Accepted'')
          \<and> power_start_allowed (rt_zones (ce_rt env)) (rt_clock (ce_rt env)) (cp_station_id charger) (rt_utcnow (ce_rt env)) d2
          \<and> active_station (cp_station_id charger) d2
          \<and> open_transaction env charger k payload (previous_session charger payload d) result id_card reserved d2
              = Inr ((tid, status), d'))"
proof -
  obtain k where k: "start_connector charger payload d = Some k"
    using assms by (cases "start_connector charger payload d") (auto simp: start_transaction_def Let_def)
  obtain result id_card failure d1 where a: "authorize (ce_rt env) charger (stp_idTag payload) True d = Inr ((result, id_card, failure), d1)"
    using assms k by (auto simp: start_transaction_def Let_def)
  obtain allowed reserved d2 where v: "validate_start (ce_rt env) (cn_id k) id_card (stp_reservationId payload) (stp_timestamp payload)
      (rt_now (ce_rt env)) (Some (fr_message_id f)) d1 = Inr ((allowed, reserved), d2)"
    using assms k a by (auto simp: start_transaction_def Let_def)
  show ?thesis
    by (rule that [OF k a v]) (use assms k a v in \<open>auto simp: start_transaction_def Let_def refuse_start_def split: if_splits option.splits\<close>)
qed

lemma start_transaction_inv:
  assumes inv: "charging_inv d" and ok: "start_transaction env charger f payload d = Inr ((tid, status), d')"
  shows "charging_inv d'"
  using ok
proof (cases rule: start_transaction_cases)
  case (1 k result id_card failure d1 allowed reserved d2)
  have calm: "calm d d2" using calm_trans [OF authorize_calm [OF 1(2)] validate_start_calm [OF 1(3)]] .
  have inv2: "charging_inv d2" by (rule calm_inv [OF inv calm])
  have "charging_inv (snd (refuse_start (ce_rt env) charger k f id_card reason d2))" for reason
    by (rule calm_inv [OF inv2 refuse_start_calm])
  moreover have "charging_inv (pending charger f reason (reject_remote_start (ce_rt env) k id_card e d2))" for reason e
    by (rule calm_inv [OF inv2 calm_trans [OF remote_start_calm(1) pending_calm]])
  ultimately show ?thesis using 1(4) open_transaction_inv [OF inv2] by blast
qed

section \<open>Meter values and stops\<close>

lemma stored_session:
  assumes inv: "charging_inv d" and c: "c \<in> set (sessions d)" and ev: "session_evolves c c0" and reg: "regression c0 = regression c"
    and ok: "store_samples backfill c0 blocks d = Inr (c1, d1)"
  shows "worked (c, d) (c1, d1)"
proof (rule row_worked [OF ev store_samples_worked [OF charging_invD(4) [OF inv] _ _ ok]])
  have same: "cs_id c0 = cs_id c" "cs_meter_start_wh c0 = cs_meter_start_wh c" using ev by (simp_all add: session_evolves_def)
  show "cs_id c0 < session_seq d" using c same charging_invD(2) [OF inv] by (simp add: sessions_ok_def)
  show "rising (cs_meter_start_wh c0) (history_of (cs_id c0) d register_series)" if "\<not> regression c0"
    using c same that reg charging_invD(4) [OF inv] by (simp add: samples_ok_def)
qed

lemma metered_sessionD: "metered_session charger payload d = Some c \<Longrightarrow> c \<in> set (sessions d)"
  unfolding metered_session_def by (drule find_Some_iff_set) simp

lemma charging_meter_values_inv:
  assumes inv: "charging_inv d" and ok: "charging_meter_values charger f payload d = Inr d'"
  shows "charging_inv d'"
proof (cases "metered_session charger payload d")
  case None
  then show ?thesis using ok calm_inv [OF inv pending_calm] by (auto simp: charging_meter_values_def)
next
  case (Some c)
  then have c: "c \<in> set (sessions d)" by (rule metered_sessionD)
  have "charging_inv (put_session c1 d1)" if "store_samples b c (mp_meterValue payload) d = Inr (c1, d1)" for b c1 d1
    by (rule worked_inv [OF inv c stored_session [OF inv c _ _ that]]) simp_all
  then show ?thesis
    using ok calm_inv [OF inv pending_calm] by (auto simp: charging_meter_values_def Some split: if_splits)
qed

lemma stopped_row_evolves: "session_evolves c (stopped_row payload latest c)"
proof -
  define c1 where "c1 = (if (case latest of None \<Rightarrow> False | Some v \<Rightarrow> of_int (spp_meterStop payload) < v)
    then review ''stop_meter_below_latest'' c else c)"
  define c2 where "c2 = c1\<lparr>cs_abnormal_since := None, cs_review_reasons := filter (\<lambda>r. r \<notin> {''offline_timeout'',
    ''available_with_open_session'', ''remote_stop_not_confirmed''}) (cs_review_reasons c1)\<rparr>"
  define c3 where "c3 = (if spp_timestamp payload < cs_started_at c2 then review ''stop_before_start'' c2 else c2)"
  have "session_evolves c c1" unfolding c1_def by simp
  moreover have "session_evolves c1 c2" by (simp add: c2_def session_evolves_def regression_def)
  moreover have "session_evolves c2 c3" unfolding c3_def by simp
  ultimately have c3: "session_evolves c c3" using session_evolves_trans by blast
  have energy: "session_evolves x (x\<lparr>cs_energy_kwh := e\<rparr>)" for x e by (simp add: session_evolves_def regression_def)
  have "session_evolves c ((review ''stop_meter_below_start'' c3)\<lparr>cs_energy_kwh := e\<rparr>)" for e
    using session_evolves_trans [OF session_evolves_trans [OF c3 review_evolves] energy] .
  moreover have "stopped_row payload latest c = (if of_int (spp_meterStop payload) < cs_meter_start_wh c3
        \<or> of_int (spp_meterStop payload) < (0 :: decimal) \<or> cs_meter_start_wh c3 < 0
      then (review ''stop_meter_below_start'' c3)\<lparr>cs_energy_kwh := None\<rparr>
      else if cs_started_at c3 \<le> spp_timestamp payload
      then c3\<lparr>cs_energy_kwh := Some ((of_int (spp_meterStop payload) - cs_meter_start_wh c3) / 1000)\<rparr> else c3)"
    unfolding stopped_row_def Let_def c1_def c2_def c3_def ..
  ultimately show ?thesis using c3 session_evolves_trans [OF c3 energy] by simp
qed

lemma stop_transaction_cases:
  assumes "stop_transaction env charger f payload d = Inr d'"
  obtains (unknown) reason where "d' = pending charger f reason d"
    "\<And>c. find (\<lambda>c. cs_id c = spp_transactionId payload \<and> cs_charge_point_id c = cp_id charger) (sessions d) = Some c
      \<Longrightarrow> cs_ended_at c \<noteq> None"
    "\<And>c. find (\<lambda>c. cs_id c = spp_transactionId payload \<and> cs_charge_point_id c = cp_id charger) (sessions d) = Some c
      \<Longrightarrow> cs_ended_at c \<noteq> None"
    "\<And>c. find (\<lambda>c. cs_id c = spp_transactionId payload \<and> cs_charge_point_id c = cp_id charger) (sessions d) = Some c
      \<Longrightarrow> cs_ended_at c \<noteq> None"
    "\<And>c. find (\<lambda>c. cs_id c = spp_transactionId payload \<and> cs_charge_point_id c = cp_id charger) (sessions d) = Some c
      \<Longrightarrow> cs_ended_at c \<noteq> None"
  | (stopped) c c1 d1 latest d2 c3 d3 where
    "c \<in> set (sessions d)" "cs_id c = spp_transactionId payload" "cs_charge_point_id c = cp_id charger" "cs_ended_at c = None"
    "store_samples (cs_recovery_at c \<noteq> None) (c\<lparr>cs_meter_stop_wh := Some (of_int (spp_meterStop payload)),
        cs_ended_at := Some (spp_timestamp payload), cs_stop_reason := Some (spp_reason payload)\<rparr>)
      (spp_transactionData payload) d = Inr (c1, d1)"
    "latest = map_option ms_value (latest_reading (cs_id c) (\<lambda>m. ms_unit m = ''Wh''
       \<and> cs_started_at c \<le> ms_timestamp m \<and> ms_timestamp m \<le> spp_timestamp payload) d1)"
    "d2 = d1 \<or> (\<exists>ds. d2 = add_session_event c ''late_stop'' None ds d1)"
    "note_stop env (stopped_row payload latest c1, d2) = Inr (c3, d3)"
    "notify_event (rt_zones (ce_rt env)) (ce_retention_days env) (rt_utcnow (ce_rt env)) c3 StopEvent None None None
       (put_session c3 d3) = Inr d'"
proof (cases "find (\<lambda>c. cs_id c = spp_transactionId payload \<and> cs_charge_point_id c = cp_id charger) (sessions d)")
  case None
  then show ?thesis using assms unknown by (auto simp: stop_transaction_def)
next
  case (Some c)
  then have c: "c \<in> set (sessions d)" "cs_id c = spp_transactionId payload" "cs_charge_point_id c = cp_id charger"
    using find_Some_iff_set [OF Some] by simp_all
  show ?thesis
  proof (cases "cs_ended_at c = None")
    case False
    then show ?thesis using assms unknown Some by (auto simp: stop_transaction_def)
  next
    case True
    define c0 where "c0 = c\<lparr>cs_meter_stop_wh := Some (of_int (spp_meterStop payload)),
        cs_ended_at := Some (spp_timestamp payload), cs_stop_reason := Some (spp_reason payload)\<rparr>"
    define latest where "latest = (\<lambda>d1. map_option ms_value (latest_reading (cs_id c) (\<lambda>m. ms_unit m = ''Wh''
       \<and> cs_started_at c \<le> ms_timestamp m \<and> ms_timestamp m \<le> spp_timestamp payload) d1))"
    define late where "late = (\<lambda>d1. if cs_abnormal_since c \<noteq> None \<or> cs_recovery_at c \<noteq> None
       then add_session_event c ''late_stop'' None
         [(''meter_stop_wh'', JStr (str_int (spp_meterStop payload))),
          (''ended_at'', JStr (rt_isoformat (ce_rt env) (spp_timestamp payload)))] d1 else d1)"
    have run: "res_bind (store_samples (cs_recovery_at c \<noteq> None) c0 (spp_transactionData payload) d) (\<lambda>(c1, d1).
        res_bind (note_stop env (stopped_row payload (latest d1) c1, late d1)) (\<lambda>(c3, d3).
          notify_event (rt_zones (ce_rt env)) (ce_retention_days env) (rt_utcnow (ce_rt env)) c3 StopEvent None None None
            (put_session c3 d3))) = Inr d'"
      using assms True unfolding stop_transaction_def Some Let_def c0_def latest_def late_def by (simp only: option.case simp_thms if_False)
    obtain c1 d1 c3 d3 where "store_samples (cs_recovery_at c \<noteq> None) c0 (spp_transactionData payload) d = Inr (c1, d1)"
      "note_stop env (stopped_row payload (latest d1) c1, late d1) = Inr (c3, d3)"
      "notify_event (rt_zones (ce_rt env)) (ce_retention_days env) (rt_utcnow (ce_rt env)) c3 StopEvent None None None
        (put_session c3 d3) = Inr d'"
      using run by auto
    moreover have "late d1 = d1 \<or> (\<exists>ds. late d1 = add_session_event c ''late_stop'' None ds d1)" by (auto simp: late_def)
    ultimately show ?thesis by (intro stopped [OF c True _ latest_def [THEN fun_cong]]) (simp_all only: c0_def)
  qed
qed

lemma stop_transaction_inv:
  assumes inv: "charging_inv d" and ok: "stop_transaction env charger f payload d = Inr d'"
  shows "charging_inv d'"
  using ok
proof (cases rule: stop_transaction_cases)
  case (unknown reason)
  then show ?thesis using calm_inv [OF inv pending_calm] by simp
next
  case (stopped c c1 d1 latest d2 c3 d3)
  have "worked (c, d) (c1, d1)"
    by (rule stored_session [OF inv stopped(1) _ _ stopped(5)]) (simp_all add: session_evolves_def regression_def stopped(4))
  moreover have "tended (c1, d1) (stopped_row payload latest c1, d2)"
    using stopped(7) tended_row [OF stopped_row_evolves] tended_event [OF stopped_row_evolves] by blast
  ultimately have "worked (c, d) (c3, d3)" using worked_tended note_stop_tended [OF stopped(8)] by blast
  then have "charging_inv (put_session c3 d3)" by (rule worked_inv [OF inv stopped(1)])
  moreover have "calm (put_session c3 d3) d'" using notify_event_frame [OF stopped(9)] by (auto intro!: calm_rows)
  ultimately show ?thesis by (rule calm_inv)
qed

lemma charging_call_inv:
  assumes inv: "charging_inv d" and ok: "charging_call env charger f message d = Inr (answer, d')"
  shows "charging_inv d'"
  using ok calm_inv [OF inv authorize_calm] start_transaction_inv [OF inv] charging_meter_values_inv [OF inv]
    stop_transaction_inv [OF inv]
  by (auto simp: charging_call_def split: if_splits charging_message.splits)

section \<open>The rest of the program\<close>

text \<open>
  The contract of a service that leaves intervals, samples and the identity of sessions alone, and
  what it means to run any number of its requests between the messages of a charger.
\<close>

locale calm_service =
  fixes serve :: "'a \<Rightarrow> db \<Rightarrow> exn + 'r \<times> db"
  assumes serve_calm: "charging_inv d \<Longrightarrow> serve a d = Inr (r, d') \<Longrightarrow> calm d d'"
begin

lemma serve_keeps_charging:
  assumes "charging_inv d" and "res_fold (\<lambda>a d. res_bind (serve a d) (\<lambda>(r, d'). Inr d')) requests d = Inr d'"
  shows "charging_inv d' \<and> calm d d'"
  using assms
proof (induction requests arbitrary: d)
  case (Cons a requests)
  then obtain r d1 where d1: "serve a d = Inr (r, d1)"
    and rest: "res_fold (\<lambda>a d. res_bind (serve a d) (\<lambda>(r, d'). Inr d')) requests d1 = Inr d'" by auto
  have calm: "calm d d1" by (rule serve_calm [OF Cons.prems(1) d1])
  then show ?case using Cons.IH [OF calm_inv [OF Cons.prems(1) calm] rest] calm_trans by blast
qed simp

end

interpretation authorization: calm_service "\<lambda>(rt, charger, tag, ctx). authorize rt charger tag ctx"
  by unfold_locales (auto intro: authorize_calm)

interpretation start_check: calm_service
  "\<lambda>(rt, cid, tag, ocpp_id, source, now, message). validate_start rt cid tag ocpp_id source now message"
  by unfold_locales (auto intro: validate_start_calm)

interpretation watch: calm_service "\<lambda>(now, p) d. Inr (lock_and_mark_seen now p d)"
proof unfold_locales
  show "calm d d'" if "(case a of (now, p) \<Rightarrow> \<lambda>d. Inr (lock_and_mark_seen now p d)) d = Inr (r, d')" for d a r d'
    using that lock_and_mark_seen_calm [of d "fst a" "snd a"] by (auto split: prod.splits)
qed

interpretation operator_close: calm_service
  "\<lambda>(env, actor, reason, evidence, event_id, i) d. case row_of cs_id i (sessions d) of
     None \<Rightarrow> Inl (http 404 ''resource_not_found'') | Some c \<Rightarrow> manual_close env actor reason evidence event_id c d"
  by unfold_locales (auto split: option.splits dest!: row_of_SomeD intro: manual_close_calm)

section \<open>Runs\<close>

text \<open>The tables before the first session.\<close>

definition no_charging :: "db \<Rightarrow> bool" where
  "no_charging d \<longleftrightarrow> sessions d = [] \<and> occupation_intervals d = [] \<and> meter_samples d = [] \<and> distinct (map cn_id (connectors d))"

inductive charging_step :: "db \<Rightarrow> db \<Rightarrow> bool" where
  call: "charging_call env charger f message d = Inr (answer, d') \<Longrightarrow> charging_step d d'"
| status: "charging_step d (snd (report_status env charger status d))"
| connector_status: "charging_step d (note_connector_status p n s d)"
| seen: "charging_step d (mark_seen now p d)"
| locked: "charging_step d (snd (lock_and_mark_seen now p d))"
| expired: "charging_step d (expire_chargers now busy d)"
| reconnected: "charging_step d (note_reconnection env p d)"
| abnormal: "charging_step d (flag_abnormal_sessions env busy d)"
| closed: "c \<in> set (sessions d) \<Longrightarrow> manual_close env actor reason evidence event_id c d = Inr (c1, d') \<Longrightarrow> charging_step d d'"
| installed: "cn_id k \<notin> cn_id ` set (connectors d) \<Longrightarrow> charging_step d (d\<lparr>connectors := connectors d @ [k]\<rparr>)"
| elsewhere: "calm d d' \<Longrightarrow> charging_step d d'"

lemma installed_inv:
  assumes inv: "charging_inv d" and k: "cn_id k \<notin> cn_id ` set (connectors d)"
  shows "charging_inv (d\<lparr>connectors := connectors d @ [k]\<rparr>)"
proof -
  let ?d = "d\<lparr>connectors := connectors d @ [k]\<rparr>"
  have "reported_by ?d a b" if "reported_by d a b" for a b using that by (auto simp: reported_by_def)
  then have "intervals_ok ?d" using charging_invD(3) [OF inv] unfolding intervals_ok_def by simp
  then show ?thesis
    using inv k by (simp add: charging_inv_def connectors_ok_def sessions_ok_def samples_ok_def history_of_def)
qed

lemma charging_step_inv:
  assumes "charging_step d d'" and inv: "charging_inv d"
  shows "charging_inv d'"
  using assms(1)
proof cases
  case call
  then show ?thesis using charging_call_inv [OF inv] by blast
next
  case status
  then show ?thesis using report_status_inv [OF inv] by simp
next
  case closed
  then show ?thesis using calm_inv [OF inv manual_close_calm [OF inv]] by blast
next
  case installed
  then show ?thesis using installed_inv [OF inv] by simp
qed (use calm_inv [OF inv] note_connector_status_calm [OF inv] mark_seen_calm lock_and_mark_seen_calm expire_chargers_calm
    note_reconnection_calm flag_abnormal_sessions_calm [OF inv] in auto)

lemma reachable_charging:
  assumes "charging_step\<^sup>*\<^sup>* d0 d" and "no_charging d0"
  shows "charging_inv d"
  using assms(1)
proof (induction rule: rtranclp_induct)
  case base
  then show ?case
    using assms(2) by (simp add: no_charging_def charging_inv_def connectors_ok_def sessions_ok_def intervals_ok_def samples_ok_def)
next
  case (step d d')
  then show ?case using charging_step_inv by blast
qed

end
