(* ===== verification/Charging_Start.thy ===== *)
theory Charging_Start
  imports Charging_System
begin

text \<open>
  Starts and reservations together: a \<open>StartTransaction\<close> is a run of the reservation system, and
  the session it accepts belongs to the one who may use the connector.
\<close>

section \<open>The reservation tables during a start\<close>

definition quiet :: "db \<Rightarrow> db \<Rightarrow> bool" where
  "quiet d d' \<longleftrightarrow> reservations d' = reservations d \<and> reservation_commands d' = reservation_commands d
    \<and> ocpp_seq d' = ocpp_seq d \<and> wallets d' = wallets d \<and> ledger d' = ledger d \<and> ledger_seq d' = ledger_seq d"

lemma quiet_trans: "quiet d d1 \<Longrightarrow> quiet d1 d2 \<Longrightarrow> quiet d d2"
  by (simp add: quiet_def)

lemma quiet_bystander: "wallet_inv d \<Longrightarrow> quiet d d' \<Longrightarrow> bystander_step d d'"
  unfolding quiet_def using bystander_frame by blast

lemma quiet_wallet_inv: "wallet_inv d \<Longrightarrow> quiet d d' \<Longrightarrow> wallet_inv d'"
  using quiet_bystander by (simp add: bystander_step_def)

lemma settle_start_quiet: "quiet d (settle_start a b e f d)"
  by (simp add: quiet_def settle_start_def split: option.split)

lemma quiet_parts [simp]:
  "quiet d (log_attempt charger tag result d)" "quiet d (pending charger f reason d)"
  "quiet d (put_session c d)" "quiet d (note_power_start a b d)" "quiet d (lock_charge_point_code_for_charging p now d)"
  by (simp_all add: quiet_def log_attempt_def pending_def put_session_def note_power_start_def
      lock_charge_point_code_for_charging_def Let_def split: option.split)

lemma quiet_refl [simp]: "quiet d d"
  by (simp add: quiet_def)

lemma remote_start_quiet [simp]:
  "quiet d (reject_remote_start rt k id_card eligibility d)" "quiet d (reject_unavailable_start rt k id_card reason d)"
  "quiet d (attach_remote_start rt c id_card d)"
  by (simp_all add: reject_remote_start_def reject_unavailable_start_def attach_remote_start_def settle_start_quiet
      split: option.split)

lemma flag_replaced_quiet [simp]: "quiet d (flag_replaced previous d)"
  by (simp add: flag_replaced_def split: option.split)

lemma add_session_quiet: "add_session c d = Inr (c1, d1) \<Longrightarrow> quiet d d1"
  by (auto simp: add_session_def quiet_def Let_def split: if_splits)

lemma refuse_start_quiet: "quiet d (snd (refuse_start rt charger k f id_card reason d))"
  unfolding refuse_start_def snd_conv using quiet_trans remote_start_quiet(2) quiet_parts(2) by blast

lemma authorize_quiet: "authorize rt charger tag ctx d = Inr (answer, d') \<Longrightarrow> quiet d d'"
  by (auto simp: authorize_def Let_def split: if_splits option.splits bool.splits)

text \<open>An allowed start reads the reservations only.\<close>

lemma start_on_hold_again:
  assumes "start_on_hold rt id_card ocpp_id source now message r d = Inr ((True, found), d1)"
  shows "start_on_hold rt id_card ocpp_id source now message r e = Inr ((True, found), e)"
  using assms by (auto simp: start_on_hold_def Let_def split: if_splits)

lemma validate_start_again:
  assumes run: "validate_start rt cid id_card ocpp_id source now message d = Inr ((True, found), d1)"
    and same: "reservations e = reservations d"
  shows "validate_start rt cid id_card ocpp_id source now message e = Inr ((True, found), e)"
proof -
  define hold where "hold = connector_hold cid d"
  have hold_e: "connector_hold cid e = hold" by (simp add: hold_def connector_hold_def same)
  define previous where "previous = (case ocpp_id of None \<Rightarrow> None
      | Some i \<Rightarrow> if (case hold of None \<Rightarrow> True | Some h \<Rightarrow> r_ocpp_id h \<noteq> i)
          then find (\<lambda>r. r_ocpp_id r = i \<and> r_connector_id r = cid) (reservations d) else None)"
  define claimed where "claimed = (case previous of None \<Rightarrow> False | Some p \<Rightarrow> holder p id_card \<and> source_in_hold p source
      \<and> r_status p \<noteq> RConsumed \<and> \<not> r_no_show_exempt p)"
  define decide_on where "decide_on = (\<lambda>x. case (previous, claimed) of
          (Some p, True) \<Rightarrow>
            if r_expires_at p + 30 * SECOND_US < now \<or> hold \<noteq> None
            then res_bind (mark_late_start rt source now message (p, x)) (\<lambda>(r1, d1).
              Inr ((False, Some r1), put_reservation r1 d1))
            else if r_status p = RExpired \<and> r_cancel_reason p = Some ''expired''
            then start_on_hold rt id_card ocpp_id source now message p x
            else Inr ((ocpp_id = None, None), x)
        | _ \<Rightarrow> (case hold of
               None \<Rightarrow> Inr ((ocpp_id = None, None), x)
             | Some h \<Rightarrow> start_on_hold rt id_card ocpp_id source now message h x))"
  have d: "validate_start rt cid id_card ocpp_id source now message d = decide_on d"
    unfolding validate_start_def Let_def decide_on_def hold_def previous_def claimed_def ..
  have e: "validate_start rt cid id_card ocpp_id source now message e = decide_on e"
    unfolding validate_start_def Let_def decide_on_def hold_e same claimed_def previous_def ..
  have "decide_on e = Inr ((True, found), e)"
    using run start_on_hold_again [where d = d and e = e] unfolding d decide_on_def
    by (cases previous; cases claimed; cases hold) (auto split: if_splits)
  then show ?thesis using e by simp
qed

text \<open>When the connector is held, the reservation that is used is the hold.\<close>

lemma validate_start_hold:
  assumes run: "validate_start rt cid id_card ocpp_id source now message d = Inr ((True, found), d1)"
    and hold: "connector_hold cid d = Some h"
  shows "found = Some h"
proof -
  have "start_on_hold rt id_card ocpp_id source now message h d = Inr ((True, found), d1)"
    using run hold by (auto simp: validate_start_def Let_def split: option.splits if_splits bool.splits)
  then show ?thesis by (auto simp: start_on_hold_def Let_def split: if_splits)
qed

lemma consume_effect:
  assumes "consume now sid (r, d) = Inr (r', d')"
  shows "r_status r' = RConsumed" "r_session_id r' = Some sid" "r_id r' = r_id r" "r_driver_id r' = r_driver_id r"
    "r_connector_id r' = r_connector_id r" "noted d d'"
proof -
  let ?r1 = "r\<lparr>r_status := RConsumed, r_session_id := Some sid, r_updated_at := now, r_outcome := Some ''StartTransaction''\<rparr>"
  obtain r2 d2 ds where m: "r2 = ?r1 \<and> d2 = d \<or> decide FWaived ''consumed'' now (?r1, d) = Inr (r2, d2)"
    and r': "r' = r2" "d' = event r2 ''consumed'' now ds d2"
    using assms by (auto simp: consume_def Let_def split: if_splits)
  have d2: "r_status r2 = RConsumed \<and> r_session_id r2 = Some sid \<and> r_id r2 = r_id r \<and> r_driver_id r2 = r_driver_id r
      \<and> r_connector_id r2 = r_connector_id r \<and> noted d d2"
    using m by (auto elim!: decide_effect intro: notedI)
  then show "r_status r' = RConsumed" "r_session_id r' = Some sid" "r_id r' = r_id r" "r_driver_id r' = r_driver_id r"
    "r_connector_id r' = r_connector_id r" "noted d d'"
    using r' noted_trans [OF _ noted_event] by auto
qed

lemma decide_noted: "decide decision reason now (r, d) = Inr (r', d') \<Longrightarrow> noted d d'"
  by (erule decide_effect) (auto intro: notedI)

lemma mark_late_start_noted:
  assumes "mark_late_start rt source now message (r, d) = Inr (r', d')"
  shows "noted d d'"
proof -
  have tail: "noted x d'" if "ghi_nhat_ky a b c e ds p q (event r1 s now ds' x) = Inr d'" for a b c e ds p q r1 s ds' x
    by (rule noted_trans [OF noted_event noted_audit [OF that]])
  show ?thesis
    using assms by (auto simp: mark_late_start_def Let_def split: if_splits dest!: decide_noted tail intro: noted_trans)
qed

lemma validate_start_wallet_inv:
  assumes winv: "wallet_inv d" and run: "validate_start rt cid id_card ocpp_id source now message d = Inr ((ok, found), d')"
  shows "wallet_inv d'"
proof -
  have put: "wallet_inv (put_reservation r1 d1)" if "mark_late_start rt source now message (r, d) = Inr (r1, d1)" for r r1 d1
    using mark_late_start_noted [OF that] winv wallet_inv_cong [of "put_reservation r1 d1" d]
    by (auto simp: put_reservation_def elim!: notedE)
  from run show ?thesis
  proof (cases rule: validate_start_cases)
    case (held r)
    then show ?thesis using put winv by (auto simp: start_on_hold_def Let_def split: if_splits)
  qed (use winv put in auto)
qed

section \<open>A start is a run of the reservation system\<close>

lemma quiet_run: "wallet_inv d \<Longrightarrow> quiet d d' \<Longrightarrow> reservation_run (d, sent) (d', sent)"
  using quiet_bystander reservation_step.bystanders by blast

lemma open_transaction_run:
  assumes winv: "wallet_inv d"
    and found: "validate_start rt (cn_id k) tag ocpp_id source now message d = Inr ((True, reserved), d)"
    and ok: "open_transaction env charger k payload previous result id_card reserved d = Inr ((tid, status), d')"
  shows "reservation_run (d, sent) (d', sent)"
  using ok
proof (cases rule: open_transaction_cases)
  case (1 d1 c d2 d3)
  have "quiet d d1" unfolding 1(1) by (rule quiet_trans [OF _ flag_replaced_quiet]) (simp split: option.split)
  then have q: "quiet d d2" using quiet_trans add_session_quiet [OF 1(2)] by blast
  have winv2: "wallet_inv d2" using quiet_wallet_inv [OF winv q] .
  have after: "quiet d3 d'"
  proof -
    let ?e = "attach_remote_start (ce_rt env) c id_card
      (lock_charge_point_code_for_charging (cp_id charger) (rt_utcnow (ce_rt env)) d3)"
    have e: "quiet d3 ?e" by (rule quiet_trans [OF quiet_parts(5) remote_start_quiet(3)])
    then show ?thesis unfolding 1(6) using quiet_trans [OF e quiet_parts(4)] by simp
  qed
  have "reservation_run (d2, sent) (d3, sent) \<and> wallet_inv d3"
  proof (cases reserved)
    case None
    then show ?thesis using 1(5) winv2 by simp
  next
    case (Some r)
    then obtain r' d2' where c: "consume (rt_utcnow (ce_rt env)) tid (r, d2) = Inr (r', d2')" and d3: "d3 = put_reservation r' d2'"
      using 1(5) by (auto simp: write_back_def)
    have "validate_start rt (cn_id k) tag ocpp_id source now message d2 = Inr ((True, Some r), d2)"
      using validate_start_again [OF found [unfolded Some]] q by (simp add: quiet_def)
    then have "reservation_step (d2, sent) (d3, sent)" unfolding d3 using c by (rule reservation_step.start)
    moreover have "wallet_inv d3"
      using consume_effect(6) [OF c] winv2 wallet_inv_cong [of d3 d2] by (auto simp: d3 put_reservation_def elim!: notedE)
    ultimately show ?thesis by blast
  qed
  then show ?thesis using quiet_run [OF winv q] quiet_run [OF _ after] by (meson rtranclp_trans)
qed

lemma start_transaction_run:
  assumes winv: "wallet_inv d" and ok: "start_transaction env charger f payload d = Inr ((tid, status), d')"
  shows "reservation_run (d, sent) (d', sent)"
  using ok
proof (cases rule: start_transaction_cases)
  case (1 k result id_card failure d1 allowed reserved d2)
  have q: "quiet d d1" by (rule authorize_quiet [OF 1(2)])
  have winv1: "wallet_inv d1" by (rule quiet_wallet_inv [OF winv q])
  have to_d2: "reservation_run (d1, sent) (d2, sent)" using reservation_step.refused_start [OF 1(3)] by blast
  have winv2: "wallet_inv d2" by (rule validate_start_wallet_inv [OF winv1 1(3)])
  have "reservation_run (d2, sent) (d', sent)"
    using 1(4)
  proof (elim disjE)
    assume "tid = 0 \<and> status = ''Blocked'' \<and> (\<exists>reason. d' = snd (refuse_start (ce_rt env) charger k f id_card reason d2))"
    then show ?thesis using quiet_run [OF winv2 refuse_start_quiet] by blast
  next
    assume "\<exists>e. failure = Some e \<and> tid = 0 \<and> status = ''Blocked''
          \<and> d' = pending charger f (reason_text (el_reason e)) (reject_remote_start (ce_rt env) k id_card e d2)"
    then show ?thesis using quiet_run [OF winv2 quiet_trans [OF remote_start_quiet(1) quiet_parts(2)]] by blast
  next
    assume a: "allowed \<and> failure = None \<and> (reserved \<noteq> None \<longrightarrow> result = ''Accepted'')
          \<and> power_start_allowed (rt_zones (ce_rt env)) (rt_clock (ce_rt env)) (cp_station_id charger) (rt_utcnow (ce_rt env)) d2
          \<and> active_station (cp_station_id charger) d2
          \<and> open_transaction env charger k payload (previous_session charger payload d) result id_card reserved d2
              = Inr ((tid, status), d')"
    then have "d2 = d1" using validate_start_step(2) [OF 1(3)] by blast
    then show ?thesis using open_transaction_run [OF winv2, where d' = d'] 1(3) a by auto
  qed
  then show ?thesis using quiet_run [OF winv q] to_d2 by (meson rtranclp_trans)
qed

section \<open>Accepted sessions\<close>

lemma authorize_accepted:
  assumes "authorize rt charger tag ctx d = Inr ((''Accepted'', id_card, failure), d')"
  obtains owned u e where "id_card = Some owned" "tag_owner rt tag d = Some (owned, u)" "tag_status rt (Some (owned, u)) d = ''Accepted''"
    "\<not> reset_pending (cp_id charger) d"
    "du_so_du_de_sac (rt_zones rt) (rt_wallet_reserve_vnd rt) (rt_charging_minimum_kwh rt)
       (cc_driver_id owned) (cp_station_id charger) (rt_utcnow rt) d = Inr e" "el_allowed e"
proof -
  have open_point: "\<not> reset_pending (cp_id charger) d" using assms by (auto simp: authorize_def)
  have accepted: "admitted_status rt charger (tag_owner rt tag d) ctx d = ''Accepted''"
    using assms open_point by (auto simp: authorize_def Let_def split: if_splits option.splits bool.splits)
  then have status: "tag_status rt (tag_owner rt tag d) d = ''Accepted''"
    by (auto simp: admitted_status_def split: if_splits)
  then obtain owned u where owner: "tag_owner rt tag d = Some (owned, u)"
    by (cases "tag_owner rt tag d") (auto simp: tag_status_def)
  obtain e where "id_card = Some owned" "du_so_du_de_sac (rt_zones rt) (rt_wallet_reserve_vnd rt) (rt_charging_minimum_kwh rt)
       (cc_driver_id owned) (cp_station_id charger) (rt_utcnow rt) d = Inr e" "el_allowed e"
    using assms open_point accepted owner
    by (auto simp: authorize_def Let_def split: if_splits)
  then show ?thesis using that owner status [unfolded owner] open_point by blast
qed

lemma open_transaction_session:
  assumes ok: "open_transaction env charger k payload previous result id_card reserved d = Inr ((tid, status), d')"
  shows "\<exists>c\<in>set (sessions d'). cs_id c = tid \<and> cs_connector_id c = cn_id k \<and> cs_charge_point_id c = cp_id charger
    \<and> cs_driver_id c = map_option cc_driver_id id_card \<and> cs_ended_at c = None \<and> cs_started_at c = stp_timestamp payload
    \<and> cs_meter_start_wh c = of_int (stp_meterStart payload)"
  using ok
proof (cases rule: open_transaction_cases)
  case (1 d1 c d2 d3)
  let ?e = "attach_remote_start (ce_rt env) c id_card
      (lock_charge_point_code_for_charging (cp_id charger) (rt_utcnow (ce_rt env)) d3)"
  have c: "c \<in> set (sessions d2)" "cs_connector_id c = cn_id k" "cs_charge_point_id c = cp_id charger"
      "cs_driver_id c = map_option cc_driver_id id_card" "cs_ended_at c = None" "cs_started_at c = stp_timestamp payload"
      "cs_meter_start_wh c = of_int (stp_meterStart payload)"
    using 1(2) by (auto simp: add_session_def Let_def split: if_splits)
  have "sessions d3 = sessions d2"
    using 1(5) by (auto simp: write_back_def put_reservation_def elim!: notedE dest!: consume_effect(6) split: option.splits)
  moreover have "sessions ?e = sessions d3"
    by (simp add: attach_remote_start_def settle_start_def lock_charge_point_code_for_charging_def split: option.split)
  moreover have "sessions (note_power_start a b x) = sessions x" for a b x
    by (simp add: note_power_start_def Let_def split: option.split)
  ultimately have "sessions d' = sessions d2" unfolding 1(6) by simp
  then show ?thesis using c 1(3) by auto
qed

lemma open_transaction_reservations:
  assumes ok: "open_transaction env charger k payload previous result id_card reserved d = Inr ((tid, status), d')"
  shows "case reserved of None \<Rightarrow> reservations d' = reservations d
    | Some r \<Rightarrow> \<exists>r'. reservations d' = update_row r_id (r_id r) (\<lambda>_. r') (reservations d) \<and> r_id r' = r_id r
        \<and> r_status r' = RConsumed \<and> r_session_id r' = Some tid \<and> r_connector_id r' = r_connector_id r"
  using ok
proof (cases rule: open_transaction_cases)
  case (1 d1 c d2 d3)
  let ?e = "attach_remote_start (ce_rt env) c id_card
      (lock_charge_point_code_for_charging (cp_id charger) (rt_utcnow (ce_rt env)) d3)"
  have "quiet d d1" unfolding 1(1) by (rule quiet_trans [OF _ flag_replaced_quiet]) (simp split: option.split)
  then have q: "reservations d2 = reservations d" using quiet_trans add_session_quiet [OF 1(2)] by (auto simp: quiet_def)
  have e: "quiet d3 ?e" by (rule quiet_trans [OF quiet_parts(5) remote_start_quiet(3)])
  then have same: "reservations d' = reservations d3"
    unfolding 1(6) using quiet_trans [OF e quiet_parts(4)] by (simp add: quiet_def)
  show ?thesis
  proof (cases reserved)
    case None
    then show ?thesis using 1(5) q same by simp
  next
    case (Some r)
    then obtain r' d2' where c: "consume (rt_utcnow (ce_rt env)) tid (r, d2) = Inr (r', d2')" and d3: "d3 = put_reservation r' d2'"
      using 1(5) by (auto simp: write_back_def)
    have "reservations d3 = update_row r_id (r_id r) (\<lambda>_. r') (reservations d2)"
      using consume_effect(3,6) [OF c] by (auto simp: d3 put_reservation_def elim!: notedE)
    then show ?thesis using consume_effect [OF c] q same Some by auto
  qed
qed

lemma hold_unique:
  assumes "reservation_inv d" and "r \<in> set (reservations d)" "r_connector_id r = cid" "is_hold r"
  shows "connector_hold cid d = Some r"
proof (cases "connector_hold cid d")
  case None
  then show ?thesis using assms(2-4) by (auto simp: connector_hold_def find_None_iff)
next
  case (Some h)
  then have "h \<in> set (reservations d)" "r_connector_id h = cid" "is_hold h"
    using find_Some_iff_set [of _ "reservations d" h] by (auto simp: connector_hold_def)
  then have "h = r" using assms unfolding reservation_inv_def one_hold_def by metis
  then show ?thesis using Some by simp
qed

lemma no_hold_left:
  assumes inv: "reservation_inv d" and found: "validate_start rt cid tag ocpp_id source now message d = Inr ((True, reserved), d1)"
    and after: "case reserved of None \<Rightarrow> reservations d' = reservations d
      | Some r \<Rightarrow> \<exists>r'. reservations d' = update_row r_id (r_id r) (\<lambda>_. r') (reservations d) \<and> r_id r' = r_id r
          \<and> r_status r' = RConsumed \<and> r_session_id r' = Some tid \<and> r_connector_id r' = r_connector_id r"
    and r: "r \<in> set (reservations d')" "r_connector_id r = cid"
  shows "\<not> is_hold r"
proof
  assume hold: "is_hold r"
  have "r \<in> set (reservations d) \<and> (\<forall>x. reserved = Some x \<longrightarrow> r_id r \<noteq> r_id x)"
    using after r(1) hold by (auto simp: set_update_row is_hold_def split: option.splits)
  then have mem: "r \<in> set (reservations d)" and other: "\<And>x. reserved = Some x \<Longrightarrow> r_id r \<noteq> r_id x" by blast+
  have "reserved = Some r" by (rule validate_start_hold [OF found hold_unique [OF inv mem r(2) hold]])
  then show False using other by blast
qed

lemma held_for_driver:
  assumes "reservation_inv d" and v: "validate_start rt cid tag ocpp_id source now message d = Inr ((True, reserved), d1)"
    and r: "r \<in> set (reservations d)" "r_connector_id r = cid" "is_hold r"
  shows "holder r tag"
proof -
  have "reserved = Some r" by (rule validate_start_hold [OF v hold_unique [OF assms(1) r]])
  then show ?thesis using validate_start_step(2) [OF v] by (simp add: admitted_def)
qed

end
