(* ===== verification/Charging_Properties.thy ===== *)
theory Charging_Properties
  imports Charging_Start Reservation_Properties
begin

text \<open>What holds of the charging sessions in every reachable state, and two rides in full.\<close>

section \<open>Rides\<close>

text \<open>
  The driver of the example run comes five minutes after the booking and starts on the held
  connector.  On another day the same driver starts without a booking, the charger reports its
  register once, and the cable is pulled three minutes later.
\<close>

definition ride_time :: "int \<Rightarrow> instant" where
  "ride_time m = book_time + m * MINUTE_US"

definition ride_env :: "int \<Rightarrow> charging_env" where
  "ride_env m = \<lparr>ce_rt = example_runtime (ride_time m), ce_available_confirms_unplug = True,
     ce_abnormal_offline_seconds = 60, ce_retention_days = 30, ce_decimal_text = (\<lambda>_. ''v'')\<rparr>"

definition call_frame :: "string \<Rightarrow> frame" where
  "call_frame action = \<lparr>fr_action = action, fr_message_id = ''m1'', fr_payload = [(''idTag'', JStr ''TAG00001'')]\<rparr>"

definition ride_start :: "int option \<Rightarrow> start_payload" where
  "ride_start reserved = \<lparr>stp_idTag = ''TAG00001'', stp_connectorId = 1, stp_meterStart = 8, stp_timestamp = ride_time 5,
     stp_reservationId = reserved\<rparr>"

definition booked_desk :: db where
  "booked_desk = (case accept_desk of Inl _ \<Rightarrow> empty_db | Inr d \<Rightarrow> d)"

definition held_start :: "exn + (int \<times> string) \<times> db" where
  "held_start = start_transaction (ride_env 5) example_point (call_frame ''StartTransaction'') (ride_start (Some 1)) booked_desk"

definition street :: db where
  "street = desk\<lparr>charging_cards := [late_tag]\<rparr>"

definition street_start :: "exn + (int \<times> string) \<times> db" where
  "street_start = start_transaction (ride_env 5) example_point (call_frame ''StartTransaction'') (ride_start None) street"

definition reading :: "int \<Rightarrow> string \<Rightarrow> meter_block" where
  "reading m value = \<lparr>mb_timestamp = ride_time m, mb_sampledValue = [\<lparr>smp_value = value,
     smp_measurand = ''Energy.Active.Import.Register'', smp_unit = Some ''Wh'', smp_phase = '''', smp_location = ''Outlet'',
     smp_format = ''Raw''\<rparr>]\<rparr>"

definition street_reading :: meter_payload where
  "street_reading = \<lparr>mp_connectorId = 1, mp_transactionId = Some 1, mp_meterValue = [reading 6 ''9'']\<rparr>"

definition street_meter :: "exn + db" where
  "street_meter = charging_meter_values example_point (call_frame ''MeterValues'') street_reading (result_db street_start)"

definition street_stop_payload :: stop_payload where
  "street_stop_payload = \<lparr>spp_transactionId = 1, spp_meterStop = 12, spp_timestamp = ride_time 8,
     spp_reason = ''EVDisconnected'', spp_transactionData = []\<rparr>"

definition street_stop :: "exn + db" where
  "street_stop = res_bind street_meter
     (stop_transaction (ride_env 8) example_point (call_frame ''StopTransaction'') street_stop_payload)"

lemma held_start_rows: "map_sum id fst held_start = Inr (1, ''Accepted'')"
  by code_simp

lemma street_start_rows: "map_sum id fst street_start = Inr (1, ''Accepted'')"
  by code_simp

lemma street_meter_rows:
  "case street_meter of Inl _ \<Rightarrow> False | Inr d \<Rightarrow> map (\<lambda>m. (ms_id m, ms_session_id m, ms_value m)) (meter_samples d) = [(1, 1, 9)]
     \<and> list_all is_register (meter_samples d)
     \<and> map (\<lambda>c. (cs_id c, cs_charge_point_id c, cs_ended_at c, cs_meter_start_wh c, cs_started_at c, cs_review_reasons c))
         (sessions d) = [(1, 11, None, 8, ride_time 5, [])]"
  by code_simp

lemma street_stop_rows: "\<not> isl street_stop"
  by code_simp

lemma call_step:
  "start_transaction env charger (call_frame a) payload d = Inr ((tid, status), d') \<Longrightarrow> charging_step d d'"
  "charging_meter_values charger (call_frame a) reading_payload d = Inr d' \<Longrightarrow> charging_step d d'"
  "stop_transaction env charger (call_frame a) stop d = Inr d' \<Longrightarrow> charging_step d d'"
  by (rule charging_step.call [of env charger "call_frame a" "StartMessage payload" d], simp add: charging_call_def call_frame_def)
    (rule charging_step.call [of undefined charger "call_frame a" "MeterMessage reading_payload" d], simp add: charging_call_def call_frame_def,
     rule charging_step.call [of env charger "call_frame a" "StopMessage stop" d], simp add: charging_call_def call_frame_def)

lemma street_empty: "no_charging street"
  by (simp add: no_charging_def street_def desk_def seen_at_def example_db_def topped_up_def one_wallet_def empty_db_def)

lemma street_run:
  obtains d1 d2 where "street_meter = Inr d1" "charging_step\<^sup>*\<^sup>* street d1" "street_stop = Inr d2" "charging_step\<^sup>*\<^sup>* street d2"
proof -
  have "charging_step street (result_db street_start)"
    using result_fst [OF street_start_rows] unfolding street_start_def by (rule call_step(1))
  moreover obtain d1 where d1: "street_meter = Inr d1" using case_result [OF street_meter_rows] by blast
  then have "charging_step (result_db street_start) d1" unfolding street_meter_def by (rule call_step(2))
  moreover obtain d2 where d2: "street_stop = Inr d2" using street_stop_rows unfolding isl_def by (cases street_stop) auto
  then have "charging_step d1 d2" unfolding street_stop_def d1 res_bind_Inr by (rule call_step(3))
  ultimately show ?thesis using that d1 d2 by (meson rtranclp.rtrancl_into_rtrancl rtranclp.rtrancl_refl)
qed

section \<open>Rows\<close>

lemma distinct_filter_by:
  assumes "distinct (map f xs)" and "\<And>x y. x \<in> set xs \<Longrightarrow> y \<in> set xs \<Longrightarrow> P x \<Longrightarrow> P y \<Longrightarrow> g x = g y \<Longrightarrow> x = y"
  shows "distinct (map g (filter P xs))"
  using assms by (auto simp: distinct_map inj_on_def)



lemma register_points: "is_register m \<longleftrightarrow> sample_series m = register_series"
  by (simp add: is_register_def sample_series_def register_series_def)

text \<open>
  C4: the main energy register of a session never falls unseen.  In every reachable state, unless
  the session is marked with a meter regression, every reading of its register is at least the
  reading it started with, and a later reading is at least an earlier one, in whatever order the
  readings arrived, buffered ones after a reconnection included.
\<close>

theorem register_never_falls_unseen:
  assumes "charging_step\<^sup>*\<^sup>* d0 d" and "no_charging d0"
    and c: "c \<in> set (sessions d)" "''meter_regression'' \<notin> set (cs_review_reasons c)"
    and m: "m \<in> set (meter_samples d)" "ms_session_id m = cs_id c" "is_register m"
    and n: "n \<in> set (meter_samples d)" "ms_session_id n = cs_id c" "is_register n" "ms_timestamp m \<le> ms_timestamp n"
  shows "cs_meter_start_wh c \<le> ms_value m \<and> ms_value m \<le> ms_value n"
proof -
  have "rising (cs_meter_start_wh c) (history_of (cs_id c) d register_series)"
    using charging_invD(4) [OF reachable_charging [OF assms(1,2)]] c by (simp add: samples_ok_def regression_def)
  moreover have "(ms_timestamp m, ms_value m) \<in> set (history_of (cs_id c) d register_series)"
    "(ms_timestamp n, ms_value n) \<in> set (history_of (cs_id c) d register_series)"
    using m n by (auto simp: history_of_def register_points)
  ultimately show ?thesis using n(4) unfolding rising_def by fastforce
qed

theorem register_never_falls_unseen_witness:
  "\<exists>d c m. street_meter = Inr d \<and> sessions d = [c] \<and> meter_samples d = [m] \<and> cs_meter_start_wh c \<le> ms_value m"
proof -
  obtain d where d: "street_meter = Inr d" and run: "charging_step\<^sup>*\<^sup>* street d" by (rule street_run)
  obtain c m where cm: "sessions d = [c]" "cs_id c = 1" "cs_review_reasons c = []"
      "meter_samples d = [m]" "ms_session_id m = 1" "is_register m"
    using street_meter_rows by (auto simp: d)
  then show ?thesis using register_never_falls_unseen [OF run street_empty, of c m m] d by auto
qed

section \<open>Stops\<close>

text \<open>What samples and the release leave of a stopped row.\<close>

definition annotated :: "charging_session \<Rightarrow> charging_session \<Rightarrow> bool" where
  "annotated c c' \<longleftrightarrow> cs_id c' = cs_id c \<and> cs_charge_point_id c' = cs_charge_point_id c \<and> cs_ended_at c' = cs_ended_at c
    \<and> cs_meter_stop_wh c' = cs_meter_stop_wh c \<and> cs_stop_reason c' = cs_stop_reason c \<and> cs_energy_kwh c' = cs_energy_kwh c
    \<and> cs_started_at c' = cs_started_at c \<and> cs_meter_start_wh c' = cs_meter_start_wh c
    \<and> cs_abnormal_since c' = cs_abnormal_since c \<and> set (cs_review_reasons c) \<subseteq> set (cs_review_reasons c')"

lemma annotated_refl [simp]: "annotated c c"
  by (simp add: annotated_def)

lemma annotated_review [simp]: "annotated c c' \<Longrightarrow> annotated c (review r c')"
  by (auto simp: annotated_def review_def)

lemma annotated_flag [simp]: "annotated c c' \<Longrightarrow> annotated c (flag r c')"
  by (simp add: flag_review)

lemma store_samples_annotated:
  assumes "store_samples backfill c blocks d = Inr (c', d')"
  shows "annotated c c'"
proof -
  have take: "annotated c (fst (take_point t key v u s))" if "annotated c (fst s)" for t key v u s
    using that by (cases s) (auto simp: take_point_def Let_def split: option.splits)
  have recover: "annotated c (fst (recover_point t key v u s))" if "annotated c (fst s)" for t key v u s
    using that by (cases s) (auto simp: recover_point_def Let_def split: option.splits prod.splits)
  have one: "annotated c (fst s')" if "annotated c (fst s)" "store_sample t x s = Inr s'" for t x s s'
    using that by (auto simp: store_sample_def split: option.splits intro!: take)
  have in_block: "annotated c (fst s')" if "annotated c (fst s)" "res_fold (store_sample t) xs s = Inr s'" for t xs s s'
    by (rule res_fold_kept [where P = "\<lambda>s. annotated c (fst s)", OF _ that]) (use one in blast)
  have in_order: "annotated c (fst s')" if "annotated c (fst s)"
      "res_fold (\<lambda>b. res_fold (store_sample (mb_timestamp b)) (mb_sampledValue b)) (bs :: meter_block list) s = Inr s'" for bs s s'
    by (rule res_fold_kept [where P = "\<lambda>s. annotated c (fst s)", OF _ that]) (use in_block in blast)
  have gap: "annotated c (fst s')" if "annotated c (fst s)" "recover_sample t x s = Inr s'" for t x s s'
    using that by (auto simp: recover_sample_def split: option.splits intro!: recover)
  have one_block: "annotated c (fst s')" if "annotated c (fst s)" "res_fold (recover_sample t) xs s = Inr s'" for t xs s s'
    by (rule res_fold_kept [where P = "\<lambda>s. annotated c (fst s)", OF _ that]) (use gap in blast)
  have late: "annotated c (fst s')" if "annotated c (fst s)" "res_fold (\<lambda>b s. if in_session c (mb_timestamp b)
      then res_fold (recover_sample (mb_timestamp b)) (mb_sampledValue b) s else Inr s) (bs :: meter_block list) s = Inr s'" for bs s s'
    by (rule res_fold_kept [where P = "\<lambda>s. annotated c (fst s)", OF _ that]) (use one_block in \<open>auto split: if_splits\<close>)
  show ?thesis
    using assms in_order [of "(c, latest_of (cs_id c) d, [])" blocks] late [of "(c, history_of (cs_id c) d, [])"]
    by (fastforce simp: store_samples_def store_recovery_samples_def split: if_splits)
qed

lemma note_stop_annotated:
  assumes "note_stop env (c, d) = Inr (c', d')"
  shows "annotated c c'"
proof -
  have "annotated c (c\<lparr>cs_connector_released_at := t\<rparr>)" for t by (simp add: annotated_def)
  then have "annotated c (fst (release env stamp i src (c, x)))" for stamp i src x
    by (auto simp: release_def Let_def split: option.split)
  then show ?thesis
    using assms by (auto simp: note_stop_def Let_def split: if_splits option.splits) (metis annotated_refl fst_conv)+
qed

lemma stopped_row_shape:
  obtains c3 where
    "stopped_row payload latest c = (if of_int (spp_meterStop payload) < cs_meter_start_wh c
        \<or> spp_meterStop payload < 0 \<or> cs_meter_start_wh c < 0
      then (review ''stop_meter_below_start'' c3)\<lparr>cs_energy_kwh := None\<rparr>
      else if cs_started_at c \<le> spp_timestamp payload
      then c3\<lparr>cs_energy_kwh := Some ((of_int (spp_meterStop payload) - cs_meter_start_wh c) / 1000)\<rparr> else c3)"
    "cs_id c3 = cs_id c" "cs_charge_point_id c3 = cs_charge_point_id c" "cs_ended_at c3 = cs_ended_at c"
    "cs_meter_stop_wh c3 = cs_meter_stop_wh c" "cs_stop_reason c3 = cs_stop_reason c" "cs_energy_kwh c3 = cs_energy_kwh c"
    "cs_abnormal_since c3 = None"
    "spp_timestamp payload < cs_started_at c \<longrightarrow> ''stop_before_start'' \<in> set (cs_review_reasons c3)"
proof -
  define c1 where "c1 = (if (case latest of None \<Rightarrow> False | Some v \<Rightarrow> of_int (spp_meterStop payload) < v)
    then review ''stop_meter_below_latest'' c else c)"
  define c2 where "c2 = c1\<lparr>cs_abnormal_since := None, cs_review_reasons := filter (\<lambda>r. r \<notin> {''offline_timeout'',
    ''available_with_open_session'', ''remote_stop_not_confirmed''}) (cs_review_reasons c1)\<rparr>"
  define c3 where "c3 = (if spp_timestamp payload < cs_started_at c2 then review ''stop_before_start'' c2 else c2)"
  have c1: "cs_id c1 = cs_id c" "cs_charge_point_id c1 = cs_charge_point_id c" "cs_ended_at c1 = cs_ended_at c"
    "cs_meter_stop_wh c1 = cs_meter_stop_wh c" "cs_stop_reason c1 = cs_stop_reason c" "cs_energy_kwh c1 = cs_energy_kwh c"
    "cs_started_at c1 = cs_started_at c" "cs_meter_start_wh c1 = cs_meter_start_wh c"
    unfolding c1_def by (simp_all split: if_split)
  have c3: "cs_id c3 = cs_id c" "cs_charge_point_id c3 = cs_charge_point_id c" "cs_ended_at c3 = cs_ended_at c"
    "cs_meter_stop_wh c3 = cs_meter_stop_wh c" "cs_stop_reason c3 = cs_stop_reason c" "cs_energy_kwh c3 = cs_energy_kwh c"
    "cs_started_at c3 = cs_started_at c" "cs_meter_start_wh c3 = cs_meter_start_wh c" "cs_abnormal_since c3 = None"
    unfolding c3_def using c1 by (simp_all add: c2_def review_def)
  have shape: "stopped_row payload latest c = (if of_int (spp_meterStop payload) < cs_meter_start_wh c3
        \<or> of_int (spp_meterStop payload) < (0 :: decimal) \<or> cs_meter_start_wh c3 < 0
      then (review ''stop_meter_below_start'' c3)\<lparr>cs_energy_kwh := None\<rparr>
      else if cs_started_at c3 \<le> spp_timestamp payload
      then c3\<lparr>cs_energy_kwh := Some ((of_int (spp_meterStop payload) - cs_meter_start_wh c3) / 1000)\<rparr> else c3)"
    unfolding stopped_row_def Let_def c1_def c2_def c3_def ..
  have early: "spp_timestamp payload < cs_started_at c \<longrightarrow> ''stop_before_start'' \<in> set (cs_review_reasons c3)"
    unfolding c3_def using c1(7) by (simp add: c2_def)
  show ?thesis by (rule that [OF shape [unfolded c3(7,8) of_int_less_0_iff] c3(1-6,9) early])
qed

definition settles :: "stop_payload \<Rightarrow> charging_session \<Rightarrow> charging_session \<Rightarrow> bool" where
  "settles payload c c' \<longleftrightarrow> cs_id c' = cs_id c \<and> cs_charge_point_id c' = cs_charge_point_id c
    \<and> cs_ended_at c' = Some (spp_timestamp payload) \<and> cs_meter_stop_wh c' = Some (of_int (spp_meterStop payload))
    \<and> cs_stop_reason c' = Some (spp_reason payload) \<and> cs_abnormal_since c' = None
    \<and> (if of_int (spp_meterStop payload) < cs_meter_start_wh c \<or> spp_meterStop payload < 0 \<or> cs_meter_start_wh c < 0
       then cs_energy_kwh c' = None \<and> ''stop_meter_below_start'' \<in> set (cs_review_reasons c')
       else if cs_started_at c \<le> spp_timestamp payload
       then cs_energy_kwh c' = Some ((of_int (spp_meterStop payload) - cs_meter_start_wh c) / 1000)
       else cs_energy_kwh c' = cs_energy_kwh c \<and> ''stop_before_start'' \<in> set (cs_review_reasons c'))"

lemma stopped_row_settles:
  assumes a1: "annotated (c\<lparr>cs_meter_stop_wh := Some (of_int (spp_meterStop payload)),
      cs_ended_at := Some (spp_timestamp payload), cs_stop_reason := Some (spp_reason payload)\<rparr>) c1"
    and a3: "annotated (stopped_row payload latest c1) c3"
  shows "settles payload c c3"
proof -
  obtain x where shape: "stopped_row payload latest c1 = (if of_int (spp_meterStop payload) < cs_meter_start_wh c1
        \<or> spp_meterStop payload < 0 \<or> cs_meter_start_wh c1 < 0
      then (review ''stop_meter_below_start'' x)\<lparr>cs_energy_kwh := None\<rparr>
      else if cs_started_at c1 \<le> spp_timestamp payload
      then x\<lparr>cs_energy_kwh := Some ((of_int (spp_meterStop payload) - cs_meter_start_wh c1) / 1000)\<rparr> else x)"
    and x: "cs_id x = cs_id c1" "cs_charge_point_id x = cs_charge_point_id c1" "cs_ended_at x = cs_ended_at c1"
      "cs_meter_stop_wh x = cs_meter_stop_wh c1" "cs_stop_reason x = cs_stop_reason c1" "cs_energy_kwh x = cs_energy_kwh c1"
      "cs_abnormal_since x = None" "spp_timestamp payload < cs_started_at c1 \<longrightarrow> ''stop_before_start'' \<in> set (cs_review_reasons x)"
    by (rule stopped_row_shape [where payload = payload and latest = latest and c = c1])
  have c1: "cs_id c1 = cs_id c" "cs_charge_point_id c1 = cs_charge_point_id c" "cs_ended_at c1 = Some (spp_timestamp payload)"
    "cs_meter_stop_wh c1 = Some (of_int (spp_meterStop payload))" "cs_stop_reason c1 = Some (spp_reason payload)"
    "cs_energy_kwh c1 = cs_energy_kwh c" "cs_started_at c1 = cs_started_at c" "cs_meter_start_wh c1 = cs_meter_start_wh c"
    using a1 by (simp_all add: annotated_def)
  have "cs_abnormal_since (review r x) = None" for r using x(7) by (simp add: review_def)
  then have row: "settles payload c (stopped_row payload latest c1)"
    unfolding settles_def shape c1(7,8) using x c1 by (simp add: c1(7))
  have sub: "set (cs_review_reasons (stopped_row payload latest c1)) \<subseteq> set (cs_review_reasons c3)"
    using a3 by (simp add: annotated_def)
  show ?thesis using row a3 subsetD [OF sub] unfolding settles_def annotated_def by presburger
qed

lemma store_samples_sessions: "store_samples backfill c blocks d = Inr (c', d') \<Longrightarrow> sessions d' = sessions d"
  by (auto simp: store_samples_def store_recovery_samples_def insert_meter_rows_def split: if_splits)

lemma find_session:
  assumes "distinct (map cs_id (sessions d))" and "c \<in> set (sessions d)" and "cs_id c = i" and "cs_charge_point_id c = p"
  shows "find (\<lambda>c. cs_id c = i \<and> cs_charge_point_id c = p) (sessions d) = Some c"
proof (cases "find (\<lambda>c. cs_id c = i \<and> cs_charge_point_id c = p) (sessions d)")
  case None
  then show ?thesis using assms by (auto simp: find_None_iff)
next
  case (Some x)
  then show ?thesis using find_Some_iff_set [OF Some] unique_row [OF assms(1) _ assms(2), of x] assms(3) by simp
qed

text \<open>
  C5: a stop message settles its session once.  The row gets the end, the meter stop and the reason
  of the message; its energy is the difference of the registers in kWh, withheld and marked when a
  register is negative or the stop is below the start, and left as it was and marked when the stop
  is before the start; the session is no longer abnormal.  Any later stop message for it changes
  nothing but is recorded as pending.
\<close>

theorem stop_settles_once:
  assumes stop: "stop_transaction env charger f payload d = Inr d'" and ids: "distinct (map cs_id (sessions d))"
    and c: "c \<in> set (sessions d)" "cs_id c = spp_transactionId payload" "cs_charge_point_id c = cp_id charger" "cs_ended_at c = None"
  shows "\<exists>c'. get_session (cs_id c) d' = Some c' \<and> cs_ended_at c' = Some (spp_timestamp payload)
    \<and> cs_meter_stop_wh c' = Some (of_int (spp_meterStop payload)) \<and> cs_stop_reason c' = Some (spp_reason payload)
    \<and> cs_abnormal_since c' = None
    \<and> (if of_int (spp_meterStop payload) < cs_meter_start_wh c \<or> spp_meterStop payload < 0 \<or> cs_meter_start_wh c < 0
       then cs_energy_kwh c' = None \<and> ''stop_meter_below_start'' \<in> set (cs_review_reasons c')
       else if cs_started_at c \<le> spp_timestamp payload
       then cs_energy_kwh c' = Some ((of_int (spp_meterStop payload) - cs_meter_start_wh c) / 1000)
       else cs_energy_kwh c' = cs_energy_kwh c \<and> ''stop_before_start'' \<in> set (cs_review_reasons c'))
    \<and> (\<forall>env f again. spp_transactionId again = cs_id c \<longrightarrow>
         stop_transaction env charger f again d' = Inr (pending charger f ''already_closed_transaction'' d'))"
  using stop
proof (cases rule: stop_transaction_cases)
  case (unknown reason)
  then show ?thesis using find_session [OF ids c(1-3)] c(4) by blast
next
  case (stopped c0 c1 d1 latest d2 c3 d3)
  have c0: "c0 = c" using unique_row [OF ids stopped(1) c(1)] stopped(2) c(2) by simp
  have a1: "annotated (c\<lparr>cs_meter_stop_wh := Some (of_int (spp_meterStop payload)), cs_ended_at := Some (spp_timestamp payload),
      cs_stop_reason := Some (spp_reason payload)\<rparr>) c1"
    using store_samples_annotated [OF stopped(5)] by (simp add: c0)
  have a3: "annotated (stopped_row payload latest c1) c3" by (rule note_stop_annotated [OF stopped(8)])
  have "sessions d2 = sessions d"
    using stopped(7) store_samples_sessions [OF stopped(5)] by (auto simp: add_session_event_def)
  moreover have "sessions d' = sessions (put_session c3 d3)" using notify_event_frame [OF stopped(9)] by auto
  ultimately have rows: "sessions d' = update_row cs_id (cs_id c3) (\<lambda>_. c3) (sessions d)"
    using note_stop_tended [OF stopped(8)] by (simp add: tended_def put_session_def)
  have done_row: "settles payload c c3" by (rule stopped_row_settles [OF a1 a3])
  then have id: "cs_id c3 = cs_id c" "cs_charge_point_id c3 = cp_id charger" "cs_ended_at c3 \<noteq> None"
    using c(3) by (simp_all add: settles_def)
  have mem: "c3 \<in> set (sessions d')" using c(1) id(1) by (force simp: rows set_update_row)
  have "map cs_id (sessions d') = map cs_id (sessions d)" using id(1) by (auto simp: rows update_row_def)
  then have ids': "distinct (map cs_id (sessions d'))" using ids by simp
  have "stop_transaction env charger f again d' = Inr (pending charger f ''already_closed_transaction'' d')"
    if "spp_transactionId again = cs_id c" for env f again
    using find_session [OF ids' mem, of "cs_id c" "cp_id charger"] id that by (auto simp: stop_transaction_def)
  moreover have "get_session (cs_id c) d' = Some c3" using row_of_unique [OF ids' mem] id(1) by (simp add: get_session_def)
  ultimately show ?thesis using done_row unfolding settles_def by blast
qed

theorem stop_settles_once_witness:
  "\<exists>d c'. street_stop = Inr d \<and> get_session 1 d = Some c' \<and> cs_energy_kwh c' = Some (4 / 1000)
    \<and> stop_transaction (ride_env 9) example_point (call_frame ''StopTransaction'') street_stop_payload d
        = Inr (pending example_point (call_frame ''StopTransaction'') ''already_closed_transaction'' d)"
proof -
  obtain d1 d2 where d: "street_meter = Inr d1" "street_stop = Inr d2" and run: "charging_step\<^sup>*\<^sup>* street d1" by (rule street_run)
  have stop: "stop_transaction (ride_env 8) example_point (call_frame ''StopTransaction'') street_stop_payload d1 = Inr d2"
    using d(2) unfolding street_stop_def d(1) res_bind_Inr .
  obtain c where c: "sessions d1 = [c]" "cs_id c = 1" "cs_charge_point_id c = 11" "cs_ended_at c = None" "cs_meter_start_wh c = 8"
    "cs_started_at c = ride_time 5"
    using street_meter_rows by (auto simp: d(1))
  have p: "spp_transactionId street_stop_payload = 1" "spp_meterStop street_stop_payload = 12" "cp_id example_point = 11"
    "ride_time 5 \<le> spp_timestamp street_stop_payload"
    by (simp_all add: street_stop_payload_def example_point_def ride_time_def)
  show ?thesis
    using stop_settles_once [OF stop, of c] c p d by auto
qed

section \<open>Starts\<close>

text \<open>
  C3: a start message is a run of the reservation system.  What \<open>StartTransaction\<close> does to the
  reservations, their commands and the wallets, between the check of the hold and its consumption
  inside the one transaction, is a sequence of steps of that system, so that everything proved of
  its reachable states holds of the program with its charging sessions.
\<close>

theorem start_refines_reservations:
  assumes "wallet_inv d" and "start_transaction env charger f payload d = Inr ((tid, status), d')"
  shows "reservation_run (d, sent) (d', sent)"
  by (rule start_transaction_run [OF assms])


text \<open>The driver of the example run starts on the connector held for them.\<close>

lemma held_start_Inr: "start_transaction (ride_env 5) example_point (call_frame ''StartTransaction'') (ride_start (Some 1)) booked_desk
    = Inr ((1, ''Accepted''), result_db held_start)"
  using result_fst [OF held_start_rows] by (simp add: held_start_def)

lemma booked_reached: "reservation_run (desk, []) (booked_desk, [reserve_delivery])"
proof -
  obtain d where d: "accept_desk = Inr d" and run: "reservation_run (result_db book_desk, []) (d, [reserve_delivery])"
    using accept_run by blast
  show ?thesis using booked_run [OF run] unfolding booked_desk_def d by simp
qed

theorem start_refines_reservations_witness:
  "reservation_run (booked_desk, []) (result_db held_start, [])"
  by (rule start_refines_reservations [OF reachable_system(2) [OF booked_reached desk_start] held_start_Inr])


end
