(* ===== verification/Spec2Isabelle.thy ===== *)
theory Spec2Isabelle
  imports Csms_Prelude Money Tariff_Bands Power_Bands Segmentation Closure_Laws Power_Allocation Power_Engine
    Power_Schedule Power_Control Wallet_Reconciliation Reservation_Properties Charging_Properties
begin

text \<open>
  A verification library for the charging station management system under src/src: the charging
  sessions and reservations, the money (tariffs, invoices, wallets, payments) and the power
  (schedules, allocation, control) of a network of charging stations.  Paths below are relative to src/src/modules.

  \<^bold>\<open>The program.\<close>  A driver may reserve a connector (reservations/service.py); a worker sends the
  reservation to the charger and takes it back (worker.py), another charges the fee of who did not
  come (fees.py).  Chargers send authorizations, starts, meter values and stops
  (charging/service.py, meter_units.py); their statuses and silences become occupation intervals and
  marks on the sessions (charging/occupation.py, recovery.py, ocpp/monitoring.py).  A start asks the
  wallet (wallet/eligibility.py), the reservations and the power gate.  Closing a
  session (billing/closure.py) issues an invoice (billing/invoicing.py): the session is cut at
  local midnights and at the boundaries of the tariff bands (billing/segmentation.py), energy is
  priced (billing/money.py), idle minutes are charged (billing/idle_fee.py) by the tariff version
  in force (pricing), and the total is debited from the driver's wallet (wallet/service.py).
  Wallets are filled by gateway payments (wallet/topup_router.py, topup_webhook_service.py) and cash
  receipts (manual_topup.py), corrected by administrators (administration.py) and checked by
  reconciliation (reconciliation.py).  A station has a daily schedule of power limits
  (stations/power_bands.py, power_schedule_service.py); its watts are divided among the sessions
  (power/allocation.py, stations/power_allocation_engine.py) and starts are gated (power/service.py).

  \<^bold>\<open>Conventions.\<close>  An exception is a value: operations return \<open>exn + result\<close>, and a failed
  transaction leaves the caller's database.  The database is one record \<open>db\<close> (Csms_Models) with a
  list of rows per table in insertion order; SELECT, UPDATE and unique constraints are functions on
  these lists (\<open>row_of\<close>, \<open>update_row\<close>), identity columns are counters.  Drawn identifiers (uuid4),
  the current time, time zones (\<open>zones\<close>, \<open>wall_clock\<close>), hashes and settings are arguments.  What other
  transactions commit while an operation waits is an argument \<open>env\<close>; rows the operation has locked
  stay as they are (\<open>rely\<close>, \<open>locks_wallet\<close>, \<open>locks_order\<close>).  Rows locked by others and skipped are a
  predicate \<open>busy\<close>.  UUIDs are 128-bit words, instants and amounts integers with the 64-bit bounds
  written out, decimals rationals.  Texts are ASCII; Vietnamese messages are replaced by codes.

  \<^bold>\<open>Loops.\<close>  Structural loops are \<open>fun\<close>; the water-filling and preemption loops are \<open>function\<close> with a
  termination proof.  The paged scans take fuel, one more than the number of rows, and return
  \<open>Diverges\<close> when it runs out; the theorems show it never does, since every page moves the cursor
  past at least one row.

  \<^bold>\<open>Theories.\<close>
  \<^item> Csms_Prelude: errors as values, rows and keys, texts and identifiers, JSON; Csms_Models: the
    tables (models.py of the modules).
  \<^item> Money: rounding to whole dong and billable minutes.  Day_Bands: partitions of the day, a locale
    instantiated by Tariff_Bands (pricing/bands.py) and Power_Bands (stations/power_bands.py).
  \<^item> Segmentation: cut of a session and daily statement, over a locale of time zones.
  \<^item> Audit_Log: platform/audit/service.py.  Wallet, Wallet_Laws: postings, debits, provisioning and
    repair; the locale \<open>posting\<close> gives the replay laws.
  \<^item> Pricing: tariff versions.  Invoice_Lines, Invoicing: lines, invoices, review reasons.
    Driver_Notifications: notices and the idle-fee scan.
  \<^item> Closure, Closure_Laws: settlement, recovery scan, hint queue.
  \<^item> Wallet_Admin: eligibility, reconciliation, administration, receipts, orders and callbacks;
    Wallet_Books: the invariant of the books and the steps that keep it; Wallet_Reconciliation: what
    the scan does, and that it has nothing to do in any reachable state.
  \<^item> Power_Allocation, Power_Engine: division of watts against the max-min fair reference, by the
    locale \<open>water_filling\<close>.  Power_Schedule: schedules and the limit at an instant.  Power_Control:
    settings, enabling and disabling, start gate.
  \<^item> Reservations, Reservation_Fees, Reservation_Worker: booking, release, admission of starts, fee
    decisions, probes, claims and deliveries.  Reservation_Turns, Reservation_Laws,
    Reservation_Delivery, Reservation_Steps: what a transaction on a locked reservation keeps.
    Reservation_System: the steps of all actors in any order, with the rest of the program behind the
    locale \<open>bystander\<close>; Reservation_Properties: what holds in every reachable state.
  \<^item> Meter_Units: sampled values.  Occupation: occupation.py, recovery.py and monitoring.py.  Charging:
    service.py with the parts of charging/driver.py and ocpp/configuration_gate.py it calls.
    Charging_Rows: session rows and the invariant of the charging tables; Charging_Laws,
    Charging_Watch, Charging_Samples: intervals, monitoring and recovery, samples keep it;
    Charging_System: the handlers as transactions, their runs, and the locale \<open>calm_service\<close> for
    services beside them; Charging_Start: a start as a run of the reservation system;
    Charging_Properties: what holds in every reachable state.

  \<^bold>\<open>What is shown.\<close>  Charging: the rows of sessions, intervals and samples satisfy the constraints of
  their tables in every reachable state; the energy register never falls unseen, also when buffered
  samples fill gaps; an accepted start belongs to an entitled driver and uses up the hold on the
  connector; a stop settles energy and end once.  Reservations: one hold per connector and driver, a
  ReserveNow leaves once, an expired hold is let go, the no-show fee is charged at most once and only
  in its window; starts are steps of the same system.  Settlement: exactly one debit per settled session, equal to the invoice, also
  after retries, crashes between transactions and races; invoices add up and are priced by the
  version in force, which cannot change afterwards.  Ledger: balances are sums of rows, postings are
  at most once, gateway credits and succeeded orders correspond one to one; all operations on money
  together keep the books clean, so that reconciliation never locks a wallet by itself, and it locks
  exactly the wallets that are inconsistent.  Power: every instant has one limit, the division is
  fair and within the limit, decreases before increases never exceed it, enabled stations are
  commissioned and starts leave room.  Sessions settled before the ledger existed
  (\<open>legacy_exempt\<close>) are outside the settlement invariant.

  \<^bold>\<open>Not modelled.\<close>  The OCPP sockets, frames and their replay cache, remote commands and charger
  configuration, identity and authentication, payment adapters and signatures, accounting, reporting,
  alerts, discovery, privacy jobs, the power worker that talks to devices, the HTTP routers, scripts
  and the web client: they are input and output around this core.  Payloads arrive as the schema
  library has validated them.  Meter rows that the dispatcher would insert together for several
  reports are inserted with their report.  Read-only endpoints are left out.  Endless loops around a
  scan or a queue only repeat the modelled step.
\<close>

end
